(* ===== verification/Prelude.thy ===== *)
theory Prelude
  imports
    Complex_Main
    "HOL-Library.Word"
    "HOL-Library.Char_ord"
    "HOL-Library.List_Lexorder"
    "HOL-Library.Product_Lexorder"
    "HOL-Library.Multiset"
    "HOL-Library.State_Monad"
begin

section \<open>Shared types, containers and lemmas\<close>

text \<open>
  What every component of the development shares.
  \<^item> Machine integers: Rust's \<open>u8\<close>, \<open>u16\<close>, \<open>u32\<close> and \<open>u64\<close> are words, so \<open>+\<close> wraps as a
    release build does, and \<open>\<le>\<close> is the unsigned order.
  \<^item> Strings are lists of bytes with the bytewise lexicographic order of \<open>str\<close>'s \<open>Ord\<close>.
  \<^item> \<open>BTreeMap<K, V>\<close> is an association list with strictly increasing keys, so iteration
    order is the source's; the locale \<open>ordered_map\<close> states the laws the components use,
    and it is interpreted on the concrete operations.
  \<^item> \<open>Result<T, E>\<close> is the sum type \<open>'e + 'a\<close> with \<open>Inl\<close> for \<open>Err\<close>.
  \<^item> A floating point number (\<open>f64\<close>) is a rational: rounding, infinities and NaN are not
    modelled.
  \<^item> \<open>SystemTime\<close> and \<open>Instant\<close> are numbers of nanoseconds since a fixed origin.
\<close>

named_theorems record_defs \<open>definitions of record values that proofs unfold\<close>
named_theorems bt_simps \<open>rewriting of map lookups after map updates\<close>
named_theorems frame_simps \<open>what an operation leaves unchanged\<close>

type_synonym u8 = "8 word"
type_synonym u16 = "16 word"
type_synonym u32 = "32 word"
type_synonym u64 = "64 word"
type_synonym f64 = rat
type_synonym time = nat
type_synonym duration = nat

definition secs :: "nat \<Rightarrow> duration" where
  "secs n = n * 1000000000"

text \<open>\<open>Duration::from_secs\<close> of a \<open>u64\<close>.\<close>

definition from_secs :: "u64 \<Rightarrow> duration" where
  "from_secs n = secs (unat n)"

lemma secs_add: "secs (a + b) = secs a + secs b"
  by (simp add: secs_def)

lemma secs_mono [simp]: "secs a \<le> secs b \<longleftrightarrow> a \<le> b"
  by (simp add: secs_def)

lemma unat_power2: "n < LENGTH('a) \<Longrightarrow> unat (2 ^ n :: 'a::len word) = 2 ^ n"
proof -
  assume "n < LENGTH('a)"
  moreover have "(2 ^ n :: 'a word) = of_nat (2 ^ n)" by simp
  ultimately show ?thesis by (simp only: unat_of_nat) simp
qed

subsection \<open>Options and lists as the source uses them\<close>

text \<open>\<open>Option::unwrap_or\<close>.\<close>

definition unwrap_or :: "'a option \<Rightarrow> 'a \<Rightarrow> 'a" where
  "unwrap_or x d = (case x of None \<Rightarrow> d | Some v \<Rightarrow> v)"

lemma unwrap_or_simps [simp]:
  "unwrap_or None d = d"
  "unwrap_or (Some v) d = v"
  by (simp_all add: unwrap_or_def)

text \<open>\<open>Option::filter\<close> and \<open>is_some_and\<close>.\<close>

definition filter_opt :: "('a \<Rightarrow> bool) \<Rightarrow> 'a option \<Rightarrow> 'a option" where
  "filter_opt P x = (case x of None \<Rightarrow> None | Some v \<Rightarrow> if P v then Some v else None)"

definition is_some_and :: "'a option \<Rightarrow> ('a \<Rightarrow> bool) \<Rightarrow> bool" where
  "is_some_and x P = (case x of None \<Rightarrow> False | Some v \<Rightarrow> P v)"

lemma filter_opt_simps [simp]:
  "filter_opt P None = None"
  "filter_opt P (Some v) = (if P v then Some v else None)"
  by (simp_all add: filter_opt_def)

lemma filter_opt_eq_Some [simp]: "filter_opt P x = Some v \<longleftrightarrow> x = Some v \<and> P v"
  by (cases x) auto

lemma is_some_and_simps [simp]:
  "is_some_and None P = False"
  "is_some_and (Some v) P = P v"
  by (simp_all add: is_some_and_def)

lemma is_some_and_iff: "is_some_and x P \<longleftrightarrow> (\<exists>v. x = Some v \<and> P v)"
  by (cases x) auto

text \<open>\<open>Iterator::position\<close>.\<close>

fun position :: "('a \<Rightarrow> bool) \<Rightarrow> 'a list \<Rightarrow> nat option" where
  "position P [] = None"
| "position P (x # xs) = (if P x then Some 0 else map_option Suc (position P xs))"

lemma position_Some:
  "position P xs = Some i \<Longrightarrow> i < length xs \<and> P (xs ! i) \<and> (\<forall>j < i. \<not> P (xs ! j))"
proof (induction xs arbitrary: i)
  case Nil
  then show ?case by simp
next
  case (Cons x xs)
  then show ?case
    by (auto simp: less_Suc_eq_0_disj split: if_splits)
qed

lemma position_None: "position P xs = None \<longleftrightarrow> (\<forall>x \<in> set xs. \<not> P x)"
  by (induction xs) auto

text \<open>\<open>iter_mut().find(..)\<close> followed by an assignment: the first match is replaced.\<close>

fun update_first :: "('a \<Rightarrow> bool) \<Rightarrow> ('a \<Rightarrow> 'a) \<Rightarrow> 'a list \<Rightarrow> 'a list" where
  "update_first P f [] = []"
| "update_first P f (x # xs) = (if P x then f x # xs else x # update_first P f xs)"

lemma length_update_first [simp]: "length (update_first P f xs) = length xs"
  by (induction xs) auto

lemma set_update_first: "set (update_first P f xs) \<subseteq> set xs \<union> f ` set xs"
  by (induction xs) auto

lemma update_first_map_id:
  "(\<And>x. x \<in> set xs \<Longrightarrow> P x \<Longrightarrow> g (f x) = g x) \<Longrightarrow> map g (update_first P f xs) = map g xs"
  by (induction xs) auto

text \<open>\<open>[T]::join\<close> of strings.\<close>

fun join :: "string \<Rightarrow> string list \<Rightarrow> string" where
  "join sep [] = []"
| "join sep [x] = x"
| "join sep (x # y # ys) = x @ sep @ join sep (y # ys)"

text \<open>Decimal digits, as \<open>format!("{}", n)\<close> writes an unsigned number.\<close>

fun dec :: "nat \<Rightarrow> string" where
  "dec n = (if n < 10 then [char_of (48 + n)] else dec (n div 10) @ [char_of (48 + n mod 10)])"

declare dec.simps [simp del]

lemma dec_nonempty [simp]: "dec n \<noteq> []"
  by (subst dec.simps) simp

lemma dec_digits: "c \<in> set (dec n) \<Longrightarrow> \<exists>d :: nat. d < 10 \<and> c = char_of (48 + d)"
proof (induction n rule: dec.induct)
  case (1 n)
  show ?case
  proof (cases "n < 10")
    case True
    with 1(2) show ?thesis by (subst (asm) dec.simps) auto
  next
    case False
    with 1(2) have "c \<in> set (dec (n div 10)) \<or> c = char_of (48 + n mod 10)" by (subst (asm) dec.simps) auto
    with 1(1) [OF False] show ?thesis by (auto intro: exI [of _ "n mod 10"])
  qed
qed

text \<open>Collecting results: the first error wins, as \<open>collect::<Result<_, _>>()\<close> does.\<close>

fun collect_results :: "('e + 'a) list \<Rightarrow> 'e + 'a list" where
  "collect_results [] = Inr []"
| "collect_results (Inl e # rs) = Inl e"
| "collect_results (Inr a # rs) =
     (case collect_results rs of Inl e \<Rightarrow> Inl e | Inr as \<Rightarrow> Inr (a # as))"

lemma collect_results_Inr [simp]: "collect_results (map (Inr \<circ> f) xs) = Inr (map f xs)"
  by (induction xs) auto

lemma collect_results_eq_Inr: "collect_results rs = Inr as \<Longrightarrow> rs = map Inr as"
  by (induction rs arbitrary: as rule: collect_results.induct) (auto split: sum.splits)

subsection \<open>Ordered maps: the interface\<close>

text \<open>
  The laws of \<open>BTreeMap\<close> that the components rely on: what a lookup returns after an
  update, and that iteration visits every binding once, in key order.
\<close>

locale ordered_map =
  fixes empty :: "'m"
    and get :: "'m \<Rightarrow> 'k::linorder \<Rightarrow> 'v option"
    and insert :: "'k \<Rightarrow> 'v \<Rightarrow> 'm \<Rightarrow> 'm"
    and remove :: "'k \<Rightarrow> 'm \<Rightarrow> 'm"
    and entries :: "'m \<Rightarrow> ('k \<times> 'v) list"
    and invar :: "'m \<Rightarrow> bool"
  assumes empty_invar: "invar empty"
    and get_empty: "get empty k = None"
    and insert_invar: "invar m \<Longrightarrow> invar (insert k v m)"
    and get_insert: "invar m \<Longrightarrow> get (insert k v m) k' = (if k' = k then Some v else get m k')"
    and remove_invar: "invar m \<Longrightarrow> invar (remove k m)"
    and get_remove: "invar m \<Longrightarrow> get (remove k m) k' = (if k' = k then None else get m k')"
    and entries_sorted: "invar m \<Longrightarrow> sorted_wrt (<) (map fst (entries m))"
    and entries_get: "invar m \<Longrightarrow> (k, v) \<in> set (entries m) \<longleftrightarrow> get m k = Some v"
begin

lemma insert_all_invar:
  "invar m \<Longrightarrow> invar (foldl (\<lambda>m (k, v). insert k v m) m kvs)"
  by (induction kvs arbitrary: m) (auto simp: insert_invar split: prod.splits)

lemma get_insert_all:
  "invar m \<Longrightarrow> get (foldl (\<lambda>m (k, v). insert k v m) m kvs) k' =
     (case map_of (rev kvs) k' of Some v \<Rightarrow> Some v | None \<Rightarrow> get m k')"
proof (induction kvs arbitrary: m)
  case Nil
  then show ?case by simp
next
  case (Cons kv kvs)
  obtain k v where kv: "kv = (k, v)" by (cases kv)
  from Cons.prems have "invar (insert k v m)" by (rule insert_invar)
  with Cons.IH show ?case
    using Cons.prems by (auto simp: kv get_insert map_add_def split: option.splits)
qed

lemma entries_ext:
  assumes "invar m" and "invar m'" and "\<And>k. get m k = get m' k"
  shows "entries m = entries m'"
proof -
  have set_eq: "set (entries m) = set (entries m')"
    using assms by (auto simp: entries_get)
  have keys: "map fst (entries m) = map fst (entries m')"
    using entries_sorted [OF assms(1)] entries_sorted [OF assms(2)] set_eq
    by (intro sorted_distinct_set_unique) (simp_all add: strict_sorted_iff)
  show ?thesis
  proof (rule nth_equalityI)
    show len: "length (entries m) = length (entries m')"
      using keys by (metis length_map)
    fix i assume i: "i < length (entries m)"
    have fst_eq: "fst (entries m ! i) = fst (entries m' ! i)"
      using keys i len by (metis nth_map)
    have "get m (fst (entries m ! i)) = Some (snd (entries m ! i))"
      using i assms(1) by (simp add: entries_get [symmetric])
    moreover have "get m' (fst (entries m' ! i)) = Some (snd (entries m' ! i))"
      using i len assms(2) by (simp add: entries_get [symmetric])
    ultimately show "entries m ! i = entries m' ! i"
      using fst_eq assms(3) by (simp add: prod_eq_iff)
  qed
qed

end

subsection \<open>\<open>BTreeMap\<close>\<close>

type_synonym ('k, 'v) btree = "('k \<times> 'v) list"

abbreviation bt_get :: "('k, 'v) btree \<Rightarrow> 'k \<Rightarrow> 'v option" where
  "bt_get \<equiv> map_of"

abbreviation bt_keys :: "('k, 'v) btree \<Rightarrow> 'k list" where
  "bt_keys m \<equiv> map fst m"

abbreviation bt_values :: "('k, 'v) btree \<Rightarrow> 'v list" where
  "bt_values m \<equiv> map snd m"

fun bt_insert :: "'k::linorder \<Rightarrow> 'v \<Rightarrow> ('k, 'v) btree \<Rightarrow> ('k, 'v) btree" where
  "bt_insert k v [] = [(k, v)]"
| "bt_insert k v ((k', v') # m) =
     (if k < k' then (k, v) # (k', v') # m
      else if k = k' then (k, v) # m
      else (k', v') # bt_insert k v m)"

definition bt_remove :: "'k \<Rightarrow> ('k, 'v) btree \<Rightarrow> ('k, 'v) btree" where
  "bt_remove k m = filter (\<lambda>kv. fst kv \<noteq> k) m"

text \<open>\<open>BTreeMap::retain\<close>, \<open>values_mut\<close> and \<open>get_mut\<close> followed by an assignment.\<close>

definition bt_retain :: "('k \<Rightarrow> 'v \<Rightarrow> bool) \<Rightarrow> ('k, 'v) btree \<Rightarrow> ('k, 'v) btree" where
  "bt_retain P m = filter (\<lambda>(k, v). P k v) m"

definition bt_map :: "('v \<Rightarrow> 'v) \<Rightarrow> ('k, 'v) btree \<Rightarrow> ('k, 'v) btree" where
  "bt_map f m = map (\<lambda>(k, v). (k, f v)) m"

definition bt_modify :: "'k \<Rightarrow> ('v \<Rightarrow> 'v) \<Rightarrow> ('k, 'v) btree \<Rightarrow> ('k, 'v) btree" where
  "bt_modify k f m = map (\<lambda>(k', v). (k', if k' = k then f v else v)) m"

text \<open>Collecting an iterator of pairs: a later pair replaces an earlier one of its key.\<close>

definition bt_collect :: "('k::linorder \<times> 'v) list \<Rightarrow> ('k, 'v) btree" where
  "bt_collect kvs = foldl (\<lambda>m (k, v). bt_insert k v m) [] kvs"

abbreviation bt_ok :: "('k::linorder, 'v) btree \<Rightarrow> bool" where
  "bt_ok m \<equiv> sorted_wrt (<) (map fst m)"

lemma set_keys_bt_insert [simp]: "fst ` set (bt_insert k v m) = insert k (fst ` set m)"
  by (induction m rule: bt_insert.induct) auto

lemma bt_insert_ok: "bt_ok m \<Longrightarrow> bt_ok (bt_insert k v m)"
  by (induction k v m rule: bt_insert.induct) (auto simp flip: image_set)

lemma bt_get_insert [simp, bt_simps]: "bt_get (bt_insert k v m) k' = (if k' = k then Some v else bt_get m k')"
  by (induction k v m rule: bt_insert.induct) auto

lemma sorted_wrt_map_filter: "sorted_wrt R (map f xs) \<Longrightarrow> sorted_wrt R (map f (filter P xs))"
  by (induction xs) auto

lemma bt_remove_ok: "bt_ok m \<Longrightarrow> bt_ok (bt_remove k m)"
  by (simp add: bt_remove_def sorted_wrt_map_filter)

lemma bt_get_remove [simp, bt_simps]: "bt_get (bt_remove k m) k' = (if k' = k then None else bt_get m k')"
  by (induction m) (auto simp: bt_remove_def)

lemma bt_ok_distinct: "bt_ok m \<Longrightarrow> distinct (map fst m)"
  by (simp add: strict_sorted_iff)

interpretation bt: ordered_map "[]" bt_get bt_insert bt_remove "\<lambda>m. m" bt_ok
  by unfold_locales (auto simp: bt_insert_ok bt_remove_ok bt_ok_distinct)

lemma bt_keys_map [simp]: "bt_keys (bt_map f m) = bt_keys m"
  by (auto simp: bt_map_def)

lemma bt_keys_modify [simp]: "bt_keys (bt_modify k f m) = bt_keys m"
  by (auto simp: bt_modify_def)

lemma bt_get_map [simp, bt_simps]: "bt_get (bt_map f m) k = map_option f (bt_get m k)"
  by (induction m) (auto simp: bt_map_def)

lemma bt_get_modify [simp, bt_simps]:
  "bt_get (bt_modify k f m) k' = (if k' = k then map_option f (bt_get m k') else bt_get m k')"
  by (induction m) (auto simp: bt_modify_def)

lemma bt_retain_ok: "bt_ok m \<Longrightarrow> bt_ok (bt_retain P m)"
  by (simp add: bt_retain_def sorted_wrt_map_filter)

lemma bt_get_retain:
  "bt_ok m \<Longrightarrow> bt_get (bt_retain P m) k = filter_opt (P k) (bt_get m k)"
  by (induction m) (auto simp: bt_retain_def bt_ok_distinct map_of_eq_None_iff image_iff split: option.splits)

lemma bt_collect_ok: "bt_ok (bt_collect kvs)"
  unfolding bt_collect_def by (rule bt.insert_all_invar) simp

lemma bt_get_collect: "bt_get (bt_collect kvs) k = map_of (rev kvs) k"
  unfolding bt_collect_def by (simp add: bt.get_insert_all split: option.splits)

lemma bt_ext:
  "bt_ok m \<Longrightarrow> bt_ok m' \<Longrightarrow> (\<And>k. bt_get m k = bt_get m' k) \<Longrightarrow> m = m'"
  by (rule bt.entries_ext)

lemma bt_collect_id: "bt_ok m \<Longrightarrow> bt_collect m = m"
proof (rule bt_ext)
  assume ok: "bt_ok m"
  show "bt_ok (bt_collect m)" by (rule bt_collect_ok)
  show "bt_ok m" by (rule ok)
  show "bt_get (bt_collect m) k = bt_get m k" for k
    using bt_ok_distinct [OF ok]
    by (simp add: bt_get_collect map_of_inject_set [THEN iffD2, of "rev m" m] flip: rev_map)
qed

lemma bt_value_iff: "bt_ok m \<Longrightarrow> (k, v) \<in> set m \<longleftrightarrow> bt_get m k = Some v"
  by (rule bt.entries_get)

end
