(* ===== verification/Placement.thy ===== *)
theory Placement
  imports Prelude
begin

section \<open>Placement: choosing nodes for a volume's legs\<close>

text \<open>
  Models \<open>src/placement.rs\<close>: failure domains (\<open>domain_at\<close>), scores (\<open>scores\<close>), the plan
  (\<open>plan\<close>) and the plan with a preferred first node (\<open>plan_preferring\<close>). Scores are exact
  rationals in place of \<open>f64\<close>. The selection loop is stated for an arbitrary score
  function, so its lemmas do not depend on how the score is computed.
\<close>

record candidate =
  c_name :: string
  c_labels :: "(string, string) btree"
  c_free_bytes :: u64
  c_total_bytes :: u64
  c_io_busy :: "f64 option"

definition free_ratio :: "candidate \<Rightarrow> f64" where
  "free_ratio c =
     (if c_total_bytes c = 0 then 0
      else of_nat (unat (c_free_bytes c)) / of_nat (unat (c_total_bytes c)))"

fun domain_parts :: "(string, string) btree \<Rightarrow> string list \<Rightarrow> string \<Rightarrow> string list" where
  "domain_parts labels [] rung = []"
| "domain_parts labels (r # rs) rung =
     (case bt_get labels r of Some v \<Rightarrow> [v] | None \<Rightarrow> []) @
     (if r = rung then [] else domain_parts labels rs rung)"

definition domain_at :: "(string, string) btree \<Rightarrow> string list \<Rightarrow> string \<Rightarrow> string" where
  "domain_at labels rungs rung =
     (let parts = domain_parts labels rungs rung in
      if parts = [] then unwrap_or (bt_get labels ''node'') ''?'' else join ''/'' parts)"

definition known_loads :: "candidate list \<Rightarrow> f64 list" where
  "known_loads cands = map (\<lambda>b. max b 0) (List.map_filter c_io_busy cands)"

definition scores :: "candidate list \<Rightarrow> f64 \<Rightarrow> (string, f64) btree" where
  "scores cands io_weight =
     (let w = max 0 (min 1 io_weight);
          known = known_loads cands;
          mx = foldl max 0 known;
          mean = (if known = [] then 0 else sum_list known / of_nat (length known))
      in bt_collect (map (\<lambda>c.
           let busy = unwrap_or (map_option (\<lambda>b. max b 0) (c_io_busy c)) mean;
               cold = (if mx > 0 then 1 - busy / mx else 1)
           in (c_name c, (1 - w) * free_ratio c + w * cold)) cands))"

definition score_of :: "(string, f64) btree \<Rightarrow> candidate \<Rightarrow> f64" where
  "score_of score c = unwrap_or (bt_get score (c_name c)) 0"

definition replaces :: "(candidate \<Rightarrow> f64) \<Rightarrow> candidate \<Rightarrow> candidate option \<Rightarrow> bool" where
  "replaces s c cur = (case cur of
      None \<Rightarrow> True
    | Some b \<Rightarrow> s c > s b \<or> (s c = s b \<and> c_name c < c_name b))"

fun pick_domains ::
  "(candidate \<Rightarrow> f64) \<Rightarrow> (candidate \<Rightarrow> string) \<Rightarrow> candidate list
   \<Rightarrow> (string, candidate) btree \<Rightarrow> (string, candidate) btree" where
  "pick_domains s d [] m = m"
| "pick_domains s d (c # cs) m =
     pick_domains s d cs (if replaces s c (bt_get m (d c)) then bt_insert (d c) c m else m)"

datatype plan_error =
    NoNodeFree u64 nat
  | NotEnoughDomains u32 string "string list"

abbreviation fits :: "u64 \<Rightarrow> candidate \<Rightarrow> bool" where
  "fits sz c \<equiv> sz \<le> c_free_bytes c"

definition rank_key :: "(candidate \<Rightarrow> f64) \<Rightarrow> candidate \<Rightarrow> f64 \<times> string" where
  "rank_key s c = (- s c, c_name c)"

definition plan ::
  "candidate list \<Rightarrow> string list \<Rightarrow> string \<Rightarrow> u32 \<Rightarrow> u64 \<Rightarrow> f64 \<Rightarrow> plan_error + string list" where
  "plan candidates rungs rung replicas size_bytes io_weight =
     (let fitting = filter (fits size_bytes) candidates in
      if fitting = [] then Inl (NoNodeFree size_bytes (length candidates))
      else
        (let s = score_of (scores fitting io_weight);
             domains = pick_domains s (\<lambda>c. domain_at (c_labels c) rungs rung) fitting []
         in if (of_nat (length domains) :: u32) < replicas
            then Inl (NotEnoughDomains replicas rung (bt_keys domains))
            else Inr (map c_name (take (unat replicas) (sort_key (rank_key s) (bt_values domains))))))"

definition plan_preferring ::
  "candidate list \<Rightarrow> string list \<Rightarrow> string \<Rightarrow> u32 \<Rightarrow> u64 \<Rightarrow> f64 \<Rightarrow> string option
   \<Rightarrow> plan_error + (string list \<times> bool)" where
  "plan_preferring candidates rungs rung replicas size_bytes io_weight prefer =
     (let plain = map_sum id (\<lambda>p. (p, False)) (plan candidates rungs rung replicas size_bytes io_weight) in
      case Option.bind prefer (\<lambda>p. find (\<lambda>c. c_name c = p) candidates) of
        None \<Rightarrow> plain
      | Some p \<Rightarrow>
          if c_free_bytes p \<ge> size_bytes \<and> replicas \<ge> 1 then
            (let d = domain_at (c_labels p) rungs rung;
                 rest = filter (\<lambda>c. domain_at (c_labels c) rungs rung \<noteq> d) candidates;
                 others = (if replicas = 1 then Inr []
                           else plan rest rungs rung (replicas - 1) size_bytes io_weight)
             in case others of
                  Inr os \<Rightarrow> Inr (c_name p # os, True)
                | Inl _ \<Rightarrow> plain)
          else plain)"

subsection \<open>The selection loop\<close>

lemma replaces_iff: "replaces s c (Some b) \<longleftrightarrow> rank_key s c < rank_key s b"
  by (auto simp: replaces_def rank_key_def less_prod_def)

lemma replaces_None [simp]: "replaces s c None"
  by (simp add: replaces_def)

lemma pick_domains_ok: "bt_ok m \<Longrightarrow> bt_ok (pick_domains s d cs m)"
  by (induction cs arbitrary: m) (auto simp: bt_insert_ok)

lemma pick_domains_keys:
  "fst ` set (pick_domains s d cs m) = fst ` set m \<union> d ` set cs"
proof (induction cs arbitrary: m)
  case Nil
  then show ?case by simp
next
  case (Cons c cs)
  have "d c \<in> fst ` set m" if "\<not> replaces s c (bt_get m (d c))"
    using that by (metis domIff dom_map_of_conv_image_fst replaces_None)
  then show ?case using Cons.IH by auto
qed

text \<open>A loop invariant: the map's candidate of a domain is of that domain, and no worse
  than any candidate seen.\<close>

lemma pick_domains_from:
  "bt_get (pick_domains s d cs m) k = Some c \<Longrightarrow>
     bt_get m k = Some c \<or> (c \<in> set cs \<and> d c = k)"
proof (induction cs arbitrary: m)
  case Nil
  then show ?case by simp
next
  case (Cons x cs)
  let ?m = "if replaces s x (bt_get m (d x)) then bt_insert (d x) x m else m"
  have "bt_get ?m k = Some c \<or> (c \<in> set cs \<and> d c = k)"
    using Cons.prems by (intro Cons.IH) simp
  then show ?case by (auto split: if_splits)
qed

lemma pick_domains_mono:
  "bt_get m k = Some b \<Longrightarrow> bt_get (pick_domains s d cs m) k = Some c \<Longrightarrow>
     rank_key s c \<le> rank_key s b"
proof (induction cs arbitrary: m b)
  case Nil
  then show ?case by simp
next
  case (Cons x cs)
  let ?m = "if replaces s x (bt_get m (d x)) then bt_insert (d x) x m else m"
  obtain b' where b': "bt_get ?m k = Some b'" and le: "rank_key s b' \<le> rank_key s b"
    using Cons.prems(1) by (cases "replaces s x (bt_get m (d x))"; cases "k = d x")
      (auto simp: replaces_iff)
  have "rank_key s c \<le> rank_key s b'"
    using Cons.IH [OF b'] Cons.prems(2) by simp
  with le show ?case by simp
qed

lemma pick_domains_best:
  "bt_get (pick_domains s d cs m) k = Some c \<Longrightarrow> x \<in> set cs \<Longrightarrow> d x = k \<Longrightarrow>
     rank_key s c \<le> rank_key s x"
proof (induction cs arbitrary: m)
  case Nil
  then show ?case by simp
next
  case (Cons y cs)
  let ?m = "if replaces s y (bt_get m (d y)) then bt_insert (d y) y m else m"
  show ?case
  proof (cases "x \<in> set cs")
    case True
    with Cons show ?thesis by (auto split: if_splits)
  next
    case False
    with Cons.prems have y: "x = y" "d y = k" by auto
    have "\<exists>b. bt_get ?m k = Some b \<and> rank_key s b \<le> rank_key s y"
      using y by (cases "bt_get m (d y)") (auto simp: replaces_iff)
    then obtain b where b: "bt_get ?m k = Some b" and le: "rank_key s b \<le> rank_key s y"
      by blast
    have "rank_key s c \<le> rank_key s b"
      using pick_domains_mono [OF b] Cons.prems(1) by simp
    with le y show ?thesis by simp
  qed
qed

text \<open>With an injective ranking, the loop's result does not depend on the order.\<close>

lemma pick_domains_perm:
  assumes "set cs = set cs'" and inj: "inj_on (rank_key s) (set cs)"
  shows "pick_domains s d cs [] = pick_domains s d cs' []"
proof (rule bt_ext)
  show "bt_ok (pick_domains s d cs [])" and "bt_ok (pick_domains s d cs' [])"
    by (simp_all add: pick_domains_ok)
  fix k
  show "bt_get (pick_domains s d cs []) k = bt_get (pick_domains s d cs' []) k"
  proof (cases "k \<in> d ` set cs")
    case False
    then have "bt_get (pick_domains s d cs []) k = None" and "bt_get (pick_domains s d cs' []) k = None"
      using pick_domains_keys [of s d cs "[]"] pick_domains_keys [of s d cs' "[]"] assms(1)
      by (auto simp: map_of_eq_None_iff)
    then show ?thesis by simp
  next
    case True
    then obtain c c' where c: "bt_get (pick_domains s d cs []) k = Some c"
      and c': "bt_get (pick_domains s d cs' []) k = Some c'"
      using pick_domains_keys [of s d cs "[]"] pick_domains_keys [of s d cs' "[]"] assms(1)
      by (metis (no_types, lifting) Un_iff image_empty list.set(1) map_of_eq_None_iff not_None_eq sup_bot.left_neutral)
    have "rank_key s c \<le> rank_key s c'" and "rank_key s c' \<le> rank_key s c"
      using pick_domains_from [OF c] pick_domains_from [OF c'] assms(1)
        pick_domains_best [OF c] pick_domains_best [OF c'] by auto
    then have "c = c'"
      using pick_domains_from [OF c] pick_domains_from [OF c'] assms(1) inj
      by (auto dest: inj_onD)
    with c c' show ?thesis by simp
  qed
qed

subsection \<open>Lists that placement builds\<close>

lemma sorted_key_take_drop:
  assumes "sorted (map f xs)" and "x \<in> set (take n xs)" and "y \<in> set (drop n xs)"
  shows "f x \<le> f y"
proof -
  have "sorted (map f (take n xs) @ map f (drop n xs))"
    using assms(1) by (simp flip: map_append)
  with assms(2,3) show ?thesis by (auto simp: sorted_append)
qed

lemma distinct_map_sort_key [simp]: "distinct (map f (sort_key g xs)) = distinct (map f xs)"
  by (metis distinct_map distinct_sort set_sort)

lemma length_pick_domains:
  "length (pick_domains s d cs []) = card (d ` set cs)"
proof -
  have "length (pick_domains s d cs []) = card (fst ` set (pick_domains s d cs []))"
    using bt_ok_distinct [OF pick_domains_ok [of "[]" s d cs]]
    by (metis distinct_card length_map list.set_map list.simps(8) sorted_wrt.simps(1))
  then show ?thesis by (simp add: pick_domains_keys)
qed

lemma pick_domains_values:
  "c \<in> set (bt_values (pick_domains s d cs [])) \<Longrightarrow>
     c \<in> set cs \<and> bt_get (pick_domains s d cs []) (d c) = Some c"
proof -
  assume "c \<in> set (bt_values (pick_domains s d cs []))"
  then obtain k where "(k, c) \<in> set (pick_domains s d cs [])" by auto
  then have k: "bt_get (pick_domains s d cs []) k = Some c"
    by (simp add: bt_value_iff pick_domains_ok)
  from pick_domains_from [OF k] k show ?thesis by auto
qed

lemma pick_domains_values_domains:
  "map d (bt_values (pick_domains s d cs [])) = bt_keys (pick_domains s d cs [])"
proof -
  have "d v = k" if "(k, v) \<in> set (pick_domains s d cs [])" for k v
    using that pick_domains_from [of s d cs "[]" k v] by (auto simp: bt_value_iff pick_domains_ok)
  then show ?thesis by (auto simp: map_eq_conv)
qed

text \<open>The chosen candidates, best first; \<open>plan\<close> answers their names.\<close>

definition chosen ::
  "candidate list \<Rightarrow> string list \<Rightarrow> string \<Rightarrow> u32 \<Rightarrow> f64 \<Rightarrow> candidate list" where
  "chosen fitting rungs rung replicas io_weight =
     (let s = score_of (scores fitting io_weight)
      in take (unat replicas) (sort_key (rank_key s)
           (bt_values (pick_domains s (\<lambda>c. domain_at (c_labels c) rungs rung) fitting []))))"

lemma plan_cases:
  assumes "plan cands rungs rung r sz w = Inr picks"
  shows "picks = map c_name (chosen (filter (fits sz) cands) rungs rung r w)"
    and "filter (fits sz) cands \<noteq> []"
    and "unat r \<le> card ((\<lambda>c. domain_at (c_labels c) rungs rung) ` set (filter (fits sz) cands))"
proof -
  let ?F = "filter (fits sz) cands" and ?d = "\<lambda>c. domain_at (c_labels c) rungs rung"
  have nlt: "\<not> (of_nat (length (pick_domains (score_of (scores ?F w)) ?d ?F [])) :: u32) < r"
    and res: "picks = map c_name (chosen ?F rungs rung r w)" "?F \<noteq> []"
    using assms by (auto simp: plan_def chosen_def Let_def split: if_splits)
  from nlt have "unat r \<le> unat (of_nat (card (?d ` set ?F)) :: u32)"
    by (simp only: length_pick_domains not_less word_le_nat_alt)
  also have "\<dots> \<le> card (?d ` set ?F)"
    by (simp add: unat_of_nat)
  finally show "unat r \<le> card (?d ` set ?F)" .
  from res show "picks = map c_name (chosen ?F rungs rung r w)" and "?F \<noteq> []" by auto
qed

lemma chosen_set: "c \<in> set (chosen F rungs rung r w) \<Longrightarrow>
    c \<in> set (bt_values (pick_domains (score_of (scores F w)) (\<lambda>c. domain_at (c_labels c) rungs rung) F []))"
  by (auto simp: chosen_def Let_def simp del: set_map dest!: in_set_takeD)

lemma chosen_distinct: "distinct (map (\<lambda>c. domain_at (c_labels c) rungs rung) (chosen F rungs rung r w))"
  by (simp add: chosen_def Let_def take_map [symmetric] distinct_take pick_domains_values_domains
      bt_ok_distinct pick_domains_ok del: map_map)

lemma length_chosen:
  "length (chosen F rungs rung r w) =
     min (unat r) (card ((\<lambda>c. domain_at (c_labels c) rungs rung) ` set F))"
  by (simp add: chosen_def Let_def length_pick_domains min.commute)

subsection \<open>Scores do not depend on the order of the candidates\<close>

lemma foldl_max_mset: "mset xs = mset ys \<Longrightarrow> foldl max (a::f64) xs = foldl max a ys"
proof -
  have "foldl max a xs = Max (insert a (set xs))" for xs :: "f64 list"
  proof (induction xs arbitrary: a)
    case Nil
    then show ?case by simp
  next
    case (Cons x xs)
    have "insert (max a x) (set xs) \<union> {a, x} = insert a (insert x (set xs))"
      by (auto simp: max_def)
    moreover have "Max (insert (max a x) (set xs) \<union> {a, x}) = max (Max (insert (max a x) (set xs))) (max a x)"
      by (subst Max_Un) auto
    moreover have "max a x \<le> Max (insert (max a x) (set xs))"
      by (rule Max_ge) auto
    ultimately show ?case using Cons.IH [of "max a x"] by (simp add: max_absorb1)
  qed
  moreover assume "mset xs = mset ys"
  then have "set xs = set ys" by (rule mset_eq_setD)
  ultimately show ?thesis by metis
qed

lemma mset_known_loads: "mset cs = mset cs' \<Longrightarrow> mset (known_loads cs) = mset (known_loads cs')"
  by (simp add: known_loads_def List.map_filter_def)

lemma scores_perm:
  assumes "mset cs = mset cs'" and "distinct (map c_name cs)"
  shows "scores cs w = scores cs' w"
proof -
  have kl: "mset (known_loads cs) = mset (known_loads cs')"
    using assms(1) by (rule mset_known_loads)
  have eqs: "foldl max 0 (known_loads cs) = foldl max 0 (known_loads cs')"
    "sum_list (known_loads cs) = sum_list (known_loads cs')"
    "length (known_loads cs) = length (known_loads cs')"
    "known_loads cs = [] \<longleftrightarrow> known_loads cs' = []"
    using kl by (rule foldl_max_mset, metis sum_mset_sum_list, metis size_mset, metis mset_zero_iff)
  have coll: "bt_collect (map (\<lambda>c. (c_name c, f c)) cs) = bt_collect (map (\<lambda>c. (c_name c, f c)) cs')"
    for f :: "candidate \<Rightarrow> f64"
  proof (rule bt_ext [OF bt_collect_ok bt_collect_ok])
    let ?kv = "\<lambda>c. (c_name c, f c)"
    have d': "distinct (map c_name cs')"
      using assms by (metis mset_eq_imp_distinct_iff mset_map)
    have "map_of (rev (map ?kv cs)) = map_of (rev (map ?kv cs'))"
    proof (rule map_of_inject_set [THEN iffD2])
      show "distinct (map fst (rev (map ?kv cs)))" and "distinct (map fst (rev (map ?kv cs')))"
        using assms(2) d' by (simp_all add: o_def flip: rev_map)
      show "set (rev (map ?kv cs)) = set (rev (map ?kv cs'))"
        using mset_eq_setD [OF assms(1)] by simp
    qed
    then show "bt_get (bt_collect (map ?kv cs)) k = bt_get (bt_collect (map ?kv cs')) k" for k
      by (simp add: bt_get_collect)
  qed
  show ?thesis unfolding scores_def Let_def eqs by (rule coll)
qed

lemma plan_legs:
  assumes "plan cands rungs rung r sz w = Inr picks"
  shows "\<exists>ps. picks = map c_name ps \<and> length ps = unat r \<and>
           (\<forall>c \<in> set ps. c \<in> set cands \<and> sz \<le> c_free_bytes c) \<and>
           distinct (map (\<lambda>c. domain_at (c_labels c) rungs rung) ps)"
proof (intro exI conjI)
  let ?ps = "chosen (filter (fits sz) cands) rungs rung r w"
  show "picks = map c_name ?ps" by (rule plan_cases(1) [OF assms])
  show "length ?ps = unat r"
    using plan_cases(3) [OF assms] by (simp only: length_chosen min_absorb1)
  show "\<forall>c \<in> set ?ps. c \<in> set cands \<and> sz \<le> c_free_bytes c"
    by (auto dest!: chosen_set pick_domains_values)
  show "distinct (map (\<lambda>c. domain_at (c_labels c) rungs rung) ?ps)" by (rule chosen_distinct)
qed

subsection \<open>Properties\<close>

text \<open>Property C4. A plan that succeeds places exactly the replicas asked for, every one on a
  candidate with room for the volume, and no two in the same failure domain at the rung.\<close>

theorem plan_sound:
  assumes "plan cands rungs rung r sz w = Inr picks"
  shows "\<exists>ps. picks = map c_name ps \<and> length ps = unat r \<and>
           (\<forall>c \<in> set ps. c \<in> set cands \<and> sz \<le> c_free_bytes c) \<and>
           distinct (map (\<lambda>c. domain_at (c_labels c) rungs rung) ps)"
  using assms by (rule plan_legs)

text \<open>A plan fails exactly when nothing has room or the candidates with room span
  fewer failure domains than replicas; it never gives up where a placement exists.\<close>

theorem plan_complete:
  assumes "length cands < 2 ^ 32"
  shows "(\<exists>picks. plan cands rungs rung r sz w = Inr picks) \<longleftrightarrow>
           filter (fits sz) cands \<noteq> [] \<and>
           unat r \<le> card ((\<lambda>c. domain_at (c_labels c) rungs rung) ` set (filter (fits sz) cands))"
    (is "?ok \<longleftrightarrow> ?F \<noteq> [] \<and> unat r \<le> card ?D")
proof
  assume ?ok
  then show "?F \<noteq> [] \<and> unat r \<le> card ?D" by (elim exE) (blast dest: plan_cases(2) plan_cases(3))
next
  assume room: "?F \<noteq> [] \<and> unat r \<le> card ?D"
  have "card ?D \<le> length ?F"
    by (meson card_image_le card_length le_trans finite_set)
  also have "\<dots> < 2 ^ 32"
    using assms length_filter_le [of "fits sz" cands] by linarith
  finally have "unat (of_nat (card ?D) :: u32) = card ?D"
    by (simp add: unat_of_nat)
  then have "\<not> (of_nat (card ?D) :: u32) < r"
    using room by (simp add: not_less word_le_nat_alt)
  then show ?ok using room by (simp add: plan_def Let_def length_pick_domains)
qed

text \<open>The picks are the best: each is the highest-scored candidate of its domain
  (ties to the lower name), they come best first, and no candidate of a domain left out beats
  any of them.\<close>

theorem plan_best:
  assumes "plan cands rungs rung r sz w = Inr picks"
  defines "F \<equiv> filter (fits sz) cands"
  defines "key \<equiv> rank_key (score_of (scores F w))"
  defines "dom_of \<equiv> \<lambda>c. domain_at (c_labels c) rungs rung"
  shows "\<exists>ps. picks = map c_name ps \<and> set ps \<subseteq> set F \<and> sorted (map key ps) \<and>
           (\<forall>c \<in> set ps. \<forall>x \<in> set F. dom_of x = dom_of c \<or> dom_of x \<notin> dom_of ` set ps \<longrightarrow> key c \<le> key x)"
proof (intro exI conjI ballI impI)
  let ?s = "score_of (scores F w)"
  let ?m = "pick_domains ?s dom_of F []"
  let ?all = "sort_key key (bt_values ?m)"
  let ?ps = "chosen F rungs rung r w"
  have ps: "?ps = take (unat r) ?all"
    by (simp add: chosen_def key_def dom_of_def Let_def)
  show "picks = map c_name ?ps" using plan_cases(1) [OF assms(1)] by (simp add: F_def)
  show "set ?ps \<subseteq> set F" by (auto dest!: chosen_set pick_domains_values)
  show "sorted (map key ?ps)" by (simp add: ps take_map [symmetric] sorted_wrt_take)
  fix c x assume c: "c \<in> set ?ps" and x: "x \<in> set F"
    and "dom_of x = dom_of c \<or> dom_of x \<notin> dom_of ` set ?ps"
  have c_in: "bt_get ?m (dom_of c) = Some c"
    using pick_domains_values [OF chosen_set [OF c]] by (simp add: dom_of_def)
  have "fst ` set ?m = dom_of ` set F" by (simp add: pick_domains_keys)
  then obtain y where y: "bt_get ?m (dom_of x) = Some y"
    using x by (metis image_eqI map_of_eq_None_iff not_None_eq)
  have yx: "key y \<le> key x"
    unfolding key_def using pick_domains_best [OF y x] by simp
  have "dom_of y = dom_of x" using pick_domains_from [OF y] by auto
  moreover have "y \<in> set ?all" using y by (force dest: map_of_SomeD)
  ultimately have "dom_of x = dom_of c \<or> y \<in> set (drop (unat r) ?all)"
    using \<open>dom_of x = dom_of c \<or> dom_of x \<notin> dom_of ` set ?ps\<close>
    by (metis append_take_drop_id image_eqI ps set_append Un_iff)
  then show "key c \<le> key x"
  proof
    assume "dom_of x = dom_of c"
    with c_in y yx show ?thesis by simp
  next
    assume "y \<in> set (drop (unat r) ?all)"
    then have "key c \<le> key y"
      using c ps by (intro sorted_key_take_drop [of key ?all]) auto
    with yx show ?thesis by simp
  qed
qed

text \<open>The plan is a function of the set of candidates: the order in which the
  registry lists them changes nothing when their names are distinct.\<close>

theorem plan_order_independent:
  assumes "mset cands = mset cands'" and "distinct (map c_name cands)"
  shows "plan cands rungs rung r sz w = plan cands' rungs rung r sz w"
proof -
  let ?F = "filter (fits sz) cands" and ?F' = "filter (fits sz) cands'"
  have F: "mset ?F = mset ?F'" using assms(1) by simp
  have dist: "distinct (map c_name ?F)" using assms(2) by (rule distinct_map_filter)
  have sc: "scores ?F w = scores ?F' w" using F dist by (rule scores_perm)
  have inj: "inj_on (rank_key s) (set ?F)" for s
    using dist by (auto simp: inj_on_def rank_key_def distinct_map)
  have "pick_domains s d ?F [] = pick_domains s d ?F' []" for s d
    using mset_eq_setD [OF F] inj by (rule pick_domains_perm)
  moreover have "?F = [] \<longleftrightarrow> ?F' = []" using F by (metis mset_zero_iff)
  moreover have "length cands = length cands'" using assms(1) by (rule mset_eq_length)
  ultimately show ?thesis by (simp add: plan_def sc Let_def)
qed

text \<open>A preferred node never costs the placement: whenever the plain plan succeeds so
  does the preferring one, and when the preference is honoured the preferred node leads and the
  legs are still on fitting candidates of pairwise distinct domains.\<close>

theorem plan_preferring_sound:
  "(\<forall>picks. plan cands rungs rung r sz w = Inr picks \<longrightarrow>
      (\<exists>res. plan_preferring cands rungs rung r sz w prefer = Inr res)) \<and>
   (\<forall>picks. plan_preferring cands rungs rung r sz w prefer = Inr (picks, True) \<longrightarrow>
      (\<exists>ps. picks = map c_name ps \<and> prefer = Some (hd picks) \<and> length ps = unat r \<and>
            (\<forall>c \<in> set ps. c \<in> set cands \<and> sz \<le> c_free_bytes c) \<and>
            distinct (map (\<lambda>c. domain_at (c_labels c) rungs rung) ps)))"
proof (intro conjI allI impI)
  fix picks assume "plan cands rungs rung r sz w = Inr picks"
  then show "\<exists>res. plan_preferring cands rungs rung r sz w prefer = Inr res"
    by (auto simp: plan_preferring_def Let_def split: option.splits sum.splits)
next
  fix picks assume pref: "plan_preferring cands rungs rung r sz w prefer = Inr (picks, True)"
  let ?d = "\<lambda>c. domain_at (c_labels c) rungs rung"
  from pref obtain n p os where n: "prefer = Some n" and p: "find (\<lambda>c. c_name c = n) cands = Some p"
    and room: "sz \<le> c_free_bytes p" and r1: "1 \<le> r"
    and os: "r = 1 \<and> os = [] \<or>
        plan (filter (\<lambda>c. ?d c \<noteq> ?d p) cands) rungs rung (r - 1) sz w = Inr os"
    and picks: "picks = c_name p # os"
    by (auto simp: plan_preferring_def Let_def bind_eq_Some_conv map_sum_def
        split: option.splits sum.splits if_splits)
  have p_in: "p \<in> set cands" "c_name p = n"
    using p by (auto simp: find_Some_iff)
  obtain qs where qs: "os = map c_name qs" "length qs = unat (r - 1)"
    "\<forall>c \<in> set qs. c \<in> set cands \<and> sz \<le> c_free_bytes c \<and> ?d c \<noteq> ?d p" "distinct (map ?d qs)"
    using os plan_legs by fastforce
  have len: "Suc (unat (r - 1)) = unat r"
    using r1 by (simp add: unat_minus_one unat_gt_0 word_le_nat_alt Suc_le_eq flip: word_neq_0_conv)
  show "\<exists>ps. picks = map c_name ps \<and> prefer = Some (hd picks) \<and> length ps = unat r \<and>
            (\<forall>c \<in> set ps. c \<in> set cands \<and> sz \<le> c_free_bytes c) \<and> distinct (map ?d ps)"
    using qs p_in room len by (intro exI [of _ "p # qs"]) (auto simp: picks n)
qed

subsection \<open>Witnesses\<close>

text \<open>Two racks: \<open>a\<close> and \<open>b\<close> in \<open>r1\<close>, \<open>c\<close> in \<open>r2\<close>, as in the source's own test.\<close>

definition ex_cands :: "candidate list" where
  "ex_cands =
     [\<lparr>c_name = ''a'', c_labels = [(''node'', ''a''), (''rack'', ''r1'')],
       c_free_bytes = 90, c_total_bytes = 100, c_io_busy = Some 2\<rparr>,
      \<lparr>c_name = ''b'', c_labels = [(''node'', ''b''), (''rack'', ''r1'')],
       c_free_bytes = 20, c_total_bytes = 100, c_io_busy = None\<rparr>,
      \<lparr>c_name = ''c'', c_labels = [(''node'', ''c''), (''rack'', ''r2'')],
       c_free_bytes = 60, c_total_bytes = 100, c_io_busy = Some 1\<rparr>]"

lemma ex_plan: "plan ex_cands [''rack'', ''node''] ''rack'' 2 10 (3 / 10) = Inr [''a'', ''c'']"
  by code_simp

theorem plan_sound_witness:
  "\<exists>ps. [''a'', ''c''] = map c_name ps \<and> length ps = unat (2 :: u32) \<and>
     (\<forall>c \<in> set ps. c \<in> set ex_cands \<and> (10 :: u64) \<le> c_free_bytes c) \<and>
     distinct (map (\<lambda>c. domain_at (c_labels c) [''rack'', ''node''] ''rack'') ps)"
  using plan_sound [OF ex_plan] .

theorem plan_complete_witness:
  "\<not> (\<exists>picks. plan ex_cands [''rack'', ''node''] ''rack'' 3 10 (3 / 10) = Inr picks)"
proof -
  have "length ex_cands < 2 ^ 32" by (simp add: ex_cands_def)
  moreover have "card ((\<lambda>c. domain_at (c_labels c) [''rack'', ''node''] ''rack'') `
      set (filter (fits 10) ex_cands)) = 2" by code_simp
  ultimately show ?thesis by (subst plan_complete) auto
qed

theorem plan_best_witness:
  "\<exists>ps :: candidate list. [''a'', ''c''] = map c_name ps \<and>
     sorted (map (rank_key (score_of (scores (filter (fits 10) ex_cands) (3 / 10)))) ps)"
  using plan_best [OF ex_plan] by (elim exE conjE) (intro exI conjI)

theorem plan_order_independent_witness:
  "plan (rev ex_cands) [''rack'', ''node''] ''rack'' 2 10 (3 / 10) = Inr [''a'', ''c'']"
proof -
  have "mset ex_cands = mset (rev ex_cands)" by simp
  moreover have "distinct (map c_name ex_cands)" by code_simp
  ultimately show ?thesis using plan_order_independent [of ex_cands "rev ex_cands"] ex_plan by metis
qed

theorem plan_preferring_sound_witness:
  "\<exists>ps :: candidate list. [''b'', ''c''] = map c_name ps \<and>
     distinct (map (\<lambda>c. domain_at (c_labels c) [''rack'', ''node''] ''rack'') ps)"
proof -
  have "plan_preferring ex_cands [''rack'', ''node''] ''rack'' 2 10 (3 / 10) (Some ''b'') =
    Inr ([''b'', ''c''], True)" by code_simp
  from plan_preferring_sound [THEN conjunct2, rule_format, OF this] show ?thesis
    by (elim exE conjE) (intro exI conjI)
qed

end
