(* ===== verification/Refusal.thy ===== *)
theory Refusal
  imports Prelude
begin

section \<open>Engines that refuse the token\<close>

text \<open>
  Models \<open>src/refusal.rs\<close>: per engine URL a back-off that doubles from twice the poll interval
  to at most \<open>MAX_BACKOFF\<close>, and a report of the first refusal and then at most one every
  \<open>REPORT_EVERY\<close>. The standard library's hasher is the parameter \<open>h\<close>: \<open>fingerprint\<close> hashes the
  token (the empty string when there is none).
\<close>

definition MAX_BACKOFF :: duration where
  "MAX_BACKOFF = secs 300"

definition REPORT_EVERY :: duration where
  "REPORT_EVERY = secs 300"

record refusal =
  rf_token :: u64
  rf_count :: u32
  rf_retry_at :: time
  rf_reported_at :: time
  rf_unreported :: u32

type_synonym refusals = "(string, refusal) btree"

datatype report = First | Still u32 | Quiet

definition fingerprint :: "(string \<Rightarrow> u64) \<Rightarrow> string option \<Rightarrow> u64" where
  "fingerprint h token = h (unwrap_or token [])"

text \<open>\<open>trim_end_matches('/')\<close>.\<close>

definition refusal_key :: "string \<Rightarrow> string" where
  "refusal_key url = rev (dropWhile (\<lambda>c. c = CHR ''/'') (rev url))"

definition may_call :: "(string \<Rightarrow> u64) \<Rightarrow> refusals \<Rightarrow> string \<Rightarrow> string option \<Rightarrow> time \<Rightarrow> bool" where
  "may_call h engines url token now =
     (case bt_get engines (refusal_key url) of
        None \<Rightarrow> True
      | Some r \<Rightarrow> rf_token r \<noteq> fingerprint h token \<or> rf_retry_at r \<le> now)"

definition retry_in :: "refusals \<Rightarrow> string \<Rightarrow> time \<Rightarrow> duration option" where
  "retry_in engines url now = map_option (\<lambda>r. rf_retry_at r - now) (bt_get engines (refusal_key url))"

definition backoff :: "duration \<Rightarrow> u32 \<Rightarrow> duration" where
  "backoff interval n =
     min (max interval (secs 1) * unat (push_bit (unat (min n 16)) (1 :: u32))) MAX_BACKOFF"

definition refused ::
  "(string \<Rightarrow> u64) \<Rightarrow> refusals \<Rightarrow> string \<Rightarrow> string option \<Rightarrow> duration \<Rightarrow> time \<Rightarrow> report \<times> refusals" where
  "refused h engines url token interval now =
     (let fp = fingerprint h token;
          k = refusal_key url;
          r0 = unwrap_or (bt_get engines k)
                 \<lparr>rf_token = fp, rf_count = 0, rf_retry_at = now, rf_reported_at = now, rf_unreported = 0\<rparr>;
          first = (rf_count r0 = 0 \<or> rf_token r0 \<noteq> fp);
          r1 = (if first then r0\<lparr>rf_token := fp, rf_count := 0, rf_unreported := 0\<rparr> else r0);
          r2 = r1\<lparr>rf_count := rf_count r1 + 1\<rparr>;
          r3 = r2\<lparr>rf_retry_at := now + backoff interval (rf_count r2)\<rparr>
      in if first then (First, bt_insert k (r3\<lparr>rf_reported_at := now\<rparr>) engines)
         else
           (let r4 = r3\<lparr>rf_unreported := rf_unreported r3 + 1\<rparr> in
            if now - rf_reported_at r4 \<ge> REPORT_EVERY
            then (Still (rf_unreported r4),
                  bt_insert k (r4\<lparr>rf_reported_at := now, rf_unreported := 0\<rparr>) engines)
            else (Quiet, bt_insert k r4 engines)))"

definition accepted :: "refusals \<Rightarrow> string \<Rightarrow> bool \<times> refusals" where
  "accepted engines url =
     (bt_get engines (refusal_key url) \<noteq> None, bt_remove (refusal_key url) engines)"

subsection \<open>Back-off\<close>

lemma backoff_power: "backoff interval n = min (max interval (secs 1) * 2 ^ min (unat n) 16) MAX_BACKOFF"
proof -
  have le: "min n 16 \<le> 16" by simp
  then have k: "unat (min n 16) \<le> 16" by (simp add: word_le_nat_alt)
  have "unat (min n 16) = min (unat n) 16"
    by (simp add: min_def word_le_nat_alt)
  moreover have "unat (push_bit (unat (min n 16)) (1 :: u32)) = 2 ^ unat (min n 16)"
    using k by (simp add: push_bit_eq_mult unat_power2)
  ultimately show ?thesis by (simp add: backoff_def)
qed

lemma backoff_pos: "0 < backoff interval n"
  by (simp add: backoff_power MAX_BACKOFF_def secs_def min_def max_def)

lemma backoff_le: "backoff interval n \<le> MAX_BACKOFF"
  by (simp add: backoff_power)

lemma backoff_mono: "unat c \<le> unat c' \<Longrightarrow> backoff i c \<le> backoff i c'"
proof -
  assume "unat c \<le> unat c'"
  then have "(2::nat) ^ min (unat c) 16 \<le> 2 ^ min (unat c') 16"
    by (intro power_increasing) auto
  then have "max i (secs 1) * 2 ^ min (unat c) 16 \<le> max i (secs 1) * 2 ^ min (unat c') 16"
    by (rule mult_left_mono) simp
  then show ?thesis unfolding backoff_power by linarith
qed

text \<open>What one refusal leaves in the table.\<close>

lemma refused_entry:
  assumes "refused h engines url token interval now = (rep, engines')"
  shows "\<exists>r. bt_get engines' (refusal_key url) = Some r \<and> rf_token r = fingerprint h token \<and>
    rf_retry_at r = now + backoff interval (rf_count r) \<and>
    (rep = First \<longrightarrow> rf_count r = 1 \<and> rf_reported_at r = now) \<and>
    (rep \<noteq> First \<longrightarrow> (\<exists>r0. bt_get engines (refusal_key url) = Some r0 \<and>
       rf_token r0 = fingerprint h token \<and> rf_count r = rf_count r0 + 1 \<and>
       (rep = Quiet \<longrightarrow> now - rf_reported_at r0 < REPORT_EVERY \<and> rf_reported_at r = rf_reported_at r0) \<and>
       (rep \<noteq> Quiet \<longrightarrow> REPORT_EVERY \<le> now - rf_reported_at r0 \<and> rf_reported_at r = now)))"
  using assms
  by (cases "bt_get engines (refusal_key url)") (auto simp: refused_def Let_def split: if_splits)

text \<open>After a refusal the engine is not called again with the same token before the
  back-off ends, and may be called from then on; the wait is between twice the interval (capped)
  and \<open>MAX_BACKOFF\<close>; a token with another fingerprint may be tried at once.\<close>

theorem refused_backs_off:
  assumes "refused h engines url token interval now = (rep, engines')"
  shows "\<exists>wait. 0 < wait \<and> wait \<le> MAX_BACKOFF \<and>
    (rf_count (the (bt_get engines' (refusal_key url))) \<noteq> 0 \<longrightarrow>
       min (2 * max interval (secs 1)) MAX_BACKOFF \<le> wait) \<and>
    retry_in engines' url now = Some wait \<and>
    (\<forall>t. may_call h engines' url token t \<longleftrightarrow> now + wait \<le> t) \<and>
    (\<forall>token' t. fingerprint h token' \<noteq> fingerprint h token \<longrightarrow> may_call h engines' url token' t)"
proof -
  obtain r where r: "bt_get engines' (refusal_key url) = Some r" "rf_token r = fingerprint h token"
    "rf_retry_at r = now + backoff interval (rf_count r)"
    using refused_entry [OF assms] by blast
  have "min (2 * max interval (secs 1)) MAX_BACKOFF \<le> backoff interval (rf_count r)"
    if "rf_count r \<noteq> 0"
  proof -
    have "backoff interval 1 \<le> backoff interval (rf_count r)"
      using that by (intro backoff_mono) (simp add: unat_gt_0 Suc_le_eq)
    then show ?thesis by (simp add: backoff_power mult.commute)
  qed
  with r show ?thesis
    by (intro exI [of _ "backoff interval (rf_count r)"])
      (auto simp: backoff_pos backoff_le retry_in_def may_call_def)
qed

theorem refused_backs_off_witness:
  "\<exists>wait. wait \<le> MAX_BACKOFF \<and>
    (\<forall>t. may_call (\<lambda>_. 7) (snd (refused (\<lambda>_. 7) [] ''http://e/'' None (secs 15) 5)) ''http://e'' None t
       \<longleftrightarrow> 5 + wait \<le> t)"
proof -
  have key: "refusal_key ''http://e/'' = refusal_key ''http://e''" by code_simp
  have "refused (\<lambda>_. 7) [] ''http://e/'' None (secs 15) 5 =
      (fst (refused (\<lambda>_. 7) [] ''http://e/'' None (secs 15) 5),
       snd (refused (\<lambda>_. 7) [] ''http://e/'' None (secs 15) 5))" by simp
  from refused_backs_off [OF this] show ?thesis
    unfolding may_call_def key by blast
qed

subsection \<open>Reports\<close>

text \<open>Refusals of one engine with one token at the given times, and when something was said.\<close>

fun report_times ::
  "(string \<Rightarrow> u64) \<Rightarrow> string \<Rightarrow> string option \<Rightarrow> duration \<Rightarrow> refusals \<Rightarrow> time list \<Rightarrow> time list" where
  "report_times h url token interval engines [] = []"
| "report_times h url token interval engines (t # ts) =
     (case refused h engines url token interval t of
        (rep, engines') \<Rightarrow> (if rep = Quiet then [] else [t]) @
          report_times h url token interval engines' ts)"

lemma report_times_after:
  assumes "bt_get engines (refusal_key url) = Some r0" and "rf_token r0 = fingerprint h token"
    and "unat (rf_count r0) + length ts < 2 ^ 32" and "rf_count r0 \<noteq> 0"
    and "sorted ts" and "\<forall>t \<in> set ts. rf_reported_at r0 \<le> t"
  shows "sorted_wrt (\<lambda>a b. a + REPORT_EVERY \<le> b)
           (rf_reported_at r0 # report_times h url token interval engines ts)"
  using assms
proof (induction ts arbitrary: engines r0)
  case Nil
  then show ?case by simp
next
  case (Cons t ts)
  obtain rep engines' where st: "refused h engines url token interval t = (rep, engines')"
    by (cases "refused h engines url token interval t")
  have nf: "rep \<noteq> First"
    using st Cons.prems(1,2,4) by (auto simp: refused_def Let_def split: if_splits)
  obtain r where r: "bt_get engines' (refusal_key url) = Some r" "rf_token r = fingerprint h token"
    "rf_count r = rf_count r0 + 1"
    "rep = Quiet \<longrightarrow> rf_reported_at r = rf_reported_at r0"
    "rep \<noteq> Quiet \<longrightarrow> REPORT_EVERY \<le> t - rf_reported_at r0 \<and> rf_reported_at r = t"
    using refused_entry [OF st] nf Cons.prems(1) by auto
  have cnt: "unat (rf_count r) = Suc (unat (rf_count r0))"
    using Cons.prems(3) by (simp add: r(3) unat_word_ariths)
  have IH: "sorted_wrt (\<lambda>a b. a + REPORT_EVERY \<le> b)
      (rf_reported_at r # report_times h url token interval engines' ts)"
  proof (rule Cons.IH [OF r(1,2)])
    show "unat (rf_count r) + length ts < 2 ^ 32" using Cons.prems(3) cnt by simp
    show "rf_count r \<noteq> 0" using cnt by auto
    show "sorted ts" using Cons.prems(5) by simp
    show "\<forall>u \<in> set ts. rf_reported_at r \<le> u" using Cons.prems(5,6) r(4,5) by (cases "rep = Quiet") auto
  qed
  show ?case
  proof (cases "rep = Quiet")
    case True
    then show ?thesis using IH r(4) st by simp
  next
    case False
    then have ge: "rf_reported_at r0 + REPORT_EVERY \<le> t" and rt: "rf_reported_at r = t"
      using r(5) Cons.prems(6) by auto
    then have "\<forall>b \<in> set (report_times h url token interval engines' ts). rf_reported_at r0 + REPORT_EVERY \<le> b"
      using IH by auto
    then show ?thesis using IH ge rt False st by simp
  qed
qed

text \<open>However often an engine refuses one token, it is reported on the first refusal
  and then never twice within \<open>REPORT_EVERY\<close>.\<close>

theorem reports_are_spaced:
  assumes "sorted (t # ts)" and "Suc (length ts) < 2 ^ 32"
  shows "\<exists>us. report_times h url token interval [] (t # ts) = t # us \<and>
           sorted_wrt (\<lambda>a b. a + REPORT_EVERY \<le> b) (t # us)"
proof -
  let ?st = "refused h [] url token interval t"
  have first: "fst ?st = First"
    by (simp add: refused_def Let_def)
  obtain r where r: "bt_get (snd ?st) (refusal_key url) = Some r" "rf_token r = fingerprint h token"
    "rf_count r = 1" "rf_reported_at r = t"
    using refused_entry [of h "[]" url token interval t First "snd ?st"] first
    by (metis prod.collapse)
  have "sorted_wrt (\<lambda>a b. a + REPORT_EVERY \<le> b)
      (rf_reported_at r # report_times h url token interval (snd ?st) ts)"
    using assms by (intro report_times_after [OF r(1,2)]) (auto simp: r(3,4))
  then show ?thesis
    using first by (auto simp: r(4) split: prod.splits)
qed

theorem reports_are_spaced_witness:
  "\<exists>us. report_times (\<lambda>_. 0) ''u'' None (secs 15) [] [0, secs 30, secs 301] = 0 # us \<and>
     sorted_wrt (\<lambda>a b. a + REPORT_EVERY \<le> b) (0 # us)"
  by (rule reports_are_spaced) (simp_all add: secs_def)

end
