(* ===== verification/Base64.thy ===== *)
theory Base64
  imports Prelude
begin

unbundle bit_operations_syntax

section \<open>Keys and values on the wire of the store\<close>

text \<open>
  Models the base64 codec and \<open>prefix_end\<close> of \<open>src/store.rs\<close>. Bytes are 8-bit words, the
  accumulators are the source's \<open>u32\<close>, and the encoded text is a string of ASCII bytes.
\<close>

definition B64 :: string where
  "B64 = ''ABCDEFGHIJKLMNOPQRSTUVWXYZabcdefghijklmnopqrstuvwxyz0123456789+/''"

text \<open>A chunk of one to three bytes as the high bytes of a 24-bit number.\<close>

fun pack :: "nat \<Rightarrow> u8 list \<Rightarrow> u32" where
  "pack i [] = 0"
| "pack i (b # bs) = push_bit (16 - 8 * i) (ucast b) OR pack (Suc i) bs"

definition sextet :: "u32 \<Rightarrow> nat \<Rightarrow> u32" where
  "sextet n i = drop_bit (18 - 6 * i) n AND 63"

definition encode_chunk :: "u8 list \<Rightarrow> string" where
  "encode_chunk chunk =
     (let n = pack 0 chunk in
      map (\<lambda>i. if i \<le> length chunk then B64 ! unat (sextet n i) else CHR ''='') [0..<4])"

text \<open>\<open>data.chunks(3)\<close>.\<close>

fun b64 :: "u8 list \<Rightarrow> string" where
  "b64 (a # b # c # rest) = encode_chunk [a, b, c] @ b64 rest"
| "b64 [] = []"
| "b64 [a] = encode_chunk [a]"
| "b64 [a, b] = encode_chunk [a, b]"

definition code_of :: "char \<Rightarrow> nat" where
  "code_of c = of_char c"

definition decode_char :: "char \<Rightarrow> nat option" where
  "decode_char c =
     (let n = code_of c in
      if 65 \<le> n \<and> n \<le> 90 then Some (n - 65)
      else if 97 \<le> n \<and> n \<le> 122 then Some (n - 97 + 26)
      else if 48 \<le> n \<and> n \<le> 57 then Some (n - 48 + 52)
      else if c = CHR ''+'' \<or> c = CHR ''-'' then Some 62
      else if c = CHR ''/'' \<or> c = CHR ''_'' then Some 63
      else None)"

definition skipped :: "char \<Rightarrow> bool" where
  "skipped c = (code_of c \<in> {9, 10, 12, 13, 32} \<or> c = CHR ''='')"

fun unb64_loop :: "u32 \<Rightarrow> nat \<Rightarrow> char list \<Rightarrow> u8 list option" where
  "unb64_loop acc bits [] = Some []"
| "unb64_loop acc bits (c # cs) =
     (case decode_char c of
        None \<Rightarrow> None
      | Some v \<Rightarrow>
          (let acc1 = push_bit 6 acc OR of_nat v; bits1 = bits + 6 in
           if bits1 \<ge> 8
           then map_option (\<lambda>out. ucast (drop_bit (bits1 - 8) acc1) # out)
                  (unb64_loop (acc1 AND (push_bit (bits1 - 8) 1 - 1)) (bits1 - 8) cs)
           else unb64_loop acc1 bits1 cs))"

definition unb64 :: "string \<Rightarrow> u8 list option" where
  "unb64 s = unb64_loop 0 0 (filter (\<lambda>c. \<not> skipped c) s)"

text \<open>The end of the range of keys with a prefix, on the bytes of the prefix.\<close>

fun prefix_end_rev :: "u8 list \<Rightarrow> u8 list option" where
  "prefix_end_rev [] = None"
| "prefix_end_rev (l # rest) = (if l < 0xff then Some (rev ((l + 1) # rest)) else prefix_end_rev rest)"

definition prefix_end :: "u8 list \<Rightarrow> u8 list" where
  "prefix_end p = (case prefix_end_rev (rev p) of Some e \<Rightarrow> e | None \<Rightarrow> [0])"

subsection \<open>The codec round trip\<close>

lemma length_B64: "length B64 = 64"
  by (simp add: B64_def)

lemma alphabet_decodes: "list_all2 (\<lambda>i c. decode_char c = Some i \<and> \<not> skipped c) [0..<64] B64"
  by (simp add: B64_def upt_rec decode_char_def skipped_def code_of_def Let_def)

lemma decode_alphabet:
  assumes "v < 64"
  shows "decode_char (B64 ! unat (v :: u32)) = Some (unat v)" and "\<not> skipped (B64 ! unat v)"
proof -
  have "unat v < 64" using assms by (simp add: word_less_nat_alt)
  then show "decode_char (B64 ! unat v) = Some (unat v)" and "\<not> skipped (B64 ! unat v)"
    using list_all2_nthD2 [OF alphabet_decodes, of "unat v"] by (simp_all add: length_B64)
qed

lemma sextet_less: "sextet n i < 64"
proof -
  have "sextet n i \<le> 63" by (simp add: sextet_def word_and_le1)
  then show ?thesis by (simp add: word_le_nat_alt word_less_nat_alt)
qed

lemmas sextet_decodes [simp] = decode_alphabet [OF sextet_less]

lemma skip_pad [simp]: "skipped (CHR ''='')"
  by (simp add: skipped_def)

text \<open>Four characters decode to the three bytes they were made from.\<close>

lemma less_8_cases: "(i::nat) < 8 \<longleftrightarrow> i = 0 \<or> i = 1 \<or> i = 2 \<or> i = 3 \<or> i = 4 \<or> i = 5 \<or> i = 6 \<or> i = 7"
  by auto

lemma bits_lt8:
  "bit x 0 = bit y 0 \<Longrightarrow> bit x 1 = bit y 1 \<Longrightarrow> bit x 2 = bit y 2 \<Longrightarrow> bit x 3 = bit y 3 \<Longrightarrow>
   bit x 4 = bit y 4 \<Longrightarrow> bit x 5 = bit y 5 \<Longrightarrow> bit x 6 = bit y 6 \<Longrightarrow> bit x 7 = bit y 7 \<Longrightarrow> (x :: u8) = y"
  by (rule bit_word_eqI) (auto simp: less_8_cases)

lemma bit_u8_high [simp]: "8 \<le> (numeral n :: nat) \<Longrightarrow> \<not> bit (w :: u8) (numeral n)"
  by (auto dest: bit_imp_le_length)

lemma sextets_bytes:
  defines "n a b c \<equiv> pack 0 [a, b, c]"
  shows "ucast (drop_bit 4 (push_bit 6 (sextet (n a b c) 0) OR sextet (n a b c) 1)) = a"
    and "ucast (drop_bit 2 (push_bit 6 ((push_bit 6 (sextet (n a b c) 0) OR sextet (n a b c) 1) AND 15) OR
           sextet (n a b c) 2)) = b"
    and "ucast (push_bit 6 ((push_bit 6 ((push_bit 6 (sextet (n a b c) 0) OR sextet (n a b c) 1) AND 15) OR
           sextet (n a b c) 2) AND 3) OR sextet (n a b c) 3) = c"
  unfolding n_def sextet_def pack.simps
  by (rule bits_lt8; simp add: bit_simps)+

lemma upt_4: "[0..<4] = [0, 1, 2, 3]"
  by (simp add: upt_rec)

lemmas chunk_simps = encode_chunk_def Let_def upt_4 option.map_comp o_def

lemma decode_chunk:
  "unb64_loop 0 0 (encode_chunk [a, b, c] @ cs) = map_option (\<lambda>out. a # b # c # out) (unb64_loop 0 0 cs)"
  by (simp add: chunk_simps sextets_bytes [simplified])

lemma unb64_chunk [simp]: "filter (\<lambda>c. \<not> skipped c) (encode_chunk [a, b, c]) = encode_chunk [a, b, c]"
  by (simp add: chunk_simps)

lemma tail_bytes:
  "ucast (drop_bit 4 (push_bit 6 (sextet (pack 0 [a]) 0) OR sextet (pack 0 [a]) 1)) = (a :: u8)"
  "ucast (drop_bit 4 (push_bit 6 (sextet (pack 0 [a, b]) 0) OR sextet (pack 0 [a, b]) 1)) = (a :: u8)"
  "ucast (drop_bit 2 (push_bit 6 ((push_bit 6 (sextet (pack 0 [a, b]) 0) OR sextet (pack 0 [a, b]) 1) AND 15) OR
      sextet (pack 0 [a, b]) 2)) = (b :: u8)"
  unfolding sextet_def pack.simps
  by (rule bits_lt8; simp add: bit_simps)+

lemma unb64_b64 [simp]: "unb64 (b64 data) = Some data"
proof (induction data rule: b64.induct)
  case (1 a b c rest)
  then show ?case by (simp add: unb64_def decode_chunk)
next
  case 2
  then show ?case by (simp add: unb64_def)
next
  case (3 a)
  then show ?case by (simp add: unb64_def chunk_simps tail_bytes [simplified])
next
  case (4 a b)
  then show ?case by (simp add: unb64_def chunk_simps tail_bytes [simplified])
qed

text \<open>
  What the users of an encoding rely on: a decoder gives back what was encoded, for the values of the
  encoding's domain. It is interpreted here on base64 and in \<open>Store\<close> on the decimal numbers of the gateway.
\<close>

locale codec =
  fixes enc :: "'a \<Rightarrow> 'b" and dec' :: "'b \<Rightarrow> 'a option" and valid :: "'a \<Rightarrow> bool"
  assumes decode: "valid x \<Longrightarrow> dec' (enc x) = Some x"
begin

lemma enc_inject: "valid x \<Longrightarrow> valid y \<Longrightarrow> enc x = enc y \<longleftrightarrow> x = y"
  by (metis decode option.inject)

lemma decode_all: "list_all valid xs \<Longrightarrow> map (dec' \<circ> enc) xs = map Some xs"
  using decode by (induction xs) auto

end

interpretation b64: codec b64 unb64 "\<lambda>_. True"
  by unfold_locales simp

lemma length_encode_chunk [simp]: "length (encode_chunk xs) = 4"
  by (simp add: chunk_simps)

text \<open>Decoding what was encoded gives back every byte string, so no key or value is
  changed on its way through the store's gateway and two keys never meet there; the text is four characters
  for every three bytes begun.\<close>

theorem b64_roundtrip:
  "unb64 (b64 data) = Some data \<and> (b64 data = b64 data' \<longleftrightarrow> data = data') \<and>
   length (b64 data) = 4 * ((length data + 2) div 3)"
proof -
  have "length (b64 data) = 4 * ((length data + 2) div 3)"
  proof (induction data rule: b64.induct)
    case (1 a b c rest)
    have "(length (a # b # c # rest) + 2) div 3 = Suc ((length rest + 2) div 3)" by simp
    with 1 show ?case by simp
  qed simp_all
  then show ?thesis by (simp add: b64.enc_inject)
qed

subsection \<open>Prefix ranges\<close>

lemma u8_le_ff: "(w :: u8) \<le> 0xff"
  using unsigned_less [of w, where 'a = nat] by (simp add: word_le_nat_alt)

lemma append_le_append [simp]: "p @ x \<le> p @ (y :: u8 list) \<longleftrightarrow> x \<le> y"
  by (induction p) auto

lemma append_less_append [simp]: "p @ x < p @ (y :: u8 list) \<longleftrightarrow> x < y"
  by (induction p) auto

text \<open>Between \<open>p @ [b]\<close> and \<open>p @ [b + 1]\<close> lie exactly the keys that start with \<open>p @ [b]\<close>.\<close>

lemma between_successors:
  assumes "b < 0xff"
  shows "p @ b # ys \<le> k \<and> k < p @ [b + (1 :: u8)] \<longleftrightarrow> (\<exists>r. k = p @ b # r \<and> ys \<le> r)"
proof (induction p arbitrary: k)
  case Nil
  have succ: "x < b + 1 \<longleftrightarrow> x \<le> b" for x
    using assms by (simp add: word_less_nat_alt word_le_nat_alt unat_word_ariths) linarith
  show ?case by (cases k) (auto simp: succ)
next
  case (Cons c p)
  then show ?case by (cases k) auto
qed

lemma prefix_end_rev_Some:
  "prefix_end_rev (rev p) = Some e \<Longrightarrow>
     \<exists>q b fs. p = q @ b # fs \<and> b < 0xff \<and> (\<forall>f \<in> set fs. f = 0xff) \<and> e = q @ [b + 1]"
proof (induction p arbitrary: e rule: rev_induct)
  case Nil
  then show ?case by simp
next
  case (snoc l p)
  show ?case
  proof (cases "l < 0xff")
    case True
    then show ?thesis using snoc.prems by (intro exI [of _ p] exI [of _ l] exI [of _ "[]"]) auto
  next
    case False
    have "l \<le> 0xff" by (rule u8_le_ff)
    with False have l: "l = 0xff" by simp
    from snoc False obtain q b fs where "p = q @ b # fs" "b < 0xff" "\<forall>f \<in> set fs. f = 0xff" "e = q @ [b + 1]"
      by auto
    then show ?thesis using l by (intro exI [of _ q] exI [of _ b] exI [of _ "fs @ [l]"]) auto
  qed
qed

lemma all_ff_le_iff:
  "\<forall>f \<in> set fs. f = (0xff :: u8) \<Longrightarrow> fs \<le> r \<longleftrightarrow> (\<exists>t. r = fs @ t)"
proof (induction fs arbitrary: r)
  case Nil
  then show ?case by simp
next
  case (Cons f fs)
  have "\<not> (0xff :: u8) < x" for x
    using u8_le_ff [of x] by (simp add: not_less)
  with Cons show ?case by (cases r) auto
qed

text \<open>A prefix that is not all \<open>0xff\<close> bytes (no text is) selects, as the key range from
  the prefix to \<open>prefix_end\<close>, exactly the keys that start with it: a load of the store reads every
  record below its prefix and nothing else.\<close>

theorem prefix_range_exact:
  assumes "\<exists>b \<in> set p. b \<noteq> 0xff"
  shows "p \<le> k \<and> k < prefix_end p \<longleftrightarrow> (\<exists>rest. k = p @ rest)"
proof -
  have "prefix_end_rev (rev p) \<noteq> None"
  proof -
    have "\<exists>b \<in> set q. b \<noteq> 0xff \<Longrightarrow> prefix_end_rev q \<noteq> None" for q
    proof (induction q)
      case (Cons b q)
      have "b \<le> 0xff" by (rule u8_le_ff)
      with Cons show ?case by (auto simp: order_less_le)
    qed simp
    then show ?thesis using assms by simp
  qed
  then obtain e where e: "prefix_end_rev (rev p) = Some e" by blast
  obtain q b fs where p: "p = q @ b # fs" "b < 0xff" "\<forall>f \<in> set fs. f = 0xff" "e = q @ [b + 1]"
    using prefix_end_rev_Some [OF e] by blast
  have "p \<le> k \<and> k < e \<longleftrightarrow> (\<exists>r. k = q @ b # r \<and> fs \<le> r)"
    using between_successors [OF p(2)] by (simp add: p)
  also have "\<dots> \<longleftrightarrow> (\<exists>rest. k = p @ rest)"
    using all_ff_le_iff [OF p(3)] by (auto simp: p)
  finally show ?thesis by (simp add: prefix_end_def e)
qed

theorem prefix_range_exact_witness:
  "[0x61, 0x2f] \<le> [0x61, 0x2f, 0x62 :: u8] \<and> [0x61, 0x2f, 0x62] < prefix_end [0x61, 0x2f :: u8]"
proof -
  have "\<exists>b \<in> set [0x61, 0x2f :: u8]. b \<noteq> 0xff" by simp
  then show ?thesis by (subst prefix_range_exact) auto
qed

end
