(* ===== verification/Config.thy ===== *)
theory Config
  imports Prelude
begin

section \<open>Configuration that the decisions read\<close>

text \<open>
  Models the parts of \<open>src/config.rs\<close> that decisions depend on: node and pool entries with
  the selector that matches them, the recovery keys, and the host NQN template of the legs.
  Parsing (TOML), environment variables and token files are not modelled; whitespace in the
  NQN check is the ASCII one.
\<close>

record node_config =
  nc_name :: string
  nc_engine_url :: string
  nc_api_token :: "string option"
  nc_token_file :: "string option"
  nc_ca_file :: "string option"
  nc_labels :: "(string, string) btree"
  nc_tier :: "string option"

text \<open>\<open>entry(k).or_insert_with(v)\<close>.\<close>

definition or_insert :: "string \<Rightarrow> 'v \<Rightarrow> (string, 'v) btree \<Rightarrow> (string, 'v) btree" where
  "or_insert k v m = (case bt_get m k of Some _ \<Rightarrow> m | None \<Rightarrow> bt_insert k v m)"

definition effective_labels :: "node_config \<Rightarrow> (string, string) btree" where
  "effective_labels nc =
     or_insert ''cluster'' (nc_name nc) (or_insert ''node'' (nc_name nc) (nc_labels nc))"

record selector =
  sel_tier :: "string option"
  sel_labels :: "(string, string) btree"
  sel_nodes :: "string list"

definition matches :: "selector \<Rightarrow> node_config \<Rightarrow> bool" where
  "matches s node =
     ((case sel_tier s of Some t \<Rightarrow> nc_tier node = Some t | None \<Rightarrow> True) \<and>
      list_all (\<lambda>(k, v). bt_get (effective_labels node) k = Some v) (sel_labels s) \<and>
      (sel_nodes s = [] \<or> nc_name node \<in> set (sel_nodes s)))"

record pool_config =
  pc_name :: string
  pc_selector :: selector
  pc_replicas :: u32
  pc_rung :: string
  pc_high_watermark :: "f64 option"
  pc_low_watermark :: "f64 option"
  pc_max_moves :: u32

definition find_pool :: "pool_config list \<Rightarrow> string \<Rightarrow> pool_config option" where
  "find_pool pools name = find (\<lambda>p. pc_name p = name) pools"

datatype bandwidth_class = Low | Normal | High | Unthrottled

record recovery_config =
  rc_enabled :: "bool option"
  rc_cooldown_secs :: u64
  rc_rebuild_timeout_secs :: u64
  rc_rate_low :: u64
  rc_rate_normal :: u64
  rc_rate_high :: u64
  rc_max_dual_attach_secs :: u64
  rc_rehead :: bool
  rc_rehead_after_secs :: u64

definition default_recovery :: recovery_config where
  "default_recovery =
     \<lparr>rc_enabled = None, rc_cooldown_secs = 300, rc_rebuild_timeout_secs = 3600,
      rc_rate_low = push_bit 20 50, rc_rate_normal = push_bit 20 200, rc_rate_high = push_bit 30 1,
      rc_max_dual_attach_secs = 3600, rc_rehead = False, rc_rehead_after_secs = 120\<rparr>"

fun rate :: "recovery_config \<Rightarrow> bandwidth_class \<Rightarrow> u64" where
  "rate rc Low = rc_rate_low rc"
| "rate rc Normal = rc_rate_normal rc"
| "rate rc High = rc_rate_high rc"
| "rate rc Unthrottled = 0"

definition recovery_on :: "recovery_config \<Rightarrow> bool \<Rightarrow> bool" where
  "recovery_on rc has_peers = unwrap_or (rc_enabled rc) (\<not> has_peers)"

subsection \<open>The host NQN of a head\<close>

text \<open>\<open>str::replace\<close> with a non-empty pattern: left to right, occurrences do not overlap.\<close>

function replace_all :: "string \<Rightarrow> string \<Rightarrow> string \<Rightarrow> string" where
  "replace_all pat new s =
     (case s of
        [] \<Rightarrow> []
      | c # cs \<Rightarrow>
          if pat \<noteq> [] \<and> take (length pat) s = pat
          then new @ replace_all pat new (drop (length pat) s)
          else c # replace_all pat new cs)"
  by pat_completeness auto
termination
  by (relation "measure (\<lambda>(pat, new, s). length s)") auto

declare replace_all.simps [simp del]

fun contains_str :: "string \<Rightarrow> string \<Rightarrow> bool" where
  "contains_str pat [] = (pat = [])"
| "contains_str pat (c # cs) = (take (length pat) (c # cs) = pat \<or> contains_str pat cs)"

definition node_hole :: string where
  "node_hole = ''{node}''"

definition host_nqn_for :: "string \<Rightarrow> string \<Rightarrow> string" where
  "host_nqn_for host_nqn node = replace_all node_hole node host_nqn"

definition ascii_whitespace :: "char \<Rightarrow> bool" where
  "ascii_whitespace c = (let n = (of_char c :: nat) in n = 32 \<or> (9 \<le> n \<and> n \<le> 13))"

datatype legs_error = BadNqn | NoNodeHole | BadCharacter

definition legs_validate :: "string \<Rightarrow> legs_error + unit" where
  "legs_validate host_nqn =
     (let n = host_nqn_for host_nqn ''x'' in
      if take 4 n \<noteq> ''nqn.'' \<or> length host_nqn > 200 then Inl BadNqn
      else if \<not> contains_str node_hole host_nqn then Inl NoNodeHole
      else if list_ex (\<lambda>c. c \<in> {CHR ''&'', CHR ''?'', CHR ''/'', CHR ''#''} \<or> ascii_whitespace c) n
        then Inl BadCharacter
      else Inr ())"

subsection \<open>Lemmas\<close>

lemma bt_get_or_insert [simp, bt_simps]:
  "bt_get (or_insert k v m) k' = (if k' = k \<and> bt_get m k = None then Some v else bt_get m k')"
  by (auto simp: or_insert_def split: option.splits)

lemma or_insert_ok: "bt_ok m \<Longrightarrow> bt_ok (or_insert k v m)"
  by (auto simp: or_insert_def bt_insert_ok split: option.splits)

lemma effective_labels_node: "\<exists>v. bt_get (effective_labels nc) ''node'' = Some v"
  by (cases "bt_get (nc_labels nc) ''node''") (auto simp: effective_labels_def)

text \<open>The first occurrence splits the template; what is before it is copied.\<close>

lemma replace_all_first:
  assumes "pat \<noteq> []" and "contains_str pat s"
  shows "\<exists>pre post. length post < length s \<and>
           (\<forall>new. replace_all pat new s = pre @ new @ replace_all pat new post)"
  using assms(2)
proof (induction s)
  case Nil
  with assms(1) show ?case by simp
next
  case (Cons c cs)
  show ?case
  proof (cases "take (length pat) (c # cs) = pat")
    case True
    then show ?thesis using assms(1)
      by (intro exI [of _ "[]"] exI [of _ "drop (length pat) (c # cs)"])
        (simp add: replace_all.simps [of pat _ "c # cs"])
  next
    case False
    with Cons obtain pre post where "length post < length cs"
      and "\<forall>new. replace_all pat new cs = pre @ new @ replace_all pat new post" by auto
    then show ?thesis using False
      by (intro exI [of _ "c # pre"] exI [of _ post])
        (simp add: replace_all.simps [of pat _ "c # cs"])
  qed
qed

lemma replace_all_Nil [simp]: "replace_all pat new [] = []"
  by (simp add: replace_all.simps)

lemma replace_all_Cons:
  "replace_all pat new (c # cs) =
     (if pat \<noteq> [] \<and> take (length pat) (c # cs) = pat
      then new @ replace_all pat new (drop (length pat) (c # cs))
      else c # replace_all pat new cs)"
  by (subst replace_all.simps) simp

lemma length_replace_all:
  "length a < length b \<Longrightarrow> length (replace_all pat a s) \<le> length (replace_all pat b s)"
proof (induction pat a s rule: replace_all.induct)
  case (1 pat a s)
  show ?case
  proof (cases s)
    case Nil
    then show ?thesis by simp
  next
    case (Cons c cs)
    show ?thesis
    proof (cases "pat \<noteq> [] \<and> take (length pat) (c # cs) = pat")
      case True
      have "length (replace_all pat a (drop (length pat) (c # cs)))
          \<le> length (replace_all pat b (drop (length pat) (c # cs)))"
        using "1.IH"(1) [OF Cons] True Cons "1.prems" by simp
      with True "1.prems" show ?thesis unfolding Cons replace_all_Cons by simp
    next
      case False
      have "length (replace_all pat a cs) \<le> length (replace_all pat b cs)"
        using "1.IH"(2) [OF Cons] False Cons "1.prems" by simp
      with False show ?thesis unfolding Cons replace_all_Cons by auto
    qed
  qed
qed

lemma replace_all_inj:
  assumes "pat \<noteq> []" and "contains_str pat s" and "replace_all pat a s = replace_all pat b s"
  shows "a = b"
proof -
  obtain pre post where split: "\<And>new. replace_all pat new s = pre @ new @ replace_all pat new post"
    using replace_all_first [OF assms(1,2)] by auto
  have eq: "a @ replace_all pat a post = b @ replace_all pat b post"
    using assms(3) by (simp add: split)
  have "length a = length b"
  proof (rule ccontr)
    assume "length a \<noteq> length b"
    then consider "length a < length b" | "length b < length a" by linarith
    then show False
      using length_replace_all [of a b pat post] length_replace_all [of b a pat post]
        arg_cong [OF eq, of length] by cases auto
  qed
  with eq show ?thesis by simp
qed

text \<open>Under a leg configuration that validates, two heads never present the same
  host NQN: the leg exports of one node are not served to another.\<close>

theorem host_nqn_distinct:
  assumes "legs_validate host_nqn = Inr ()" and "n1 \<noteq> n2"
  shows "host_nqn_for host_nqn n1 \<noteq> host_nqn_for host_nqn n2"
proof -
  have "contains_str node_hole host_nqn"
    using assms(1) by (auto simp: legs_validate_def Let_def split: if_splits)
  then show ?thesis
    using assms(2) replace_all_inj [of node_hole host_nqn n1 n2]
    by (auto simp: host_nqn_for_def node_hole_def)
qed

theorem host_nqn_distinct_witness:
  "host_nqn_for ''nqn.x:{node}'' ''n1'' \<noteq> host_nqn_for ''nqn.x:{node}'' ''n2''"
proof -
  have "legs_validate ''nqn.x:{node}'' = Inr ()" by code_simp
  then show ?thesis by (rule host_nqn_distinct) simp
qed

end
