(* ===== verification/Model.thy ===== *)
theory Model
  imports Config
begin

section \<open>The federation state\<close>

text \<open>
  Models the records of \<open>src/model.rs\<close> (and the attach coordinates of \<open>src/engine.rs\<close>): nodes
  and their status, volumes with legs, exports, expansions, migrations, snapshots, backups and
  the federation state that holds them, with the pure operations on them. Field names carry a
  short prefix per struct. Serialisation is not modelled here.
\<close>

subsection \<open>Nodes\<close>

datatype node_source = Static | Registered | Local | Member

record io_load =
  io_iops :: f64
  io_busy :: f64
  io_at :: time

record io_sample =
  smp_count :: f64
  smp_sum :: f64
  smp_at :: time

record node_status =
  ns_healthy :: bool
  ns_last_ok :: "time option"
  ns_consecutive_failures :: u32
  ns_total_bytes :: u64
  ns_free_bytes :: u64
  ns_engine_topology :: "(string, string) btree"
  ns_volumes :: u64
  ns_source :: node_source
  ns_io :: "io_load option"
  ns_io_sample :: "io_sample option"

record node =
  n_config :: node_config
  n_status :: node_status

definition io_rate :: "io_sample option \<Rightarrow> io_sample \<Rightarrow> time \<Rightarrow> io_load option" where
  "io_rate prev cur now =
     (case prev of
        None \<Rightarrow> None
      | Some p \<Rightarrow>
          if smp_at cur < smp_at p then None
          else
            (let dt = of_nat (smp_at cur - smp_at p) / 1000000000 in
             if dt \<le> 0 \<or> smp_count cur < smp_count p \<or> smp_sum cur < smp_sum p then None
             else Some \<lparr>io_iops = (smp_count cur - smp_count p) / dt,
                        io_busy = (smp_sum cur - smp_sum p) / dt, io_at = now\<rparr>))"

definition new_status :: "node_source \<Rightarrow> node_status" where
  "new_status source =
     \<lparr>ns_healthy = False, ns_last_ok = None, ns_consecutive_failures = 0, ns_total_bytes = 0,
      ns_free_bytes = 0, ns_engine_topology = [], ns_volumes = 0, ns_source = source,
      ns_io = None, ns_io_sample = None\<rparr>"

text \<open>Effective labels: the engine's topology, overridden by the configured labels.\<close>

definition node_labels :: "node \<Rightarrow> (string, string) btree" where
  "node_labels n =
     foldl (\<lambda>l (k, v). bt_insert k v l) (ns_engine_topology (n_status n)) (effective_labels (n_config n))"

subsection \<open>Legs and exports\<close>

record attached_leg =
  a_nqn :: string
  a_traddr :: string
  a_trsvcid :: u16
  a_nsid :: u32
  a_host_nqn :: "string option"

definition drive_uri :: "attached_leg \<Rightarrow> string" where
  "drive_uri a =
     ''nvme-tcp://'' @ a_traddr a @ '':'' @ dec (unat (a_trsvcid a)) @ ''/'' @ a_nqn a @
     ''?nsid='' @ dec (unat (a_nsid a)) @
     (case a_host_nqn a of None \<Rightarrow> [] | Some h \<Rightarrow> ''&hostnqn='' @ h)"

datatype leg_state = Created | LegFailed | Lost

record leg =
  l_node :: string
  l_volume_id :: "string option"
  l_state :: leg_state
  l_message :: "string option"
  l_master_node :: "string option"
  l_export :: "attached_leg option"
  l_drive_uuid :: "string option"
  l_member_uuid :: "string option"
  l_epoch :: "u64 option"

datatype assembly_state = SingleLeg | PendingEngineSupport | Assembled | Degraded | Clone

record replacement =
  r_from :: string
  r_leg :: leg
  r_reason :: string
  r_started_at :: time

record orphan =
  o_node :: string
  o_volume_id :: string
  o_master_node :: "string option"
  o_of_volume :: string
  o_reason :: string
  o_since :: time

datatype export_state = NotExported | Published | ExportFailed | Revoking

record pending_withdraw =
  pw_node :: string
  pw_local_id :: "string option"
  pw_name :: string
  pw_host_nqn :: string

record host_serve =
  hs_host_nqn :: string
  hs_dhchap :: bool
  hs_coordinates :: "attached_leg option"
  hs_coordinates_changed :: bool
  hs_served_at :: "time option"
  hs_message :: "string option"

record export =
  x_state :: export_state
  x_volume_id :: "string option"
  x_node :: "string option"
  x_master_node :: "string option"
  x_coordinates :: "attached_leg option"
  x_published_at :: "time option"
  x_coordinates_changed :: bool
  x_message :: "string option"
  x_adopted :: bool
  x_hosts :: "host_serve list"
  x_per_host :: bool
  x_local_id :: "string option"
  x_withdrawing :: "pending_withdraw list"
  x_gone :: bool

definition default_export :: export where
  "default_export =
     \<lparr>x_state = NotExported, x_volume_id = None, x_node = None, x_master_node = None,
      x_coordinates = None, x_published_at = None, x_coordinates_changed = False,
      x_message = None, x_adopted = False, x_hosts = [], x_per_host = False,
      x_local_id = None, x_withdrawing = [], x_gone = False\<rparr>"

record dual_attach =
  da_target_node :: string
  da_epoch :: u64
  da_opened_at :: time
  da_expires_at :: time

record stale_head =
  sh_node :: string
  sh_array_id :: string
  sh_drive_uris :: "string list"
  sh_of_volume :: string
  sh_epoch :: u64
  sh_since :: time
  sh_served_v1 :: "string option"

subsection \<open>Volumes\<close>

record expansion =
  ex_to_bytes :: u64
  ex_started_at :: time
  ex_array_bytes_before :: "u64 option"
  ex_array_grown :: bool
  ex_slab_short :: "string option"
  ex_message :: "string option"

datatype volume_source = FromSnapshot string | FromVolume string

record clone_of =
  co_source :: volume_source
  co_parent :: string

datatype migration_state = Moving | WaitingHandover

record migration =
  m_to_pool :: string
  m_from_pool :: "string option"
  m_started_at :: time
  m_state :: migration_state
  m_message :: "string option"

record dist_volume =
  v_name :: string
  v_size_bytes :: u64
  v_pool :: "string option"
  v_replicas :: u32
  v_rung :: string
  v_legs :: "leg list"
  v_assembly :: assembly_state
  v_head :: "string option"
  v_array_id :: "string option"
  v_created_at :: time
  v_replacing :: "replacement option"
  v_next_releg_after :: "time option"
  v_next_assemble_after :: "time option"
  v_export :: export
  v_epoch :: u64
  v_fenced :: bool
  v_bandwidth_class :: bandwidth_class
  v_extent_size_bytes :: "u64 option"
  v_rate_pending :: bool
  v_dual_attach :: "dual_attach option"
  v_migration :: "migration option"
  v_clone_of :: "clone_of option"
  v_expanding :: "expansion option"

definition first_epoch :: u64 where
  "first_epoch = 1"

definition leg_bytes :: "dist_volume \<Rightarrow> u64" where
  "leg_bytes v = (case v_expanding v of
      None \<Rightarrow> v_size_bytes v
    | Some x \<Rightarrow> max (ex_to_bytes x) (v_size_bytes v))"

text \<open>A mirrored volume: \<open>matches!(assembly, Assembled | Degraded)\<close>.\<close>

abbreviation mirrored :: "dist_volume \<Rightarrow> bool" where
  "mirrored v \<equiv> v_assembly v = Assembled \<or> v_assembly v = Degraded"

datatype raid_profile = RaidNone | Mirror | Parity1 | Parity2

definition raid_of :: "dist_volume \<Rightarrow> raid_profile" where
  "raid_of v = (if max (v_replicas v) (of_nat (length (v_legs v))) > 1 then Mirror else RaidNone)"

datatype raid_error = OneLegOnly u32 | MirrorNeedsTwo u32 | ParityNotBuilt

definition raid_replicas :: "raid_profile \<Rightarrow> u32 option \<Rightarrow> u32 option \<Rightarrow> raid_error + u32" where
  "raid_replicas p asked pool_default =
     (case p of
        RaidNone \<Rightarrow> (case asked of
            None \<Rightarrow> Inr 1
          | Some n \<Rightarrow> if n = 1 then Inr 1 else Inl (OneLegOnly n))
      | Mirror \<Rightarrow> (case asked of
            Some n \<Rightarrow> if n < 2 then Inl (MirrorNeedsTwo n) else Inr n
          | None \<Rightarrow> Inr (max (unwrap_or pool_default 2) 2))
      | Parity1 \<Rightarrow> Inl ParityNotBuilt
      | Parity2 \<Rightarrow> Inl ParityNotBuilt)"

subsection \<open>Snapshots, backups and node-volume migrations\<close>

record snapshot =
  s_id :: string
  s_name :: string
  s_source_volume_id :: string
  s_size_bytes :: u64
  s_ready :: bool
  s_created_at_ms :: int
  s_group_snapshot_id :: "string option"
  s_parent :: string
  s_node :: string
  s_engine_name :: string
  s_engine_id :: "string option"

record group_snapshot =
  g_id :: string
  g_name :: string
  g_members :: "string list"
  g_ready :: bool
  g_created_at_ms :: int
  g_node :: string
  g_engine_id :: "string option"

record backup_policy =
  bp_pool :: "string option"
  bp_tier :: "string option"
  bp_node :: "string option"
  bp_interval_secs :: u64
  bp_keep :: u32

datatype backup_state = Idle | Shipping | WaitingEngine | BackupFailed

record ship_snapshot =
  ss_node :: string
  ss_engine_name :: string
  ss_engine_id :: "string option"
  ss_taken_at_ms :: int

record ship_job =
  j_id :: string
  j_snapshot :: ship_snapshot
  j_bytes_total :: u64
  j_bytes_done :: u64

record backup_point =
  pt_name :: string
  pt_taken_at_ms :: int
  pt_engine_id :: "string option"

record backup =
  b_volume :: string
  b_size_bytes :: u64
  b_policy :: "backup_policy option"
  b_node :: "string option"
  b_target_volume_id :: "string option"
  b_target_master :: "string option"
  b_target_attach :: "attached_leg option"
  b_attached_for :: "string option"
  b_base :: "ship_snapshot option"
  b_job :: "ship_job option"
  b_points :: "backup_point list"
  b_state :: backup_state
  b_message :: "string option"
  b_next_at_ms :: int
  b_source_deleted :: bool

definition backup_target_name :: "string \<Rightarrow> string" where
  "backup_target_name volume = volume @ ''-backup''"

record target_placement =
  tp_kind :: string
  tp_name :: string
  tp_id :: string

datatype vm_migration_state =
  Starting | Copying | Synced | CutOver | Completed | Aborted | MigFailed

definition terminal :: "vm_migration_state \<Rightarrow> bool" where
  "terminal s = (s = Completed \<or> s = Aborted)"

record vm_migration =
  vm_id :: string
  vm_source_node :: string
  vm_source_volume_id :: string
  vm_source_name :: string
  vm_size_bytes :: u64
  vm_target_node :: string
  vm_target_name :: string
  vm_target_volume_id :: "string option"
  vm_target_local_id :: "string option"
  vm_target_attach :: "attached_leg option"
  vm_placement :: "target_placement option"
  vm_mirror_target :: "string option"
  vm_state :: vm_migration_state
  vm_bytes_total :: u64
  vm_bytes_remaining :: u64
  vm_message :: "string option"
  vm_aborting :: bool
  vm_started_at_ms :: int
  vm_updated_at_ms :: int

subsection \<open>The whole state\<close>

record fed_state =
  f_revision :: u64
  f_nodes :: "(string, node) btree"
  f_volumes :: "(string, dist_volume) btree"
  f_orphans :: "orphan list"
  f_stale_heads :: "stale_head list"
  f_snapshots :: "(string, snapshot) btree"
  f_group_snapshots :: "(string, group_snapshot) btree"
  f_backups :: "(string, backup) btree"
  f_vm_migrations :: "(string, vm_migration) btree"

definition default_fed :: fed_state where
  "default_fed =
     \<lparr>f_revision = 0, f_nodes = [], f_volumes = [], f_orphans = [], f_stale_heads = [],
      f_snapshots = [], f_group_snapshots = [], f_backups = [], f_vm_migrations = []\<rparr>"

definition parent_of :: "fed_state \<Rightarrow> dist_volume \<Rightarrow> dist_volume option" where
  "parent_of fed v = (case v_clone_of v of
      None \<Rightarrow> Some v
    | Some c \<Rightarrow> bt_get (f_volumes fed) (co_parent c))"

definition dependents_of :: "fed_state \<Rightarrow> string \<Rightarrow> string list" where
  "dependents_of fed name =
     map (\<lambda>v. ''clone '' @ v_name v)
       (filter (\<lambda>v. is_some_and (v_clone_of v) (\<lambda>c. co_parent c = name)) (bt_values (f_volumes fed))) @
     map (\<lambda>s. ''snapshot '' @ s_name s)
       (filter (\<lambda>s. s_parent s = name \<or> s_source_volume_id s = name) (bt_values (f_snapshots fed)))"

definition overlay_static :: "fed_state \<Rightarrow> node_config \<Rightarrow> fed_state" where
  "overlay_static fed nc =
     (case bt_get (f_nodes fed) (nc_name nc) of
        Some n \<Rightarrow> fed\<lparr>f_nodes := bt_modify (nc_name nc)
                    (\<lambda>n. n\<lparr>n_config := nc, n_status := (n_status n)\<lparr>ns_source := Static\<rparr>\<rparr>) (f_nodes fed)\<rparr>
      | None \<Rightarrow> fed\<lparr>f_nodes := bt_insert (nc_name nc)
                    \<lparr>n_config = nc, n_status = new_status Static\<rparr> (f_nodes fed)\<rparr>)"

definition apply_config_nodes :: "fed_state \<Rightarrow> node_config list \<Rightarrow> fed_state" where
  "apply_config_nodes fed configured = foldl overlay_static fed configured"

text \<open>Bumping the revision, as \<open>fed.revision += 1\<close> does on every durable change.\<close>

definition bump :: "fed_state \<Rightarrow> fed_state" where
  "bump fed = fed\<lparr>f_revision := f_revision fed + 1\<rparr>"

definition healthy_node :: "fed_state \<Rightarrow> string \<Rightarrow> bool" where
  "healthy_node fed n = is_some_and (bt_get (f_nodes fed) n) (\<lambda>x. ns_healthy (n_status x))"

end
