(* ===== verification/Replicate.thy ===== *)
theory Replicate
  imports Model
begin

section \<open>Replication between peers\<close>

text \<open>
  Models \<open>src/replicate.rs\<close>: the payload an instance pushes to its peers and what a peer does with
  one. Sending it is the network's; \<open>apply_payload\<close> is the state change of \<open>apply\<close>, which reports
  whether it was applied.
\<close>

record payload =
  p_revision :: u64
  p_volumes :: "(string, dist_volume) btree"
  p_registered :: "node_config list"
  p_orphans :: "orphan list"
  p_stale_heads :: "stale_head list"
  p_snapshots :: "(string, snapshot) btree"
  p_group_snapshots :: "(string, group_snapshot) btree"
  p_backups :: "(string, backup) btree"
  p_vm_migrations :: "(string, vm_migration) btree"

definition build_payload :: "fed_state \<Rightarrow> payload" where
  "build_payload fed =
     \<lparr>p_revision = f_revision fed, p_volumes = f_volumes fed,
      p_registered = map n_config (filter (\<lambda>n. ns_source (n_status n) = Registered) (bt_values (f_nodes fed))),
      p_orphans = f_orphans fed, p_stale_heads = f_stale_heads fed, p_snapshots = f_snapshots fed,
      p_group_snapshots = f_group_snapshots fed, p_backups = f_backups fed,
      p_vm_migrations = f_vm_migrations fed\<rparr>"

definition apply_registered :: "(string, node) btree \<Rightarrow> node_config \<Rightarrow> (string, node) btree" where
  "apply_registered nodes nc =
     (case bt_get nodes (nc_name nc) of
        Some n \<Rightarrow>
          if ns_source (n_status n) = Registered then bt_modify (nc_name nc) (\<lambda>n. n\<lparr>n_config := nc\<rparr>) nodes
          else nodes
      | None \<Rightarrow> bt_insert (nc_name nc) \<lparr>n_config = nc, n_status = new_status Registered\<rparr> nodes)"

definition apply_payload :: "fed_state \<Rightarrow> payload \<Rightarrow> bool \<times> fed_state" where
  "apply_payload fed p =
     (if p_revision p \<le> f_revision fed then (False, fed)
      else (True, fed\<lparr>f_volumes := p_volumes p, f_orphans := p_orphans p, f_stale_heads := p_stale_heads p,
                      f_snapshots := p_snapshots p, f_group_snapshots := p_group_snapshots p,
                      f_backups := p_backups p, f_vm_migrations := p_vm_migrations p,
                      f_nodes := foldl apply_registered (f_nodes fed) (p_registered p),
                      f_revision := p_revision p\<rparr>))"

text \<open>A run of pushes arriving one after the other.\<close>

definition apply_all :: "fed_state \<Rightarrow> payload list \<Rightarrow> fed_state" where
  "apply_all fed ps = foldl (\<lambda>f p. snd (apply_payload f p)) fed ps"

text \<open>The durable intent a payload carries, as a peer ends up with it.\<close>

definition intent :: "fed_state \<Rightarrow> (string, dist_volume) btree \<times> orphan list \<times> stale_head list \<times>
    (string, snapshot) btree \<times> (string, group_snapshot) btree \<times> (string, backup) btree \<times> (string, vm_migration) btree" where
  "intent fed = (f_volumes fed, f_orphans fed, f_stale_heads fed, f_snapshots fed, f_group_snapshots fed,
     f_backups fed, f_vm_migrations fed)"

definition payload_intent :: "payload \<Rightarrow> (string, dist_volume) btree \<times> orphan list \<times> stale_head list \<times>
    (string, snapshot) btree \<times> (string, group_snapshot) btree \<times> (string, backup) btree \<times> (string, vm_migration) btree" where
  "payload_intent p = (p_volumes p, p_orphans p, p_stale_heads p, p_snapshots p, p_group_snapshots p,
     p_backups p, p_vm_migrations p)"

subsection \<open>Lemmas\<close>

lemma apply_payload_newer:
  "\<not> p_revision p \<le> f_revision fed \<Longrightarrow>
     intent (snd (apply_payload fed p)) = payload_intent p \<and> f_revision (snd (apply_payload fed p)) = p_revision p"
  by (simp add: apply_payload_def intent_def payload_intent_def)

lemma apply_payload_older [simp]: "p_revision p \<le> f_revision fed \<Longrightarrow> apply_payload fed p = (False, fed)"
  by (simp add: apply_payload_def)

lemma payload_intent_build [simp]: "payload_intent (build_payload fed) = intent fed"
  by (simp add: payload_intent_def intent_def build_payload_def)

lemma p_revision_build [simp]: "p_revision (build_payload fed) = f_revision fed"
  by (simp add: build_payload_def)

lemma apply_payload_revision: "f_revision (snd (apply_payload fed p)) = max (f_revision fed) (p_revision p)"
  by (auto simp: apply_payload_def max_def)

lemma apply_registered_keeps:
  assumes "bt_get nodes k = Some n"
  shows "\<exists>n'. bt_get (apply_registered nodes nc) k = Some n' \<and> n_status n' = n_status n \<and>
    (ns_source (n_status n) \<noteq> Registered \<longrightarrow> n' = n)"
  using assms by (auto simp: apply_registered_def split: option.splits)

lemma apply_registered_all_keeps:
  assumes "bt_get nodes k = Some n"
  shows "\<exists>n'. bt_get (foldl apply_registered nodes ncs) k = Some n' \<and> n_status n' = n_status n \<and>
    (ns_source (n_status n) \<noteq> Registered \<longrightarrow> n' = n)"
  using assms
proof (induction ncs arbitrary: nodes n)
  case Nil
  then show ?case by simp
next
  case (Cons nc ncs)
  from apply_registered_keeps [OF Cons.prems, of nc] obtain n1 where
    n1: "bt_get (apply_registered nodes nc) k = Some n1" "n_status n1 = n_status n"
      "ns_source (n_status n) \<noteq> Registered \<longrightarrow> n1 = n" by blast
  from Cons.IH [OF n1(1)] n1 show ?case by auto
qed

lemma apply_registered_has:
  assumes "nc \<in> set ncs"
  shows "\<exists>n. bt_get (foldl apply_registered nodes ncs) (nc_name nc) = Some n"
  using assms
proof (induction ncs arbitrary: nodes)
  case Nil
  then show ?case by simp
next
  case (Cons x ncs)
  show ?case
  proof (cases "nc \<in> set ncs")
    case True
    with Cons.IH show ?thesis by simp
  next
    case False
    with Cons.prems have "x = nc" by simp
    then have "\<exists>n. bt_get (apply_registered nodes x) (nc_name nc) = Some n"
      by (auto simp: apply_registered_def split: option.splits)
    then show ?thesis using apply_registered_all_keeps by fastforce
  qed
qed

lemma apply_all_snoc: "apply_all fed (ps @ [x]) = snd (apply_payload (apply_all fed ps) x)"
  by (simp add: apply_all_def)

text \<open>What a run of pushes leaves: the newest revision seen, with the intent and the registered nodes of a payload that
  had it.\<close>

definition took :: "payload \<Rightarrow> fed_state \<Rightarrow> bool" where
  "took p fed \<longleftrightarrow> f_revision fed = p_revision p \<and> intent fed = payload_intent p \<and>
     (\<forall>nc \<in> set (p_registered p). bt_get (f_nodes fed) (nc_name nc) \<noteq> None)"

lemma took_newer: "\<not> p_revision p \<le> f_revision fed \<Longrightarrow> took p (snd (apply_payload fed p))"
  using apply_registered_has [of _ "p_registered p" "f_nodes fed"] apply_payload_newer [of p fed]
  by (fastforce simp: took_def apply_payload_def)

definition newest_of :: "fed_state \<Rightarrow> payload list \<Rightarrow> fed_state \<Rightarrow> bool" where
  "newest_of fed ps fed' \<longleftrightarrow>
     f_revision fed \<le> f_revision fed' \<and> (\<forall>p \<in> set ps. p_revision p \<le> f_revision fed') \<and>
     (if f_revision fed' = f_revision fed then intent fed' = intent fed
      else \<exists>p \<in> set ps. took p fed')"

lemma newest_of_apply_all: "newest_of fed ps (apply_all fed ps)"
proof (induction ps rule: rev_induct)
  case Nil
  then show ?case by (simp add: newest_of_def apply_all_def)
next
  case (snoc x ps)
  show ?case
  proof (cases "p_revision x \<le> f_revision (apply_all fed ps)")
    case True
    then have "apply_all fed (ps @ [x]) = apply_all fed ps" by (simp add: apply_all_snoc)
    with snoc True show ?thesis by (auto simp: newest_of_def split: if_splits)
  next
    case False
    with apply_payload_newer [OF False] took_newer [OF False] snoc show ?thesis
      by (auto simp: newest_of_def apply_all_snoc)
  qed
qed

lemma newest_of_unique:
  assumes "newest_of fed1 ps f1" and "newest_of fed2 ps f2"
    and fresh: "\<exists>p \<in> set ps. f_revision fed1 < p_revision p \<and> f_revision fed2 < p_revision p"
    and once: "\<forall>p \<in> set ps. \<forall>q \<in> set ps. p_revision p = p_revision q \<longrightarrow> payload_intent p = payload_intent q"
  shows "intent f1 = intent f2 \<and> f_revision f1 = f_revision f2 \<and> (\<exists>p \<in> set ps. took p f1) \<and> (\<exists>p \<in> set ps. took p f2)"
proof -
  have "f_revision f1 \<noteq> f_revision fed1" "f_revision f2 \<noteq> f_revision fed2"
    using assms(1,2) fresh unfolding newest_of_def by fastforce+
  then obtain p q where p: "p \<in> set ps" "took p f1" and q: "q \<in> set ps" "took q f2"
    using assms(1,2) unfolding newest_of_def by auto
  have "f_revision f1 = f_revision f2"
    using assms(1,2) p q unfolding newest_of_def took_def by (metis order_antisym)
  moreover from this p q once have "intent f1 = intent f2" unfolding took_def by metis
  ultimately show ?thesis using p q by blast
qed

lemma newest_of_set: "set ps = set qs \<Longrightarrow> newest_of fed ps f = newest_of fed qs f"
  by (simp add: newest_of_def)

subsection \<open>Properties\<close>

text \<open>Property C8. Two peers that receive the same payloads, each in its own order and with repeats, agree afterwards on
  what the cluster is meant to hold, however they differed before: both end at the highest revision received with the
  volumes, orphans, stale heads, snapshots, groups, backups and migrations of the payload that carries it, and each
  has every registered node such a payload names on record. It takes a payload newer than what either peer had, and
  that no two of the payloads differ in these records under one revision. The peers' other nodes, and what they
  recorded of a node, may still differ.\<close>

theorem pushes_converge:
  assumes "set ps = set qs"
    and "\<exists>p \<in> set ps. f_revision fed1 < p_revision p \<and> f_revision fed2 < p_revision p"
    and "\<forall>p \<in> set ps. \<forall>q \<in> set ps. p_revision p = p_revision q \<longrightarrow> payload_intent p = payload_intent q"
  shows "intent (apply_all fed1 ps) = intent (apply_all fed2 qs) \<and>
         f_revision (apply_all fed1 ps) = f_revision (apply_all fed2 qs) \<and>
         (\<forall>p \<in> set ps. p_revision p \<le> f_revision (apply_all fed1 ps)) \<and>
         (\<exists>p \<in> set ps. took p (apply_all fed1 ps)) \<and> (\<exists>p \<in> set ps. took p (apply_all fed2 qs))"
proof -
  have 1: "newest_of fed1 ps (apply_all fed1 ps)" by (rule newest_of_apply_all)
  have 2: "newest_of fed2 ps (apply_all fed2 qs)" using newest_of_apply_all newest_of_set [OF assms(1)] by blast
  have "\<forall>p \<in> set ps. p_revision p \<le> f_revision (apply_all fed1 ps)" using 1 by (simp add: newest_of_def)
  with newest_of_unique [OF 1 2 assms(2,3)] show ?thesis by blast
qed

text \<open>A peer never overwrites what this instance watches or configures: applying a
  payload keeps every known node with its status, leaves a node that is not a self-registered one
  entirely as it is, and adds every registered node the payload names.\<close>

theorem payload_keeps_nodes:
  assumes "apply_payload fed p = (True, fed')" and "bt_get (f_nodes fed) k = Some n"
  shows "(\<exists>n'. bt_get (f_nodes fed') k = Some n' \<and> n_status n' = n_status n \<and>
            (ns_source (n_status n) \<noteq> Registered \<longrightarrow> n' = n)) \<and>
         (\<forall>nc \<in> set (p_registered p). \<exists>n'. bt_get (f_nodes fed') (nc_name nc) = Some n')"
proof -
  have "f_nodes fed' = foldl apply_registered (f_nodes fed) (p_registered p)"
    using assms(1) by (auto simp: apply_payload_def split: if_splits)
  then show ?thesis
    using apply_registered_all_keeps [OF assms(2)] apply_registered_has by auto
qed

definition wit_config :: "string \<Rightarrow> node_config" where
  "wit_config n = \<lparr>nc_name = n, nc_engine_url = ''http://'' @ n, nc_api_token = None, nc_token_file = None,
     nc_ca_file = None, nc_labels = [], nc_tier = None\<rparr>"

definition wit_fed :: fed_state where
  "wit_fed = default_fed\<lparr>f_nodes := [(''a'', \<lparr>n_config = wit_config ''a'', n_status = new_status Static\<rparr>)]\<rparr>"

definition wit_payload :: "u64 \<Rightarrow> payload" where
  "wit_payload r = (build_payload default_fed)\<lparr>p_revision := r,
     p_registered := [(wit_config ''a'')\<lparr>nc_engine_url := ''http://evil''\<rparr>, wit_config ''b'']\<rparr>"

theorem pushes_converge_witness:
  "f_revision (apply_all default_fed [wit_payload 2, wit_payload 1]) =
   f_revision (apply_all wit_fed [wit_payload 1, wit_payload 2, wit_payload 1])"
  using pushes_converge [of "[wit_payload 2, wit_payload 1]" "[wit_payload 1, wit_payload 2, wit_payload 1]" default_fed wit_fed]
  by (simp add: insert_commute payload_intent_def wit_payload_def wit_fed_def default_fed_def)

theorem payload_keeps_nodes_witness:
  "apply_payload wit_fed (wit_payload 5) = (True, snd (apply_payload wit_fed (wit_payload 5))) \<and>
   bt_get (f_nodes (snd (apply_payload wit_fed (wit_payload 5)))) ''a'' =
     Some \<lparr>n_config = wit_config ''a'', n_status = new_status Static\<rparr>"
proof -
  have 1: "apply_payload wit_fed (wit_payload 5) = (True, snd (apply_payload wit_fed (wit_payload 5)))"
    by (simp add: apply_payload_def wit_fed_def wit_payload_def default_fed_def)
  have 2: "bt_get (f_nodes wit_fed) ''a'' = Some \<lparr>n_config = wit_config ''a'', n_status = new_status Static\<rparr>"
    by (simp add: wit_fed_def)
  from 1 payload_keeps_nodes [OF 1 2] show ?thesis by (simp add: new_status_def)
qed

end
