(* ===== verification/Json.thy ===== *)
theory Json
  imports Prelude
begin

section \<open>Engine answers\<close>

text \<open>
  Engine answers arrive as \<open>serde_json::Value\<close>. The value is a datatype; the accessors below are
  the ones the source uses, with their documented results (\<open>None\<close> for another kind of value or an
  absent key). Lower-casing and case-insensitive comparison are on ASCII letters.
\<close>

datatype json =
    JNull
  | JBool bool
  | JInt int
  | JFloat f64
  | JStr string
  | JArr "json list"
  | JObj "(string \<times> json) list"

fun jget :: "string \<Rightarrow> json \<Rightarrow> json option" where
  "jget k (JObj kvs) = map_of kvs k"
| "jget k _ = None"

fun as_str :: "json \<Rightarrow> string option" where
  "as_str (JStr s) = Some s"
| "as_str _ = None"

fun as_array :: "json \<Rightarrow> json list option" where
  "as_array (JArr xs) = Some xs"
| "as_array _ = None"

fun as_bool :: "json \<Rightarrow> bool option" where
  "as_bool (JBool b) = Some b"
| "as_bool _ = None"

fun as_u64 :: "json \<Rightarrow> u64 option" where
  "as_u64 (JInt n) = (if 0 \<le> n \<and> n < 2 ^ 64 then Some (of_int n) else None)"
| "as_u64 _ = None"

definition is_object :: "json \<Rightarrow> bool" where
  "is_object v = (case v of JObj _ \<Rightarrow> True | _ \<Rightarrow> False)"

abbreviation get_str :: "string \<Rightarrow> json \<Rightarrow> string option" where
  "get_str k v \<equiv> Option.bind (jget k v) as_str"

abbreviation get_u64 :: "string \<Rightarrow> json \<Rightarrow> u64 option" where
  "get_u64 k v \<equiv> Option.bind (jget k v) as_u64"

abbreviation get_array :: "string \<Rightarrow> json \<Rightarrow> json list" where
  "get_array k v \<equiv> unwrap_or (Option.bind (jget k v) as_array) []"

definition lower_char :: "char \<Rightarrow> char" where
  "lower_char c = (let n = (of_char c :: nat) in if 65 \<le> n \<and> n \<le> 90 then char_of (n + 32) else c)"

definition lowercase :: "string \<Rightarrow> string" where
  "lowercase s = map lower_char s"

definition eq_ignore_case :: "string \<Rightarrow> string \<Rightarrow> bool" where
  "eq_ignore_case a b = (lowercase a = lowercase b)"

lemma lowercase_idem [simp]: "lowercase (lowercase s) = lowercase s"
proof -
  have "lower_char (lower_char c) = lower_char c" for c
  proof (cases "65 \<le> (of_char c :: nat) \<and> (of_char c :: nat) \<le> 90")
    case True
    then have "(of_char (char_of (of_char c + 32 :: nat)) :: nat) = of_char c + 32"
      by (simp only: of_char_of) simp
    with True show ?thesis unfolding lower_char_def Let_def by simp
  next
    case False
    then show ?thesis by (simp only: lower_char_def Let_def if_False)
  qed
  then show ?thesis by (simp add: lowercase_def)
qed

end
