(* ===== verification/Inventory.thy ===== *)
theory Inventory
  imports Json
begin

section \<open>What a node's engine holds\<close>

text \<open>
  Models \<open>src/inventory.rs\<close>: the slabs and volumes of a node's engine, on which slabs each volume is placed, and
  the totals per tier. A \<open>BTreeSet\<close> of names is a sorted list without repetition. Left out: how a volume is
  attached, and the claim the apiserver names (\<open>pv\<close>), which placing never reads.
\<close>

record drive_ref =
  dr_serial :: string
  dr_wwn :: string
  dr_model :: string
  dr_path :: string

record slab =
  sb_id :: string
  sb_tier :: string
  sb_role :: string
  sb_domain :: string
  sb_drive :: "drive_ref option"
  sb_slot_size :: u64
  sb_total_slots :: u64
  sb_free_slots :: u64
  sb_allocated_slots :: u64
  sb_total_bytes :: u64
  sb_free_bytes :: u64

definition saturating_mul :: "u64 \<Rightarrow> u64 \<Rightarrow> u64" where
  "saturating_mul a b = word_of_int (min (uint a * uint b) (2 ^ 64 - 1))"

definition slab_allocated :: "slab \<Rightarrow> u64" where
  "slab_allocated s = saturating_mul (sb_allocated_slots s) (sb_slot_size s)"

definition drive_describe :: "drive_ref \<Rightarrow> string" where
  "drive_describe d = unwrap_or (find (\<lambda>x. x \<noteq> []) [dr_serial d, dr_wwn d, dr_path d]) ''?''"

record slab_placement =
  sp_id :: string
  sp_role :: string
  sp_tier :: string
  sp_domain :: string
  sp_drive :: drive_ref
  sp_node :: string
  sp_state :: string
  sp_array_id :: "string option"
  sp_legs :: u64
  sp_shared_legs :: u64
  sp_parity_legs :: u64
  sp_bytes :: u64

record array_member =
  am_index :: nat
  am_state :: string
  am_drive :: drive_ref
  am_node :: string

record array_placement =
  ap_id :: string
  ap_level :: string
  ap_members :: "array_member list"

record vol_placement =
  vp_slabs :: "slab_placement list"
  vp_rebuild :: string
  vp_arrays :: "array_placement list"

definition bad_slabs :: "vol_placement \<Rightarrow> nat" where
  "bad_slabs p = length (filter (\<lambda>s. sp_state s = ''failed'' \<or> sp_state s = ''missing'') (vp_slabs p))"

definition partners_down :: "vol_placement \<Rightarrow> nat" where
  "partners_down p =
     length (filter (\<lambda>m. am_state m \<noteq> ''active'' \<and> am_state m \<noteq> ''spare'') (concat (map ap_members (vp_arrays p))))"

record vol_owner =
  ow_kind :: string
  ow_namespace :: string
  ow_name :: string
  ow_uid :: "string option"

record engine_volume =
  ev_id :: string
  ev_name :: string
  ev_virtual_size_bytes :: u64
  ev_allocated_bytes :: u64
  ev_shared_bytes :: u64
  ev_parent :: "string option"
  ev_sealed :: bool
  ev_role :: string
  ev_health :: string
  ev_redundancy :: string
  ev_array_id :: "string option"
  ev_owner :: "vol_owner option"
  ev_kind :: "string option"
  ev_in_use :: "bool option"
  ev_consumer :: "vol_owner option"
  ev_placement :: "vol_placement option"

definition vol_consumer :: "engine_volume \<Rightarrow> vol_owner option" where
  "vol_consumer v = (case ev_consumer v of Some c \<Rightarrow> Some c | None \<Rightarrow> ev_owner v)"

datatype placed_by = ByEngine | BySlots | ByParent | ByRole | Unplaced

record placed_volume =
  pl_volume :: engine_volume
  pl_slabs :: "string list"
  pl_by :: placed_by

record node_inventory =
  ni_slabs :: "slab list"
  ni_volumes :: "placed_volume list"
  ni_fetched_at :: "time option"
  ni_error :: "string option"

subsection \<open>Placing\<close>

type_synonym slot_owners = "(string, string list) btree"

definition owned_slabs :: "slot_owners \<Rightarrow> string \<Rightarrow> string list option" where
  "owned_slabs owners i = filter_opt (\<lambda>s. s \<noteq> []) (bt_get owners i)"

text \<open>A map collected from the volumes: the last volume of an id is the one found.\<close>

definition volumes_by_id :: "engine_volume list \<Rightarrow> (string, engine_volume) btree" where
  "volumes_by_id vs = bt_collect (map (\<lambda>v. (ev_id v, v)) vs)"

fun parent_walk :: "nat \<Rightarrow> (string, engine_volume) btree \<Rightarrow> slot_owners \<Rightarrow> string option \<Rightarrow> string list option" where
  "parent_walk 0 by_id owners cur = None"
| "parent_walk (Suc n) by_id owners None = None"
| "parent_walk (Suc n) by_id owners (Some pid) =
     (case owned_slabs owners pid of
        Some s \<Rightarrow> Some s
      | None \<Rightarrow> parent_walk n by_id owners (Option.bind (bt_get by_id pid) ev_parent))"

definition resolve_slabs ::
  "engine_volume \<Rightarrow> (string, engine_volume) btree \<Rightarrow> slab list \<Rightarrow> slot_owners \<Rightarrow> string list \<times> placed_by" where
  "resolve_slabs v by_id slabs owners =
     (case filter_opt (\<lambda>p. vp_slabs p \<noteq> []) (ev_placement v) of
        Some p \<Rightarrow> (remdups_adj (sort (map sp_id (vp_slabs p))), ByEngine)
      | None \<Rightarrow>
          (case owned_slabs owners (ev_id v) of
             Some s \<Rightarrow> (s, BySlots)
           | None \<Rightarrow>
               (case parent_walk 64 by_id owners (ev_parent v) of
                  Some s \<Rightarrow> (s, ByParent)
                | None \<Rightarrow>
                    if ev_role v \<noteq> [] then
                      (case filter (\<lambda>s. sb_role s = ev_role v) slabs of
                         [s] \<Rightarrow> ([sb_id s], ByRole)
                       | _ \<Rightarrow> ([], Unplaced))
                    else ([], Unplaced))))"

definition place :: "slab list \<Rightarrow> engine_volume list \<Rightarrow> slot_owners \<Rightarrow> placed_volume list" where
  "place slabs vs owners =
     map (\<lambda>v. case resolve_slabs v (volumes_by_id vs) slabs owners of (ss, b) \<Rightarrow> \<lparr>pl_volume = v, pl_slabs = ss, pl_by = b\<rparr>) vs"

definition needs_slot_scan :: "engine_volume list \<Rightarrow> bool" where
  "needs_slot_scan vs = list_ex (\<lambda>v. ev_placement v = None) vs"

subsection \<open>Tiers\<close>

record tier_rollup =
  tr_tier :: string
  tr_slabs :: "string list"
  tr_nodes :: "string list"
  tr_total_bytes :: u64
  tr_free_bytes :: u64
  tr_allocated_bytes :: u64
  tr_volumes :: nat

definition volumes_on :: "node_inventory \<Rightarrow> string \<Rightarrow> placed_volume list" where
  "volumes_on nv slab_id = filter (\<lambda>v. slab_id \<in> set (pl_slabs v)) (ni_volumes nv)"

definition new_tier :: "string \<Rightarrow> tier_rollup" where
  "new_tier t = \<lparr>tr_tier = t, tr_slabs = [], tr_nodes = [], tr_total_bytes = 0, tr_free_bytes = 0, tr_allocated_bytes = 0, tr_volumes = 0\<rparr>"

definition add_slab :: "string \<Rightarrow> slab \<Rightarrow> tier_rollup \<Rightarrow> tier_rollup" where
  "add_slab node sl t =
     t\<lparr>tr_slabs := tr_slabs t @ [node @ ''/'' @ sb_id sl],
       tr_nodes := (if node \<in> set (tr_nodes t) then tr_nodes t else tr_nodes t @ [node]),
       tr_total_bytes := tr_total_bytes t + sb_total_bytes sl,
       tr_free_bytes := tr_free_bytes t + sb_free_bytes sl,
       tr_allocated_bytes := tr_allocated_bytes t + slab_allocated sl\<rparr>"

definition slab_into :: "string \<Rightarrow> (string, tier_rollup) btree \<Rightarrow> slab \<Rightarrow> (string, tier_rollup) btree" where
  "slab_into node out sl =
     bt_insert (sb_tier sl) (add_slab node sl (unwrap_or (bt_get out (sb_tier sl)) (new_tier (sb_tier sl)))) out"

text \<open>A volume on two slabs of a tier counts once.\<close>

definition count_placed ::
  "slab list \<Rightarrow> (string \<times> string) list \<times> (string, tier_rollup) btree \<Rightarrow> string \<times> string \<Rightarrow>
     (string \<times> string) list \<times> (string, tier_rollup) btree" where
  "count_placed slabs acc p =
     (case (acc, p) of ((seen, out), (vid, sid)) \<Rightarrow>
        (case find (\<lambda>s. sb_id s = sid) slabs of
           None \<Rightarrow> (seen, out)
         | Some sl \<Rightarrow>
             if (sb_tier sl, vid) \<in> set seen then (seen, out)
             else ((sb_tier sl, vid) # seen, bt_modify (sb_tier sl) (\<lambda>t. t\<lparr>tr_volumes := tr_volumes t + 1\<rparr>) out)))"

definition placements :: "node_inventory \<Rightarrow> (string \<times> string) list" where
  "placements nv = concat (map (\<lambda>v. map (\<lambda>sid. (ev_id (pl_volume v), sid)) (pl_slabs v)) (ni_volumes nv))"

definition node_into :: "(string, tier_rollup) btree \<Rightarrow> string \<times> node_inventory \<Rightarrow> (string, tier_rollup) btree" where
  "node_into out x =
     (case x of (node, nv) \<Rightarrow>
        snd (foldl (count_placed (ni_slabs nv)) ([], foldl (slab_into node) out (ni_slabs nv)) (placements nv)))"

definition tiers :: "(string, node_inventory) btree \<Rightarrow> tier_rollup list" where
  "tiers all = bt_values (foldl node_into [] all)"

subsection \<open>Lemmas\<close>

text \<open>The ancestor a number of steps up.\<close>

fun ancestor :: "(string, engine_volume) btree \<Rightarrow> nat \<Rightarrow> string option \<Rightarrow> string option" where
  "ancestor by_id 0 cur = cur"
| "ancestor by_id (Suc k) cur = ancestor by_id k (Option.bind cur (\<lambda>pid. Option.bind (bt_get by_id pid) ev_parent))"

lemma ancestor_None [simp]: "ancestor by_id k None = None"
  by (induction k) simp_all

lemma parent_walk_Some:
  "parent_walk n by_id owners cur = Some s \<longleftrightarrow>
     (\<exists>k < n. \<exists>pid. ancestor by_id k cur = Some pid \<and> owned_slabs owners pid = Some s \<and>
        (\<forall>j < k. \<forall>q. ancestor by_id j cur = Some q \<longrightarrow> owned_slabs owners q = None))"
proof (induction n by_id owners cur rule: parent_walk.induct)
  case (3 n by_id owners pid)
  show ?case
  proof (cases "owned_slabs owners pid")
    case (Some s0)
    then show ?thesis
      by (auto simp: less_Suc_eq_0_disj)
  next
    case None
    have all_up: "(\<forall>j < Suc k. P j) \<longleftrightarrow> P 0 \<and> (\<forall>j < k. P (Suc j))" for k and P :: "nat \<Rightarrow> bool"
      by (simp add: All_less_Suc2)
    have ex_up: "(\<exists>k < Suc m. P k) \<longleftrightarrow> P 0 \<or> (\<exists>k < m. P (Suc k))" for m and P :: "nat \<Rightarrow> bool"
      by (simp add: Ex_less_Suc2)
    show ?thesis
      unfolding ex_up using None 3 [OF None] by (simp add: all_up)
  qed
qed auto

lemma parent_walk_None:
  "parent_walk n by_id owners cur = None \<longleftrightarrow> (\<forall>k < n. \<forall>pid. ancestor by_id k cur = Some pid \<longrightarrow> owned_slabs owners pid = None)"
proof (induction n by_id owners cur rule: parent_walk.induct)
  case (3 n by_id owners pid)
  have up: "(\<forall>k < Suc m. P k) \<longleftrightarrow> P 0 \<and> (\<forall>k < m. P (Suc k))" for m and P :: "nat \<Rightarrow> bool"
    by (simp add: All_less_Suc2)
  show ?case unfolding up using 3 by (cases "owned_slabs owners pid") simp_all
qed auto

lemma distinct_remdups_adj: "sorted xs \<Longrightarrow> distinct (remdups_adj xs)"
  by (induction xs rule: remdups_adj.induct) (auto simp: less_le)

text \<open>Totals: what folding the slabs and the placements of one node adds to a tier.\<close>

abbreviation tier_at :: "(string, tier_rollup) btree \<Rightarrow> string \<Rightarrow> tier_rollup" where
  "tier_at out t \<equiv> unwrap_or (bt_get out t) (new_tier t)"

lemma slabs_into:
  "tier_at (foldl (slab_into node) out sls) t = foldl (\<lambda>x sl. add_slab node sl x) (tier_at out t) (filter (\<lambda>s. sb_tier s = t) sls) \<and>
     (bt_get (foldl (slab_into node) out sls) t \<noteq> None \<longleftrightarrow> bt_get out t \<noteq> None \<or> t \<in> sb_tier ` set sls)"
  by (induction sls arbitrary: out) (auto simp: slab_into_def)

lemma add_slabs:
  "tr_slabs (foldl (\<lambda>x sl. add_slab node sl x) T sls) = tr_slabs T @ map (\<lambda>s. node @ ''/'' @ sb_id s) sls"
  "tr_total_bytes (foldl (\<lambda>x sl. add_slab node sl x) T sls) = tr_total_bytes T + sum_list (map sb_total_bytes sls)"
  "tr_free_bytes (foldl (\<lambda>x sl. add_slab node sl x) T sls) = tr_free_bytes T + sum_list (map sb_free_bytes sls)"
  "tr_allocated_bytes (foldl (\<lambda>x sl. add_slab node sl x) T sls) = tr_allocated_bytes T + sum_list (map slab_allocated sls)"
  "tr_volumes (foldl (\<lambda>x sl. add_slab node sl x) T sls) = tr_volumes T"
  "tr_tier (foldl (\<lambda>x sl. add_slab node sl x) T sls) = tr_tier T"
  by (induction sls arbitrary: T) (simp_all add: add_slab_def add.assoc)

definition tier_of_slab :: "slab list \<Rightarrow> string \<Rightarrow> string option" where
  "tier_of_slab slabs sid = map_option sb_tier (find (\<lambda>s. sb_id s = sid) slabs)"

lemma tier_of_slab_in: "tier_of_slab slabs sid = Some t \<Longrightarrow> t \<in> sb_tier ` set slabs"
  by (auto simp: tier_of_slab_def find_Some_iff)

text \<open>The volumes of the placements counted for a tier, without those seen.\<close>

definition counted :: "slab list \<Rightarrow> string \<Rightarrow> (string \<times> string) list \<Rightarrow> string set" where
  "counted slabs t ps = {vid. \<exists>sid. (vid, sid) \<in> set ps \<and> tier_of_slab slabs sid = Some t}"

lemma finite_counted [simp]: "finite (counted slabs t ps)"
  by (rule finite_subset [of _ "fst ` set ps"]) (force simp: counted_def)+

lemma counted_Cons: "counted slabs t ((vid, sid) # ps) = (if tier_of_slab slabs sid = Some t then insert vid (counted slabs t ps) else counted slabs t ps)"
  by (auto simp: counted_def)

lemma count_placed_step:
  "count_placed slabs (seen, out) (vid, sid) =
     (case tier_of_slab slabs sid of
        None \<Rightarrow> (seen, out)
      | Some t \<Rightarrow> if (t, vid) \<in> set seen then (seen, out)
                   else ((t, vid) # seen, bt_modify t (\<lambda>x. x\<lparr>tr_volumes := tr_volumes x + 1\<rparr>) out))"
  by (auto simp: count_placed_def tier_of_slab_def split: option.split)

lemma counting:
  assumes "\<forall>t \<in> sb_tier ` set slabs. bt_get out t \<noteq> None"
  shows "bt_get (snd (foldl (count_placed slabs) (seen, out) ps)) t =
     map_option (\<lambda>x. x\<lparr>tr_volumes := tr_volumes x + card (counted slabs t ps - {vid. (t, vid) \<in> set seen})\<rparr>) (bt_get out t)"
  using assms
proof (induction ps arbitrary: seen out)
  case Nil
  show ?case by (cases "bt_get out t") (simp_all add: counted_def)
next
  case (Cons p ps)
  obtain vid sid where p: "p = (vid, sid)" by fastforce
  show ?case
  proof (cases "tier_of_slab slabs sid")
    case None
    then show ?thesis using Cons unfolding p by (simp add: count_placed_step counted_Cons)
  next
    case (Some u)
    show ?thesis
    proof (cases "(u, vid) \<in> set seen")
      case True
      then have "counted slabs t (p # ps) - {vid. (t, vid) \<in> set seen} = counted slabs t ps - {vid. (t, vid) \<in> set seen}"
        using Some by (auto simp: p counted_Cons)
      then show ?thesis using Cons True Some unfolding p by (simp add: count_placed_step)
    next
      case False
      let ?out = "bt_modify u (\<lambda>x. x\<lparr>tr_volumes := tr_volumes x + 1\<rparr>) out"
      have ih: "bt_get (snd (foldl (count_placed slabs) ((u, vid) # seen, ?out) ps)) t =
          map_option (\<lambda>x. x\<lparr>tr_volumes := tr_volumes x + card (counted slabs t ps - {w. (t, w) \<in> set ((u, vid) # seen)})\<rparr>) (bt_get ?out t)"
      proof (intro Cons.IH ballI)
        fix x
        assume "x \<in> sb_tier ` set slabs"
        with Cons.prems have "bt_get out x \<noteq> None" by blast
        then show "bt_get ?out x \<noteq> None" by auto
      qed
      have "card (counted slabs t (p # ps) - {w. (t, w) \<in> set seen}) =
          (if t = u then 1 else 0) + card (counted slabs t ps - {w. (t, w) \<in> set ((u, vid) # seen)})"
      proof (cases "t = u")
        case True
        then have "counted slabs t (p # ps) - {w. (t, w) \<in> set seen} =
            insert vid (counted slabs t ps - {w. (t, w) \<in> set ((u, vid) # seen)})"
          using Some False by (auto simp: p counted_Cons)
        then show ?thesis using True by simp
      next
        case nu: False
        then have "counted slabs t (p # ps) - {w. (t, w) \<in> set seen} = counted slabs t ps - {w. (t, w) \<in> set ((u, vid) # seen)}"
          using Some by (auto simp: p counted_Cons)
        then show ?thesis using nu by simp
      qed
      then show ?thesis using ih Some False unfolding p by (cases "bt_get out t") (auto simp: count_placed_step)
    qed
  qed
qed

definition slabs_of_tier :: "string \<Rightarrow> node_inventory \<Rightarrow> slab list" where
  "slabs_of_tier t nv = filter (\<lambda>s. sb_tier s = t) (ni_slabs nv)"

abbreviation volumes_of_tier :: "string \<Rightarrow> node_inventory \<Rightarrow> string set" where
  "volumes_of_tier t nv \<equiv> counted (ni_slabs nv) t (placements nv)"

lemma node_into_at:
  "tier_at (node_into out (node, nv)) t =
     (let T = foldl (\<lambda>x sl. add_slab node sl x) (tier_at out t) (slabs_of_tier t nv)
      in T\<lparr>tr_volumes := tr_volumes T + card (volumes_of_tier t nv)\<rparr>)"
  "bt_get (node_into out (node, nv)) t \<noteq> None \<longleftrightarrow> bt_get out t \<noteq> None \<or> slabs_of_tier t nv \<noteq> []"
proof -
  let ?out = "foldl (slab_into node) out (ni_slabs nv)"
  have "\<forall>t \<in> sb_tier ` set (ni_slabs nv). bt_get ?out t \<noteq> None" using slabs_into by blast
  from counting [OF this, of "[]" "placements nv" t]
  have c: "bt_get (node_into out (node, nv)) t = map_option (\<lambda>x. x\<lparr>tr_volumes := tr_volumes x + card (volumes_of_tier t nv)\<rparr>) (bt_get ?out t)"
    by (simp add: node_into_def)
  have none: "volumes_of_tier t nv = {}" if "bt_get ?out t = None"
    using that tier_of_slab_in slabs_into [of node out "ni_slabs nv" t] by (fastforce simp: counted_def)
  show "tier_at (node_into out (node, nv)) t =
     (let T = foldl (\<lambda>x sl. add_slab node sl x) (tier_at out t) (slabs_of_tier t nv)
      in T\<lparr>tr_volumes := tr_volumes T + card (volumes_of_tier t nv)\<rparr>)"
    using c none slabs_into [of node out "ni_slabs nv" t]
    by (cases "bt_get ?out t") (auto simp: Let_def slabs_of_tier_def)
  show "bt_get (node_into out (node, nv)) t \<noteq> None \<longleftrightarrow> bt_get out t \<noteq> None \<or> slabs_of_tier t nv \<noteq> []"
    using c slabs_into [of node out "ni_slabs nv" t] by (auto simp: slabs_of_tier_def filter_empty_conv)
qed

text \<open>All nodes: the fold adds node by node.\<close>

lemma nodes_into:
  "tr_slabs (tier_at (foldl node_into out all) t) =
     tr_slabs (tier_at out t) @ concat (map (\<lambda>(node, nv). map (\<lambda>s. node @ ''/'' @ sb_id s) (slabs_of_tier t nv)) all)"
  "tr_total_bytes (tier_at (foldl node_into out all) t) =
     tr_total_bytes (tier_at out t) + (\<Sum>(node, nv) \<leftarrow> all. sum_list (map sb_total_bytes (slabs_of_tier t nv)))"
  "tr_free_bytes (tier_at (foldl node_into out all) t) =
     tr_free_bytes (tier_at out t) + (\<Sum>(node, nv) \<leftarrow> all. sum_list (map sb_free_bytes (slabs_of_tier t nv)))"
  "tr_allocated_bytes (tier_at (foldl node_into out all) t) =
     tr_allocated_bytes (tier_at out t) + (\<Sum>(node, nv) \<leftarrow> all. sum_list (map slab_allocated (slabs_of_tier t nv)))"
  "tr_volumes (tier_at (foldl node_into out all) t) =
     tr_volumes (tier_at out t) + (\<Sum>(node, nv) \<leftarrow> all. card (volumes_of_tier t nv))"
  "tr_tier (tier_at (foldl node_into out all) t) = tr_tier (tier_at out t)"
  by (induction all arbitrary: out) (simp_all add: split_beta node_into_at(1) [of _ "fst x" "snd x" for x, simplified] Let_def add_slabs add.assoc)

lemma nodes_into_keys:
  "bt_get (foldl node_into out all) t \<noteq> None \<longleftrightarrow> bt_get out t \<noteq> None \<or> (\<exists>(node, nv) \<in> set all. slabs_of_tier t nv \<noteq> [])"
  by (induction all arbitrary: out) (auto simp: node_into_at(2) [of _ "fst x" "snd x" for x, simplified] split_beta)

lemma bt_ok_nodes: "bt_ok out \<Longrightarrow> bt_ok (foldl node_into out all)"
proof -
  have "bt_ok out \<Longrightarrow> bt_ok (foldl (slab_into node) out sls)" for node out sls
    by (induction sls arbitrary: out) (simp_all add: slab_into_def bt_insert_ok)
  moreover have "bt_ok out \<Longrightarrow> bt_ok (snd (foldl (count_placed sls) (seen, out) ps))" for sls seen out ps
    by (induction ps arbitrary: seen out) (auto simp: count_placed_step split: option.split)
  ultimately have "bt_ok out \<Longrightarrow> bt_ok (node_into out x)" for out x
    by (simp add: node_into_def split_beta)
  then show "bt_ok out \<Longrightarrow> bt_ok (foldl node_into out all)"
    by (induction all arbitrary: out) simp_all
qed

subsection \<open>Properties\<close>

text \<open>Which source knows where a volume lies.\<close>

definition engine_knows :: "engine_volume \<Rightarrow> bool" where
  "engine_knows v \<longleftrightarrow> (\<exists>q. ev_placement v = Some q \<and> vp_slabs q \<noteq> [])"

definition ancestor_knows :: "slot_owners \<Rightarrow> engine_volume list \<Rightarrow> engine_volume \<Rightarrow> bool" where
  "ancestor_knows owners vs v \<longleftrightarrow>
     (\<exists>k < 64. \<exists>pid. ancestor (volumes_by_id vs) k (ev_parent v) = Some pid \<and> owned_slabs owners pid \<noteq> None)"

definition role_knows :: "slab list \<Rightarrow> engine_volume \<Rightarrow> bool" where
  "role_knows slabs v \<longleftrightarrow> ev_role v \<noteq> [] \<and> length (filter (\<lambda>s. sb_role s = ev_role v) slabs) = 1"

text \<open>Property C40. A volume is placed by the first of the sources that knows, in this order: its engine, when it names a slab;
  its slots; its nearest ancestor with slots, at most 64 up, so a cycle of parents ends; the one slab of its role, when
  there is exactly one; otherwise it stays unplaced, never guessed. Each source gives exactly the slabs it names.\<close>

theorem place_sources:
  assumes "p \<in> set (place slabs vs owners)"
  shows "pl_volume p \<in> set vs \<and>
    pl_by p = (if engine_knows (pl_volume p) then ByEngine
      else if owned_slabs owners (ev_id (pl_volume p)) \<noteq> None then BySlots
      else if ancestor_knows owners vs (pl_volume p) then ByParent
      else if role_knows slabs (pl_volume p) then ByRole else Unplaced) \<and>
    (case pl_by p of
       ByEngine \<Rightarrow> \<exists>q. ev_placement (pl_volume p) = Some q \<and>
         sorted (pl_slabs p) \<and> distinct (pl_slabs p) \<and> set (pl_slabs p) = sp_id ` set (vp_slabs q)
     | BySlots \<Rightarrow> owned_slabs owners (ev_id (pl_volume p)) = Some (pl_slabs p)
     | ByParent \<Rightarrow>
         (\<exists>k < 64. \<exists>pid. ancestor (volumes_by_id vs) k (ev_parent (pl_volume p)) = Some pid \<and>
            owned_slabs owners pid = Some (pl_slabs p) \<and>
            (\<forall>j < k. \<forall>q. ancestor (volumes_by_id vs) j (ev_parent (pl_volume p)) = Some q \<longrightarrow> owned_slabs owners q = None))
     | ByRole \<Rightarrow> map sb_id (filter (\<lambda>s. sb_role s = ev_role (pl_volume p)) slabs) = pl_slabs p
     | Unplaced \<Rightarrow> pl_slabs p = [])"
proof -
  from assms obtain v where v: "v \<in> set vs" "pl_volume p = v" "resolve_slabs v (volumes_by_id vs) slabs owners = (pl_slabs p, pl_by p)"
    by (auto simp: place_def split: prod.splits)
  let ?walk = "parent_walk 64 (volumes_by_id vs) owners (ev_parent v)"
  have sets: "sorted (remdups_adj (sort xs)) \<and> distinct (remdups_adj (sort xs)) \<and> set (remdups_adj (sort xs)) = set xs" for xs :: "string list"
    using distinct_remdups_adj [of "sort xs"] by (simp add: sorted_remdups_adj)
  show ?thesis
  proof (cases "filter_opt (\<lambda>p. vp_slabs p \<noteq> []) (ev_placement v)")
    case (Some q)
    with v sets [of "map sp_id (vp_slabs q)"] show ?thesis by (auto simp: resolve_slabs_def engine_knows_def)
  next
    case eng: None
    then have not_eng: "\<not> engine_knows v" by (auto simp: engine_knows_def filter_opt_def split: option.splits if_splits)
    show ?thesis
    proof (cases "owned_slabs owners (ev_id v)")
      case (Some s)
      with v eng not_eng show ?thesis by (auto simp: resolve_slabs_def)
    next
      case slots: None
      show ?thesis
      proof (cases ?walk)
        case (Some s)
        with v eng slots have "pl_by p = ByParent" "pl_slabs p = s" by (auto simp: resolve_slabs_def)
        moreover note walk = parent_walk_Some [THEN iffD1, OF Some]
        moreover from walk have "ancestor_knows owners vs v" unfolding ancestor_knows_def by force
        ultimately show ?thesis using v slots not_eng by simp
      next
        case None
        have "\<not> ancestor_knows owners vs v"
          using parent_walk_None [of 64 "volumes_by_id vs" owners "ev_parent v"] None by (auto simp: ancestor_knows_def)
        moreover from v eng slots None have "(pl_slabs p, pl_by p) =
            (if ev_role v \<noteq> [] then (case filter (\<lambda>s. sb_role s = ev_role v) slabs of [s] \<Rightarrow> ([sb_id s], ByRole) | _ \<Rightarrow> ([], Unplaced))
             else ([], Unplaced))" by (simp add: resolve_slabs_def)
        ultimately show ?thesis using v slots not_eng
          by (auto simp: role_knows_def split: if_splits list.splits)
      qed
    qed
  qed
qed

text \<open>The tiers are exactly those of the nodes' slabs, one entry each; an entry lists and sums every slab of its
  tier once, and counts each volume of a node once however many of its slabs are in the tier.\<close>

theorem tiers_totals:
  assumes "T \<in> set (tiers all)"
  shows "(\<exists>(node, nv) \<in> set all. slabs_of_tier (tr_tier T) nv \<noteq> []) \<and> distinct (map tr_tier (tiers all)) \<and>
    tr_slabs T = concat (map (\<lambda>(node, nv). map (\<lambda>s. node @ ''/'' @ sb_id s) (slabs_of_tier (tr_tier T) nv)) all) \<and>
    tr_total_bytes T = (\<Sum>(node, nv) \<leftarrow> all. sum_list (map sb_total_bytes (slabs_of_tier (tr_tier T) nv))) \<and>
    tr_free_bytes T = (\<Sum>(node, nv) \<leftarrow> all. sum_list (map sb_free_bytes (slabs_of_tier (tr_tier T) nv))) \<and>
    tr_volumes T = (\<Sum>(node, nv) \<leftarrow> all. card (volumes_of_tier (tr_tier T) nv))"
proof -
  let ?out = "foldl node_into [] all"
  have ok: "bt_ok ?out" by (rule bt_ok_nodes) simp
  have tier: "tr_tier x = t" if "(t, x) \<in> set ?out" for t x
    using that bt_value_iff [OF ok] nodes_into(6) [of "[]" all t] by (simp add: new_tier_def)
  from assms obtain t where t: "(t, T) \<in> set ?out" by (auto simp: tiers_def)
  then have get: "bt_get ?out t = Some T" using bt_value_iff [OF ok] by blast
  have tt: "tr_tier T = t" by (rule tier [OF t])
  have "map tr_tier (tiers all) = map fst ?out" using tier by (auto simp: tiers_def)
  with bt_ok_distinct [OF ok] have "distinct (map tr_tier (tiers all))" by simp
  moreover have "\<exists>(node, nv) \<in> set all. slabs_of_tier t nv \<noteq> []" using get nodes_into_keys [of "[]" all t] by simp
  ultimately show ?thesis
    using nodes_into [of "[]" all t] get unfolding tt by (simp add: new_tier_def)
qed

subsection \<open>Witnesses\<close>

text \<open>A node with one slab, a golden volume on it and a clone that owns no slot.\<close>

definition wit_slab :: slab where
  "wit_slab = \<lparr>sb_id = ''s1'', sb_tier = ''hot'', sb_role = ''data'', sb_domain = [], sb_drive = None, sb_slot_size = 1,
     sb_total_slots = 9, sb_free_slots = 4, sb_allocated_slots = 5, sb_total_bytes = 9, sb_free_bytes = 4\<rparr>"

definition wit_engine_volume :: "string \<Rightarrow> string option \<Rightarrow> engine_volume" where
  "wit_engine_volume i p = \<lparr>ev_id = i, ev_name = i, ev_virtual_size_bytes = 3, ev_allocated_bytes = 0, ev_shared_bytes = 0, ev_parent = p,
     ev_sealed = False, ev_role = [], ev_health = [], ev_redundancy = [], ev_array_id = None, ev_owner = None, ev_kind = None,
     ev_in_use = None, ev_consumer = None, ev_placement = None\<rparr>"

definition wit_placed :: "placed_volume list" where
  "wit_placed = place [wit_slab] [wit_engine_volume ''g'' None, wit_engine_volume ''c'' (Some ''g'')] [(''g'', [''s1''])]"

definition wit_inventory :: node_inventory where
  "wit_inventory = \<lparr>ni_slabs = [wit_slab], ni_volumes = wit_placed, ni_fetched_at = None, ni_error = None\<rparr>"

lemma place_sources_witness:
  "pl_by (wit_placed ! 1) = ByParent \<and>
     (\<exists>k < 64. \<exists>pid. ancestor (volumes_by_id [wit_engine_volume ''g'' None, wit_engine_volume ''c'' (Some ''g'')]) k (Some ''g'') = Some pid \<and>
        owned_slabs [(''g'', [''s1''])] pid = Some [''s1''])"
proof -
  have b: "map pl_by wit_placed = [BySlots, ByParent]" "map pl_slabs wit_placed = [[''s1''], [''s1'']]"
      "map (ev_parent \<circ> pl_volume) wit_placed = [None, Some ''g'']" by code_simp+
  then have len: "length wit_placed = 2" using length_map by (metis length_Cons list.size(3) numeral_2_eq_2)
  have n: "pl_by (wit_placed ! 1) = ByParent" "pl_slabs (wit_placed ! 1) = [''s1'']" "ev_parent (pl_volume (wit_placed ! 1)) = Some ''g''"
    using b len by (auto simp: list_eq_iff_nth_eq)
  have "wit_placed ! 1 \<in> set wit_placed" using len by simp
  note p = place_sources [OF this [unfolded wit_placed_def], folded wit_placed_def, THEN conjunct2, THEN conjunct2]
  show ?thesis using p [unfolded n placed_by.case] n(1) by blast
qed

lemma tiers_totals_witness:
  "map tr_tier (tiers [(''n'', wit_inventory)]) = [''hot''] \<and> distinct (map tr_tier (tiers [(''n'', wit_inventory)])) \<and>
     map tr_slabs (tiers [(''n'', wit_inventory)]) = [[''n/s1'']]"
proof -
  have t: "map tr_tier (tiers [(''n'', wit_inventory)]) = [''hot'']" by code_simp
  then obtain T where T: "tiers [(''n'', wit_inventory)] = [T]" "tr_tier T = ''hot''" by auto
  have "T \<in> set (tiers [(''n'', wit_inventory)])" using T(1) by simp
  from tiers_totals [OF this] T t show ?thesis by (simp add: slabs_of_tier_def wit_inventory_def wit_slab_def)
qed

end
