(* ===== verification/Engine.thy ===== *)
theory Engine
  imports Model Json Inventory
begin

section \<open>The engine client\<close>

text \<open>
  Models \<open>src/engine.rs\<close>: the client of one stormblock engine's management API. The engine and the
  HTTP library are outside the repository, so what a request is answered is the parameter \<open>wire\<close>:
  \<open>wi_send\<close> takes the request and the outside world and gives the transport's error or a response,
  with the world after it; \<open>wi_volume\<close> is the derived decoder of an engine volume. Every method is a
  function of the engine handle and the world, \<open>anyhow::Result\<close> a sum. Timeouts and TLS set-up stay
  in the parameter.
\<close>

datatype http_method = GET | POST | PUT | PATCH | DELETE

record request =
  rq_method :: http_method
  rq_url :: string
  rq_auth :: "string option"
  rq_query :: "(string \<times> string) list"
  rq_body :: "json option"

text \<open>A response: its status code, the status as it prints, and the body when it is JSON.\<close>

record response =
  rs_status :: nat
  rs_status_text :: string
  rs_json :: "json option"

text \<open>Errors. \<open>HttpStatus\<close> and \<open>Refused\<close> are the typed errors of the source; \<open>StatusError\<close> is what
  \<open>error_for_status\<close> gives; \<open>Bail\<close>, \<open>BailJson\<close> and \<open>BailErr\<close> are \<open>bail!\<close>, 
  with a value or another error in its text for the last two.\<close>

datatype engine_error =
    Transport string
  | StatusError nat
  | BadBody
  | HttpStatus string nat string
  | Refused nat string
  | Bail string
  | BailJson string json
  | BailErr string engine_error

record 'w wire =
  wi_send :: "request \<Rightarrow> 'w \<Rightarrow> (string + response) \<times> 'w"
  wi_volume :: "json \<Rightarrow> engine_volume option"

record engine =
  eg_url :: string
  eg_token :: "string option"
  eg_admin :: "string option"

type_synonym ('w, 'a) io = "'w \<Rightarrow> (engine_error + 'a) \<times> 'w"

text \<open>The operator \<open>?\<close>: the first error is the result.\<close>

definition attempt :: "('w, 'a) io \<Rightarrow> ('a \<Rightarrow> ('w, 'b) io) \<Rightarrow> ('w, 'b) io" where
  "attempt m k = (\<lambda>w. case m w of (Inl e, w') \<Rightarrow> (Inl e, w') | (Inr a, w') \<Rightarrow> k a w')"

definition io_ok :: "'a \<Rightarrow> ('w, 'a) io" where
  "io_ok a = (\<lambda>w. (Inr a, w))"

definition io_err :: "engine_error \<Rightarrow> ('w, 'a) io" where
  "io_err e = (\<lambda>w. (Inl e, w))"

definition io_of :: "engine_error + 'a \<Rightarrow> ('w, 'a) io" where
  "io_of r = (\<lambda>w. (r, w))"

definition ok_or :: "'a option \<Rightarrow> engine_error \<Rightarrow> ('w, 'a) io" where
  "ok_or x e = (case x of None \<Rightarrow> io_err e | Some a \<Rightarrow> io_ok a)"

definition status_of :: "engine_error \<Rightarrow> nat option" where
  "status_of e = (case e of HttpStatus _ st _ \<Rightarrow> Some st | _ \<Rightarrow> None)"

definition is_not_found :: "engine_error \<Rightarrow> bool" where
  "is_not_found e = (status_of e = Some 404)"

definition is_refused :: "engine_error \<Rightarrow> bool" where
  "is_refused e = (case e of Refused _ _ \<Rightarrow> True | _ \<Rightarrow> False)"

abbreviation is_success :: "response \<Rightarrow> bool" where
  "is_success r \<equiv> 200 \<le> rs_status r \<and> rs_status r < 300"

subsection \<open>Requests\<close>

text \<open>\<open>trim_end_matches('/')\<close>, and \<open>with_admin\<close>'s filter of blank credentials.\<close>

definition trim_end_slash :: "string \<Rightarrow> string" where
  "trim_end_slash u = rev (dropWhile (\<lambda>c. c = CHR ''/'') (rev u))"

definition new_engine :: "string \<Rightarrow> string option \<Rightarrow> engine" where
  "new_engine url token = \<lparr>eg_url = trim_end_slash url, eg_token = token, eg_admin = None\<rparr>"

definition with_admin :: "engine \<Rightarrow> string option \<Rightarrow> engine" where
  "with_admin e admin = e\<lparr>eg_admin := filter_opt (\<lambda>t. \<not> list_all ascii_whitespace t) admin\<rparr>"

definition bearer :: "string option \<Rightarrow> string option" where
  "bearer t = filter_opt (\<lambda>t. t \<noteq> []) t"

definition send :: "'w wire \<Rightarrow> request \<Rightarrow> ('w, response) io" where
  "send wr q = (\<lambda>w. case wi_send wr q w of
      (Inl t, w') \<Rightarrow> (Inl (Transport t), w')
    | (Inr r, w') \<Rightarrow> (Inr r, w'))"

definition get :: "engine \<Rightarrow> string \<Rightarrow> request" where
  "get e path = \<lparr>rq_method = GET, rq_url = eg_url e @ path, rq_auth = bearer (eg_token e),
                 rq_query = [], rq_body = None\<rparr>"

definition req :: "engine \<Rightarrow> http_method \<Rightarrow> string \<Rightarrow> request" where
  "req e m path = \<lparr>rq_method = m, rq_url = eg_url e @ path, rq_auth = bearer (eg_token e),
                   rq_query = [], rq_body = None\<rparr>"

definition admin_req :: "engine \<Rightarrow> http_method \<Rightarrow> string \<Rightarrow> request" where
  "admin_req e m path =
     \<lparr>rq_method = m, rq_url = eg_url e @ path,
      rq_auth = bearer (case eg_admin e of Some t \<Rightarrow> Some t | None \<Rightarrow> eg_token e),
      rq_query = [], rq_body = None\<rparr>"

definition check_refused :: "response \<Rightarrow> string \<Rightarrow> ('w, unit) io" where
  "check_refused r path =
     (if rs_status r = 401 \<or> rs_status r = 403 then io_err (Refused (rs_status r) path) else io_ok ())"

text \<open>\<open>Response::error_for_status\<close> (4xx and 5xx) and \<open>Response::json\<close>.\<close>

definition error_for_status :: "response \<Rightarrow> ('w, response) io" where
  "error_for_status r =
     (if 400 \<le> rs_status r \<and> rs_status r < 600 then io_err (StatusError (rs_status r)) else io_ok r)"

definition body_json :: "response \<Rightarrow> ('w, json) io" where
  "body_json r = ok_or (rs_json r) BadBody"

abbreviation body_or_null :: "response \<Rightarrow> json" where
  "body_or_null r \<equiv> unwrap_or (rs_json r) JNull"

definition or_else :: "'a option \<Rightarrow> 'a option \<Rightarrow> 'a option" where
  "or_else x y = (case x of None \<Rightarrow> y | Some a \<Rightarrow> Some a)"

definition read_post :: "string \<Rightarrow> response \<Rightarrow> ('w, json) io" where
  "read_post path r =
     (let out = body_or_null r in
      if \<not> is_success r
      then io_err (HttpStatus path (rs_status r)
             (unwrap_or (Option.bind (or_else (jget ''message'' out) (jget ''error'' out)) as_str) ''no message''))
      else io_ok out)"

definition with_body :: "request \<Rightarrow> json \<Rightarrow> request" where
  "with_body q b = q\<lparr>rq_body := Some b\<rparr>"

definition post_json :: "'w wire \<Rightarrow> request \<Rightarrow> string \<Rightarrow> json \<Rightarrow> ('w, json) io" where
  "post_json wr q path body = attempt (send wr (with_body q body)) (read_post path)"

definition v1_post :: "'w wire \<Rightarrow> engine \<Rightarrow> string \<Rightarrow> json \<Rightarrow> ('w, json) io" where
  "v1_post wr e path body = post_json wr (req e POST path) path body"

definition admin_send :: "'w wire \<Rightarrow> engine \<Rightarrow> http_method \<Rightarrow> string \<Rightarrow> json option \<Rightarrow> ('w, response) io" where
  "admin_send wr e m path body =
     attempt (send wr ((admin_req e m path)\<lparr>rq_body := body\<rparr>)) (\<lambda>r.
       if (rs_status r = 401 \<or> rs_status r = 403) \<and> eg_admin e \<noteq> None \<and> eg_admin e \<noteq> eg_token e
       then send wr ((req e m path)\<lparr>rq_body := body\<rparr>)
       else io_ok r)"

definition admin_post :: "'w wire \<Rightarrow> engine \<Rightarrow> string \<Rightarrow> json \<Rightarrow> ('w, json) io" where
  "admin_post wr e path body = attempt (admin_send wr e POST path (Some body)) (read_post path)"

definition fetch :: "'w wire \<Rightarrow> engine \<Rightarrow> string \<Rightarrow> ('w, json) io" where
  "fetch wr e path = attempt (send wr (get e path)) (\<lambda>r. attempt (error_for_status r) body_json)"

text \<open>A call answered by its status alone: success and 404 are both done.\<close>

definition gone_ok :: "string \<Rightarrow> response \<Rightarrow> ('w, unit) io" where
  "gone_ok what r =
     (if \<not> is_success r \<and> rs_status r \<noteq> 404 then io_err (Bail (what @ '': '' @ rs_status_text r)) else io_ok ())"

definition admin_hint :: "nat \<Rightarrow> string" where
  "admin_hint st =
     (if st = 401 \<or> st = 403
      then [CHR '' '', CHR 0xE2, CHR 0x80, CHR 0x94] @
           '' a destructive verb (stormblock#274) needs the engine's admin token '' @
           ''($STORMBLOCK_ADMIN_TOKEN or [local] admin_token_file) or a [kubernetes] bearer bound to storage-admin''
      else [])"

abbreviation num :: "u64 \<Rightarrow> json" where
  "num n \<equiv> JInt (uint n)"

subsection \<open>Methods\<close>

definition first_capacity_object :: "json \<Rightarrow> json option" where
  "first_capacity_object v =
     (case v of
        JObj _ \<Rightarrow>
          if jget ''total_bytes'' v \<noteq> None \<or> jget ''free_bytes'' v \<noteq> None then Some v
          else (case jget ''nodes'' v of
              Some (JArr (x # _)) \<Rightarrow> if is_object x then Some x else None
            | _ \<Rightarrow> None)
      | JArr (x # _) \<Rightarrow> if is_object x then Some x else None
      | _ \<Rightarrow> None)"

record node_capacity =
  cp_total_bytes :: u64
  cp_free_bytes :: u64
  cp_topology :: "(string, string) btree"

fun object_entries :: "json \<Rightarrow> (string \<times> json) list" where
  "object_entries (JObj kvs) = kvs"
| "object_entries _ = []"

definition capacity_of :: "json \<Rightarrow> node_capacity" where
  "capacity_of obj =
     \<lparr>cp_total_bytes = unwrap_or (get_u64 ''total_bytes'' obj) 0,
      cp_free_bytes = unwrap_or (get_u64 ''free_bytes'' obj) 0,
      cp_topology = bt_collect (List.map_filter (\<lambda>(k, v). map_option (Pair k) (as_str v))
        (object_entries (unwrap_or (jget ''topology'' obj) JNull)))\<rparr>"

definition capacity :: "'w wire \<Rightarrow> engine \<Rightarrow> ('w, node_capacity) io" where
  "capacity wr e =
     attempt (send wr (get e ''/v1/nodes/capacity'')) (\<lambda>r.
     attempt (check_refused r ''/v1/nodes/capacity'') (\<lambda>_.
     attempt (error_for_status r) (\<lambda>r.
     attempt (body_json r) (\<lambda>v.
     attempt (ok_or (first_capacity_object v) (BailJson ''unrecognized capacity shape: '' v)) (\<lambda>obj.
     io_ok (capacity_of obj))))))"

definition create_volume :: "'w wire \<Rightarrow> engine \<Rightarrow> string \<Rightarrow> u64 \<Rightarrow> u64 option \<Rightarrow> ('w, json) io" where
  "create_volume wr e name sz extent_size_bytes =
     attempt (send wr (with_body (req e POST ''/v1/volumes'') (JObj (
       [(''name'', JStr name), (''size_bytes'', num sz), (''replica_tier'', JObj [(''slaves'', JInt 0)])] @
       (case extent_size_bytes of None \<Rightarrow> [] | Some x \<Rightarrow> [(''extent_size_bytes'', num x)]))))) (\<lambda>r.
     let body = body_or_null r in
     if \<not> is_success r
     then io_err (Bail (''create '' @ name @ '': '' @ rs_status_text r @ '': '' @
            unwrap_or (get_str ''message'' body) ''no message''))
     else io_ok body)"

text \<open>\<open>map_err\<close> with a text: the error is no longer a typed one.\<close>

definition map_err :: "(engine_error \<Rightarrow> engine_error) \<Rightarrow> ('w, 'a) io \<Rightarrow> ('w, 'a) io" where
  "map_err f m = (\<lambda>w. case m w of (Inl e, w') \<Rightarrow> (Inl (f e), w') | (Inr a, w') \<Rightarrow> (Inr a, w'))"

definition create_pinned_volume :: "'w wire \<Rightarrow> engine \<Rightarrow> string \<Rightarrow> u64 \<Rightarrow> string \<Rightarrow> ('w, json) io" where
  "create_pinned_volume wr e name sz array_id =
     map_err (BailErr (''create '' @ name @ '' on array '' @ array_id @ '': ''))
       (v1_post wr e ''/v1/volumes'' (JObj
         [(''name'', JStr name), (''size_bytes'', num sz), (''replica_tier'', JObj [(''slaves'', JInt 0)]),
          (''placement'', JObj [(''array_id'', JStr array_id)])]))"

definition valid_extent_size :: "u64 \<Rightarrow> bool" where
  "valid_extent_size n = (n \<ge> 4096 \<and> list_ex (\<lambda>k. n = 2 ^ k) [0..<64])"

definition master_node_of :: "json \<Rightarrow> string option" where
  "master_node_of v =
     Option.bind (Option.bind (jget ''replicas'' v) as_array) (\<lambda>rs.
     Option.bind (find (\<lambda>r. get_str ''role'' r = Some ''master'') rs) (get_str ''node''))"

text \<open>The host of the engine's URL: the scheme off, up to the first \<open>:\<close> or \<open>/\<close>.\<close>

lemma strip_shorter: "p \<noteq> [] \<Longrightarrow> take (length p) s = p \<Longrightarrow> length s - length p < length s"
  by (cases s) auto

function strip_all :: "string \<Rightarrow> string \<Rightarrow> string" where
  "strip_all p s = (if p \<noteq> [] \<and> take (length p) s = p then strip_all p (drop (length p) s) else s)"
  by auto
termination
  by (relation "measure (\<lambda>(p, s). length s)") (auto simp: strip_shorter)

declare strip_all.simps [simp del]

definition host :: "engine \<Rightarrow> string" where
  "host e = takeWhile (\<lambda>c. c \<noteq> CHR '':'' \<and> c \<noteq> CHR ''/'')
     (strip_all ''https://'' (strip_all ''http://'' (eg_url e)))"

definition parse_attach :: "engine \<Rightarrow> string \<Rightarrow> json \<Rightarrow> ('w, attached_leg) io" where
  "parse_attach e vid v =
     (case get_str ''transport'' v of
        Some t \<Rightarrow>
          if t = ''nvme_tcp'' then
            attempt (ok_or (Option.bind (Option.bind (jget ''addresses'' v) as_array)
                      (\<lambda>a. case a of [] \<Rightarrow> None | x # _ \<Rightarrow> Some x))
                    (BailJson (''attach '' @ vid @ '': no addresses in '') v)) (\<lambda>addr.
            let traddr = unwrap_or (get_str ''traddr'' addr) [];
                trsvcid = ucast (unwrap_or (get_u64 ''trsvcid'' addr) 4420);
                traddr = (if traddr = [] \<or> traddr = ''0.0.0.0'' \<or> traddr = ''::'' then host e else traddr)
            in attempt (ok_or (get_u64 ''nsid'' v) (Bail (''attach '' @ vid @ '': engine returned no nsid''))) (\<lambda>nsid.
               io_ok \<lparr>a_nqn = unwrap_or (get_str ''nqn'' v) [], a_traddr = traddr, a_trsvcid = trsvcid,
                      a_nsid = ucast nsid, a_host_nqn = None\<rparr>))
          else if t = ''ublk'' then io_err (Bail (''attach '' @ vid @ '': engine offered a local ublk device''))
          else io_err (BailJson (''attach '' @ vid @ '': unexpected transport in '') v)
      | None \<Rightarrow> io_err (BailJson (''attach '' @ vid @ '': unexpected transport in '') v))"

definition attach_leg ::
  "'w wire \<Rightarrow> engine \<Rightarrow> string \<Rightarrow> string \<Rightarrow> u64 option \<Rightarrow> string option \<Rightarrow> ('w, attached_leg) io" where
  "attach_leg wr e vid node epoch host_nqn =
     attempt (v1_post wr e (''/v1/volumes/'' @ vid @ ''/attach'') (JObj (
       [(''node'', JStr node), (''mode'', JStr ''read_write''), (''transport'', JStr ''nvme_tcp'')] @
       (case epoch of None \<Rightarrow> [] | Some x \<Rightarrow> [(''epoch'', num x)]) @
       (case host_nqn of None \<Rightarrow> [] | Some h \<Rightarrow> [(''host_nqn'', JStr h)])))) (\<lambda>v.
     attempt (parse_attach e vid v) (\<lambda>att. io_ok (att\<lparr>a_host_nqn := host_nqn\<rparr>)))"

definition attach_volume :: "'w wire \<Rightarrow> engine \<Rightarrow> string \<Rightarrow> string \<Rightarrow> ('w, attached_leg) io" where
  "attach_volume wr e vid node = attach_leg wr e vid node None None"

definition attach_any :: "'w wire \<Rightarrow> engine \<Rightarrow> string \<Rightarrow> ('w, attached_leg) io" where
  "attach_any wr e vid =
     attempt (v1_post wr e (''/api/v1/volumes/'' @ vid @ ''/attach'') (JObj [(''transport'', JStr ''nvme_tcp'')]))
       (parse_attach e vid)"

definition attach_for_host ::
  "'w wire \<Rightarrow> engine \<Rightarrow> string \<Rightarrow> string \<Rightarrow> bool \<Rightarrow> ('w, attached_leg \<times> string option) io" where
  "attach_for_host wr e vid host_nqn dhchap =
     attempt (v1_post wr e (''/api/v1/volumes/'' @ vid @ ''/attach'') (JObj
       [(''transport'', JStr ''nvme_tcp''), (''host_nqn'', JStr host_nqn), (''dhchap'', JBool dhchap)])) (\<lambda>v.
     attempt (parse_attach e vid v) (\<lambda>att.
       io_ok (att\<lparr>a_host_nqn := Some host_nqn\<rparr>, get_str ''dhchap_secret'' v)))"

definition withdraw_host :: "'w wire \<Rightarrow> engine \<Rightarrow> string \<Rightarrow> string \<Rightarrow> ('w, unit) io" where
  "withdraw_host wr e vid host_nqn =
     attempt (send wr ((req e DELETE (''/api/v1/volumes/'' @ vid @ ''/attach''))\<lparr>rq_query := [(''host_nqn'', host_nqn)]\<rparr>))
       (gone_ok (''withdraw '' @ vid @ '' from '' @ host_nqn))"

definition get_items :: "'w wire \<Rightarrow> engine \<Rightarrow> string \<Rightarrow> ('w, json list) io" where
  "get_items wr e path =
     attempt (fetch wr e path) (\<lambda>v. io_ok (case v of
         JArr a \<Rightarrow> a
       | JObj _ \<Rightarrow> get_array ''items'' v
       | _ \<Rightarrow> []))"

definition local_volume_id :: "'w wire \<Rightarrow> engine \<Rightarrow> string \<Rightarrow> ('w, string) io" where
  "local_volume_id wr e name =
     attempt (get_items wr e ''/api/v1/volumes'') (\<lambda>items.
       case List.map_filter (get_str ''id'') (filter (\<lambda>v. get_str ''name'' v = Some name) items) of
         [] \<Rightarrow> io_err (HttpStatus ''/api/v1/volumes'' 404 (''no engine volume named '' @ name))
       | [i] \<Rightarrow> io_ok i
       | ids \<Rightarrow> io_err (Bail (dec (length ids) @ '' engine volumes named '' @ name)))"

definition detach_any :: "'w wire \<Rightarrow> engine \<Rightarrow> string \<Rightarrow> ('w, unit) io" where
  "detach_any wr e vid =
     attempt (send wr (req e DELETE (''/api/v1/volumes/'' @ vid @ ''/attach''))) (gone_ok (''detach '' @ vid))"

definition delete_any_volume :: "'w wire \<Rightarrow> engine \<Rightarrow> string \<Rightarrow> ('w, unit) io" where
  "delete_any_volume wr e vid =
     (let path = ''/api/v1/volumes/'' @ vid in
      attempt (send wr (req e DELETE path)) (\<lambda>r.
        if rs_status r = 404 then io_ok () else attempt (read_post path r) (\<lambda>_. io_ok ())))"

definition get_any_volume :: "'w wire \<Rightarrow> engine \<Rightarrow> string \<Rightarrow> ('w, json) io" where
  "get_any_volume wr e id_or_name =
     (let path = ''/api/v1/volumes/'' @ id_or_name in
      attempt (send wr (get e path)) (\<lambda>r.
      attempt (check_refused r path) (\<lambda>_.
        if \<not> is_success r then io_err (HttpStatus path (rs_status r) ''no such volume'') else body_json r)))"

definition start_mirror :: "'w wire \<Rightarrow> engine \<Rightarrow> string \<Rightarrow> string \<Rightarrow> ('w, json) io" where
  "start_mirror wr e vid target =
     admin_post wr e (''/api/v1/volumes/'' @ vid @ ''/mirror'') (JObj [(''target'', JStr target)])"

definition stop_mirror :: "'w wire \<Rightarrow> engine \<Rightarrow> string \<Rightarrow> ('w, json option) io" where
  "stop_mirror wr e vid =
     (let path = ''/api/v1/volumes/'' @ vid @ ''/mirror'' in
      attempt (admin_send wr e DELETE path None) (\<lambda>r.
        if rs_status r = 404 then io_ok None else attempt (read_post path r) (\<lambda>v. io_ok (Some v))))"

subsection \<open>Fencing, arrays, drives\<close>

datatype fence_outcome = FenceDone u64 | FenceStale u64

definition v1_epoch :: "'w wire \<Rightarrow> engine \<Rightarrow> string \<Rightarrow> ('w, u64) io" where
  "v1_epoch wr e vid =
     attempt (fetch wr e (''/v1/volumes/'' @ vid)) (\<lambda>v.
     ok_or (get_u64 ''epoch'' v) (BailJson (''volume '' @ vid @ '': no epoch in '') v))"

definition leg_superblock_of :: "'w wire \<Rightarrow> engine \<Rightarrow> string \<Rightarrow> ('w, json option) io" where
  "leg_superblock_of wr e vid =
     attempt (send wr (get e (''/v1/volumes/'' @ vid @ ''/raid-superblock''))) (\<lambda>r.
       if rs_status r = 404 then io_ok None
       else attempt (error_for_status r) (\<lambda>r. attempt (body_json r) (\<lambda>v. io_ok (Some v))))"

definition v1_fence :: "'w wire \<Rightarrow> engine \<Rightarrow> string \<Rightarrow> u64 \<Rightarrow> ('w, fence_outcome) io" where
  "v1_fence wr e vid expected_epoch =
     (let path = ''/v1/volumes/'' @ vid @ ''/fence'' in
      attempt (send wr (with_body (req e POST path) (JObj [(''expected_epoch'', num expected_epoch)]))) (\<lambda>r.
      attempt (check_refused r path) (\<lambda>_.
        let out = body_or_null r in
        case (if rs_status r = 412 then get_u64 ''current_epoch'' out else None) of
          Some c \<Rightarrow> io_ok (FenceStale c)
        | None \<Rightarrow>
            if \<not> is_success r then io_err (BailJson (path @ '': '' @ rs_status_text r @ '': '') out)
            else ok_or (map_option FenceDone (get_u64 ''epoch'' out)) (BailJson (path @ '': no epoch in '') out))))"

text \<open>The loop \<open>for _ in 0..2\<close> of \<open>fence_leg\<close>.\<close>

fun fence_tries :: "'w wire \<Rightarrow> engine \<Rightarrow> string \<Rightarrow> nat \<Rightarrow> u64 \<Rightarrow> ('w, u64) io" where
  "fence_tries wr e vid 0 expected = io_err (Bail (''fence '' @ vid @ '': epoch kept moving''))"
| "fence_tries wr e vid (Suc n) expected =
     attempt (v1_fence wr e vid expected) (\<lambda>out. case out of
         FenceDone x \<Rightarrow> io_ok x
       | FenceStale c \<Rightarrow> fence_tries wr e vid n c)"

definition fence_leg :: "'w wire \<Rightarrow> engine \<Rightarrow> string \<Rightarrow> ('w, u64) io" where
  "fence_leg wr e vid = attempt (v1_epoch wr e vid) (fence_tries wr e vid 2)"

definition assemble_arrays :: "'w wire \<Rightarrow> engine \<Rightarrow> string list \<Rightarrow> ('w, json) io" where
  "assemble_arrays wr e drive_uuids =
     v1_post wr e ''/api/v1/arrays/assemble'' (JObj [(''drive_uuids'', JArr (map JStr drive_uuids))])"

definition set_rebuild_rate :: "'w wire \<Rightarrow> engine \<Rightarrow> string \<Rightarrow> u64 \<Rightarrow> ('w, unit) io" where
  "set_rebuild_rate wr e array_id bytes_per_sec =
     (let path = ''/api/v1/arrays/'' @ array_id @ ''/rebuild'' in
      attempt (send wr (with_body (req e PUT path) (JObj [(''max_bytes_per_sec'', num bytes_per_sec)]))) (\<lambda>r.
      attempt (check_refused r path) (\<lambda>_.
        if \<not> is_success r then io_err (Bail (path @ '': '' @ rs_status_text r)) else io_ok ())))"

definition expand_v1 :: "'w wire \<Rightarrow> engine \<Rightarrow> string \<Rightarrow> u64 \<Rightarrow> ('w, json) io" where
  "expand_v1 wr e vid sz = v1_post wr e (''/v1/volumes/'' @ vid @ ''/expand'') (JObj [(''size_bytes'', num sz)])"

definition resize_any :: "'w wire \<Rightarrow> engine \<Rightarrow> string \<Rightarrow> u64 \<Rightarrow> ('w, json) io" where
  "resize_any wr e vid sz =
     (let path = ''/api/v1/volumes/'' @ vid @ ''/resize'' in
      attempt (send wr (with_body (req e PATCH path) (JObj [(''new_size'', JStr (dec (unat sz)))]))) (\<lambda>r.
      attempt (check_refused r path) (\<lambda>_. read_post path r)))"

definition served_size :: "'w wire \<Rightarrow> engine \<Rightarrow> string \<Rightarrow> ('w, u64) io" where
  "served_size wr e id_or_name =
     (let path = ''/api/v1/volumes/'' @ id_or_name in
      attempt (fetch wr e path) (\<lambda>v.
      ok_or (get_u64 ''virtual_size_bytes'' v) (BailJson (path @ '': no virtual_size_bytes in '') v)))"

definition grow_array :: "'w wire \<Rightarrow> engine \<Rightarrow> string \<Rightarrow> ('w, json) io" where
  "grow_array wr e vid =
     (let path = ''/api/v1/arrays/'' @ vid @ ''/grow'' in
      attempt (admin_send wr e POST path None) (read_post path))"

text \<open>The status check of the destructive deletes, with the hint on a refusal.\<close>

definition admin_gone_ok :: "string \<Rightarrow> response \<Rightarrow> ('w, unit) io" where
  "admin_gone_ok what r =
     (if \<not> is_success r \<and> rs_status r \<noteq> 404
      then io_err (Bail (what @ '': '' @ rs_status_text r @ admin_hint (rs_status r))) else io_ok ())"

definition forget_array :: "'w wire \<Rightarrow> engine \<Rightarrow> string \<Rightarrow> ('w, unit) io" where
  "forget_array wr e vid =
     attempt (admin_send wr e DELETE (''/api/v1/arrays/'' @ vid @ ''?keep_superblocks=true'') None)
       (admin_gone_ok (''forget array '' @ vid))"

definition detach_volume :: "'w wire \<Rightarrow> engine \<Rightarrow> string \<Rightarrow> string \<Rightarrow> ('w, unit) io" where
  "detach_volume wr e vid node =
     attempt (v1_post wr e (''/v1/volumes/'' @ vid @ ''/detach'') (JObj [(''node'', JStr node)])) (\<lambda>_. io_ok ())"

definition create_raid1 :: "'w wire \<Rightarrow> engine \<Rightarrow> string list \<Rightarrow> ('w, json) io" where
  "create_raid1 wr e drive_uuids =
     admin_post wr e ''/api/v1/arrays''
       (JObj [(''level'', JStr ''Raid1''), (''drive_uuids'', JArr (map JStr drive_uuids))])"

definition list_arrays :: "'w wire \<Rightarrow> engine \<Rightarrow> ('w, json list) io" where
  "list_arrays wr e = get_items wr e ''/api/v1/arrays''"

definition get_raid_array :: "'w wire \<Rightarrow> engine \<Rightarrow> string \<Rightarrow> ('w, json) io" where
  "get_raid_array wr e vid = fetch wr e (''/api/v1/arrays/'' @ vid)"

definition find_array :: "'w wire \<Rightarrow> engine \<Rightarrow> string \<Rightarrow> ('w, json option) io" where
  "find_array wr e vid =
     attempt (send wr (get e (''/api/v1/arrays/'' @ vid))) (\<lambda>r.
       if rs_status r = 404 then io_ok None
       else attempt (error_for_status r) (\<lambda>r. attempt (body_json r) (\<lambda>v. io_ok (Some v))))"

definition delete_array :: "'w wire \<Rightarrow> engine \<Rightarrow> string \<Rightarrow> ('w, unit) io" where
  "delete_array wr e vid =
     attempt (admin_send wr e DELETE (''/api/v1/arrays/'' @ vid) None) (admin_gone_ok (''delete array '' @ vid))"

definition array_add_member :: "'w wire \<Rightarrow> engine \<Rightarrow> string \<Rightarrow> string \<Rightarrow> ('w, string) io" where
  "array_add_member wr e array_id drive_uuid =
     attempt (admin_post wr e (''/api/v1/arrays/'' @ array_id @ ''/members'') (JObj [(''drive_uuid'', JStr drive_uuid)])) (\<lambda>v.
     ok_or (get_str ''member_uuid'' v) (BailJson ''add member: no member_uuid in '' v))"

definition array_remove_member :: "'w wire \<Rightarrow> engine \<Rightarrow> string \<Rightarrow> string \<Rightarrow> ('w, unit) io" where
  "array_remove_member wr e array_id member_uuid =
     attempt (admin_send wr e DELETE (''/api/v1/arrays/'' @ array_id @ ''/members/'' @ member_uuid) None) (\<lambda>r.
       if \<not> is_success r
       then io_err (Bail (''remove member '' @ member_uuid @ '': '' @ rs_status_text r @ admin_hint (rs_status r)))
       else io_ok ())"

definition list_drives :: "'w wire \<Rightarrow> engine \<Rightarrow> ('w, json list) io" where
  "list_drives wr e =
     attempt (fetch wr e ''/api/v1/drives'') (\<lambda>v. io_ok (case v of
         JArr a \<Rightarrow> a
       | JObj _ \<Rightarrow> unwrap_or (Option.bind (or_else (jget ''items'' v) (jget ''drives'' v)) as_array) []
       | _ \<Rightarrow> []))"

text \<open>The loop over the open drives: the first one of that path that has a uuid.\<close>

fun drive_at :: "string \<Rightarrow> json list \<Rightarrow> string option" where
  "drive_at path [] = None"
| "drive_at path (d # ds) =
     (if get_str ''path'' d = Some path
      then (case get_str ''uuid'' d of Some u \<Rightarrow> Some u | None \<Rightarrow> drive_at path ds)
      else drive_at path ds)"

definition add_drive_idempotent :: "'w wire \<Rightarrow> engine \<Rightarrow> string \<Rightarrow> ('w, string) io" where
  "add_drive_idempotent wr e path =
     attempt (send wr (with_body (req e POST ''/api/v1/drives'') (JObj [(''path'', JStr path)]))) (\<lambda>r.
       let body = body_or_null r;
           failed = Bail (''open '' @ path @ '': '' @ rs_status_text r @ '': '' @
             unwrap_or (Option.bind (or_else (jget ''error'' body) (jget ''message'' body)) as_str) ''no message'')
       in if is_success r then ok_or (get_str ''uuid'' body) (BailJson (''open '' @ path @ '': no uuid in '') body)
          else if rs_status r = 409
          then attempt (list_drives wr e) (\<lambda>ds. ok_or (drive_at path ds) failed)
          else io_err failed)"

definition enc_char :: "char \<Rightarrow> string" where
  "enc_char c = (if c = CHR ''%'' then ''%25'' else if c = CHR ''/'' then ''%2F'' else [c])"

text \<open>\<open>replace('%', "%25").replace('/', "%2F")\<close>: the second replacement meets no \<open>/\<close> of the first.\<close>

definition enc_path :: "string \<Rightarrow> string" where
  "enc_path s = concat (map enc_char s)"

definition drive_path :: "string \<Rightarrow> bool \<Rightarrow> string" where
  "drive_path id_or_path force =
     ''/api/v1/drives/'' @ enc_path id_or_path @ (if force then ''?force=true'' else [])"

definition delete_drive :: "'w wire \<Rightarrow> engine \<Rightarrow> string \<Rightarrow> bool \<Rightarrow> ('w, unit) io" where
  "delete_drive wr e id_or_path force =
     attempt (admin_send wr e DELETE (drive_path id_or_path force) None)
       (admin_gone_ok (''close drive '' @ id_or_path))"

subsection \<open>Clones, snapshots, shipping, listings\<close>

definition create_clone :: "'w wire \<Rightarrow> engine \<Rightarrow> string \<Rightarrow> u64 \<Rightarrow> string \<Rightarrow> string \<Rightarrow> ('w, json) io" where
  "create_clone wr e name sz master_node source =
     v1_post wr e ''/v1/volumes'' (JObj
       [(''name'', JStr name), (''size_bytes'', num sz), (''master_node'', JStr master_node),
        (''replica_tier'', JObj [(''slaves'', JInt 0)]),
        (''source'', JObj [(''kind'', JStr ''volume''), (''id'', JStr source)])])"

definition create_snapshot :: "'w wire \<Rightarrow> engine \<Rightarrow> string \<Rightarrow> string \<Rightarrow> ('w, json) io" where
  "create_snapshot wr e name volume_id =
     v1_post wr e ''/v1/snapshots'' (JObj [(''name'', JStr name), (''volume_id'', JStr volume_id)])"

definition create_group_snapshot :: "'w wire \<Rightarrow> engine \<Rightarrow> string \<Rightarrow> string list \<Rightarrow> ('w, json) io" where
  "create_group_snapshot wr e name volume_ids =
     v1_post wr e ''/v1/group-snapshots'' (JObj [(''name'', JStr name), (''volume_ids'', JArr (map JStr volume_ids))])"

definition ship_snapshot_to ::
  "'w wire \<Rightarrow> engine \<Rightarrow> string \<Rightarrow> string \<Rightarrow> string option \<Rightarrow> u64 \<Rightarrow> ('w, json) io" where
  "ship_snapshot_to wr e snap target_uri base max_bytes_per_sec =
     (let path = ''/v1/snapshots/'' @ snap @ ''/ship'' in
      attempt (send wr (with_body (req e POST path) (JObj (
        [(''target_uri'', JStr target_uri), (''max_bytes_per_sec'', num max_bytes_per_sec)] @
        (case base of None \<Rightarrow> [] | Some b \<Rightarrow> [(''base'', JStr b)]))))) (\<lambda>r.
      attempt (check_refused r path) (\<lambda>_.
        if rs_status r = 404 \<or> rs_status r = 405
        then io_err (HttpStatus path 404 ''no ship route (stormblock#400)'')
        else read_post path r)))"

definition ship_job_of :: "'w wire \<Rightarrow> engine \<Rightarrow> string \<Rightarrow> ('w, json option) io" where
  "ship_job_of wr e vid =
     (let path = ''/v1/ship-jobs/'' @ vid in
      attempt (send wr (get e path)) (\<lambda>r.
      attempt (check_refused r path) (\<lambda>_.
        if rs_status r = 404 then io_ok None
        else if \<not> is_success r then io_err (Bail (path @ '': '' @ rs_status_text r))
        else attempt (body_json r) (\<lambda>v. io_ok (Some v)))))"

definition delete_v1 :: "'w wire \<Rightarrow> engine \<Rightarrow> string \<Rightarrow> ('w, unit) io" where
  "delete_v1 wr e path =
     attempt (send wr (req e DELETE path)) (\<lambda>r.
     attempt (check_refused r path) (\<lambda>_. gone_ok (''delete '' @ path) r))"

definition delete_volume :: "'w wire \<Rightarrow> engine \<Rightarrow> string \<Rightarrow> ('w, unit) io" where
  "delete_volume wr e vid =
     attempt (send wr (req e DELETE (''/v1/volumes/'' @ vid))) (gone_ok (''delete '' @ vid))"

definition list_volumes :: "'w wire \<Rightarrow> engine \<Rightarrow> ('w, json list) io" where
  "list_volumes wr e =
     attempt (fetch wr e ''/v1/volumes'') (\<lambda>v. io_ok (case v of
         JArr a \<Rightarrow> a
       | JObj _ \<Rightarrow> get_array ''volumes'' v
       | _ \<Rightarrow> []))"

definition list_engine_volumes :: "'w wire \<Rightarrow> engine \<Rightarrow> ('w, engine_volume list) io" where
  "list_engine_volumes wr e =
     attempt (get_items wr e ''/api/v1/volumes?placement=true'') (\<lambda>vs. io_ok (List.map_filter (wi_volume wr) vs))"

definition slab_volume_ids :: "'w wire \<Rightarrow> engine \<Rightarrow> string \<Rightarrow> ('w, string list) io" where
  "slab_volume_ids wr e slab_id =
     attempt (get_items wr e (''/api/v1/slabs/'' @ slab_id @ ''/slots'')) (\<lambda>ss.
       io_ok (remdups_adj (sort (List.map_filter (get_str ''volume_id'') ss))))"

record discovered_node =
  dn_node_name :: string
  dn_mgmt_addr :: string
  dn_cluster_id :: "string option"
  dn_stale :: bool

record discovery =
  dc_local_node :: string
  dc_cluster_id :: "string option"
  dc_nodes :: "discovered_node list"

definition cluster_peers :: "discovery \<Rightarrow> discovered_node list" where
  "cluster_peers d =
     (case dc_cluster_id d of
        None \<Rightarrow> []
      | Some cid \<Rightarrow>
          filter (\<lambda>n. \<not> dn_stale n \<and> dn_cluster_id n = Some cid \<and> dn_node_name n \<noteq> [] \<and>
                       dn_mgmt_addr n \<noteq> [] \<and> dn_node_name n \<noteq> dc_local_node d) (dc_nodes d))"

subsection \<open>Lemmas\<close>

lemmas io_defs = attempt_def io_ok_def io_err_def io_of_def ok_or_def send_def

lemma uint_u64 [simp]: "uint (n :: u64) < 18446744073709551616"
  using uint_lt2p [of n] by simp

lemma as_u64_num [simp]: "as_u64 (num n) = Some n"
  by simp

lemma attempt_cong_Inr: "m w = (Inr a, w') \<Longrightarrow> attempt m k w = k a w'"
  by (simp add: attempt_def)

text \<open>
  What the documented \<open>/v1\<close> contract says of a volume's epoch on an engine nobody else fences: a
  read answers the epoch, a fence at the epoch raises it by one and answers the new one, a fence at
  another answers 412 with the current one.
\<close>

definition cas_engine :: "'w wire \<Rightarrow> engine \<Rightarrow> string \<Rightarrow> ('w \<Rightarrow> u64) \<Rightarrow> bool" where
  "cas_engine wr e vid ep \<longleftrightarrow>
     (\<forall>w. \<exists>r v. wi_send wr (get e (''/v1/volumes/'' @ vid)) w = (Inr r, w) \<and> rs_status r = 200 \<and>
        rs_json r = Some v \<and> get_u64 ''epoch'' v = Some (ep w)) \<and>
     (\<forall>w x. \<exists>r v w'. wi_send wr (with_body (req e POST (''/v1/volumes/'' @ vid @ ''/fence''))
            (JObj [(''expected_epoch'', num x)])) w = (Inr r, w') \<and> rs_json r = Some v \<and>
        (if x = ep w then rs_status r = 200 \<and> get_u64 ''epoch'' v = Some (ep w + 1) \<and> ep w' = ep w + 1
         else rs_status r = 412 \<and> get_u64 ''current_epoch'' v = Some (ep w) \<and> w' = w))"

lemma v1_epoch_cas: "cas_engine wr e vid ep \<Longrightarrow> v1_epoch wr e vid w = (Inr (ep w), w)"
proof -
  assume "cas_engine wr e vid ep"
  then obtain r v where "wi_send wr (get e (''/v1/volumes/'' @ vid)) w = (Inr r, w)"
    "rs_status r = 200" "rs_json r = Some v" "get_u64 ''epoch'' v = Some (ep w)"
    unfolding cas_engine_def by blast
  then show ?thesis
    by (simp add: v1_epoch_def fetch_def io_defs error_for_status_def body_json_def)
qed

lemma v1_fence_cas:
  assumes "cas_engine wr e vid ep"
  shows "\<exists>w'. v1_fence wr e vid x w = (Inr (if x = ep w then FenceDone (ep w + 1) else FenceStale (ep w)), w') \<and>
     (if x = ep w then ep w' = ep w + 1 else w' = w)"
proof -
  obtain r v w' where "wi_send wr (with_body (req e POST (''/v1/volumes/'' @ vid @ ''/fence''))
      (JObj [(''expected_epoch'', num x)])) w = (Inr r, w')" and "rs_json r = Some v"
    and "if x = ep w then rs_status r = 200 \<and> get_u64 ''epoch'' v = Some (ep w + 1) \<and> ep w' = ep w + 1
         else rs_status r = 412 \<and> get_u64 ''current_epoch'' v = Some (ep w) \<and> w' = w"
    using assms unfolding cas_engine_def by blast
  then show ?thesis
    by (cases "x = ep w") (simp_all add: v1_fence_def Let_def io_defs check_refused_def)
qed

lemma fence_tries_cas:
  assumes "cas_engine wr e vid ep"
  shows "\<exists>w'. fence_tries wr e vid 2 x w = (Inr (ep w + 1), w') \<and> ep w' = ep w + 1"
proof -
  obtain w1 where "v1_fence wr e vid (ep w) w = (Inr (FenceDone (ep w + 1)), w1)" "ep w1 = ep w + 1"
    using v1_fence_cas [OF assms, of "ep w" w] by auto
  moreover have "v1_fence wr e vid x w = (Inr (FenceStale (ep w)), w)" if "x \<noteq> ep w"
    using v1_fence_cas [OF assms, of x w] that by auto
  ultimately show ?thesis
    by (cases "x = ep w") (simp_all add: numeral_2_eq_2 attempt_def io_ok_def)
qed

lemma enc_char_split:
  "enc_char a @ xs = enc_char b @ ys \<Longrightarrow> a = b \<and> xs = ys"
  by (auto simp: enc_char_def split: if_splits)

lemma enc_path_inject: "enc_path s = enc_path t \<Longrightarrow> s = t"
proof (induction s arbitrary: t)
  case Nil
  then show ?case by (cases t) (auto simp: enc_path_def enc_char_def split: if_splits)
next
  case (Cons a s)
  from Cons.prems obtain b t' where t: "t = b # t'"
    by (cases t) (auto simp: enc_path_def enc_char_def split: if_splits)
  from Cons.prems t have "enc_char a @ enc_path s = enc_char b @ enc_path t'" by (simp add: enc_path_def)
  from enc_char_split [OF this] Cons.IH t show ?case by simp
qed

lemma set_enc_path: "c \<in> set (enc_path s) \<Longrightarrow> c \<in> set s \<union> set ''%25F'' \<and> c \<noteq> CHR ''/''"
  by (auto simp: enc_path_def enc_char_def split: if_splits)

lemma enc_path_append [simp]: "enc_path (s @ t) = enc_path s @ enc_path t"
  by (simp add: enc_path_def)

lemma drive_at_unique:
  assumes "\<And>d. d \<in> set ds \<Longrightarrow> \<exists>p u. get_str ''path'' d = Some p \<and> get_str ''uuid'' d = Some u \<and> opened p = Some u"
    and "\<And>p u. opened p = Some u \<Longrightarrow> \<exists>d \<in> set ds. get_str ''path'' d = Some p"
  shows "drive_at p ds = opened p"
proof (cases "opened p")
  case None
  have "\<forall>d \<in> set ds. get_str ''path'' d \<noteq> Some p" using assms(1) None by fastforce
  then have "drive_at p ds = None" by (induction ds) auto
  with None show ?thesis by simp
next
  case (Some u)
  have "(\<forall>d \<in> set ds. \<exists>p u. get_str ''path'' d = Some p \<and> get_str ''uuid'' d = Some u \<and> opened p = Some u) \<Longrightarrow>
      \<exists>d \<in> set ds. get_str ''path'' d = Some p \<Longrightarrow> drive_at p ds = Some u"
    using Some by (induction ds) fastforce+
  with assms Some show ?thesis by auto
qed

text \<open>
  The documented contract of an engine's open drives: opening a path that is not open opens it
  under a uuid, opening one that is answers 409 and changes nothing, and the listing names every open
  drive and nothing else.
\<close>

definition opens_drive :: "'w wire \<Rightarrow> engine \<Rightarrow> ('w \<Rightarrow> string \<Rightarrow> string option) \<Rightarrow> 'w \<Rightarrow> string \<Rightarrow> bool" where
  "opens_drive wr e opened w p \<longleftrightarrow>
     (\<exists>r w'. wi_send wr (with_body (req e POST ''/api/v1/drives'') (JObj [(''path'', JStr p)])) w = (Inr r, w') \<and>
        (case opened w p of
           None \<Rightarrow> rs_status r = 201 \<and> (\<exists>v u. rs_json r = Some v \<and> get_str ''uuid'' v = Some u \<and>
                     opened w' = (opened w)(p \<mapsto> u))
         | Some u \<Rightarrow> rs_status r = 409 \<and> w' = w))"

definition lists_drives :: "'w wire \<Rightarrow> engine \<Rightarrow> ('w \<Rightarrow> string \<Rightarrow> string option) \<Rightarrow> 'w \<Rightarrow> bool" where
  "lists_drives wr e opened w \<longleftrightarrow>
     (\<exists>r ds. wi_send wr (get e ''/api/v1/drives'') w = (Inr r, w) \<and> rs_status r = 200 \<and>
        rs_json r = Some (JObj [(''items'', JArr ds)]) \<and>
        (\<forall>d \<in> set ds. \<exists>p u. get_str ''path'' d = Some p \<and> get_str ''uuid'' d = Some u \<and> opened w p = Some u) \<and>
        (\<forall>p u. opened w p = Some u \<longrightarrow> (\<exists>d \<in> set ds. get_str ''path'' d = Some p)))"

definition drive_engine :: "'w wire \<Rightarrow> engine \<Rightarrow> ('w \<Rightarrow> string \<Rightarrow> string option) \<Rightarrow> bool" where
  "drive_engine wr e opened \<longleftrightarrow> (\<forall>w. lists_drives wr e opened w \<and> (\<forall>p. opens_drive wr e opened w p))"

lemma list_drives_engine:
  assumes "drive_engine wr e opened"
  shows "\<exists>ds. list_drives wr e w = (Inr ds, w) \<and> (\<forall>p. drive_at p ds = opened w p)"
proof -
  obtain r ds where r: "wi_send wr (get e ''/api/v1/drives'') w = (Inr r, w)" "rs_status r = 200"
      "rs_json r = Some (JObj [(''items'', JArr ds)])"
    and d1: "\<forall>d \<in> set ds. \<exists>p u. get_str ''path'' d = Some p \<and> get_str ''uuid'' d = Some u \<and> opened w p = Some u"
    and d2: "\<forall>p u. opened w p = Some u \<longrightarrow> (\<exists>d \<in> set ds. get_str ''path'' d = Some p)"
    using assms [unfolded drive_engine_def, THEN spec, of w] unfolding lists_drives_def by blast
  have "list_drives wr e w = (Inr ds, w)"
    using r by (simp add: list_drives_def fetch_def io_defs error_for_status_def body_json_def or_else_def)
  moreover have "drive_at p ds = opened w p" for p
    by (rule drive_at_unique) (use d1 d2 in blast)+
  ultimately show ?thesis by blast
qed

lemma add_drive_open:
  assumes "drive_engine wr e opened" and "opened w p = Some u"
  shows "add_drive_idempotent wr e p w = (Inr u, w)"
proof -
  have "opens_drive wr e opened w p" using assms(1) by (simp add: drive_engine_def)
  then obtain r where r: "wi_send wr (with_body (req e POST ''/api/v1/drives'') (JObj [(''path'', JStr p)])) w = (Inr r, w)"
    "rs_status r = 409"
    using assms(2) by (auto simp: opens_drive_def)
  obtain ds where ds: "list_drives wr e w = (Inr ds, w)" "\<forall>p. drive_at p ds = opened w p"
    using list_drives_engine [OF assms(1)] by blast
  show ?thesis
    using r ds assms(2) by (simp add: add_drive_idempotent_def Let_def io_defs)
qed

lemma add_drive_new:
  assumes "drive_engine wr e opened" and "opened w p = None"
  shows "\<exists>u w'. add_drive_idempotent wr e p w = (Inr u, w') \<and> opened w' = (opened w)(p \<mapsto> u)"
proof -
  have "opens_drive wr e opened w p" using assms(1) by (simp add: drive_engine_def)
  then obtain r w' v u where "wi_send wr (with_body (req e POST ''/api/v1/drives'') (JObj [(''path'', JStr p)])) w = (Inr r, w')"
    "rs_status r = 201" "rs_json r = Some v" "get_str ''uuid'' v = Some u" "opened w' = (opened w)(p \<mapsto> u)"
    using assms(2) by (auto simp: opens_drive_def)
  then show ?thesis by (auto simp: add_drive_idempotent_def Let_def io_defs)
qed

subsection \<open>Properties\<close>

text \<open>Property C9. Fencing a leg against an engine that keeps the epoch contract raises the leg's
  epoch by exactly one and returns the new one; two tries are enough whatever stale epoch the first
  one expected.\<close>

theorem fence_leg_cas:
  assumes "cas_engine wr e vid ep"
  shows "(\<exists>w'. fence_leg wr e vid w = (Inr (ep w + 1), w') \<and> ep w' = ep w + 1) \<and>
         (\<forall>x. \<exists>w'. fence_tries wr e vid 2 x w = (Inr (ep w + 1), w') \<and> ep w' = ep w + 1)"
  using fence_tries_cas [OF assms] by (simp add: fence_leg_def attempt_def v1_epoch_cas [OF assms])

text \<open>Opening a drive is idempotent: it always returns the uuid the engine has open for
  that path, leaves every other drive as it was, and opening it again changes nothing and returns the
  same uuid.\<close>

theorem add_drive_idem:
  assumes "drive_engine wr e opened"
  shows "\<exists>u w'. add_drive_idempotent wr e p w = (Inr u, w') \<and> opened w' p = Some u \<and>
           (\<forall>q. q \<noteq> p \<longrightarrow> opened w' q = opened w q) \<and>
           add_drive_idempotent wr e p w' = (Inr u, w')"
proof (cases "opened w p")
  case None
  then obtain u w' where "add_drive_idempotent wr e p w = (Inr u, w')" "opened w' = (opened w)(p \<mapsto> u)"
    using add_drive_new [OF assms] by blast
  then show ?thesis using add_drive_open [OF assms, of w' p u] by auto
next
  case (Some u)
  then show ?thesis using add_drive_open [OF assms Some] by auto
qed

text \<open>Closing a drive by its \<open>nvme-tcp://\<close> URI: the URL's path ends at the first \<open>?\<close>,
  and the URI's own \<open>?\<close> is not encoded, so the path names the subsystem alone. The namespace, the host
  and \<open>force\<close> are not in it, and two namespaces of one subsystem are closed by the same path.\<close>

theorem delete_drive_uri_path:
  assumes "CHR ''?'' \<notin> set (a_traddr a)" and "CHR ''?'' \<notin> set (a_nqn a)"
  shows "takeWhile (\<lambda>c. c \<noteq> CHR ''?'') (drive_path (drive_uri a) force) =
     ''/api/v1/drives/'' @ enc_path (''nvme-tcp://'' @ a_traddr a @ '':'' @ dec (unat (a_trsvcid a)) @ ''/'' @ a_nqn a)"
proof -
  let ?p = "''nvme-tcp://'' @ a_traddr a @ '':'' @ dec (unat (a_trsvcid a)) @ ''/'' @ a_nqn a"
  have digits: "c \<in> set (dec n) \<Longrightarrow> c \<noteq> CHR ''?''" for c n
  proof -
    assume "c \<in> set (dec n)"
    then obtain d :: nat where "d < 10" "c = char_of (48 + d)" using dec_digits by blast
    then have "(of_char c :: nat) = 48 + d" by simp
    with \<open>d < 10\<close> show "c \<noteq> CHR ''?''" by auto
  qed
  have "CHR ''?'' \<notin> set ?p" using assms digits by auto
  then have "CHR ''?'' \<notin> set (enc_path ?p)" using set_enc_path by fastforce
  then have "takeWhile (\<lambda>c. c \<noteq> CHR ''?'') (''/api/v1/drives/'' @ enc_path ?p @ CHR ''?'' # rest) =
      ''/api/v1/drives/'' @ enc_path ?p" for rest
    by (subst append_assoc [symmetric], subst takeWhile_append2) auto
  moreover have "\<exists>rest. drive_path (drive_uri a) force = ''/api/v1/drives/'' @ enc_path ?p @ CHR ''?'' # rest"
    by (simp add: drive_path_def drive_uri_def enc_path_def enc_char_def)
  ultimately show ?thesis by metis
qed

text \<open>An engine with one volume: its world is the volume's epoch. And one with open drives: its world
  lists the open paths, each opened under its path as uuid.\<close>

definition epoch_wire :: "u64 wire" where
  "epoch_wire =
     \<lparr>wi_send = (\<lambda>q w. case rq_body q of
          None \<Rightarrow> (Inr \<lparr>rs_status = 200, rs_status_text = ''200 OK'', rs_json = Some (JObj [(''epoch'', num w)])\<rparr>, w)
        | Some b \<Rightarrow>
            if get_u64 ''expected_epoch'' b = Some w
            then (Inr \<lparr>rs_status = 200, rs_status_text = ''200 OK'', rs_json = Some (JObj [(''epoch'', num (w + 1))])\<rparr>, w + 1)
            else (Inr \<lparr>rs_status = 412, rs_status_text = ''412 Precondition Failed'',
                       rs_json = Some (JObj [(''current_epoch'', num w)])\<rparr>, w)),
      wi_volume = (\<lambda>_. None)\<rparr>"

definition drives_wire :: "string list wire" where
  "drives_wire =
     \<lparr>wi_send = (\<lambda>q w. case Option.bind (rq_body q) (get_str ''path'') of
          None \<Rightarrow> (Inr \<lparr>rs_status = 200, rs_status_text = ''200 OK'', rs_json = Some (JObj [(''items'',
                     JArr (map (\<lambda>p. JObj [(''path'', JStr p), (''uuid'', JStr p)]) w))])\<rparr>, w)
        | Some p \<Rightarrow>
            if p \<in> set w then (Inr \<lparr>rs_status = 409, rs_status_text = ''409 Conflict'', rs_json = None\<rparr>, w)
            else (Inr \<lparr>rs_status = 201, rs_status_text = ''201 Created'', rs_json = Some (JObj [(''uuid'', JStr p)])\<rparr>, p # w)),
      wi_volume = (\<lambda>_. None)\<rparr>"

definition wit_engine :: engine where
  "wit_engine = new_engine ''http://a:8080/'' None"

theorem fence_leg_cas_witness:
  "\<exists>w'. fence_leg epoch_wire wit_engine ''v'' 7 = (Inr 8, w') \<and> w' = 8"
proof -
  have "cas_engine epoch_wire wit_engine ''v'' (\<lambda>w. w)"
    by (auto simp: cas_engine_def epoch_wire_def get_def req_def with_body_def)
  from fence_leg_cas [OF this, of 7] show ?thesis by simp
qed

theorem add_drive_idem_witness:
  "\<exists>u w'. add_drive_idempotent drives_wire wit_engine ''p'' [''q''] = (Inr u, w') \<and>
     (if ''p'' \<in> set w' then Some ''p'' else None) = Some u \<and>
     add_drive_idempotent drives_wire wit_engine ''p'' w' = (Inr u, w')"
proof -
  let ?opened = "\<lambda>w p. if p \<in> set w then Some p else None"
  have "drive_engine drives_wire wit_engine ?opened"
    by (auto simp: drive_engine_def lists_drives_def opens_drive_def drives_wire_def get_def req_def with_body_def fun_eq_iff)
  from add_drive_idem [OF this, of "''p''" "[''q'']"] show ?thesis by blast
qed

definition wit_att :: attached_leg where
  "wit_att = \<lparr>a_nqn = ''nqn.x'', a_traddr = ''h'', a_trsvcid = 4420, a_nsid = 2, a_host_nqn = Some ''nqn.h''\<rparr>"

theorem delete_drive_uri_path_witness:
  "takeWhile (\<lambda>c. c \<noteq> CHR ''?'') (drive_path (drive_uri wit_att) True) =
   ''/api/v1/drives/nvme-tcp:%2F%2Fh:4420%2Fnqn.x''"
proof -
  have "CHR ''?'' \<notin> set (a_traddr wit_att)" and "CHR ''?'' \<notin> set (a_nqn wit_att)"
    by (simp_all add: wit_att_def)
  from delete_drive_uri_path [OF this, of True]
  have "takeWhile (\<lambda>c. c \<noteq> CHR ''?'') (drive_path (drive_uri wit_att) True) =
     ''/api/v1/drives/'' @ enc_path (''nvme-tcp://'' @ a_traddr wit_att @ '':'' @ dec (unat (a_trsvcid wit_att)) @ ''/'' @ a_nqn wit_att)" .
  also have "\<dots> = ''/api/v1/drives/nvme-tcp:%2F%2Fh:4420%2Fnqn.x''"
    by (simp add: wit_att_def dec.simps enc_path_def enc_char_def) code_simp
  finally show ?thesis .
qed

end
