(* ===== verification/Events.thy ===== *)
theory Events
  imports Prelude
begin

section \<open>The event ring\<close>

text \<open>
  Models \<open>src/events.rs\<close>: a bounded ring of numbered events that clients read with
  \<open>since\<close>. \<open>VecDeque\<close> is a list; \<open>pop_front\<close> of an empty one does nothing.
\<close>

datatype severity = Info | Warning | Error

record event =
  e_seq :: u64
  e_time :: time
  e_subject :: "string option"
  e_severity :: severity
  e_kind :: string
  e_message :: string

record event_log =
  el_next_seq :: u64
  el_ring :: "event list"
  el_cap :: nat

definition new_log :: "nat \<Rightarrow> event_log" where
  "new_log cap = \<lparr>el_next_seq = 1, el_ring = [], el_cap = cap\<rparr>"

definition push ::
  "event_log \<Rightarrow> time \<Rightarrow> string option \<Rightarrow> severity \<Rightarrow> string \<Rightarrow> string \<Rightarrow> u64 \<times> event_log" where
  "push lg now subject sev kind message =
     (let sq = el_next_seq lg;
          ring = (if length (el_ring lg) = el_cap lg then tl (el_ring lg) else el_ring lg);
          ev = \<lparr>e_seq = sq, e_time = now, e_subject = subject, e_severity = sev,
                e_kind = kind, e_message = message\<rparr>
      in (sq, lg\<lparr>el_next_seq := sq + 1, el_ring := ring @ [ev]\<rparr>))"

definition since :: "event_log \<Rightarrow> u64 \<Rightarrow> event list" where
  "since lg n = filter (\<lambda>e. e_seq e > n) (el_ring lg)"

definition latest_seq :: "event_log \<Rightarrow> u64" where
  "latest_seq lg = el_next_seq lg - 1"

subsection \<open>The ring as the tail of everything pushed\<close>

text \<open>The abstract specification: every event ever pushed, numbered from 1. A pushed event is
  given by its fields but the number.\<close>

type_synonym event_fields = "time \<times> string option \<times> severity \<times> string \<times> string"

fun push_fields :: "event_log \<Rightarrow> event_fields \<Rightarrow> event_log" where
  "push_fields lg (t, subj, sev, kind, msg) = snd (push lg t subj sev kind msg)"

definition numbered :: "nat \<Rightarrow> event_fields \<Rightarrow> event" where
  "numbered i f = (case f of (t, subj, sev, kind, msg) \<Rightarrow>
     \<lparr>e_seq = of_nat i, e_time = t, e_subject = subj, e_severity = sev, e_kind = kind, e_message = msg\<rparr>)"

definition history :: "event_fields list \<Rightarrow> event list" where
  "history fs = map (\<lambda>i. numbered (Suc i) (fs ! i)) [0..<length fs]"

lemma history_snoc: "history (fs @ [f]) = history fs @ [numbered (Suc (length fs)) f]"
  by (simp add: history_def nth_append)

lemma length_history [simp]: "length (history fs) = length fs"
  by (simp add: history_def)

lemma seq_history: "i < length fs \<Longrightarrow> e_seq (history fs ! i) = of_nat (Suc i)"
  by (simp add: history_def numbered_def del: of_nat_Suc split: prod.splits)

lemma log_is_tail_of_history:
  assumes "0 < cap"
  shows "foldl push_fields (new_log cap) fs =
     \<lparr>el_next_seq = of_nat (Suc (length fs)),
      el_ring = drop (length fs - cap) (history fs), el_cap = cap\<rparr>"
proof (induction fs rule: rev_induct)
  case Nil
  then show ?case by (simp add: new_log_def history_def)
next
  case (snoc f fs)
  obtain t subj sev kind msg where f: "f = (t, subj, sev, kind, msg)" by (cases f)
  let ?ring = "drop (length fs - cap) (history fs)"
  have ring: "(if length ?ring = cap then tl ?ring else ?ring) =
      drop (Suc (length fs) - cap) (history fs)"
    using assms by (auto simp: Suc_diff_le tl_drop drop_Suc)
  have last: "drop (Suc 0 - cap) [x] = [x]" for x :: event
    using assms by simp
  show ?case
    using ring unfolding foldl_append snoc
    by (cases "length ?ring = cap")
      (simp_all add: f push_def Let_def last history_snoc numbered_def del: length_drop)
qed

text \<open>A client that reads the ring misses nothing it can still be told: after any
  number of events, \<open>since k\<close> answers exactly the events numbered above \<open>k\<close>, in order, as long as
  no more than \<open>cap\<close> of them were pushed since; and the ring never holds more than \<open>cap\<close>.\<close>

theorem since_complete:
  assumes "0 < cap" and "length fs < 2 ^ 64 - 1" and "length fs - cap \<le> k" and "k \<le> length fs"
  defines "lg \<equiv> foldl push_fields (new_log cap) fs"
  shows "since lg (of_nat k) = drop k (history fs) \<and> length (el_ring lg) \<le> cap \<and>
    latest_seq lg = of_nat (length fs)"
proof -
  have lg: "lg = \<lparr>el_next_seq = of_nat (Suc (length fs)),
      el_ring = drop (length fs - cap) (history fs), el_cap = cap\<rparr>"
    unfolding lg_def by (rule log_is_tail_of_history [OF assms(1)])
  have sq: "e_seq (history fs ! i) > of_nat k \<longleftrightarrow> k \<le> i" if "i < length fs" for i
  proof -
    have "unat (of_nat (Suc i) :: u64) = Suc i" and "unat (of_nat k :: u64) = k"
      using that assms(2,4) by (simp_all add: unat_of_nat del: of_nat_Suc)
    with that show ?thesis by (simp add: seq_history word_less_nat_alt less_Suc_eq_le del: of_nat_Suc)
  qed
  let ?d = "length fs - cap"
  have split: "drop ?d (history fs) = take (k - ?d) (drop ?d (history fs)) @ drop k (history fs)"
    using assms(3) by (metis append_take_drop_id drop_drop le_add_diff_inverse2)
  have old: "filter (\<lambda>e. e_seq e > of_nat k) (take (k - ?d) (drop ?d (history fs))) = []"
    using assms(3,4) by (auto simp: filter_empty_conv in_set_conv_nth sq)
  have new: "filter (\<lambda>e. e_seq e > of_nat k) (drop k (history fs)) = drop k (history fs)"
    by (auto simp: filter_id_conv in_set_conv_nth sq)
  have "since lg (of_nat k) = drop k (history fs)"
    unfolding since_def lg event_log.select_convs by (subst split) (simp only: filter_append old new append_Nil)
  then show ?thesis by (simp add: lg latest_seq_def)
qed

theorem since_complete_witness:
  "since (foldl push_fields (new_log 2)
      [(0, None, Info, ''t'', ''e0''), (1, None, Info, ''t'', ''e1''), (2, None, Info, ''t'', ''e2'')]) 2
   = [\<lparr>e_seq = 3, e_time = 2, e_subject = None, e_severity = Info, e_kind = ''t'', e_message = ''e2''\<rparr>]"
  using since_complete [of 2 "[(0, None, Info, ''t'', ''e0''), (1, None, Info, ''t'', ''e1''),
      (2, None, Info, ''t'', ''e2'')]" 2]
  by (simp add: history_def numbered_def upt_rec)

end
