(* ===== verification/Store.thy ===== *)
theory Store
  imports Base64 Replicate Engine Events
begin

section \<open>The fleet store\<close>

text \<open>
  Models \<open>src/store.rs\<close>: the client of etcd's JSON gateway over several endpoints, the durable records
  of the federation state and what applying them does, the difference that is written, the guarded
  writes of the leader, and the round in which an instance campaigns, renews, steps down or follows.
  etcd is outside the repository: a request to an endpoint is answered by the wire of the engine client.
  The JSON of a record is derived code, so its encoders and decoders are the parameter \<open>codecs\<close>. Keys and
  values are byte strings; that they are UTF-8 is not modelled. Publishing the leader to Kubernetes and
  the copy of displaced state are I/O and left out.
\<close>

definition bytes :: "string \<Rightarrow> u8 list" where
  "bytes x = map of_char x"

definition unbytes :: "u8 list \<Rightarrow> string" where
  "unbytes xs = map (\<lambda>b. char_of (unat b)) xs"

abbreviation b64s :: "string \<Rightarrow> json" where
  "b64s x \<equiv> JStr (b64 (bytes x))"

subsection \<open>The gateway\<close>

definition digits :: "string \<Rightarrow> nat option" where
  "digits x = (if x \<noteq> [] \<and> list_all (\<lambda>c. 48 \<le> (of_char c :: nat) \<and> (of_char c :: nat) \<le> 57) x
     then Some (foldl (\<lambda>n c. 10 * n + (of_char c - 48)) 0 x) else None)"

definition parse_i64 :: "string \<Rightarrow> int option" where
  "parse_i64 x =
     filter_opt (\<lambda>n. - (2 ^ 63) \<le> n \<and> n < 2 ^ 63)
       (case x of
          [] \<Rightarrow> None
        | c # ds \<Rightarrow>
            if c = CHR ''-'' then map_option (\<lambda>n. - int n) (digits ds)
            else if c = CHR ''+'' then map_option int (digits ds)
            else map_option int (digits x))"

definition jnum :: "json option \<Rightarrow> int" where
  "jnum v = (case v of
      Some (JStr x) \<Rightarrow> unwrap_or (parse_i64 x) 0
    | Some (JInt n) \<Rightarrow> (if - (2 ^ 63) \<le> n \<and> n < 2 ^ 63 then n else 0)
    | _ \<Rightarrow> 0)"

definition show_i64 :: "int \<Rightarrow> string" where
  "show_i64 n = (if n < 0 then CHR ''-'' # dec (nat (- n)) else dec (nat n))"

record kv =
  kv_key :: string
  kv_value :: string
  kv_create_revision :: int
  kv_mod_revision :: int

datatype store_error = NoEndpoint | Gateway nat | GatewayError json | BadAnswer | BadBase64 | NoLease | BadRecord string | BadMeta | NotLeader

definition kv_of :: "json \<Rightarrow> store_error + kv" where
  "kv_of v =
     (case (unb64 (unwrap_or (get_str ''key'' v) []), unb64 (unwrap_or (get_str ''value'' v) [])) of
        (Some k, Some x) \<Rightarrow> Inr \<lparr>kv_key = unbytes k, kv_value = unbytes x,
            kv_create_revision = jnum (jget ''create_revision'' v), kv_mod_revision = jnum (jget ''mod_revision'' v)\<rparr>
      | _ \<Rightarrow> Inl BadBase64)"

definition kvs_of :: "json \<Rightarrow> store_error + kv list" where
  "kvs_of resp =
     (case Option.bind (jget ''kvs'' resp) as_array of
        None \<Rightarrow> Inr []
      | Some vs \<Rightarrow> collect_results (map kv_of vs))"

record etcd =
  et_endpoints :: "string list"
  et_good :: nat

text \<open>The loop over the endpoints, from the last one that answered: the indices still to try. What a
  response's first line parses to is \<open>rs_json\<close>.\<close>

fun etcd_tries ::
  "'w wire \<Rightarrow> etcd \<Rightarrow> string \<Rightarrow> json \<Rightarrow> nat list \<Rightarrow> 'w \<Rightarrow> (store_error + json) \<times> etcd \<times> 'w" where
  "etcd_tries wr et path body [] w = (Inl NoEndpoint, et, w)"
| "etcd_tries wr et path body (idx # rest) w =
     (case wi_send wr \<lparr>rq_method = POST, rq_url = et_endpoints et ! idx @ path, rq_auth = None, rq_query = [], rq_body = Some body\<rparr> w of
        (Inl _, w) \<Rightarrow> etcd_tries wr et path body rest w
      | (Inr r, w) \<Rightarrow>
          if rs_status r = 503 then etcd_tries wr et path body rest w
          else if \<not> is_success r then (Inl (Gateway (rs_status r)), et, w)
          else
            (let et = et\<lparr>et_good := idx\<rparr> in
             case rs_json r of
               None \<Rightarrow> (Inl BadAnswer, et, w)
             | Some v \<Rightarrow>
                 (case jget ''error'' v of
                    Some e \<Rightarrow> (Inl (GatewayError e), et, w)
                  | None \<Rightarrow> (Inr (unwrap_or (jget ''result'' v) v), et, w))))"

definition etcd_call :: "'w wire \<Rightarrow> etcd \<Rightarrow> string \<Rightarrow> json \<Rightarrow> 'w \<Rightarrow> (store_error + json) \<times> etcd \<times> 'w" where
  "etcd_call wr et path body w =
     (let n = length (et_endpoints et) in
      etcd_tries wr et path body (map (\<lambda>i. (et_good et + i) mod n) [0..<n]) w)"

subsection \<open>Records\<close>

record codecs =
  enc_volume :: "dist_volume \<Rightarrow> string"
  dec_volume :: "string \<Rightarrow> dist_volume option"
  enc_snapshot :: "snapshot \<Rightarrow> string"
  dec_snapshot :: "string \<Rightarrow> snapshot option"
  enc_group :: "group_snapshot \<Rightarrow> string"
  dec_group :: "string \<Rightarrow> group_snapshot option"
  enc_backup :: "backup \<Rightarrow> string"
  dec_backup :: "string \<Rightarrow> backup option"
  enc_vm :: "vm_migration \<Rightarrow> string"
  dec_vm :: "string \<Rightarrow> vm_migration option"
  enc_node :: "node_config \<Rightarrow> string"
  dec_node :: "string \<Rightarrow> node_config option"
  enc_orphans :: "orphan list \<Rightarrow> string"
  dec_orphans :: "string \<Rightarrow> orphan list option"
  enc_stale :: "stale_head list \<Rightarrow> string"
  dec_stale :: "string \<Rightarrow> stale_head list option"
  enc_meta :: "u64 \<Rightarrow> string \<Rightarrow> time \<Rightarrow> string"
  dec_meta :: "string \<Rightarrow> u64 option"
  enc_leader :: "string \<times> string \<Rightarrow> string"
  dec_leader :: "string \<Rightarrow> (string \<times> string) option"

definition put_all :: "string \<Rightarrow> ('a \<Rightarrow> string) \<Rightarrow> (string \<times> 'a) list \<Rightarrow> (string, string) btree \<Rightarrow> (string, string) btree" where
  "put_all kind enc kvs m = foldl (\<lambda>m (n, v). bt_insert (kind @ ''/'' @ n) (enc v) m) m kvs"

definition registered_nodes :: "fed_state \<Rightarrow> (string \<times> node_config) list" where
  "registered_nodes fed =
     map (\<lambda>n. (nc_name (n_config n), n_config n)) (filter (\<lambda>n. ns_source (n_status n) = Registered) (bt_values (f_nodes fed)))"

definition records_of :: "codecs \<Rightarrow> fed_state \<Rightarrow> (string, string) btree" where
  "records_of cs fed =
     bt_insert ''stale_heads'' (enc_stale cs (f_stale_heads fed))
       (bt_insert ''orphans'' (enc_orphans cs (f_orphans fed))
         (put_all ''nodes'' (enc_node cs) (registered_nodes fed)
           (put_all ''vm_migrations'' (enc_vm cs) (f_vm_migrations fed)
             (put_all ''backups'' (enc_backup cs) (f_backups fed)
               (put_all ''group_snapshots'' (enc_group cs) (f_group_snapshots fed)
                 (put_all ''snapshots'' (enc_snapshot cs) (f_snapshots fed)
                   (put_all ''volumes'' (enc_volume cs) (f_volumes fed) [])))))))"

text \<open>\<open>split_once('/').unwrap_or((k, ""))\<close>.\<close>

definition split_kind :: "string \<Rightarrow> string \<times> string" where
  "split_kind k = (takeWhile (\<lambda>c. c \<noteq> CHR ''/'') k, drop 1 (dropWhile (\<lambda>c. c \<noteq> CHR ''/'') k))"

record loading =
  ld_fed :: fed_state
  ld_registered :: "node_config list"

definition decode_into :: "string \<Rightarrow> 'a option \<Rightarrow> ('a \<Rightarrow> loading \<Rightarrow> loading) \<Rightarrow> loading \<Rightarrow> store_error + loading" where
  "decode_into k x f ld = (case x of None \<Rightarrow> Inl (BadRecord k) | Some v \<Rightarrow> Inr (f v ld))"

definition on_fed :: "(fed_state \<Rightarrow> fed_state) \<Rightarrow> loading \<Rightarrow> loading" where
  "on_fed f ld = ld\<lparr>ld_fed := f (ld_fed ld)\<rparr>"

definition load_record :: "codecs \<Rightarrow> loading \<Rightarrow> string \<times> string \<Rightarrow> store_error + loading" where
  "load_record cs ld kv =
     (let (k, v) = kv; (kind, name) = split_kind k in
      if kind = ''volumes'' then decode_into k (dec_volume cs v) (\<lambda>x. on_fed (\<lambda>f. f\<lparr>f_volumes := bt_insert name x (f_volumes f)\<rparr>)) ld
      else if kind = ''snapshots'' then decode_into k (dec_snapshot cs v) (\<lambda>x. on_fed (\<lambda>f. f\<lparr>f_snapshots := bt_insert name x (f_snapshots f)\<rparr>)) ld
      else if kind = ''group_snapshots''
        then decode_into k (dec_group cs v) (\<lambda>x. on_fed (\<lambda>f. f\<lparr>f_group_snapshots := bt_insert name x (f_group_snapshots f)\<rparr>)) ld
      else if kind = ''backups'' then decode_into k (dec_backup cs v) (\<lambda>x. on_fed (\<lambda>f. f\<lparr>f_backups := bt_insert name x (f_backups f)\<rparr>)) ld
      else if kind = ''vm_migrations''
        then decode_into k (dec_vm cs v) (\<lambda>x. on_fed (\<lambda>f. f\<lparr>f_vm_migrations := bt_insert name x (f_vm_migrations f)\<rparr>)) ld
      else if kind = ''nodes'' then decode_into k (dec_node cs v) (\<lambda>x ld. ld\<lparr>ld_registered := ld_registered ld @ [x]\<rparr>) ld
      else if kind = ''orphans'' then decode_into k (dec_orphans cs v) (\<lambda>x. on_fed (\<lambda>f. f\<lparr>f_orphans := x\<rparr>)) ld
      else if kind = ''stale_heads'' then decode_into k (dec_stale cs v) (\<lambda>x. on_fed (\<lambda>f. f\<lparr>f_stale_heads := x\<rparr>)) ld
      else Inr ld)"

fun load_records :: "codecs \<Rightarrow> loading \<Rightarrow> (string \<times> string) list \<Rightarrow> store_error + loading" where
  "load_records cs ld [] = Inr ld"
| "load_records cs ld (kv # kvs) =
     (case load_record cs ld kv of Inl e \<Rightarrow> Inl e | Inr ld \<Rightarrow> load_records cs ld kvs)"

definition apply_records :: "codecs \<Rightarrow> fed_state \<Rightarrow> (string, string) btree \<Rightarrow> store_error + fed_state" where
  "apply_records cs fed records =
     (case load_records cs \<lparr>ld_fed = default_fed, ld_registered = []\<rparr> records of
        Inl e \<Rightarrow> Inl e
      | Inr ld \<Rightarrow>
          (let next = ld_fed ld;
               nodes = bt_retain (\<lambda>n x. ns_source (n_status x) \<noteq> Registered \<or> n \<in> nc_name ` set (ld_registered ld)) (f_nodes fed)
           in Inr (fed\<lparr>f_volumes := f_volumes next, f_snapshots := f_snapshots next, f_group_snapshots := f_group_snapshots next,
                       f_backups := f_backups next, f_vm_migrations := f_vm_migrations next, f_orphans := f_orphans next,
                       f_stale_heads := f_stale_heads next, f_nodes := foldl apply_registered nodes (ld_registered ld)\<rparr>)))"

datatype op = Put string string | Delete string

definition diff :: "(string, string) btree \<Rightarrow> (string, string) btree \<Rightarrow> op list" where
  "diff old new =
     map (\<lambda>(k, v). Put k v) (filter (\<lambda>(k, v). bt_get old k \<noteq> Some v) new) @
     map Delete (filter (\<lambda>k. bt_get new k = None) (bt_keys old))"

subsection \<open>The store of an instance\<close>

datatype store_role = Starting | Leader | Follower

record store_status =
  ss_role :: store_role
  ss_leader :: "(string \<times> string) option"
  ss_lease_id :: "int option"
  ss_leader_revision :: "int option"
  ss_meta_revision :: int
  ss_writes :: u64
  ss_loads :: u64
  ss_failed :: bool
  ss_displaced :: "string list option"
  ss_last_renewal :: "time option"

record 'w store_env =
  se_wire :: "'w wire"
  se_codecs :: codecs
  se_prefix :: string
  se_instance :: string
  se_advertise_url :: string
  se_ttl :: u64
  se_now :: "'w \<Rightarrow> time"
  se_save :: "fed_state \<Rightarrow> 'w \<Rightarrow> 'w"

record 'w store =
  so_etcd :: etcd
  so_status :: store_status
  so_written :: "(string, string) btree"
  so_fed :: fed_state
  so_events :: event_log
  so_world :: 'w

definition TXN_OPS :: nat where
  "TXN_OPS = 100"

function chunks :: "nat \<Rightarrow> 'a list \<Rightarrow> 'a list list" where
  "chunks n xs = (if xs = [] \<or> n = 0 then [] else take n xs # chunks n (drop n xs))"
  by auto
termination
  by (relation "measure (\<lambda>(n, xs). length xs)") auto

declare chunks.simps [simp del]

definition store_call :: "'w store_env \<Rightarrow> string \<Rightarrow> json \<Rightarrow> 'w store \<Rightarrow> (store_error + json) \<times> 'w store" where
  "store_call env path body s =
     (case etcd_call (se_wire env) (so_etcd s) path body (so_world s) of
        (r, et, w) \<Rightarrow> (r, s\<lparr>so_etcd := et, so_world := w\<rparr>))"

definition on_status :: "(store_status \<Rightarrow> store_status) \<Rightarrow> 'w store \<Rightarrow> 'w store" where
  "on_status f s = s\<lparr>so_status := f (so_status s)\<rparr>"

definition is_leader :: "'w store \<Rightarrow> bool" where
  "is_leader s = (ss_role (so_status s) = Leader)"

definition key :: "'w store_env \<Rightarrow> string \<Rightarrow> string" where
  "key env k = se_prefix env @ k"

definition guard :: "'w store_env \<Rightarrow> int \<Rightarrow> json" where
  "guard env lrev =
     JObj [(''key'', b64s (key env ''leader'')), (''target'', JStr ''CREATE''), (''result'', JStr ''EQUAL''),
           (''create_revision'', JStr (show_i64 lrev))]"

definition put_op :: "'w store_env \<Rightarrow> string \<Rightarrow> string \<Rightarrow> int option \<Rightarrow> json" where
  "put_op env k v lease =
     JObj [(''request_put'', JObj ([(''key'', b64s (key env k)), (''value'', b64s v)] @
        (case lease of None \<Rightarrow> [] | Some l \<Rightarrow> [(''lease'', JStr (show_i64 l))])))]"

definition delete_op :: "'w store_env \<Rightarrow> string \<Rightarrow> json" where
  "delete_op env k = JObj [(''request_delete_range'', JObj [(''key'', b64s (key env k))])]"

definition op_json :: "'w store_env \<Rightarrow> op \<Rightarrow> json" where
  "op_json env x = (case x of Put k v \<Rightarrow> put_op env k v None | Delete k \<Rightarrow> delete_op env k)"

definition txn_body :: "'w store_env \<Rightarrow> int \<Rightarrow> op list \<Rightarrow> string \<Rightarrow> json" where
  "txn_body env lrev ops meta =
     JObj [(''compare'', JArr [guard env lrev]), (''success'', JArr (map (op_json env) ops @ [put_op env ''meta'' meta None]))]"

definition apply_op :: "(string, string) btree \<Rightarrow> op \<Rightarrow> (string, string) btree" where
  "apply_op m x = (case x of Put k v \<Rightarrow> bt_insert k v m | Delete k \<Rightarrow> bt_remove k m)"

definition step_down :: "'w store_env \<Rightarrow> 'w store \<Rightarrow> 'w store" where
  "step_down env s =
     (let was = is_leader s;
          s = on_status (\<lambda>st. st\<lparr>ss_role := Follower, ss_lease_id := None, ss_leader_revision := None, ss_leader := None,
                ss_meta_revision := 0, ss_failed := True\<rparr>) s
      in if was then s\<lparr>so_events := snd (push (so_events s) (se_now env (so_world s)) None Warning ''store'' [])\<rparr> else s)"

definition succeeded :: "json \<Rightarrow> bool" where
  "succeeded r = unwrap_or (Option.bind (jget ''succeeded'' r) as_bool) False"

definition header_revision :: "json \<Rightarrow> int" where
  "header_revision r = jnum (Option.bind (jget ''header'' r) (jget ''revision''))"

fun sync_chunks :: "'w store_env \<Rightarrow> int \<Rightarrow> string \<Rightarrow> op list list \<Rightarrow> 'w store \<Rightarrow> (store_error + unit) \<times> 'w store" where
  "sync_chunks env lrev meta [] s = (Inr (), s)"
| "sync_chunks env lrev meta (chunk # rest) s =
     (case store_call env ''/v3/kv/txn'' (txn_body env lrev chunk meta) s of
        (Inl e, s) \<Rightarrow> (Inl e, on_status (\<lambda>st. st\<lparr>ss_failed := True\<rparr>) s)
      | (Inr r, s) \<Rightarrow>
          if \<not> succeeded r then (Inl NotLeader, step_down env s)
          else sync_chunks env lrev meta rest
            (on_status (\<lambda>st. st\<lparr>ss_meta_revision := header_revision r, ss_writes := ss_writes st + 1, ss_failed := False\<rparr>)
              (s\<lparr>so_written := foldl apply_op (so_written s) chunk\<rparr>)))"

definition sync :: "'w store_env \<Rightarrow> 'w store \<Rightarrow> (store_error + unit) \<times> 'w store" where
  "sync env s =
     (case filter_opt (\<lambda>_. is_leader s) (ss_leader_revision (so_status s)) of
        None \<Rightarrow> (Inr (), s)
      | Some lrev \<Rightarrow>
          (let ops = diff (so_written s) (records_of (se_codecs env) (so_fed s)) in
           if ops = [] then (Inr (), s)
           else sync_chunks env lrev
             (enc_meta (se_codecs env) (f_revision (so_fed s)) (se_instance env) (se_now env (so_world s))) (chunks TXN_OPS ops) s))"

subsection \<open>Loading\<close>

definition range_key :: "'w store_env \<Rightarrow> string \<Rightarrow> 'w store \<Rightarrow> (store_error + kv list) \<times> 'w store" where
  "range_key env k s =
     (case store_call env ''/v3/kv/range'' (JObj [(''key'', b64s k)]) s of
        (Inl e, s) \<Rightarrow> (Inl e, s)
      | (Inr r, s) \<Rightarrow> (kvs_of r, s))"

definition range_prefix :: "'w store_env \<Rightarrow> string \<Rightarrow> 'w store \<Rightarrow> (store_error + kv list) \<times> 'w store" where
  "range_prefix env prefix s =
     (case store_call env ''/v3/kv/range''
             (JObj [(''key'', b64s prefix), (''range_end'', JStr (b64 (prefix_end (bytes prefix))))]) s of
        (Inl e, s) \<Rightarrow> (Inl e, s)
      | (Inr r, s) \<Rightarrow> (kvs_of r, s))"

text \<open>What a range below the prefix holds: the records, and \<open>meta\<close> with its revision.\<close>

fun sort_kvs :: "'w store_env \<Rightarrow> kv list \<Rightarrow> (string, string) btree \<Rightarrow> (u64 \<times> int) option \<Rightarrow>
    store_error + ((string, string) btree \<times> (u64 \<times> int) option)" where
  "sort_kvs env [] records meta = Inr (records, meta)"
| "sort_kvs env (x # xs) records meta =
     (if take (length (se_prefix env)) (kv_key x) \<noteq> se_prefix env then sort_kvs env xs records meta
      else
        (let k = drop (length (se_prefix env)) (kv_key x) in
         if k = ''leader'' then sort_kvs env xs records meta
         else if k = ''meta'' then
           (case dec_meta (se_codecs env) (kv_value x) of
              None \<Rightarrow> Inl BadMeta
            | Some lrev \<Rightarrow> sort_kvs env xs records (Some (lrev, kv_mod_revision x)))
         else sort_kvs env xs (bt_insert k (kv_value x) records) meta))"

definition note_displaced :: "'w store_env \<Rightarrow> (string, string) btree \<Rightarrow> 'w store \<Rightarrow> 'w store" where
  "note_displaced env records s =
     (let vols = filter (\<lambda>n. bt_get records (''volumes/'' @ n) = None) (bt_keys (f_volumes (so_fed s))) in
      if vols = [] then s
      else on_status (\<lambda>st. st\<lparr>ss_displaced := Some vols\<rparr>)
        (s\<lparr>so_events := snd (push (so_events s) (se_now env (so_world s)) None Error ''store'' [])\<rparr>))"

definition load :: "'w store_env \<Rightarrow> 'w store \<Rightarrow> (store_error + bool) \<times> 'w store" where
  "load env s =
     (case range_prefix env (se_prefix env) s of
        (Inl e, s) \<Rightarrow> (Inl e, s)
      | (Inr kvs, s) \<Rightarrow>
          (case sort_kvs env kvs [] None of
             Inl e \<Rightarrow> (Inl e, s)
           | Inr (records, None) \<Rightarrow> (Inr False, s)
           | Inr (records, Some (revision, meta_rev)) \<Rightarrow>
               (let s = (if ss_loads (so_status s) = 0 then note_displaced env records s else s) in
                case apply_records (se_codecs env) (so_fed s) records of
                  Inl e \<Rightarrow> (Inl e, s)
                | Inr fed \<Rightarrow>
                    (Inr True, on_status (\<lambda>st. st\<lparr>ss_meta_revision := meta_rev, ss_loads := ss_loads st + 1\<rparr>)
                       (s\<lparr>so_fed := fed\<lparr>f_revision := revision\<rparr>, so_written := records\<rparr>)))))"

definition persist_file :: "'w store_env \<Rightarrow> 'w store \<Rightarrow> 'w store" where
  "persist_file env s = s\<lparr>so_world := se_save env (so_fed s) (so_world s)\<rparr>"

definition follow :: "'w store_env \<Rightarrow> 'w store \<Rightarrow> (store_error + unit) \<times> 'w store" where
  "follow env s =
     (case range_key env (key env ''meta'') s of
        (Inl e, s) \<Rightarrow> (Inl e, s)
      | (Inr kvs, s) \<Rightarrow>
          (let meta_rev = (case kvs of [] \<Rightarrow> 0 | x # _ \<Rightarrow> kv_mod_revision x) in
           if meta_rev \<noteq> 0 \<and> meta_rev \<noteq> ss_meta_revision (so_status s)
           then (case load env s of
               (Inl e, s) \<Rightarrow> (Inl e, s)
             | (Inr _, s) \<Rightarrow> (Inr (), persist_file env s))
           else (Inr (), s)))"

subsection \<open>Leading\<close>

definition lease_grant :: "'w store_env \<Rightarrow> 'w store \<Rightarrow> (store_error + int) \<times> 'w store" where
  "lease_grant env s =
     (case store_call env ''/v3/lease/grant'' (JObj [(''TTL'', JStr (dec (unat (se_ttl env))))]) s of
        (Inl e, s) \<Rightarrow> (Inl e, s)
      | (Inr r, s) \<Rightarrow> (let i = jnum (jget ''ID'' r) in (if i = 0 then Inl NoLease else Inr i, s)))"

definition lease_keepalive :: "'w store_env \<Rightarrow> int \<Rightarrow> 'w store \<Rightarrow> (store_error + int) \<times> 'w store" where
  "lease_keepalive env i s =
     (case store_call env ''/v3/lease/keepalive'' (JObj [(''ID'', JStr (show_i64 i))]) s of
        (Inl e, s) \<Rightarrow> (Inl e, s)
      | (Inr r, s) \<Rightarrow> (Inr (jnum (jget ''TTL'' r)), s))"

definition lease_revoke :: "'w store_env \<Rightarrow> int \<Rightarrow> 'w store \<Rightarrow> 'w store" where
  "lease_revoke env i s = snd (store_call env ''/v3/lease/revoke'' (JObj [(''ID'', JStr (show_i64 i))]) s)"

definition set_follower :: "(string \<times> string) option \<Rightarrow> 'w store \<Rightarrow> 'w store" where
  "set_follower holder = on_status (\<lambda>st. st\<lparr>ss_role := Follower, ss_leader := holder\<rparr>)"

definition campaign_body :: "'w store_env \<Rightarrow> int \<Rightarrow> json" where
  "campaign_body env lease =
     JObj [(''compare'', JArr [guard env 0]),
           (''success'', JArr [put_op env ''leader'' (enc_leader (se_codecs env) (se_instance env, se_advertise_url env)) (Some lease)]),
           (''failure'', JArr [JObj [(''request_range'', JObj [(''key'', b64s (key env ''leader''))])]])]"

definition holder_in :: "'w store_env \<Rightarrow> json \<Rightarrow> (string \<times> string) option" where
  "holder_in env r =
     Option.bind (Option.bind (jget ''responses'' r) as_array) (\<lambda>rs.
       case rs of
         [] \<Rightarrow> None
       | x # _ \<Rightarrow>
           (case kvs_of (unwrap_or (jget ''response_range'' x) JNull) of
              Inr (y # _) \<Rightarrow> dec_leader (se_codecs env) (kv_value y)
            | _ \<Rightarrow> None))"

definition become_leader :: "'w store_env \<Rightarrow> int \<Rightarrow> int \<Rightarrow> 'w store \<Rightarrow> 'w store" where
  "become_leader env lease created s =
     (let s = on_status (\<lambda>st. st\<lparr>ss_role := Leader, ss_lease_id := Some lease, ss_leader_revision := Some created,
                ss_leader := Some (se_instance env, se_advertise_url env), ss_last_renewal := Some (se_now env (so_world s)),
                ss_failed := False\<rparr>) s
      in s\<lparr>so_events := snd (push (so_events s) (se_now env (so_world s)) None Info ''store'' [])\<rparr>)"

definition campaign :: "'w store_env \<Rightarrow> 'w store \<Rightarrow> (store_error + unit) \<times> 'w store" where
  "campaign env s =
     (case range_key env (key env ''leader'') s of
        (Inl e, s) \<Rightarrow> (Inl e, s)
      | (Inr (x # _), s) \<Rightarrow> (Inr (), set_follower (dec_leader (se_codecs env) (kv_value x)) s)
      | (Inr [], s) \<Rightarrow>
          (case lease_grant env s of
             (Inl e, s) \<Rightarrow> (Inl e, s)
           | (Inr lease, s) \<Rightarrow>
               (case store_call env ''/v3/kv/txn'' (campaign_body env lease) s of
                  (Inl e, s) \<Rightarrow> (Inl e, lease_revoke env lease s)
                | (Inr r, s) \<Rightarrow>
                    if \<not> succeeded r then (Inr (), set_follower (holder_in env r) (lease_revoke env lease s))
                    else
                      (case load env s of
                         (Inl e, s) \<Rightarrow> (Inl e, lease_revoke env lease s)
                       | (Inr loaded, s) \<Rightarrow>
                           (let s = become_leader env lease (header_revision r) s;
                                s = (if loaded then s else s\<lparr>so_written := []\<rparr>)
                            in case sync env s of
                                 (Inl e, s) \<Rightarrow> (Inl e, s)
                               | (Inr _, s) \<Rightarrow> (Inr (), persist_file env s))))))"

definition try_step :: "'w store_env \<Rightarrow> 'w store \<Rightarrow> (store_error + unit) \<times> 'w store" where
  "try_step env s =
     (if is_leader s then
        (case lease_keepalive env (unwrap_or (ss_lease_id (so_status s)) 0) s of
           (Inr ttl, s') \<Rightarrow>
             if ttl > 0 then (Inr (), on_status (\<lambda>st. st\<lparr>ss_last_renewal := Some (se_now env (so_world s'))\<rparr>) s')
             else (Inr (), step_down env s')
         | (Inl e, s') \<Rightarrow>
             (let since = (case ss_last_renewal (so_status s) of None \<Rightarrow> 0 | Some t \<Rightarrow> se_now env (so_world s') - t) in
              (Inl e, if since \<ge> from_secs (se_ttl env * 2 div 3) then step_down env s' else s')))
      else
        (case campaign env s of
           (Inl e, s) \<Rightarrow> (Inl e, s)
         | (Inr _, s) \<Rightarrow> if is_leader s then (Inr (), s) else follow env s))"

definition store_step :: "'w store_env \<Rightarrow> 'w store \<Rightarrow> 'w store" where
  "store_step env s =
     (case try_step env s of
        (Inl _, s) \<Rightarrow> on_status (\<lambda>st. st\<lparr>ss_failed := True\<rparr>) s
      | (Inr _, s) \<Rightarrow> s)"


subsection \<open>Forwarding\<close>

text \<open>What a follower does with a request: answer it here, refuse it, or send it on to the leader with the
  header that marks it. Sending it and copying the answer is the network's.\<close>

definition FORWARDED :: string where
  "FORWARDED = ''x-stormstorage-forwarded''"

definition MAX_FORWARD :: nat where
  "MAX_FORWARD = 16 * 2 ^ 20"

record api_request =
  ar_method :: string
  ar_path :: string
  ar_query :: string
  ar_headers :: "string list"
  ar_body_len :: nat

datatype routed = ServeHere | Unavailable string | TooLarge | SendOn string "string list"

definition forward_writes :: "'w store option \<Rightarrow> api_request \<Rightarrow> routed" where
  "forward_writes st rq =
     (case st of
        None \<Rightarrow> ServeHere
      | Some s \<Rightarrow>
          if ar_method rq \<in> {''GET'', ''HEAD'', ''OPTIONS''} \<or> take 5 (ar_path rq) \<noteq> ''/api/'' \<or> is_leader s then ServeHere
          else if FORWARDED \<in> set (ar_headers rq) then Unavailable ''not_leader''
          else
            (case ss_leader (so_status s) of
               None \<Rightarrow> Unavailable ''no_leader''
             | Some (_, url) \<Rightarrow>
                 if ar_body_len rq > MAX_FORWARD then TooLarge
                 else SendOn (url @ ar_path rq @ ar_query rq)
                   (FORWARDED # filter (\<lambda>h. h \<in> {''authorization'', ''content-type'', ''accept''}) (ar_headers rq))))"

subsection \<open>The difference that is written\<close>

lemma concat_chunks: "0 < n \<Longrightarrow> concat (chunks n xs) = xs"
proof (induction n xs rule: chunks.induct)
  case (1 n xs)
  then show ?case by (subst chunks.simps) auto
qed

lemma foldl_chunks: "0 < n \<Longrightarrow> foldl (foldl f) m (chunks n xs) = foldl f m xs"
proof (induction n xs arbitrary: m rule: chunks.induct)
  case (1 n xs)
  then show ?case by (subst chunks.simps) (simp flip: foldl_append)
qed

lemma chunks_length: "c \<in> set (chunks n xs) \<Longrightarrow> length c \<le> n"
proof (induction n xs rule: chunks.induct)
  case (1 n xs)
  from 1(2) have "xs \<noteq> [] \<and> n \<noteq> 0 \<and> (c = take n xs \<or> c \<in> set (chunks n (drop n xs)))"
    by (subst (asm) chunks.simps) (auto split: if_splits)
  with 1(1) show ?case by auto
qed

text \<open>The last operation on a key decides what the key holds.\<close>

definition op_key :: "op \<Rightarrow> string" where
  "op_key x = (case x of Put k v \<Rightarrow> k | Delete k \<Rightarrow> k)"

definition op_value :: "op \<Rightarrow> string option" where
  "op_value x = (case x of Put k v \<Rightarrow> Some v | Delete k \<Rightarrow> None)"

lemma apply_op_ok: "bt_ok m \<Longrightarrow> bt_ok (apply_op m x)"
  by (simp add: apply_op_def bt_insert_ok bt_remove_ok split: op.splits)

lemma apply_ops_ok: "bt_ok m \<Longrightarrow> bt_ok (foldl apply_op m ops)"
  by (induction ops arbitrary: m) (auto simp: apply_op_ok)

lemma get_apply_op: "bt_get (apply_op m x) k = (if k = op_key x then op_value x else bt_get m k)"
  by (simp add: apply_op_def op_key_def op_value_def split: op.splits)

lemma get_apply_ops:
  "bt_get (foldl apply_op m ops) k =
     (case map_of (rev (map (\<lambda>x. (op_key x, op_value x)) ops)) k of Some v \<Rightarrow> v | None \<Rightarrow> bt_get m k)"
  by (induction ops arbitrary: m) (auto simp: get_apply_op map_add_def split: option.splits)

lemma apply_ops_twice:
  "bt_ok m \<Longrightarrow> foldl apply_op (foldl apply_op m ops) ops = foldl apply_op m ops"
  by (rule bt_ext) (auto simp: apply_ops_ok get_apply_ops split: option.splits)

lemma diff_keys_distinct: "bt_ok old \<Longrightarrow> bt_ok new \<Longrightarrow> distinct (map op_key (diff old new))"
proof -
  assume ok: "bt_ok old" "bt_ok new"
  let ?puts = "filter (\<lambda>(k, v). bt_get old k \<noteq> Some v) new"
  have puts: "map op_key (map (\<lambda>(k, v). Put k v) ?puts) = map fst ?puts"
    by (auto simp: op_key_def)
  have dels: "map op_key (map Delete (filter (\<lambda>k. bt_get new k = None) (bt_keys old))) = filter (\<lambda>k. bt_get new k = None) (bt_keys old)"
    by (auto simp: op_key_def intro: map_idI)
  have "distinct (map fst ?puts)"
    by (rule bt_ok_distinct) (rule sorted_wrt_map_filter, rule ok)
  moreover have "distinct (filter (\<lambda>k. bt_get new k = None) (bt_keys old))"
    using bt_ok_distinct [OF ok(1)] by simp
  moreover have "set (map fst ?puts) \<inter> set (filter (\<lambda>k. bt_get new k = None) (bt_keys old)) = {}"
    by (auto simp: map_of_eq_None_iff image_iff)
  ultimately show ?thesis
    unfolding diff_def map_append puts dels distinct_append by blast
qed

lemma diff_entries:
  "bt_ok old \<Longrightarrow> bt_ok new \<Longrightarrow>
   (k, x) \<in> set (map (\<lambda>y. (op_key y, op_value y)) (diff old new)) \<longleftrightarrow>
     bt_get new k = x \<and> bt_get old k \<noteq> x"
  by (cases x) (auto simp: diff_def op_key_def op_value_def bt_value_iff image_iff map_of_eq_None_iff dom_def)

lemma diff_apply_eq:
  assumes "bt_ok old" and "bt_ok new"
  shows "foldl apply_op old (diff old new) = new"
proof (rule bt_ext)
  show "bt_ok (foldl apply_op old (diff old new))" using assms(1) by (rule apply_ops_ok)
  show "bt_ok new" by (rule assms(2))
  fix k
  let ?ps = "map (\<lambda>y. (op_key y, op_value y)) (diff old new)"
  have "distinct (map fst (rev ?ps))"
    using diff_keys_distinct [OF assms] by (simp add: rev_map [symmetric] comp_def)
  then have look: "map_of (rev ?ps) k = Some x \<longleftrightarrow> bt_get new k = x \<and> bt_get old k \<noteq> x" for x
    using diff_entries [OF assms, of k x] by (simp only: map_of_eq_Some_iff set_rev)
  show "bt_get (foldl apply_op old (diff old new)) k = bt_get new k"
  proof (cases "map_of (rev ?ps) k")
    case None
    with look [of "bt_get new k"] have "bt_get old k = bt_get new k" by (metis option.distinct(1))
    with None show ?thesis by (simp add: get_apply_ops)
  next
    case (Some x)
    with look [of x] have "bt_get new k = x" by blast
    with Some show ?thesis by (simp add: get_apply_ops)
  qed
qed

text \<open>Applying the difference between two sets of records to the first gives the second, whatever
  chunks of at most \<open>TXN_OPS\<close> operations it is sent in; and a difference that was already applied, by a
  transaction whose answer was lost, changes nothing when it is applied again.\<close>

lemma diff_applies:
  assumes "bt_ok old" and "bt_ok new"
  shows "foldl (foldl apply_op) old (chunks TXN_OPS (diff old new)) = new \<and>
    foldl apply_op new (diff old new) = new \<and>
    list_all (\<lambda>c. length c \<le> TXN_OPS) (chunks TXN_OPS (diff old new))"
proof (intro conjI)
  show "foldl (foldl apply_op) old (chunks TXN_OPS (diff old new)) = new"
    using assms by (simp add: foldl_chunks TXN_OPS_def diff_apply_eq)
  show "foldl apply_op new (diff old new) = new"
    using apply_ops_twice [OF assms(1), of "diff old new"] assms by (simp add: diff_apply_eq)
  show "list_all (\<lambda>c. length c \<le> TXN_OPS) (chunks TXN_OPS (diff old new))"
    by (simp add: list_all_iff chunks_length)
qed

lemma diff_applies_witness:
  "foldl (foldl apply_op) [(''a'', ''1''), (''b'', ''2'')]
     (chunks TXN_OPS (diff [(''a'', ''1''), (''b'', ''2'')] [(''b'', ''3''), (''c'', ''4'')])) = [(''b'', ''3''), (''c'', ''4'')]"
  using diff_applies [of "[(''a'', ''1''), (''b'', ''2'')]" "[(''b'', ''3''), (''c'', ''4'')]"] by simp

subsection \<open>Guarded writes\<close>

lemma put_all_ok: "bt_ok m \<Longrightarrow> bt_ok (put_all kind enc kvs m)"
  by (induction kvs arbitrary: m) (auto simp: put_all_def bt_insert_ok)

lemma records_of_ok: "bt_ok (records_of cs fed)"
  by (simp add: records_of_def bt_insert_ok put_all_ok)

lemma store_call_frame [frame_simps]:
  "store_call env path body s = (r, s') \<Longrightarrow>
     so_status s' = so_status s \<and> so_written s' = so_written s \<and> so_fed s' = so_fed s \<and> so_events s' = so_events s"
  by (auto simp: store_call_def split: prod.splits)

lemma on_status_frame [simp]:
  "so_written (on_status f s) = so_written s" "so_fed (on_status f s) = so_fed s"
  "so_world (on_status f s) = so_world s" "so_etcd (on_status f s) = so_etcd s"
  "so_status (on_status f s) = f (so_status s)" "so_events (on_status f s) = so_events s"
  by (simp_all add: on_status_def)

lemma step_down_frame [simp]:
  "so_written (step_down env s) = so_written s" "so_fed (step_down env s) = so_fed s"
  "so_world (step_down env s) = so_world s" "so_etcd (step_down env s) = so_etcd s"
  "\<not> is_leader (step_down env s)"
  by (simp_all add: step_down_def is_leader_def Let_def)

text \<open>
  What etcd documents of a transaction sent to one of its members. \<open>view\<close> is what it holds of the records below the
  prefix and \<open>created\<close> the create revision of the leader key. An answer says whether the comparison held;
  the operations are applied if and only if it did. A request with no answer, or answered 503, has been applied
  if its comparison held, or not at all. Any other failure of the gateway applied nothing.
\<close>

definition txn_effect :: "(string, string) btree \<Rightarrow> int \<Rightarrow> int \<Rightarrow> op list \<Rightarrow> (string, string) btree" where
  "txn_effect v c lrev ops = (if c = lrev then foldl apply_op v ops else v)"

definition answered :: "response \<Rightarrow> json option" where
  "answered r = (case rs_json r of
      Some v \<Rightarrow> if rs_status r \<noteq> 503 \<and> is_success r \<and> jget ''error'' v = None then Some (unwrap_or (jget ''result'' v) v) else None
    | None \<Rightarrow> None)"

definition etcd_txns :: "'w store_env \<Rightarrow> ('w \<Rightarrow> (string, string) btree) \<Rightarrow> ('w \<Rightarrow> int) \<Rightarrow> bool" where
  "etcd_txns env view created \<longleftrightarrow>
     (\<forall>w url lrev ops meta.
        case wi_send (se_wire env) \<lparr>rq_method = POST, rq_url = url, rq_auth = None, rq_query = [], rq_body = Some (txn_body env lrev ops meta)\<rparr> w of
          (r, w') \<Rightarrow>
            created w' = created w \<and>
            (view w' = txn_effect (view w) (created w) lrev ops \<or>
               view w' = view w \<and> (case r of Inl _ \<Rightarrow> True | Inr r \<Rightarrow> answered r = None)) \<and>
            (case r of Inl _ \<Rightarrow> True
             | Inr r \<Rightarrow> (case answered r of None \<Rightarrow> True | Some v \<Rightarrow> succeeded v \<longleftrightarrow> created w = lrev)))"

lemma txn_effect_twice: "bt_ok v \<Longrightarrow> txn_effect (txn_effect v c lrev ops) c lrev ops = txn_effect v c lrev ops"
  by (simp add: txn_effect_def apply_ops_twice)

lemma txn_effect_ok: "bt_ok v \<Longrightarrow> bt_ok (txn_effect v c lrev ops)"
  by (simp add: txn_effect_def apply_ops_ok)

lemma etcd_txnsD:
  assumes "etcd_txns env view created"
    and "wi_send (se_wire env) \<lparr>rq_method = POST, rq_url = url, rq_auth = None, rq_query = [], rq_body = Some (txn_body env lrev ops meta)\<rparr> w = (r, w')"
  shows "created w' = created w"
    and "view w' = txn_effect (view w) (created w) lrev ops \<or> view w' = view w"
    and "r = Inr a \<Longrightarrow> answered a = Some v \<Longrightarrow>
      view w' = txn_effect (view w) (created w) lrev ops \<and> (succeeded v \<longleftrightarrow> created w = lrev)"
proof -
  from assms have all: "created w' = created w \<and>
      (view w' = txn_effect (view w) (created w) lrev ops \<or>
         view w' = view w \<and> (case r of Inl _ \<Rightarrow> True | Inr r \<Rightarrow> answered r = None)) \<and>
      (case r of Inl _ \<Rightarrow> True
       | Inr r \<Rightarrow> (case answered r of None \<Rightarrow> True | Some v \<Rightarrow> succeeded v \<longleftrightarrow> created w = lrev))"
    unfolding etcd_txns_def by (fastforce split: prod.splits)
  then show "created w' = created w" by blast
  from all show "view w' = txn_effect (view w) (created w) lrev ops \<or> view w' = view w" by blast
  show "view w' = txn_effect (view w) (created w) lrev ops \<and> (succeeded v \<longleftrightarrow> created w = lrev)"
    if "r = Inr a" "answered a = Some v"
    using all unfolding that(1) by (simp add: that(2))
qed

lemma etcd_tries_cons:
  assumes "etcd_tries wr et path body (idx # rest) w = (r, et', w')"
  obtains (skip) a w1 where
      "wi_send wr \<lparr>rq_method = POST, rq_url = et_endpoints et ! idx @ path, rq_auth = None, rq_query = [], rq_body = Some body\<rparr> w = (a, w1)"
      "etcd_tries wr et path body rest w1 = (r, et', w')"
    | (stop) a e where
      "wi_send wr \<lparr>rq_method = POST, rq_url = et_endpoints et ! idx @ path, rq_auth = None, rq_query = [], rq_body = Some body\<rparr> w = (a, w')"
      "r = Inl e"
    | (ok) a v where
      "wi_send wr \<lparr>rq_method = POST, rq_url = et_endpoints et ! idx @ path, rq_auth = None, rq_query = [], rq_body = Some body\<rparr> w = (Inr a, w')"
      "r = Inr v" "answered a = Some v" "et' = et\<lparr>et_good := idx\<rparr>"
proof -
  obtain a w1 where send: "wi_send wr \<lparr>rq_method = POST, rq_url = et_endpoints et ! idx @ path, rq_auth = None, rq_query = [], rq_body = Some body\<rparr> w = (a, w1)"
    by fastforce
  show thesis
  proof (cases a)
    case (Inl e)
    with assms send skip show ?thesis by simp
  next
    case (Inr x)
    show ?thesis
    proof (cases "rs_status x = 503")
      case True
      with assms send Inr skip show ?thesis by simp
    next
      case False
      with assms send Inr have "w' = w1" by (auto simp: Let_def split: if_splits option.splits)
      with assms send Inr False stop ok show ?thesis
        by (auto simp: Let_def answered_def split: if_splits option.splits)
    qed
  qed
qed

lemma etcd_tries_txn:
  assumes sem: "etcd_txns env view created" and ok: "bt_ok v"
  shows "etcd_tries (se_wire env) et path (txn_body env lrev ops meta) idxs w = (r, et', w') \<Longrightarrow>
    view w = v \<or> view w = txn_effect v (created w) lrev ops \<Longrightarrow>
    created w' = created w \<and> (view w' = v \<or> view w' = txn_effect v (created w) lrev ops) \<and>
    (\<forall>a. r = Inr a \<longrightarrow> view w' = txn_effect v (created w) lrev ops \<and> (succeeded a \<longleftrightarrow> created w = lrev))"
proof (induction idxs arbitrary: w)
  case Nil
  then show ?case by auto
next
  case (Cons idx idxs)
  from Cons.prems(1) show ?case
  proof (cases rule: etcd_tries_cons)
    case (skip a w1)
    note eff = etcd_txnsD [OF sem skip(1)]
    from eff(2) Cons.prems(2) have "view w1 = v \<or> view w1 = txn_effect v (created w1) lrev ops"
      unfolding eff(1) using txn_effect_twice [OF ok, of "created w" lrev ops] by auto
    from Cons.IH [OF skip(2) this] show ?thesis unfolding eff(1) .
  next
    case (stop a e)
    note eff = etcd_txnsD [OF sem stop(1)]
    from eff(2) Cons.prems(2) have "view w' = v \<or> view w' = txn_effect v (created w) lrev ops"
      using txn_effect_twice [OF ok, of "created w" lrev ops] by auto
    with eff(1) stop(2) show ?thesis by simp
  next
    case (ok a x)
    note eff = etcd_txnsD [OF sem ok(1)]
    from eff(3) [OF refl ok(3)] Cons.prems(2)
    have "view w' = txn_effect v (created w) lrev ops" "succeeded x \<longleftrightarrow> created w = lrev"
      using txn_effect_twice [OF assms(2), of "created w" lrev ops] by auto
    with eff(1) ok(2) show ?thesis by simp
  qed
qed

lemma store_call_txn:
  assumes "etcd_txns env view created" and "bt_ok (view (so_world s))"
    and "store_call env path (txn_body env lrev ops meta) s = (r, s')"
  shows "created (so_world s') = created (so_world s)"
    and "view (so_world s') = view (so_world s) \<or> view (so_world s') = txn_effect (view (so_world s)) (created (so_world s)) lrev ops"
    and "r = Inr a \<Longrightarrow> view (so_world s') = txn_effect (view (so_world s)) (created (so_world s)) lrev ops \<and>
      (succeeded a \<longleftrightarrow> created (so_world s) = lrev)"
proof -
  obtain et where "etcd_call (se_wire env) (so_etcd s) path (txn_body env lrev ops meta) (so_world s) = (r, et, so_world s')"
    using assms(3) by (auto simp: store_call_def split: prod.splits)
  note all = etcd_tries_txn [OF assms(1,2) this [unfolded etcd_call_def Let_def], simplified]
  show "created (so_world s') = created (so_world s)" using all by blast
  show "view (so_world s') = view (so_world s) \<or> view (so_world s') = txn_effect (view (so_world s)) (created (so_world s)) lrev ops"
    using all by blast
  show "view (so_world s') = txn_effect (view (so_world s)) (created (so_world s)) lrev ops \<and>
      (succeeded a \<longleftrightarrow> created (so_world s) = lrev)" if "r = Inr a"
    using all that by blast
qed

lemma etcd_tries_not_NotLeader: "fst (etcd_tries wr et path body idxs w) \<noteq> Inl NotLeader"
  by (induction idxs arbitrary: w) (auto simp: Let_def split: prod.splits sum.splits option.splits)

lemma store_call_not_NotLeader: "store_call env path body s = (r, s') \<Longrightarrow> r \<noteq> Inl NotLeader"
  using etcd_tries_not_NotLeader [of "se_wire env" "so_etcd s" path body _ "so_world s"]
  by (auto simp: store_call_def etcd_call_def Let_def split: prod.splits) (metis fst_conv)

lemma sync_chunks_cons:
  assumes "sync_chunks env lrev meta (c # cs) s = (r, s')"
  obtains (failed) e s1 where "store_call env ''/v3/kv/txn'' (txn_body env lrev c meta) s = (Inl e, s1)"
      "r = Inl e" "s' = on_status (\<lambda>st. st\<lparr>ss_failed := True\<rparr>) s1"
    | (refused) a s1 where "store_call env ''/v3/kv/txn'' (txn_body env lrev c meta) s = (Inr a, s1)" "\<not> succeeded a"
      "r = Inl NotLeader" "s' = step_down env s1"
    | (written) a s1 s2 where "store_call env ''/v3/kv/txn'' (txn_body env lrev c meta) s = (Inr a, s1)" "succeeded a"
      "so_written s2 = foldl apply_op (so_written s1) c" "so_world s2 = so_world s1" "so_fed s2 = so_fed s1"
      "is_leader s2 = is_leader s1"
      "sync_chunks env lrev meta cs s2 = (r, s')"
proof -
  obtain a s1 where call: "store_call env ''/v3/kv/txn'' (txn_body env lrev c meta) s = (a, s1)" by fastforce
  show thesis
  proof (cases a)
    case (Inl e)
    with assms call failed show ?thesis by simp
  next
    case (Inr x)
    show ?thesis
    proof (cases "succeeded x")
      case False
      with assms call Inr refused show ?thesis by simp
    next
      case True
      let ?s2 = "on_status (\<lambda>st. st\<lparr>ss_meta_revision := header_revision x, ss_writes := ss_writes st + 1, ss_failed := False\<rparr>)
        (s1\<lparr>so_written := foldl apply_op (so_written s1) c\<rparr>)"
      have "sync_chunks env lrev meta cs ?s2 = (r, s')" using assms call Inr True by simp
      with written [OF call [unfolded Inr] True, of ?s2] show ?thesis by (simp add: is_leader_def)
    qed
  qed
qed

lemma sync_chunks_mirror:
  assumes "etcd_txns env view created"
  shows "sync_chunks env lrev meta cs s = (Inr u, s') \<Longrightarrow> bt_ok (so_written s) \<Longrightarrow> view (so_world s) = so_written s \<Longrightarrow>
    so_written s' = foldl (foldl apply_op) (so_written s) cs \<and> view (so_world s') = so_written s' \<and> so_fed s' = so_fed s"
proof (induction cs arbitrary: s)
  case Nil
  then show ?case by simp
next
  case (Cons c cs)
  from Cons.prems(1) show ?case
  proof (cases rule: sync_chunks_cons)
    case (written a s1 s2)
    note eff = store_call_txn [OF assms _ written(1), unfolded Cons.prems(3), OF Cons.prems(2)]
    from store_call_frame [OF written(1)] have s1: "so_written s1 = so_written s" "so_fed s1 = so_fed s" by auto
    from eff(3) [OF refl] written(2) have "view (so_world s1) = foldl apply_op (so_written s) c"
      by (simp add: txn_effect_def)
    with written s1 have "view (so_world s2) = so_written s2" by simp
    with Cons.IH [OF written(7)] show ?thesis
      using apply_ops_ok [OF Cons.prems(2)] written s1 by simp
  qed simp_all
qed

lemma sync_chunks_deposed:
  assumes "etcd_txns env view created" and "bt_ok (view (so_world s))" and "created (so_world s) \<noteq> lrev" and "is_leader s"
    and "sync_chunks env lrev meta (c # cs) s = (r, s')"
  shows "view (so_world s') = view (so_world s) \<and> so_written s' = so_written s \<and>
    (case fst (store_call env ''/v3/kv/txn'' (txn_body env lrev c meta) s) of
       Inl e \<Rightarrow> r = Inl e \<and> e \<noteq> NotLeader \<and> is_leader s'
     | Inr _ \<Rightarrow> r = Inl NotLeader \<and> \<not> is_leader s')"
  using assms(5)
proof (cases rule: sync_chunks_cons)
  case (failed e s1)
  with store_call_txn(2) [OF assms(1,2) failed(1)] store_call_frame [OF failed(1)] store_call_not_NotLeader [OF failed(1)] assms(3,4)
  show ?thesis by (auto simp: txn_effect_def is_leader_def on_status_def)
next
  case (refused a s1)
  with store_call_txn(2) [OF assms(1,2) refused(1)] store_call_frame [OF refused(1)] assms(3)
  show ?thesis by (auto simp: txn_effect_def)
next
  case (written a s1 s2)
  with store_call_txn(3) [OF assms(1,2) written(1) refl] assms(3) show ?thesis by simp
qed

lemma chunks_nonempty: "xs \<noteq> [] \<Longrightarrow> 0 < n \<Longrightarrow> \<exists>c cs. chunks n xs = c # cs"
  by (subst chunks.simps) simp

text \<open>Property C11. A leader that writes its difference with success, starting from a copy of what is written that agrees with
  etcd, leaves etcd with exactly the records of its memory and the copy in agreement again: no record is lost between
  the transactions, and a transaction that one member took without answering and another answered counts once. Without
  that agreement it may not: see \<open>sync_lost_answer\<close>.\<close>

lemma sync_mirrors:
  assumes "etcd_txns env view created"
    and "is_leader s" and "ss_leader_revision (so_status s) = Some lrev"
    and "bt_ok (so_written s)" and "view (so_world s) = so_written s"
    and "sync env s = (Inr (), s')"
  shows "view (so_world s') = records_of (se_codecs env) (so_fed s) \<and> so_written s' = view (so_world s') \<and> so_fed s' = so_fed s"
proof -
  let ?recs = "records_of (se_codecs env) (so_fed s)"
  let ?ops = "diff (so_written s) ?recs"
  have diff: "foldl (foldl apply_op) (so_written s) (chunks TXN_OPS ?ops) = ?recs"
    using diff_apply_eq [OF assms(4) records_of_ok]
    by (simp add: foldl_chunks TXN_OPS_def)
  show ?thesis
  proof (cases "?ops = []")
    case True
    with diff_apply_eq [OF assms(4) records_of_ok, of "se_codecs env" "so_fed s"] have "so_written s = ?recs" by simp
    moreover from True assms(2,3,6) have "s' = s" by (simp add: sync_def)
    ultimately show ?thesis using assms(5) by simp
  next
    case False
    with assms(2,3,6) obtain meta where "sync_chunks env lrev meta (chunks TXN_OPS ?ops) s = (Inr (), s')"
      by (auto simp: sync_def Let_def)
    from sync_chunks_mirror [OF assms(1) this assms(4,5)] diff show ?thesis by simp
  qed
qed

text \<open>What etcd answers to the first transaction of a write, an error when no member's answer arrives.\<close>

definition first_answer :: "'w store_env \<Rightarrow> int \<Rightarrow> 'w store \<Rightarrow> store_error + json" where
  "first_answer env lrev s =
     fst (store_call env ''/v3/kv/txn''
       (txn_body env lrev (hd (chunks TXN_OPS (diff (so_written s) (records_of (se_codecs env) (so_fed s)))))
         (enc_meta (se_codecs env) (f_revision (so_fed s)) (se_instance env) (se_now env (so_world s)))) s)"

text \<open>Property C10. A deposed leader writes nothing: when the leader key is not the one it created, a write leaves every record
  of the store as it was, and is an error if there was something to write. It steps down exactly when etcd's answer to
  the first transaction arrives; without an answer the error is the call's and it stays leader in its own eyes.\<close>

lemma sync_deposed:
  assumes "etcd_txns env view created"
    and "is_leader s" and "ss_leader_revision (so_status s) = Some lrev"
    and "bt_ok (view (so_world s))" and "created (so_world s) \<noteq> lrev"
    and "sync env s = (r, s')"
  shows "view (so_world s') = view (so_world s) \<and> so_written s' = so_written s \<and>
    (diff (so_written s) (records_of (se_codecs env) (so_fed s)) \<noteq> [] \<longrightarrow>
      (case first_answer env lrev s of
         Inl e \<Rightarrow> r = Inl e \<and> e \<noteq> NotLeader \<and> is_leader s'
       | Inr _ \<Rightarrow> r = Inl NotLeader \<and> \<not> is_leader s'))"
proof (cases "diff (so_written s) (records_of (se_codecs env) (so_fed s)) = []")
  case True
  with assms(2,3,6) show ?thesis by (auto simp: sync_def)
next
  case False
  with chunks_nonempty [OF False, of TXN_OPS] obtain c cs where
    c: "chunks TXN_OPS (diff (so_written s) (records_of (se_codecs env) (so_fed s))) = c # cs"
    by (auto simp: TXN_OPS_def)
  with False assms(2,3,6) have
    "sync_chunks env lrev (enc_meta (se_codecs env) (f_revision (so_fed s)) (se_instance env) (se_now env (so_world s))) (c # cs) s = (r, s')"
    by (auto simp: sync_def Let_def)
  from sync_chunks_deposed [OF assms(1,4,5,2) this] show ?thesis by (simp add: first_answer_def c)
qed

subsection \<open>Numbers and bytes of the gateway\<close>

lemma unat_of_char [simp]: "unat (of_char c :: u8) = of_char c"
proof -
  have less: "(of_char c :: nat) < 2 ^ 8" using nat_of_char_less_256 [of c] by simp
  have "unat (of_nat (of_char c) :: u8) = of_char c mod 2 ^ LENGTH(8)" by (rule unat_of_nat)
  also have "\<dots> = of_char c" using less by simp
  finally show ?thesis by (simp only: of_nat_of_char)
qed

lemma unbytes_bytes [simp]: "unbytes (bytes x) = x"
  by (simp add: unbytes_def bytes_def comp_def)

lemma digits_snoc:
  assumes "digits x = Some n" and "d < 10"
  shows "digits (x @ [char_of (48 + d)]) = Some (10 * n + d)"
  using assms by (auto simp: digits_def of_char_of split: if_splits)

lemma digits_dec [simp]: "digits (dec n) = Some n"
proof (induction n rule: dec.induct)
  case (1 n)
  show ?case
  proof (cases "n < 10")
    case True
    then show ?thesis by (subst dec.simps) (simp add: digits_def of_char_of)
  next
    case False
    have "digits (dec (n div 10) @ [char_of (48 + n mod 10)]) = Some (10 * (n div 10) + n mod 10)"
      by (rule digits_snoc) (use 1 False in auto)
    with False show ?thesis by (subst dec.simps) (simp only: if_False mult_div_mod_eq)
  qed
qed

lemma dec_starts: "\<exists>d cs. dec n = char_of (48 + d) # cs \<and> d < (10 :: nat)"
proof -
  obtain c cs where "dec n = c # cs" using dec_nonempty [of n] by (cases "dec n") auto
  with dec_digits [of c n] show ?thesis by auto
qed

lemma digit_neq [simp]: "d < 10 \<Longrightarrow> char_of (48 + d :: nat) \<noteq> CHR ''-''" "d < 10 \<Longrightarrow> char_of (48 + d :: nat) \<noteq> CHR ''+''"
proof -
  assume d: "d < 10"
  then have code: "(of_char (char_of (48 + d)) :: nat) = 48 + d" by (simp add: of_char_of)
  show "char_of (48 + d :: nat) \<noteq> CHR ''-''"
  proof
    assume "char_of (48 + d :: nat) = CHR ''-''"
    with code have "48 + d = of_char (CHR ''-'')" by simp
    then show False by simp
  qed
  show "char_of (48 + d :: nat) \<noteq> CHR ''+''"
  proof
    assume "char_of (48 + d :: nat) = CHR ''+''"
    with code have "48 + d = of_char (CHR ''+'')" by simp
    then show False by simp
  qed
qed

text \<open>The source writes an \<open>i64\<close> with \<open>to_string\<close> and reads what the gateway answers with \<open>parse\<close>.\<close>

definition i64 :: "int \<Rightarrow> bool" where
  "i64 n \<longleftrightarrow> - (2 ^ 63) \<le> n \<and> n < 2 ^ 63"

interpretation i64: codec show_i64 parse_i64 i64
proof
  fix n assume n: "i64 n"
  obtain d cs where d: "dec (nat n) = char_of (48 + d) # cs" "d < (10 :: nat)" using dec_starts by blast
  show "parse_i64 (show_i64 n) = Some n"
  proof (cases "n < 0")
    case True
    with n show ?thesis by (simp add: show_i64_def parse_i64_def i64_def)
  next
    case False
    have "parse_i64 (dec (nat n)) = filter_opt i64 (map_option int (digits (dec (nat n))))"
      unfolding parse_i64_def d(1) i64_def using d(2) by simp
    with False n show ?thesis by (simp add: show_i64_def)
  qed
qed

interpretation decimal: codec dec digits "\<lambda>_. True"
  by unfold_locales simp

lemma show_i64_inject: "show_i64 a = show_i64 b \<longleftrightarrow> a = b"
proof -
  have neq: "CHR ''-'' # x \<noteq> dec n" for x n
    using dec_starts [of n] digit_neq(1) by (metis list.inject)
  show ?thesis
    by (auto simp: show_i64_def decimal.enc_inject neq neq [symmetric] split: if_splits)
qed

subsection \<open>A reference etcd\<close>

text \<open>A member that holds the records below the prefix and the create revision of the leader key, and carries
  out a guarded transaction as it is written on the wire: an instance of what \<open>etcd_txns\<close> asks.\<close>

type_synonym etcd_world = "(string, string) btree \<times> int"

definition field_bytes :: "string \<Rightarrow> json \<Rightarrow> string option" where
  "field_bytes k v = map_option unbytes (Option.bind (get_str k v) unb64)"

definition op_of :: "string \<Rightarrow> json \<Rightarrow> op option" where
  "op_of prefix v =
     (case jget ''request_put'' v of
        Some p \<Rightarrow>
          (case (field_bytes ''key'' p, field_bytes ''value'' p) of
             (Some k, Some x) \<Rightarrow> Some (Put (drop (length prefix) k) x)
           | _ \<Rightarrow> None)
      | None \<Rightarrow>
          map_option (\<lambda>k. Delete (drop (length prefix) k)) (Option.bind (jget ''request_delete_range'' v) (field_bytes ''key'')))"

definition guard_of :: "json \<Rightarrow> string" where
  "guard_of body =
     (case get_array ''compare'' body of
        [] \<Rightarrow> []
      | c # _ \<Rightarrow> unwrap_or (get_str ''create_revision'' c) [])"

definition reference_etcd :: "string \<Rightarrow> etcd_world wire" where
  "reference_etcd prefix =
     \<lparr>wi_send = (\<lambda>rq w.
        let body = unwrap_or (rq_body rq) JNull;
            ok = (guard_of body = show_i64 (snd w));
            ops = map (the \<circ> op_of prefix) (butlast (get_array ''success'' body))
        in (Inr \<lparr>rs_status = 200, rs_status_text = [], rs_json = Some (JObj [(''succeeded'', JBool ok)])\<rparr>,
            if ok then (foldl apply_op (fst w) ops, snd w) else w)),
      wi_volume = (\<lambda>_. None)\<rparr>"

lemma jget_succeeded [simp]: "succeeded (JObj [(''succeeded'', JBool b)]) = b"
  by (simp add: succeeded_def)

lemma op_of_json [simp]: "op_of (se_prefix env) (op_json env x) = Some x"
  by (cases x) (simp_all add: op_json_def op_of_def put_op_def delete_op_def field_bytes_def key_def)

lemma guard_of_txn [simp]: "guard_of (txn_body env lrev ops meta) = show_i64 lrev"
  by (simp add: guard_of_def txn_body_def guard_def)

lemma ops_of_txn [simp]:
  "map (the \<circ> op_of (se_prefix env)) (butlast (get_array ''success'' (txn_body env lrev ops meta))) = ops"
  by (simp add: txn_body_def comp_def)

lemma reference_etcd_txns: "se_wire env = reference_etcd (se_prefix env) \<Longrightarrow> etcd_txns env fst snd"
  by (auto simp: etcd_txns_def reference_etcd_def Let_def txn_effect_def answered_def show_i64_inject
      simp del: map_map)

definition small_codecs :: codecs where
  "small_codecs =
     \<lparr>enc_volume = (\<lambda>_. ''v''), dec_volume = (\<lambda>_. None), enc_snapshot = (\<lambda>_. ''s''), dec_snapshot = (\<lambda>_. None),
      enc_group = (\<lambda>_. ''g''), dec_group = (\<lambda>_. None), enc_backup = (\<lambda>_. ''b''), dec_backup = (\<lambda>_. None),
      enc_vm = (\<lambda>_. ''m''), dec_vm = (\<lambda>_. None), enc_node = nc_name, dec_node = (\<lambda>_. None),
      enc_orphans = (\<lambda>xs. if xs = [] then ''[]'' else ''[o]''), dec_orphans = (\<lambda>x. if x = ''[]'' then Some [] else None), enc_stale = (\<lambda>_. ''[]''), dec_stale = (\<lambda>_. Some []),
      enc_meta = (\<lambda>_ _ _. ''m''), dec_meta = (\<lambda>_. Some 1), enc_leader = fst, dec_leader = (\<lambda>_. None)\<rparr>"

definition small_store_env :: "etcd_world store_env" where
  "small_store_env =
     \<lparr>se_wire = reference_etcd ''/s/'', se_codecs = small_codecs, se_prefix = ''/s/'', se_instance = ''i1'',
      se_advertise_url = ''http://i1'', se_ttl = 15, se_now = (\<lambda>_. 0), se_save = (\<lambda>_ w. w)\<rparr>"

definition small_store :: "store_role \<Rightarrow> int \<Rightarrow> etcd_world store" where
  "small_store r created =
     \<lparr>so_etcd = \<lparr>et_endpoints = [''http://e1''], et_good = 0\<rparr>,
      so_status = \<lparr>ss_role = r, ss_leader = None, ss_lease_id = Some 9, ss_leader_revision = Some 5, ss_meta_revision = 0,
        ss_writes = 0, ss_loads = 0, ss_failed = False, ss_displaced = None, ss_last_renewal = Some 0\<rparr>,
      so_written = [(''orphans'', ''[]''), (''volumes/old'', ''v'')], so_fed = default_fed, so_events = new_log 10,
      so_world = ([(''orphans'', ''[]''), (''volumes/old'', ''v'')], created)\<rparr>"

lemma small_etcd: "etcd_txns small_store_env fst snd"
  by (rule reference_etcd_txns) (simp add: small_store_env_def)

lemma reference_store_call:
  assumes "se_wire env = reference_etcd (se_prefix env)" and "et_endpoints (so_etcd s) = [u]" and "et_good (so_etcd s) = 0"
  shows "store_call env path (txn_body env lrev ops meta) s =
    (Inr (JObj [(''succeeded'', JBool (snd (so_world s) = lrev))]),
     s\<lparr>so_world := (txn_effect (fst (so_world s)) (snd (so_world s)) lrev ops, snd (so_world s))\<rparr>)"
  using assms by (cases "so_etcd s")
    (auto simp: store_call_def etcd_call_def Let_def reference_etcd_def txn_effect_def show_i64_inject simp del: map_map)

lemma small_diff:
  "diff (so_written (small_store r c)) (records_of small_codecs default_fed) = [Put ''stale_heads'' ''[]'', Delete ''volumes/old'']"
  by (cases r) code_simp+

lemma small_chunks: "chunks TXN_OPS [a, b] = [[a, b]]"
  by (subst chunks.simps) (simp add: TXN_OPS_def chunks.simps)

lemma small_sync:
  "\<exists>s. sync small_store_env (small_store Leader c) = (if c = 5 then Inr () else Inl NotLeader, s)"
proof -
  have env: "se_codecs small_store_env = small_codecs" "se_wire small_store_env = reference_etcd (se_prefix small_store_env)"
    by (simp_all add: small_store_env_def)
  have s: "is_leader (small_store Leader c)" "ss_leader_revision (so_status (small_store Leader c)) = Some 5"
      "so_fed (small_store Leader c) = default_fed" "snd (so_world (small_store Leader c)) = c"
      "et_endpoints (so_etcd (small_store Leader c)) = [''http://e1'']" "et_good (so_etcd (small_store Leader c)) = 0"
    by (simp_all add: small_store_def is_leader_def)
  note call = reference_store_call [OF env(2) s(5) s(6), unfolded s(4)]
  show ?thesis
    by (simp add: sync_def s env Let_def small_diff small_chunks call)
qed

lemma sync_mirrors_witness:
  "\<exists>s'. sync small_store_env (small_store Leader 5) = (Inr (), s') \<and>
     fst (so_world s') = [(''orphans'', ''[]''), (''stale_heads'', ''[]'')] \<and> so_written s' = fst (so_world s')"
proof -
  obtain s' where run: "sync small_store_env (small_store Leader 5) = (Inr (), s')"
    using small_sync [of 5] by auto
  have "records_of (se_codecs small_store_env) (so_fed (small_store Leader 5)) = [(''orphans'', ''[]''), (''stale_heads'', ''[]'')]"
    by code_simp
  moreover have "is_leader (small_store Leader 5)" "ss_leader_revision (so_status (small_store Leader 5)) = Some 5"
      "bt_ok (so_written (small_store Leader 5))" "fst (so_world (small_store Leader 5)) = so_written (small_store Leader 5)"
    by (simp_all add: small_store_def is_leader_def)
  ultimately show ?thesis using sync_mirrors [OF small_etcd _ _ _ _ run] run by simp
qed

lemma sync_deposed_witness:
  "\<exists>s'. sync small_store_env (small_store Leader 6) = (Inl NotLeader, s') \<and>
     fst (so_world s') = [(''orphans'', ''[]''), (''volumes/old'', ''v'')] \<and> \<not> is_leader s'"
proof -
  obtain s' where run: "sync small_store_env (small_store Leader 6) = (Inl NotLeader, s')"
    using small_sync [of 6] by auto
  have "is_leader (small_store Leader 6)" "ss_leader_revision (so_status (small_store Leader 6)) = Some 5"
      "bt_ok (fst (so_world (small_store Leader 6)))" "snd (so_world (small_store Leader 6)) \<noteq> 5"
      "fst (so_world (small_store Leader 6)) = [(''orphans'', ''[]''), (''volumes/old'', ''v'')]"
    by (simp_all add: small_store_def is_leader_def)
  moreover have "diff (so_written (small_store Leader 6)) (records_of (se_codecs small_store_env) (so_fed (small_store Leader 6))) \<noteq> []"
    by code_simp
  ultimately show ?thesis using sync_deposed [OF small_etcd _ _ _ _ run] run by (auto split: sum.splits)
qed

subsection \<open>A write whose answer is lost\<close>

text \<open>A member that carries out the first transaction it is sent and does not answer it.\<close>

definition lossy_etcd :: "string \<Rightarrow> (etcd_world \<times> bool) wire" where
  "lossy_etcd prefix =
     \<lparr>wi_send = (\<lambda>rq w. case wi_send (reference_etcd prefix) rq (fst w) of
        (a, w') \<Rightarrow> (if snd w then Inl ''timed out'' else a, (w', False))),
      wi_volume = (\<lambda>_. None)\<rparr>"

lemma lossy_etcd_txns: "se_wire env = lossy_etcd (se_prefix env) \<Longrightarrow> etcd_txns env (fst \<circ> fst) (snd \<circ> fst)"
  by (auto simp: etcd_txns_def lossy_etcd_def reference_etcd_def Let_def txn_effect_def answered_def show_i64_inject
      simp del: map_map)

definition lossy_env :: "(etcd_world \<times> bool) store_env" where
  "lossy_env =
     \<lparr>se_wire = lossy_etcd ''/s/'', se_codecs = small_codecs, se_prefix = ''/s/'', se_instance = ''i1'',
      se_advertise_url = ''http://i1'', se_ttl = 15, se_now = (\<lambda>_. 0), se_save = (\<lambda>_ w. w)\<rparr>"

definition small_orphan :: orphan where
  "small_orphan = \<lparr>o_node = ''n1'', o_volume_id = ''v1'', o_master_node = None, o_of_volume = ''vol'', o_reason = ''r'', o_since = 0\<rparr>"

definition lossy_store :: "(etcd_world \<times> bool) store" where
  "lossy_store =
     (let recs = [(''orphans'', ''[]''), (''stale_heads'', ''[]'')] in
      \<lparr>so_etcd = \<lparr>et_endpoints = [''http://e1''], et_good = 0\<rparr>, so_status = so_status (small_store Leader 5),
       so_written = recs, so_fed = default_fed\<lparr>f_orphans := [small_orphan]\<rparr>, so_events = new_log 10,
       so_world = ((recs, 5), True)\<rparr>)"

text \<open>A write whose answer is lost can leave the store behind for good. etcd carries out the leader's
  transaction, the answer does not arrive, and \<open>sync\<close> reports the error and keeps its old copy of what is
  written. When the change is then taken back in memory, the next \<open>sync\<close> finds no difference and returns success,
  while the store still holds the change, which followers load and the next leader takes over.\<close>

lemma sync_lost_answer:
  "\<exists>s1 s2. sync lossy_env lossy_store = (Inl NoEndpoint, s1) \<and>
     sync lossy_env (s1\<lparr>so_fed := default_fed\<rparr>) = (Inr (), s2) \<and>
     is_leader s2 \<and> snd (fst (so_world s2)) = 5 \<and>
     so_written s2 = records_of small_codecs (so_fed s2) \<and>
     fst (fst (so_world s2)) \<noteq> records_of small_codecs (so_fed s2)"
proof -
  let ?recs = "[(''orphans'', ''[]''), (''stale_heads'', ''[]'')]"
  have ops: "diff ?recs (records_of small_codecs (default_fed\<lparr>f_orphans := [small_orphan]\<rparr>)) = [Put ''orphans'' ''[o]'']"
    "diff ?recs (records_of small_codecs default_fed) = []" "records_of small_codecs default_fed = ?recs"
    by code_simp+
  have chunk: "chunks TXN_OPS [a] = [[a]]" for a :: op
    by (subst chunks.simps) (simp add: TXN_OPS_def chunks.simps)
  have env: "se_codecs lossy_env = small_codecs" "se_wire lossy_env = lossy_etcd (se_prefix lossy_env)"
    by (simp_all add: lossy_env_def)
  have call: "store_call lossy_env path (txn_body lossy_env 5 ops meta) lossy_store =
      (Inl NoEndpoint, lossy_store\<lparr>so_world := ((foldl apply_op ?recs ops, 5), False)\<rparr>)" for path ops meta
    by (simp add: store_call_def etcd_call_def Let_def env(2) lossy_etcd_def reference_etcd_def lossy_store_def
        del: map_map)
  have s: "so_written lossy_store = ?recs" "so_fed lossy_store = default_fed\<lparr>f_orphans := [small_orphan]\<rparr>"
      "is_leader lossy_store" "ss_leader_revision (so_status lossy_store) = Some 5"
    by (simp_all add: lossy_store_def Let_def is_leader_def small_store_def)
  define s1 where "s1 = on_status (\<lambda>st. st\<lparr>ss_failed := True\<rparr>)
      (lossy_store\<lparr>so_world := ((foldl apply_op ?recs [Put ''orphans'' ''[o]''], 5), False)\<rparr>)"
  have first: "sync lossy_env lossy_store = (Inl NoEndpoint, s1)"
    by (simp add: sync_def s env(1) ops Let_def chunk call s1_def)
  have s1: "so_written s1 = ?recs" "is_leader s1" "ss_leader_revision (so_status s1) = Some 5"
      "so_world s1 = (([(''orphans'', ''[o]''), (''stale_heads'', ''[]'')], 5), False)"
    using s by (simp_all add: s1_def is_leader_def apply_op_def)
  have "sync lossy_env (s1\<lparr>so_fed := default_fed\<rparr>) = (Inr (), s1\<lparr>so_fed := default_fed\<rparr>)"
    using s1(2,3) ops(2) [unfolded ops(3)] by (simp add: sync_def is_leader_def s1(1) env(1) ops(3))
  with first s1 show ?thesis by (simp add: is_leader_def ops)
qed

subsection \<open>Records and back\<close>

text \<open>What one record does to one of the maps that are loaded.\<close>

definition load_into :: "string \<Rightarrow> (string \<Rightarrow> 'a option) \<Rightarrow> (string, 'a) btree \<Rightarrow> string \<times> string \<Rightarrow> (string, 'a) btree" where
  "load_into kind d m kv =
     (if fst (split_kind (fst kv)) = kind then bt_insert (snd (split_kind (fst kv))) (the (d (snd kv))) m else m)"

lemma load_record_maps:
  assumes "load_record cs ld kv = Inr ld'"
  shows "f_volumes (ld_fed ld') = load_into ''volumes'' (dec_volume cs) (f_volumes (ld_fed ld)) kv"
    and "f_snapshots (ld_fed ld') = load_into ''snapshots'' (dec_snapshot cs) (f_snapshots (ld_fed ld)) kv"
    and "f_group_snapshots (ld_fed ld') = load_into ''group_snapshots'' (dec_group cs) (f_group_snapshots (ld_fed ld)) kv"
    and "f_backups (ld_fed ld') = load_into ''backups'' (dec_backup cs) (f_backups (ld_fed ld)) kv"
    and "f_vm_migrations (ld_fed ld') = load_into ''vm_migrations'' (dec_vm cs) (f_vm_migrations (ld_fed ld)) kv"
    and "f_orphans (ld_fed ld') = (if fst (split_kind (fst kv)) = ''orphans'' then the (dec_orphans cs (snd kv)) else f_orphans (ld_fed ld))"
    and "f_stale_heads (ld_fed ld') = (if fst (split_kind (fst kv)) = ''stale_heads'' then the (dec_stale cs (snd kv)) else f_stale_heads (ld_fed ld))"
    and "ld_registered ld' = ld_registered ld @ (if fst (split_kind (fst kv)) = ''nodes'' then [the (dec_node cs (snd kv))] else [])"
  using assms
  by (auto simp: load_record_def load_into_def decode_into_def on_fed_def split: prod.splits if_splits option.splits)

lemma split_kind_join: "CHR ''/'' \<notin> set kind \<Longrightarrow> split_kind (kind @ CHR ''/'' # n) = (kind, n)"
  by (induction kind) (auto simp: split_kind_def)

lemma split_kind_bare: "CHR ''/'' \<notin> set k \<Longrightarrow> split_kind k = (k, [])"
  by (induction k) (auto simp: split_kind_def)

lemma split_kind_eq:
  assumes "CHR ''/'' \<in> set k"
  shows "k = fst (split_kind k) @ CHR ''/'' # snd (split_kind k)" and "CHR ''/'' \<notin> set (fst (split_kind k))"
  using assms by (induction k) (auto simp: split_kind_def)

text \<open>The keys a kind of records can have: the kind, a slash and the name.\<close>

definition named_keys :: "string \<Rightarrow> (string, string) btree \<Rightarrow> bool" where
  "named_keys kind kvs \<longleftrightarrow> CHR ''/'' \<notin> set kind \<and> kind \<notin> fst ` set kvs"

lemma get_load_into:
  assumes "CHR ''/'' \<notin> set kind" and "fst kv \<noteq> kind"
  shows "bt_get (load_into kind d m kv) n =
    (if fst kv = kind @ CHR ''/'' # n then Some (the (d (snd kv))) else bt_get m n)"
proof (cases "CHR ''/'' \<in> set (fst kv)")
  case True
  show ?thesis
    using split_kind_eq [OF True] split_kind_join [OF assms(1), of n]
    by (cases "fst kv = kind @ CHR ''/'' # n") (auto simp: load_into_def)
next
  case False
  with assms split_kind_bare [OF False] show ?thesis by (auto simp: load_into_def)
qed

lemma get_load_into_all:
  assumes "CHR ''/'' \<notin> set kind"
  shows "kind \<notin> fst ` set kvs \<Longrightarrow> bt_get (foldl (load_into kind d) m kvs) n =
    (case map_of (rev kvs) (kind @ CHR ''/'' # n) of Some v \<Rightarrow> Some (the (d v)) | None \<Rightarrow> bt_get m n)"
proof (induction kvs rule: rev_induct)
  case Nil
  then show ?case by simp
next
  case (snoc kv kvs)
  then show ?case by (auto simp: get_load_into [OF assms] split: prod.splits)
qed

lemma load_into_ok: "bt_ok m \<Longrightarrow> bt_ok (foldl (load_into kind d) m kvs)"
  by (induction kvs arbitrary: m) (auto simp: load_into_def bt_insert_ok)

lemma map_of_rev_ok: "bt_ok m \<Longrightarrow> map_of (rev m) k = map_of m k"
  by (rule map_of_inject_set [THEN iffD2, THEN fun_cong]) (use bt_ok_distinct in \<open>auto simp flip: rev_map\<close>)

lemma loaded_map:
  assumes "bt_ok kvs" and "named_keys kind kvs" and "bt_ok m"
    and "\<And>n. bt_get kvs (kind @ CHR ''/'' # n) = map_option e (bt_get m n)"
    and "\<forall>x \<in> set (bt_values m). d (e x) = Some x"
  shows "foldl (load_into kind d) [] kvs = m"
proof (rule bt_ext)
  show "bt_ok (foldl (load_into kind d) [] kvs)" by (rule load_into_ok) simp
  fix n
  have "bt_get (foldl (load_into kind d) [] kvs) n = map_option (\<lambda>x. the (d (e x))) (bt_get m n)"
    using get_load_into_all [of kind kvs d "[]" n] assms(2,4)
    by (auto simp: named_keys_def map_of_rev_ok [OF assms(1)] split: option.splits)
  also have "\<dots> = bt_get m n"
    using assms(5) by (cases "bt_get m n") (force dest: map_of_SomeD)+
  finally show "bt_get (foldl (load_into kind d) [] kvs) n = bt_get m n" .
qed (rule assms(3))

text \<open>What the derived encoders owe: what they wrote reads back.\<close>

definition codecs_ok :: "codecs \<Rightarrow> fed_state \<Rightarrow> bool" where
  "codecs_ok cs fed \<longleftrightarrow>
     (\<forall>x \<in> set (bt_values (f_volumes fed)). dec_volume cs (enc_volume cs x) = Some x) \<and>
     (\<forall>x \<in> set (bt_values (f_snapshots fed)). dec_snapshot cs (enc_snapshot cs x) = Some x) \<and>
     (\<forall>x \<in> set (bt_values (f_group_snapshots fed)). dec_group cs (enc_group cs x) = Some x) \<and>
     (\<forall>x \<in> set (bt_values (f_backups fed)). dec_backup cs (enc_backup cs x) = Some x) \<and>
     (\<forall>x \<in> set (bt_values (f_vm_migrations fed)). dec_vm cs (enc_vm cs x) = Some x) \<and>
     (\<forall>x \<in> set (bt_values (f_nodes fed)). dec_node cs (enc_node cs (n_config x)) = Some (n_config x)) \<and>
     dec_orphans cs (enc_orphans cs (f_orphans fed)) = Some (f_orphans fed) \<and>
     dec_stale cs (enc_stale cs (f_stale_heads fed)) = Some (f_stale_heads fed)"

text \<open>The maps are \<open>BTreeMap\<close>s, and a node is kept under the name of its configuration.\<close>

definition maps_ok :: "fed_state \<Rightarrow> bool" where
  "maps_ok fed \<longleftrightarrow> bt_ok (f_volumes fed) \<and> bt_ok (f_snapshots fed) \<and> bt_ok (f_group_snapshots fed) \<and> bt_ok (f_backups fed) \<and>
     bt_ok (f_vm_migrations fed) \<and> bt_ok (f_nodes fed) \<and> (\<forall>(k, n) \<in> set (f_nodes fed). nc_name (n_config n) = k)"

lemma get_put_all:
  "bt_ok kvs \<Longrightarrow> bt_get (put_all kind enc kvs m) (kind @ CHR ''/'' # n) =
     (case bt_get kvs n of Some v \<Rightarrow> Some (enc v) | None \<Rightarrow> bt_get m (kind @ CHR ''/'' # n))"
proof (induction kvs arbitrary: m)
  case Nil
  then show ?case by (simp add: put_all_def)
next
  case (Cons kv kvs)
  obtain k v where kv: "kv = (k, v)" by (cases kv)
  have step: "put_all kind enc (kv # kvs) m = put_all kind enc kvs (bt_insert (kind @ CHR ''/'' # k) (enc v) m)"
    by (simp add: put_all_def kv)
  from Cons.prems kv have "k \<notin> fst ` set kvs" by auto
  then have "bt_get kvs k = None" by (simp add: map_of_eq_None_iff)
  with Cons kv show ?case unfolding step by (auto split: option.splits)
qed

lemma get_put_all_other:
  "(\<And>n. k \<noteq> kind @ CHR ''/'' # n) \<Longrightarrow> bt_get (put_all kind enc kvs m) k = bt_get m k"
  by (induction kvs arbitrary: m) (auto simp: put_all_def split: prod.splits)

lemma registered_nodes_eq:
  "maps_ok fed \<Longrightarrow> registered_nodes fed = map (\<lambda>(k, n). (k, n_config n)) (bt_retain (\<lambda>_ n. ns_source (n_status n) = Registered) (f_nodes fed))"
proof -
  assume "maps_ok fed"
  then have "\<forall>(k, n) \<in> set (f_nodes fed). nc_name (n_config n) = k" by (simp add: maps_ok_def)
  then show ?thesis
    by (auto simp: registered_nodes_def bt_retain_def filter_map comp_def split_def)
qed

lemma registered_nodes_ok: "maps_ok fed \<Longrightarrow> bt_ok (registered_nodes fed)"
proof -
  assume ok: "maps_ok fed"
  have "map fst (registered_nodes fed) = map fst (bt_retain (\<lambda>_ n. ns_source (n_status n) = Registered) (f_nodes fed))"
    by (simp add: registered_nodes_eq [OF ok] comp_def split_def)
  with ok bt_retain_ok [of "f_nodes fed"] show ?thesis by (simp only: maps_ok_def)
qed

lemma get_registered_nodes:
  assumes "maps_ok fed"
  shows "bt_get (registered_nodes fed) k =
    map_option n_config (filter_opt (\<lambda>n. ns_source (n_status n) = Registered) (bt_get (f_nodes fed) k))"
proof -
  have "bt_ok (f_nodes fed)" using assms by (simp add: maps_ok_def)
  then show ?thesis
    by (simp add: registered_nodes_eq [OF assms] map_of_map bt_get_retain)
qed

lemma get_put_all_key:
  assumes "bt_ok kvs"
  shows "bt_get (put_all kind enc kvs m) k =
    (if take (Suc (length kind)) k = kind @ ''/''
     then case bt_get kvs (drop (Suc (length kind)) k) of Some v \<Rightarrow> Some (enc v) | None \<Rightarrow> bt_get m k
     else bt_get m k)"
proof (cases "take (Suc (length kind)) k = kind @ ''/''")
  case True
  then have "k = kind @ CHR ''/'' # drop (Suc (length kind)) k"
    by (metis append.assoc append_Cons append_Nil append_take_drop_id)
  then obtain n where k: "k = kind @ CHR ''/'' # n" by blast
  show ?thesis unfolding k using get_put_all [OF assms, of kind enc m n] by simp
next
  case False
  then have "k \<noteq> kind @ CHR ''/'' # n" for n by auto
  with False show ?thesis by (simp add: get_put_all_other)
qed

lemma get_records_of:
  assumes "maps_ok fed"
  shows "bt_get (records_of cs fed) (''volumes'' @ CHR ''/'' # n) = map_option (enc_volume cs) (bt_get (f_volumes fed) n)"
    and "bt_get (records_of cs fed) (''snapshots'' @ CHR ''/'' # n) = map_option (enc_snapshot cs) (bt_get (f_snapshots fed) n)"
    and "bt_get (records_of cs fed) (''group_snapshots'' @ CHR ''/'' # n) = map_option (enc_group cs) (bt_get (f_group_snapshots fed) n)"
    and "bt_get (records_of cs fed) (''backups'' @ CHR ''/'' # n) = map_option (enc_backup cs) (bt_get (f_backups fed) n)"
    and "bt_get (records_of cs fed) (''vm_migrations'' @ CHR ''/'' # n) = map_option (enc_vm cs) (bt_get (f_vm_migrations fed) n)"
    and "bt_get (records_of cs fed) (''nodes'' @ CHR ''/'' # n) = map_option (enc_node cs) (bt_get (registered_nodes fed) n)"
    and "bt_get (records_of cs fed) ''orphans'' = Some (enc_orphans cs (f_orphans fed))"
    and "bt_get (records_of cs fed) ''stale_heads'' = Some (enc_stale cs (f_stale_heads fed))"
  using assms registered_nodes_ok [OF assms]
  unfolding records_of_def maps_ok_def
  by (simp_all add: get_put_all_key split: option.splits)

lemma set_bt_insert: "set (bt_insert k v m) \<subseteq> insert (k, v) (set m)"
  by (induction k v m rule: bt_insert.induct) auto

lemma set_put_all: "set (put_all kind enc kvs m) \<subseteq> set m \<union> (\<lambda>(n, v). (kind @ CHR ''/'' # n, enc v)) ` set kvs"
proof (induction kvs arbitrary: m)
  case Nil
  then show ?case by (simp add: put_all_def)
next
  case (Cons kv kvs)
  obtain k v where kv: "kv = (k, v)" by (cases kv)
  have "put_all kind enc (kv # kvs) m = put_all kind enc kvs (bt_insert (kind @ CHR ''/'' # k) (enc v) m)"
    by (simp add: put_all_def kv)
  with Cons [of "bt_insert (kind @ CHR ''/'' # k) (enc v) m"] set_bt_insert [of "kind @ CHR ''/'' # k" "enc v" m]
  show ?case by (auto simp: kv)
qed

definition readable :: "codecs \<Rightarrow> string \<times> string \<Rightarrow> bool" where
  "readable cs kv \<longleftrightarrow> (\<forall>ld. \<exists>ld'. load_record cs ld kv = Inr ld')"

lemma readable_put_all:
  assumes "list_all (readable cs) m" and "\<forall>x \<in> set (bt_values kvs). \<forall>n. readable cs (kind @ CHR ''/'' # n, enc x)"
  shows "list_all (readable cs) (put_all kind enc kvs m)"
  using assms set_put_all [of kind enc kvs m] by (fastforce simp: list_all_iff)

lemma readable_insert: "list_all (readable cs) m \<Longrightarrow> readable cs (k, v) \<Longrightarrow> list_all (readable cs) (bt_insert k v m)"
  using set_bt_insert [of k v m] by (auto simp: list_all_iff)

lemmas split_kinds = split_kind_join [of "''volumes''", simplified] split_kind_join [of "''snapshots''", simplified]
  split_kind_join [of "''group_snapshots''", simplified] split_kind_join [of "''backups''", simplified]
  split_kind_join [of "''vm_migrations''", simplified] split_kind_join [of "''nodes''", simplified]
  split_kind_bare [of "''orphans''", simplified] split_kind_bare [of "''stale_heads''", simplified]

lemma readable_kinds:
  "dec_volume cs v = Some x1 \<Longrightarrow> readable cs (''volumes'' @ CHR ''/'' # n, v)"
  "dec_snapshot cs v = Some x2 \<Longrightarrow> readable cs (''snapshots'' @ CHR ''/'' # n, v)"
  "dec_group cs v = Some x3 \<Longrightarrow> readable cs (''group_snapshots'' @ CHR ''/'' # n, v)"
  "dec_backup cs v = Some x4 \<Longrightarrow> readable cs (''backups'' @ CHR ''/'' # n, v)"
  "dec_vm cs v = Some x5 \<Longrightarrow> readable cs (''vm_migrations'' @ CHR ''/'' # n, v)"
  "dec_node cs v = Some x6 \<Longrightarrow> readable cs (''nodes'' @ CHR ''/'' # n, v)"
  "dec_orphans cs v = Some x7 \<Longrightarrow> readable cs (''orphans'', v)"
  "dec_stale cs v = Some x8 \<Longrightarrow> readable cs (''stale_heads'', v)"
  by (simp_all add: readable_def load_record_def decode_into_def split_kinds)

lemma registered_readable:
  "codecs_ok cs fed \<Longrightarrow> \<forall>x \<in> set (bt_values (registered_nodes fed)). dec_node cs (enc_node cs x) = Some x"
  by (auto simp: registered_nodes_def codecs_ok_def)

lemma records_readable:
  assumes "codecs_ok cs fed"
  shows "list_all (readable cs) (records_of cs fed)"
  unfolding records_of_def using assms registered_readable [OF assms]
  by (intro readable_insert readable_put_all ballI allI) (auto simp: codecs_ok_def intro: readable_kinds simp del: append_Cons append_Nil)

lemma load_records_readable: "list_all (readable cs) kvs \<Longrightarrow> \<exists>ld'. load_records cs ld kvs = Inr ld'"
proof (induction kvs arbitrary: ld)
  case Nil
  then show ?case by simp
next
  case (Cons kv kvs)
  then obtain ld1 where "load_record cs ld kv = Inr ld1" by (auto simp: readable_def)
  with Cons show ?case by simp
qed

lemma bare_keys:
  assumes "maps_ok fed"
  shows "kind \<in> {''volumes'', ''snapshots'', ''group_snapshots'', ''backups'', ''vm_migrations'', ''nodes''} \<Longrightarrow>
    named_keys kind (records_of cs fed)"
proof -
  assume kind: "kind \<in> {''volumes'', ''snapshots'', ''group_snapshots'', ''backups'', ''vm_migrations'', ''nodes''}"
  then have "bt_get (records_of cs fed) kind = None"
    using assms registered_nodes_ok [OF assms] unfolding records_of_def maps_ok_def
    by (elim insertE emptyE) (simp_all add: get_put_all_key)
  moreover have "CHR ''/'' \<notin> set kind" using kind by auto
  ultimately show ?thesis by (auto simp: named_keys_def map_of_eq_None_iff)
qed

definition registered_as :: "node_config \<Rightarrow> node option \<Rightarrow> node" where
  "registered_as c n =
     (case n of
        None \<Rightarrow> \<lparr>n_config = c, n_status = new_status Registered\<rparr>
      | Some n \<Rightarrow> if ns_source (n_status n) = Registered then n\<lparr>n_config := c\<rparr> else n)"

lemma get_apply_registered:
  "bt_get (apply_registered nodes c) k = (if k = nc_name c then Some (registered_as c (bt_get nodes k)) else bt_get nodes k)"
  by (cases "bt_get nodes (nc_name c)") (simp_all add: apply_registered_def registered_as_def)

lemma get_apply_registered_all:
  "distinct (map nc_name ncs) \<Longrightarrow>
   bt_get (foldl apply_registered nodes ncs) k =
     (case map_of (map (\<lambda>c. (nc_name c, c)) ncs) k of
        None \<Rightarrow> bt_get nodes k
      | Some c \<Rightarrow> Some (registered_as c (bt_get nodes k)))"
proof (induction ncs arbitrary: nodes)
  case Nil
  then show ?case by simp
next
  case (Cons c ncs)
  then have "map_of (map (\<lambda>c. (nc_name c, c)) ncs) (nc_name c) = None"
    by (auto simp: map_of_eq_None_iff comp_def)
  with Cons show ?case
    by (cases "k = nc_name c") (simp_all add: get_apply_registered split: option.splits)
qed

definition load_one :: "string \<Rightarrow> (string \<Rightarrow> 'a option) \<Rightarrow> 'a \<Rightarrow> string \<times> string \<Rightarrow> 'a" where
  "load_one kind d x kv = (if fst (split_kind (fst kv)) = kind then the (d (snd kv)) else x)"

lemma loaded_records:
  "load_records cs ld kvs = Inr ld' \<Longrightarrow>
     f_volumes (ld_fed ld') = foldl (load_into ''volumes'' (dec_volume cs)) (f_volumes (ld_fed ld)) kvs \<and>
     f_snapshots (ld_fed ld') = foldl (load_into ''snapshots'' (dec_snapshot cs)) (f_snapshots (ld_fed ld)) kvs \<and>
     f_group_snapshots (ld_fed ld') = foldl (load_into ''group_snapshots'' (dec_group cs)) (f_group_snapshots (ld_fed ld)) kvs \<and>
     f_backups (ld_fed ld') = foldl (load_into ''backups'' (dec_backup cs)) (f_backups (ld_fed ld)) kvs \<and>
     f_vm_migrations (ld_fed ld') = foldl (load_into ''vm_migrations'' (dec_vm cs)) (f_vm_migrations (ld_fed ld)) kvs \<and>
     f_orphans (ld_fed ld') = foldl (load_one ''orphans'' (dec_orphans cs)) (f_orphans (ld_fed ld)) kvs \<and>
     f_stale_heads (ld_fed ld') = foldl (load_one ''stale_heads'' (dec_stale cs)) (f_stale_heads (ld_fed ld)) kvs \<and>
     ld_registered ld' = ld_registered ld @ map (\<lambda>kv. the (dec_node cs (snd kv))) (filter (\<lambda>kv. fst (split_kind (fst kv)) = ''nodes'') kvs)"
proof (induction kvs arbitrary: ld)
  case Nil
  then show ?case by simp
next
  case (Cons kv kvs)
  from Cons.prems obtain ld1 where step: "load_record cs ld kv = Inr ld1" "load_records cs ld1 kvs = Inr ld'"
    by (auto split: sum.splits)
  from Cons.IH [OF step(2)] show ?case
    by (simp add: load_record_maps [OF step(1)] load_one_def)
qed

lemmas loaded_registered_list = loaded_records [THEN conjunct2, THEN conjunct2, THEN conjunct2, THEN conjunct2, THEN conjunct2,
    THEN conjunct2, THEN conjunct2]

text \<open>A record that is alone of its kind has the kind as its key.\<close>

lemma get_load_one:
  assumes "\<forall>kv \<in> set kvs. fst (split_kind (fst kv)) = kind \<longrightarrow> fst kv = kind" and "CHR ''/'' \<notin> set kind"
  shows "foldl (load_one kind d) x kvs = (case map_of (rev kvs) kind of Some v \<Rightarrow> the (d v) | None \<Rightarrow> x)"
  using assms(1)
proof (induction kvs rule: rev_induct)
  case Nil
  then show ?case by simp
next
  case (snoc kv kvs)
  then show ?case using split_kind_bare [OF assms(2)] by (auto simp: load_one_def split: prod.splits)
qed

lemma loaded_one:
  assumes "maps_ok fed" and "kind = ''orphans'' \<or> kind = ''stale_heads''"
    and "bt_get (records_of cs fed) kind = Some v" and "d v = Some x"
  shows "foldl (load_one kind d) y (records_of cs fed) = x"
proof -
  have none: "bt_get (records_of cs fed) (kind @ CHR ''/'' # n) = None" for n
    using assms(1,2) registered_nodes_ok [OF assms(1)] unfolding records_of_def maps_ok_def
    by (elim disjE) (simp_all add: get_put_all_key)
  have "fst kv = kind" if kv: "kv \<in> set (records_of cs fed)" "fst (split_kind (fst kv)) = kind" for kv
  proof (cases "CHR ''/'' \<in> set (fst kv)")
    case True
    from split_kind_eq(1) [OF True] none kv(2) have "bt_get (records_of cs fed) (fst kv) = None" by metis
    with kv(1) show ?thesis by (auto simp: map_of_eq_None_iff)
  next
    case False
    with kv(2) show ?thesis by (simp add: split_kind_bare)
  qed
  moreover have "CHR ''/'' \<notin> set kind" using assms(2) by auto
  ultimately show ?thesis
    using assms(3,4) by (simp add: get_load_one map_of_rev_ok [OF records_of_ok])
qed

lemma registered_name: "maps_ok fed \<Longrightarrow> bt_get (registered_nodes fed) k = Some c \<Longrightarrow> nc_name c = k"
  by (auto simp: get_registered_nodes maps_ok_def dest!: map_of_SomeD)

lemma loaded_registered:
  assumes "maps_ok fed" and "codecs_ok cs fed"
    and "load_records cs \<lparr>ld_fed = default_fed, ld_registered = []\<rparr> (records_of cs fed) = Inr ld"
  shows "distinct (map nc_name (ld_registered ld))"
    and "map_of (map (\<lambda>c. (nc_name c, c)) (ld_registered ld)) k = bt_get (registered_nodes fed) k"
proof -
  let ?recs = "filter (\<lambda>kv. fst (split_kind (fst kv)) = ''nodes'') (records_of cs fed)"
  let ?nc = "\<lambda>kv. the (dec_node cs (snd kv))"
  have ncs: "ld_registered ld = map ?nc ?recs" using loaded_registered_list [OF assms(3)] by simp
  have dec_enc: "bt_get (registered_nodes fed) n = Some c \<Longrightarrow> dec_node cs (enc_node cs c) = Some c" for n c
    using registered_readable [OF assms(2)] by (auto dest!: map_of_SomeD)
  have entry: "\<exists>n c. fst kv = ''nodes'' @ CHR ''/'' # n \<and> ?nc kv = c \<and> bt_get (registered_nodes fed) n = Some c \<and> nc_name c = n"
    if kv: "kv \<in> set ?recs" for kv
  proof -
    have slash: "CHR ''/'' \<in> set (fst kv)"
    proof (rule ccontr)
      assume "CHR ''/'' \<notin> set (fst kv)"
      from split_kind_bare [OF this] kv have "''nodes'' \<in> fst ` set (records_of cs fed)" by (auto intro: image_eqI [of _ fst kv])
      with bare_keys [OF assms(1), of "''nodes''" cs] show False by (simp add: named_keys_def)
    qed
    have "fst (split_kind (fst kv)) = ''nodes''" using kv by simp
    with split_kind_eq(1) [OF slash] obtain n where n: "fst kv = ''nodes'' @ CHR ''/'' # n" by metis
    have "bt_get (records_of cs fed) (fst kv) = Some (snd kv)"
      using kv bt_value_iff [OF records_of_ok, of "fst kv" "snd kv" cs fed] by simp
    with get_records_of(6) [OF assms(1), of cs n] n obtain c where
      c: "bt_get (registered_nodes fed) n = Some c" "snd kv = enc_node cs c" by (auto simp del: append_Cons append_Nil)
    with n dec_enc [OF c(1)] registered_name [OF assms(1) c(1)] show ?thesis by auto
  qed
  have key: "fst kv = ''nodes'' @ CHR ''/'' # nc_name (?nc kv)" if "kv \<in> set ?recs" for kv
    using entry [OF that] by blast
  have "distinct (map fst ?recs)" by (rule bt_ok_distinct) (rule sorted_wrt_map_filter, rule records_of_ok)
  moreover have "map fst ?recs = map (\<lambda>n. ''nodes'' @ CHR ''/'' # n) (map (nc_name \<circ> ?nc) ?recs)"
    unfolding map_map by (rule map_cong [OF refl]) (simp only: comp_apply, rule key)
  ultimately have "distinct (map (nc_name \<circ> ?nc) ?recs)" by (metis distinct_map)
  then show dist: "distinct (map nc_name (ld_registered ld))" by (simp add: ncs)
  show "map_of (map (\<lambda>c. (nc_name c, c)) (ld_registered ld)) k = bt_get (registered_nodes fed) k"
  proof (cases "bt_get (registered_nodes fed) k")
    case None
    have "k \<notin> nc_name ` set (ld_registered ld)"
    proof
      assume "k \<in> nc_name ` set (ld_registered ld)"
      then obtain kv where "kv \<in> set ?recs" "k = nc_name (?nc kv)" by (auto simp: ncs)
      with entry [of kv] None show False by auto
    qed
    then have "map_of (map (\<lambda>c. (nc_name c, c)) (ld_registered ld)) k = None"
      by (simp add: map_of_eq_None_iff image_image)
    with None show ?thesis by simp
  next
    case (Some c)
    have "bt_get (records_of cs fed) (''nodes'' @ CHR ''/'' # k) = Some (enc_node cs c)"
      using get_records_of(6) [OF assms(1), of cs k] Some by simp
    then have "(''nodes'' @ CHR ''/'' # k, enc_node cs c) \<in> set ?recs"
      using split_kind_join [of "''nodes''" k] by (auto dest: map_of_SomeD)
    then have "c \<in> set (ld_registered ld)"
      unfolding ncs using dec_enc [OF Some] by (force simp del: append_Cons append_Nil)
    moreover have "distinct (map fst (map (\<lambda>c. (nc_name c, c)) (ld_registered ld)))" using dist by (simp add: comp_def)
    ultimately show ?thesis using Some registered_name [OF assms(1) Some] by (force intro: map_of_is_SomeI)
  qed
qed

text \<open>Property C12. What an instance writes to the store, another one that loads it reads back: all records of
  the federation are replaced by the writer's, registered nodes follow the writer's while those that are
  this instance's own (configured or adopted) stay as they are, a registered node known here keeps its local
  status, and the revision is left to the caller.\<close>

lemma records_roundtrip:
  assumes "maps_ok fed" and "codecs_ok cs fed" and "bt_ok (f_nodes other)"
  shows "\<exists>fed'. apply_records cs other (records_of cs fed) = Inr fed' \<and> intent fed' = intent fed \<and>
    f_revision fed' = f_revision other \<and>
    (\<forall>k. bt_get (f_nodes fed') k =
       (case bt_get (registered_nodes fed) k of
          Some c \<Rightarrow> Some (registered_as c (bt_get (f_nodes other) k))
        | None \<Rightarrow> filter_opt (\<lambda>n. ns_source (n_status n) \<noteq> Registered) (bt_get (f_nodes other) k)))"
proof -
  let ?recs = "records_of cs fed" and ?start = "\<lparr>ld_fed = default_fed, ld_registered = []\<rparr>"
  obtain ld where ld: "load_records cs ?start ?recs = Inr ld"
    using load_records_readable [OF records_readable [OF assms(2)]] by blast
  note reg = loaded_registered [OF assms(1,2) ld]
  note loaded = loaded_records [OF ld]
  note maps = get_records_of [OF assms(1), of cs]
  note map_eq = loaded_map [OF records_of_ok bare_keys [OF assms(1)]]
  have ones: "foldl (load_one ''orphans'' (dec_orphans cs)) x ?recs = f_orphans fed"
      "foldl (load_one ''stale_heads'' (dec_stale cs)) y ?recs = f_stale_heads fed" for x y
    by (rule loaded_one [OF assms(1) _ maps(7)] loaded_one [OF assms(1) _ maps(8)], simp,
        use assms(2) in \<open>simp add: codecs_ok_def\<close>)+
  have kept: "f_volumes (ld_fed ld) = f_volumes fed" "f_snapshots (ld_fed ld) = f_snapshots fed"
      "f_group_snapshots (ld_fed ld) = f_group_snapshots fed" "f_backups (ld_fed ld) = f_backups fed"
      "f_vm_migrations (ld_fed ld) = f_vm_migrations fed"
      "f_orphans (ld_fed ld) = f_orphans fed" "f_stale_heads (ld_fed ld) = f_stale_heads fed"
    using loaded map_eq [OF _ _ maps(1)] map_eq [OF _ _ maps(2)] map_eq [OF _ _ maps(3)] map_eq [OF _ _ maps(4)]
      map_eq [OF _ _ maps(5)] assms(1,2)
    by (simp_all add: ones maps_ok_def codecs_ok_def default_fed_def)
  have keys: "k \<in> nc_name ` set (ld_registered ld) \<longleftrightarrow> bt_get (registered_nodes fed) k \<noteq> None" for k
    unfolding reg(2) [symmetric] by (simp add: map_of_eq_None_iff image_image)
  have "bt_get (foldl apply_registered
      (bt_retain (\<lambda>n x. ns_source (n_status x) \<noteq> Registered \<or> n \<in> nc_name ` set (ld_registered ld)) (f_nodes other))
      (ld_registered ld)) k =
     (case bt_get (registered_nodes fed) k of
        Some c \<Rightarrow> Some (registered_as c (bt_get (f_nodes other) k))
      | None \<Rightarrow> filter_opt (\<lambda>n. ns_source (n_status n) \<noteq> Registered) (bt_get (f_nodes other) k))" for k
    unfolding get_apply_registered_all [OF reg(1)] reg(2) bt_get_retain [OF assms(3)]
    using keys [of k] by (cases "bt_get (f_nodes other) k") (auto split: option.splits)
  with kept ld show ?thesis by (simp add: apply_records_def intent_def Let_def)
qed

definition reg_config :: "string \<Rightarrow> node_config" where
  "reg_config n = \<lparr>nc_name = n, nc_engine_url = ''http://e'', nc_api_token = None, nc_token_file = None, nc_ca_file = None,
     nc_labels = [], nc_tier = None\<rparr>"

definition record_codecs :: codecs where
  "record_codecs = small_codecs\<lparr>dec_orphans := (\<lambda>x. Some [small_orphan]), dec_node := (\<lambda>x. Some (reg_config x))\<rparr>"

definition record_fed :: fed_state where
  "record_fed = default_fed\<lparr>f_orphans := [small_orphan],
     f_nodes := [(''mine'', \<lparr>n_config = reg_config ''mine'', n_status = new_status Static\<rparr>),
       (''reg'', \<lparr>n_config = reg_config ''reg'', n_status = new_status Registered\<rparr>)]\<rparr>"

lemma records_roundtrip_witness:
  "\<exists>fed'. apply_records record_codecs (default_fed\<lparr>f_nodes := [(''gone'', \<lparr>n_config = reg_config ''gone'', n_status = new_status Registered\<rparr>)]\<rparr>)
       (records_of record_codecs record_fed) = Inr fed' \<and>
     f_orphans fed' = [small_orphan] \<and> bt_get (f_nodes fed') ''gone'' = None \<and> bt_get (f_nodes fed') ''mine'' = None \<and>
     bt_get (f_nodes fed') ''reg'' = Some \<lparr>n_config = reg_config ''reg'', n_status = new_status Registered\<rparr>"
proof -
  let ?other = "default_fed\<lparr>f_nodes := [(''gone'', \<lparr>n_config = reg_config ''gone'', n_status = new_status Registered\<rparr>)]\<rparr>"
  have reg: "registered_nodes record_fed = [(''reg'', reg_config ''reg'')]" by code_simp
  have "maps_ok record_fed" "codecs_ok record_codecs record_fed"
    by (simp_all add: maps_ok_def record_fed_def default_fed_def reg_config_def codecs_ok_def record_codecs_def small_codecs_def)
  moreover have "bt_ok (f_nodes ?other)" by simp
  ultimately obtain fed' where fed': "apply_records record_codecs ?other (records_of record_codecs record_fed) = Inr fed'"
      "intent fed' = intent record_fed"
      "\<And>k. bt_get (f_nodes fed') k = (case bt_get (registered_nodes record_fed) k of
          Some c \<Rightarrow> Some (registered_as c (bt_get (f_nodes ?other) k))
        | None \<Rightarrow> filter_opt (\<lambda>n. ns_source (n_status n) \<noteq> Registered) (bt_get (f_nodes ?other) k))"
    using records_roundtrip [of record_fed record_codecs ?other] by blast
  have "f_orphans fed' = [small_orphan]" using fed'(2) by (simp add: intent_def record_fed_def)
  moreover have "ns_source (new_status Registered) = Registered" by (simp add: new_status_def)
  ultimately show ?thesis using fed'(1,3) by (intro exI [of _ fed']) (simp add: reg registered_as_def)
qed

subsection \<open>The round of an instance\<close>

text \<open>What holds of an instance at all times: its copy of the records is a map, a leader has the lease and the
  revision its writes are guarded with and names itself, and the endpoint asked first is one of the list.\<close>

definition store_ok :: "'w store_env \<Rightarrow> 'w store \<Rightarrow> bool" where
  "store_ok env s \<longleftrightarrow>
     bt_ok (so_written s) \<and>
     (is_leader s \<longrightarrow> ss_lease_id (so_status s) \<noteq> None \<and> ss_leader_revision (so_status s) \<noteq> None \<and>
        ss_leader (so_status s) = Some (se_instance env, se_advertise_url env) \<and> ss_last_renewal (so_status s) \<noteq> None) \<and>
     (et_endpoints (so_etcd s) \<noteq> [] \<longrightarrow> et_good (so_etcd s) < length (et_endpoints (so_etcd s)))"

lemma etcd_tries_good:
  "etcd_tries wr et path body idxs w = (r, et', w') \<Longrightarrow> list_all (\<lambda>i. i < length (et_endpoints et)) idxs \<Longrightarrow>
     et_endpoints et' = et_endpoints et \<and> (et_good et' = et_good et \<or> et_good et' < length (et_endpoints et))"
proof (induction idxs arbitrary: w)
  case Nil
  then show ?case by simp
next
  case (Cons i idxs)
  then show ?case
    by (auto simp: Let_def split: prod.splits sum.splits if_splits option.splits)
qed

lemma store_call_ok:
  assumes "store_call env path body s = (r, s')" and "store_ok env s"
  shows "store_ok env s'"
proof -
  obtain et where et: "etcd_call (se_wire env) (so_etcd s) path body (so_world s) = (r, et, so_world s')" "so_etcd s' = et"
    using assms(1) by (auto simp: store_call_def split: prod.splits)
  have "list_all (\<lambda>i. i < length (et_endpoints (so_etcd s)))
      (map (\<lambda>i. (et_good (so_etcd s) + i) mod length (et_endpoints (so_etcd s))) [0..<length (et_endpoints (so_etcd s))])"
    by (auto simp: list_all_iff intro!: mod_less_divisor)
  from etcd_tries_good [OF et(1) [unfolded etcd_call_def Let_def] this] store_call_frame [OF assms(1)] assms(2) et(2)
  show ?thesis by (auto simp: store_ok_def is_leader_def)
qed

lemma store_ok_simps [simp]:
  "store_ok env (s\<lparr>so_world := w\<rparr>) = store_ok env s"
  "store_ok env (s\<lparr>so_events := e\<rparr>) = store_ok env s"
  "store_ok env (s\<lparr>so_fed := fed\<rparr>) = store_ok env s"
  "store_ok env (on_status (\<lambda>st. st\<lparr>ss_failed := b\<rparr>) s) = store_ok env s"
  "store_ok env (on_status (\<lambda>st. st\<lparr>ss_displaced := d\<rparr>) s) = store_ok env s"
  "store_ok env (on_status (\<lambda>st. st\<lparr>ss_meta_revision := n, ss_loads := l st\<rparr>) s) = store_ok env s"
  "store_ok env (on_status (\<lambda>st. st\<lparr>ss_meta_revision := n, ss_writes := l st, ss_failed := b\<rparr>) s) = store_ok env s"
  by (simp_all add: store_ok_def is_leader_def)

lemma store_ok_written: "store_ok env s \<Longrightarrow> bt_ok m \<Longrightarrow> store_ok env (s\<lparr>so_written := m\<rparr>)"
  by (simp add: store_ok_def is_leader_def)

lemma store_ok_step_down: "store_ok env s \<Longrightarrow> store_ok env (step_down env s)"
  by (auto simp: store_ok_def)

lemma store_ok_follower: "store_ok env s \<Longrightarrow> store_ok env (set_follower h s)"
  by (simp add: store_ok_def set_follower_def is_leader_def)

lemma store_ok_leader: "store_ok env s \<Longrightarrow> store_ok env (become_leader env lease created s)"
  by (simp add: store_ok_def become_leader_def is_leader_def Let_def)

lemma store_ok_revoke: "store_ok env s \<Longrightarrow> store_ok env (lease_revoke env i s)"
  by (cases "store_call env ''/v3/lease/revoke'' (JObj [(''ID'', JStr (show_i64 i))]) s") (simp add: lease_revoke_def store_call_ok)

lemma sync_chunks_ok: "sync_chunks env lrev meta cs s = (r, s') \<Longrightarrow> store_ok env s \<Longrightarrow> store_ok env s'"
proof (induction cs arbitrary: s)
  case Nil
  then show ?case by simp
next
  case (Cons c cs)
  obtain a s1 where call: "store_call env ''/v3/kv/txn'' (txn_body env lrev c meta) s = (a, s1)" by fastforce
  have ok: "store_ok env s1" by (rule store_call_ok [OF call Cons.prems(2)])
  have "bt_ok (so_written s1)" using ok by (simp add: store_ok_def)
  from store_ok_written [OF ok apply_ops_ok [OF this, of c]] ok Cons.prems(1) Cons.IH show ?case
    by (auto simp: call store_ok_step_down split: sum.splits if_splits)
qed

lemma sync_ok: "sync env s = (r, s') \<Longrightarrow> store_ok env s \<Longrightarrow> store_ok env s'"
  by (auto simp: sync_def Let_def sync_chunks_ok split: option.splits if_splits)

lemma sort_kvs_ok: "sort_kvs env kvs records meta = Inr (records', meta') \<Longrightarrow> bt_ok records \<Longrightarrow> bt_ok records'"
proof (induction kvs arbitrary: records meta)
  case Nil
  then show ?case by simp
next
  case (Cons x xs)
  then show ?case by (auto simp: Let_def bt_insert_ok split: if_splits option.splits)
qed

lemma note_displaced_ok: "store_ok env (note_displaced env records s) = store_ok env s"
  by (simp add: note_displaced_def Let_def)

lemma range_ok:
  "range_key env k s = (r, s') \<Longrightarrow> store_ok env s \<Longrightarrow> store_ok env s'"
  "range_prefix env k s = (r', s') \<Longrightarrow> store_ok env s \<Longrightarrow> store_ok env s'"
  by (auto simp: range_key_def range_prefix_def split: prod.splits sum.splits dest: store_call_ok)

lemma load_ok: "load env s = (r, s') \<Longrightarrow> store_ok env s \<Longrightarrow> store_ok env s'"
proof -
  assume run: "load env s = (r, s')" and ok: "store_ok env s"
  obtain a s1 where rng: "range_prefix env (se_prefix env) s = (a, s1)" by fastforce
  have ok1: "store_ok env s1" by (rule range_ok(2) [OF rng ok])
  have ok2: "store_ok env (if ss_loads (so_status s1) = 0 then note_displaced env m s1 else s1)" for m
    using ok1 by (simp add: note_displaced_ok)
  show ?thesis
  proof (cases a)
    case (Inl e)
    with run ok1 show ?thesis by (simp add: load_def rng)
  next
    case (Inr kvs)
    show ?thesis
    proof (cases "sort_kvs env kvs [] None")
      case (Inl e)
      with run Inr ok1 show ?thesis by (simp add: load_def rng)
    next
      case sorted: (Inr x)
      obtain recs m where x: "x = (recs, m)" by (cases x)
      from sort_kvs_ok [OF sorted [unfolded x]] have recs: "bt_ok recs" by simp
      let ?s = "if ss_loads (so_status s1) = 0 then note_displaced env recs s1 else s1"
      from store_ok_written [OF ok2 [of recs] recs] have "store_ok env (?s\<lparr>so_fed := f, so_written := recs\<rparr>)" for f
        by (simp add: store_ok_def is_leader_def)
      with run Inr sorted x ok1 ok2 [of recs] show ?thesis
        by (auto simp: load_def rng Let_def split: option.splits sum.splits prod.splits if_splits)
    qed
  qed
qed

lemma follow_ok: "follow env s = (r, s') \<Longrightarrow> store_ok env s \<Longrightarrow> store_ok env s'"
  by (auto simp: follow_def Let_def persist_file_def split: sum.splits prod.splits list.splits if_splits dest: range_ok(1) load_ok)

lemma lease_ok:
  "lease_grant env s = (r, s') \<Longrightarrow> store_ok env s \<Longrightarrow> store_ok env s'"
  "lease_keepalive env i s = (r', s') \<Longrightarrow> store_ok env s \<Longrightarrow> store_ok env s'"
  by (auto simp: lease_grant_def lease_keepalive_def Let_def split: prod.splits sum.splits if_splits dest: store_call_ok)

lemma campaign_ok: "campaign env s = (r, s') \<Longrightarrow> store_ok env s \<Longrightarrow> store_ok env s'"
proof -
  assume run: "campaign env s = (r, s')" and ok: "store_ok env s"
  obtain a s1 where rng: "range_key env (key env ''leader'') s = (a, s1)" by fastforce
  have ok1: "store_ok env s1" by (rule range_ok(1) [OF rng ok])
  obtain b s2 where lease: "lease_grant env s1 = (b, s2)" by fastforce
  have ok2: "store_ok env s2" by (rule lease_ok(1) [OF lease ok1])
  have won: "store_ok env s5"
    if "store_ok env s4" "sync env (become_leader env le c s4) = (x, s5) \<or> sync env ((become_leader env le c s4)\<lparr>so_written := []\<rparr>) = (x, s5)"
    for s4 s5 x le c
  proof -
    have lead: "store_ok env (become_leader env le c s4)" by (rule store_ok_leader [OF that(1)])
    then have "store_ok env ((become_leader env le c s4)\<lparr>so_written := []\<rparr>)" by (rule store_ok_written) simp
    with lead that(2) sync_ok show ?thesis by blast
  qed
  show ?thesis
  proof (cases "\<exists>le. a = Inr [] \<and> b = Inr le")
    case False
    with run ok1 ok2 show ?thesis
      by (auto simp: campaign_def rng lease store_ok_follower split: sum.splits list.splits)
  next
    case True
    then obtain le where le: "a = Inr []" "b = Inr le" by blast
    obtain c s3 where txn: "store_call env ''/v3/kv/txn'' (campaign_body env le) s2 = (c, s3)" by fastforce
    have ok3: "store_ok env s3" by (rule store_call_ok [OF txn ok2])
    obtain l s4 where load: "load env s3 = (l, s4)" by fastforce
    have ok4: "store_ok env s4" by (rule load_ok [OF load ok3])
    from run ok3 ok4 show ?thesis
      by (auto intro: won [OF ok4] simp: campaign_def rng le lease txn load Let_def store_ok_revoke store_ok_follower persist_file_def
          split: sum.splits if_splits prod.splits)
  qed
qed

lemma renewed_ok: "store_ok env s \<Longrightarrow> store_ok env (on_status (\<lambda>st. st\<lparr>ss_last_renewal := Some t\<rparr>) s)"
  by (simp add: store_ok_def is_leader_def)

lemma try_step_ok: "try_step env s = (r, s') \<Longrightarrow> store_ok env s \<Longrightarrow> store_ok env s'"
  by (auto simp: try_step_def Let_def split: sum.splits prod.splits if_splits
      dest: lease_ok(2) campaign_ok follow_ok intro: store_ok_step_down renewed_ok)

lemma store_step_ok: "store_ok env s \<Longrightarrow> store_ok env (store_step env s)"
  by (cases "try_step env s") (auto simp: store_step_def dest: try_step_ok split: sum.splits)

text \<open>The life of an instance: rounds, writes after a change, and whatever handlers do to the memory and the
  outside does to the world in between.\<close>

inductive store_run :: "'w store_env \<Rightarrow> 'w store \<Rightarrow> 'w store \<Rightarrow> bool" for env where
  start: "store_run env s s"
| round: "store_run env s s1 \<Longrightarrow> store_run env s (store_step env s1)"
| save: "store_run env s s1 \<Longrightarrow> sync env s1 = (r, s2) \<Longrightarrow> store_run env s s2"
| change: "store_run env s s1 \<Longrightarrow> store_run env s (s1\<lparr>so_fed := fed, so_world := w\<rparr>)"

inductive_simps store_run_simps: "store_run env s s'"

text \<open>Property C14. Over every run of rounds, writes and changes, an instance that considers itself the leader holds a
  lease, the revision its writes are guarded with and a time of renewal, and names itself as the leader; its
  copy of the written records stays a map; and the endpoint asked first stays one of the configured ones.\<close>

lemma store_invariant:
  assumes "store_run env s s'" and "store_ok env s"
  shows "store_ok env s'"
  using assms
proof (induction rule: store_run.induct)
  case (change s s1 fed w)
  then have "store_ok env s1" by simp
  then show ?case by (simp add: store_ok_def is_leader_def)
qed (auto intro: store_step_ok sync_ok)

lemma store_invariant_witness:
  "store_ok small_store_env (store_step small_store_env ((small_store Follower 5)\<lparr>so_fed := record_fed, so_world := ([], 0)\<rparr>))"
proof (rule store_invariant)
  show "store_run small_store_env (small_store Follower 5)
      (store_step small_store_env ((small_store Follower 5)\<lparr>so_fed := record_fed, so_world := ([], 0)\<rparr>))"
    by (rule store_run.round [OF store_run.change [OF store_run.start]])
  show "store_ok small_store_env (small_store Follower 5)"
    by (simp add: store_ok_def small_store_def is_leader_def)
qed

lemma is_leader_on_status [simp]:
  "is_leader (on_status (\<lambda>st. st\<lparr>ss_failed := b\<rparr>) s) = is_leader s"
  "is_leader (on_status (\<lambda>st. st\<lparr>ss_last_renewal := t\<rparr>) s) = is_leader s"
  by (simp_all add: is_leader_def)





text \<open>A follower serves no write of the API itself, and a request it sends on is not sent on again by
  whichever instance receives it: that one serves it, if it leads, or refuses it.\<close>

lemma writes_travel_once:
  assumes "forward_writes (Some s) rq = SendOn url hs" and "ar_headers rq' = hs"
  shows "\<not> is_leader s \<and> FORWARDED \<notin> set (ar_headers rq) \<and>
    (forward_writes st rq' = ServeHere \<or> forward_writes st rq' = Unavailable ''not_leader'')"
proof -
  from assms(1) have "FORWARDED \<in> set hs" "\<not> is_leader s" "FORWARDED \<notin> set (ar_headers rq)"
    by (auto simp: forward_writes_def split: if_splits option.splits)
  with assms(2) show ?thesis by (auto simp: forward_writes_def split: option.splits)
qed

lemma writes_travel_once_witness:
  "forward_writes (Some (set_follower (Some (''i2'', ''http://i2'')) (small_store Leader 5)))
     \<lparr>ar_method = ''POST'', ar_path = ''/api/v1/volumes'', ar_query = [], ar_headers = [''accept''], ar_body_len = 9\<rparr> =
   SendOn ''http://i2/api/v1/volumes'' [FORWARDED, ''accept''] \<and>
   forward_writes (Some (small_store Follower 5))
     \<lparr>ar_method = ''POST'', ar_path = ''/api/v1/volumes'', ar_query = [], ar_headers = [FORWARDED, ''accept''], ar_body_len = 9\<rparr> =
   Unavailable ''not_leader''"
proof -
  have a: "forward_writes (Some (set_follower (Some (''i2'', ''http://i2'')) (small_store Leader 5)))
     \<lparr>ar_method = ''POST'', ar_path = ''/api/v1/volumes'', ar_query = [], ar_headers = [''accept''], ar_body_len = 9\<rparr> =
   SendOn ''http://i2/api/v1/volumes'' [FORWARDED, ''accept'']" by (simp add: forward_writes_def is_leader_def set_follower_def small_store_def FORWARDED_def MAX_FORWARD_def)
  have b: "forward_writes (Some (small_store Follower 5))
     \<lparr>ar_method = ''POST'', ar_path = ''/api/v1/volumes'', ar_query = [], ar_headers = [FORWARDED, ''accept''], ar_body_len = 9\<rparr> \<noteq> ServeHere"
    by (simp add: forward_writes_def is_leader_def set_follower_def small_store_def FORWARDED_def MAX_FORWARD_def)
  have "ar_headers \<lparr>ar_method = ''POST'', ar_path = ''/api/v1/volumes'', ar_query = [], ar_headers = [FORWARDED, ''accept''], ar_body_len = 9\<rparr> =
      [FORWARDED, ''accept'']" by simp
  from writes_travel_once [OF a this] b have "forward_writes (Some (small_store Follower 5))
     \<lparr>ar_method = ''POST'', ar_path = ''/api/v1/volumes'', ar_query = [], ar_headers = [FORWARDED, ''accept''], ar_body_len = 9\<rparr> =
   Unavailable ''not_leader''" by blast
  with a show ?thesis by blast
qed

end
