(* ===== verification/Sync.thy ===== *)
theory Sync
  imports Model Json
begin

section \<open>Sync state of a volume's copies\<close>

text \<open>
  Models the pure half of \<open>src/head.rs\<close> on readings: parsing the head's array and the legs' RAID
  superblocks, building a reading from superblocks when the head cannot be read
  (\<open>from_superblocks\<close>), and what a consumer is told of every copy (\<open>replicas\<close>, \<open>health\<close>).
\<close>

datatype sync_state = InSync | Resyncing f64 u64 | Detached

datatype role = Master | Slave

record replica =
  rep_node :: string
  rep_role :: role
  rep_sync :: sync_state

datatype health_state = Healthy | HealthDegraded | Faulted

record member_reading =
  mr_uuid :: string
  mr_device_path :: string
  mr_state :: string
  mr_rebuilt_bytes :: "u64 option"

datatype sync_source = FromHead | FromSuperblock

record array_reading =
  ar_read_at :: time
  ar_head :: string
  ar_array_id :: string
  ar_state :: string
  ar_member_data_bytes :: u64
  ar_members :: "member_reading list"
  ar_rebuild_bytes_per_sec :: "u64 option"
  ar_events :: "u64 option"
  ar_source :: sync_source
  ar_head_read_at :: "time option"

definition parse_member :: "json \<Rightarrow> member_reading" where
  "parse_member m =
     \<lparr>mr_uuid = unwrap_or (get_str ''uuid'' m) [],
      mr_device_path = unwrap_or (get_str ''device_path'' m) [],
      mr_state = lowercase (unwrap_or (get_str ''state'' m) []),
      mr_rebuilt_bytes = get_u64 ''rebuilt_bytes'' m\<rparr>"

definition parse_array :: "time \<Rightarrow> string \<Rightarrow> string \<Rightarrow> json \<Rightarrow> array_reading" where
  "parse_array now head array_id v =
     (let status = jget ''status'' v;
          rebuild = Option.bind status (jget ''rebuild'')
      in \<lparr>ar_read_at = now, ar_head = head, ar_array_id = array_id,
          ar_state = unwrap_or (Option.bind (Option.bind status (jget ''state'')) as_str) ''unknown'',
          ar_member_data_bytes = unwrap_or (get_u64 ''member_data_bytes'' v) 0,
          ar_members = map parse_member (get_array ''members'' v),
          ar_rebuild_bytes_per_sec =
            Option.bind (filter_opt (\<lambda>r. unwrap_or (Option.bind (jget ''running'' r) as_bool) False) rebuild)
              (get_u64 ''rate_bytes_per_sec''),
          ar_events = get_u64 ''events'' v, ar_source = FromHead, ar_head_read_at = None\<rparr>)"

record slot_record =
  sl_member_uuid :: string
  sl_state :: string
  sl_rebuilt_to :: u64

record leg_superblock =
  sb_array_uuid :: string
  sb_member_uuid :: string
  sb_events :: u64
  sb_data_size :: u64
  sb_slots :: "slot_record list"

definition parse_slot :: "json \<Rightarrow> slot_record option" where
  "parse_slot x =
     Option.bind (get_str ''member_uuid'' x) (\<lambda>m.
     Option.bind (get_str ''state'' x) (\<lambda>s.
     Some \<lparr>sl_member_uuid = lowercase m, sl_state = lowercase s,
           sl_rebuilt_to = unwrap_or (get_u64 ''rebuilt_to'' x) 0\<rparr>))"

definition parse_superblock :: "json \<Rightarrow> leg_superblock option" where
  "parse_superblock v =
     Option.bind (get_str ''array_uuid'' v) (\<lambda>a.
     Option.bind (get_str ''member_uuid'' v) (\<lambda>m.
     Option.bind (get_u64 ''events'' v) (\<lambda>e.
     Some \<lparr>sb_array_uuid = lowercase a, sb_member_uuid = lowercase m, sb_events = e,
           sb_data_size = unwrap_or (get_u64 ''data_size'' v) 0,
           sb_slots = List.map_filter parse_slot (get_array ''slots'' v)\<rparr>)))"

subsection \<open>What a set of superblocks agrees on\<close>

definition sync_rank :: "string \<Rightarrow> nat" where
  "sync_rank st = (if st = ''active'' then 2 else if st = ''rebuilding'' then 1 else 0)"

definition slot_of :: "string \<Rightarrow> leg_superblock \<Rightarrow> slot_record option" where
  "slot_of member sb = find (\<lambda>r. sl_member_uuid r = member) (sb_slots sb)"

definition weaker :: "(string \<times> u64) option \<Rightarrow> slot_record \<Rightarrow> string \<times> u64" where
  "weaker acc rec = (case acc of
      None \<Rightarrow> (sl_state rec, sl_rebuilt_to rec)
    | Some (st, rb) \<Rightarrow>
        if sync_rank (sl_state rec) < sync_rank st then (sl_state rec, sl_rebuilt_to rec)
        else if sl_state rec = st then (st, min rb (sl_rebuilt_to rec))
        else (st, rb))"

fun agreed_loop :: "string \<Rightarrow> (string \<times> u64) option \<Rightarrow> leg_superblock list \<Rightarrow> string \<times> u64" where
  "agreed_loop member acc [] = unwrap_or acc (''removed'', 0)"
| "agreed_loop member acc (sb # sbs) =
     (case slot_of member sb of
        None \<Rightarrow> (''removed'', 0)
      | Some rec \<Rightarrow> agreed_loop member (Some (weaker acc rec)) sbs)"

definition agreed_state :: "string \<Rightarrow> leg_superblock list \<Rightarrow> string \<times> u64" where
  "agreed_state member newest = agreed_loop member None newest"

text \<open>\<open>Iterator::max\<close>.\<close>

definition max_opt :: "u64 list \<Rightarrow> u64 option" where
  "max_opt xs = (case xs of [] \<Rightarrow> None | x # ys \<Rightarrow> Some (foldl max x ys))"

definition superblock_member ::
  "array_reading option \<Rightarrow> u64 \<Rightarrow> leg_superblock list \<Rightarrow> leg_superblock \<Rightarrow> member_reading" where
  "superblock_member prev mx newest sb =
     (let flr = Option.bind prev ar_events;
          (state, rebuilt) =
            (if sb_events sb < mx \<or> is_some_and flr (\<lambda>f. sb_events sb < f) then (''stale'', 0)
             else agreed_state (sb_member_uuid sb) newest);
          newer = is_some_and flr (\<lambda>f. sb_events sb > f);
          (state', rebuilt') =
            (case filter_opt (\<lambda>_. \<not> newer) prev of
               None \<Rightarrow> (state, rebuilt)
             | Some l \<Rightarrow>
                 (case find (\<lambda>m. eq_ignore_case (mr_uuid m) (sb_member_uuid sb)) (ar_members l) of
                    Some m \<Rightarrow>
                      if mr_state m = ''active'' then (state, rebuilt)
                      else if state = ''active'' \<or> (state = ''rebuilding'' \<and> mr_state m \<noteq> ''rebuilding'')
                      then (mr_state m, unwrap_or (mr_rebuilt_bytes m) 0)
                      else (state, rebuilt)
                  | None \<Rightarrow> (''removed'', rebuilt)))
      in \<lparr>mr_uuid = sb_member_uuid sb, mr_device_path = [], mr_state = state',
          mr_rebuilt_bytes = Some rebuilt'\<rparr>)"

definition live_reading :: "dist_volume \<Rightarrow> array_reading option \<Rightarrow> array_reading option" where
  "live_reading vol prev =
     filter_opt (\<lambda>r. ar_source r = FromHead \<and> Some (ar_head r) = v_head vol \<and>
                      Some (ar_array_id r) = v_array_id vol) prev"

definition from_superblocks ::
  "dist_volume \<Rightarrow> array_reading option \<Rightarrow> leg_superblock list \<Rightarrow> time \<Rightarrow> array_reading option" where
  "from_superblocks vol prev sbs now =
     Option.bind (v_head vol) (\<lambda>head.
     Option.bind (v_array_id vol) (\<lambda>array_id.
       let prev = live_reading vol prev;
           ours = filter (\<lambda>s. eq_ignore_case (sb_array_uuid s) array_id) sbs
       in Option.bind (max_opt (map sb_events ours)) (\<lambda>mx.
            let newest = filter (\<lambda>s. sb_events s = mx) ours
            in Some \<lparr>ar_read_at = now, ar_head = head, ar_array_id = array_id, ar_state = ''unknown'',
                     ar_member_data_bytes =
                       unwrap_or (filter_opt (\<lambda>b. b > 0) (map_option ar_member_data_bytes prev))
                         (unwrap_or (max_opt (map sb_data_size newest)) 0),
                     ar_members = map (superblock_member prev mx newest) ours,
                     ar_rebuild_bytes_per_sec = None, ar_events = Some mx,
                     ar_source = FromSuperblock, ar_head_read_at = map_option ar_read_at prev\<rparr>)))"

subsection \<open>What a consumer is told\<close>

definition rebuild_pct :: "u64 \<Rightarrow> u64 \<Rightarrow> f64" where
  "rebuild_pct dn tot =
     (if tot = 0 then 0
      else of_int (floor (of_nat (unat dn) * 1000 / of_nat (unat tot) + 1 / 2 :: f64)) / 10)"

definition member_sync :: "member_reading \<Rightarrow> u64 \<Rightarrow> sync_state" where
  "member_sync m data_bytes =
     (if mr_state m = ''active'' then InSync
      else if mr_state m = ''rebuilding'' then
        (let dn = min (unwrap_or (mr_rebuilt_bytes m) 0) data_bytes
         in Resyncing (rebuild_pct dn data_bytes) (data_bytes - dn))
      else Detached)"

definition is_member_of :: "leg \<Rightarrow> member_reading \<Rightarrow> bool" where
  "is_member_of l m =
     (is_some_and (l_member_uuid l) (\<lambda>u. eq_ignore_case u (mr_uuid m)) \<or>
      map_option drive_uri (l_export l) = Some (mr_device_path m))"

definition member_of :: "leg \<Rightarrow> array_reading \<Rightarrow> member_reading option" where
  "member_of l r = find (is_member_of l) (ar_members r)"

definition all_legs :: "dist_volume \<Rightarrow> leg list" where
  "all_legs v = v_legs v @ (case v_replacing v of None \<Rightarrow> [] | Some r \<Rightarrow> [r_leg r])"

definition reading_of :: "dist_volume \<Rightarrow> array_reading option \<Rightarrow> array_reading option" where
  "reading_of vol reading =
     filter_opt (\<lambda>r. Some (ar_head r) = v_head vol \<and> Some (ar_array_id r) = v_array_id vol) reading"

definition master_of :: "dist_volume \<Rightarrow> string option" where
  "master_of vol =
     (if mirrored vol then v_head vol
      else (case v_legs vol of [] \<Rightarrow> None | l # _ \<Rightarrow> Some (l_node l)))"

definition leg_sync :: "dist_volume \<Rightarrow> array_reading option \<Rightarrow> leg \<Rightarrow> sync_state" where
  "leg_sync vol reading l =
     (if l_state l \<noteq> Created then Detached
      else (case v_assembly vol of
          SingleLeg \<Rightarrow> InSync
        | PendingEngineSupport \<Rightarrow> Detached
        | Clone \<Rightarrow> Detached
        | _ \<Rightarrow> unwrap_or (Option.bind reading (\<lambda>r.
                 map_option (\<lambda>m. member_sync m (ar_member_data_bytes r)) (member_of l r))) Detached))"

definition replicas :: "dist_volume \<Rightarrow> array_reading option \<Rightarrow> replica list" where
  "replicas vol reading =
     map (\<lambda>l. \<lparr>rep_node = l_node l,
               rep_role = (if Some (l_node l) = master_of vol then Master else Slave),
               rep_sync = leg_sync vol (reading_of vol reading) l\<rparr>) (all_legs vol)"

definition health :: "dist_volume \<Rightarrow> replica list \<Rightarrow> health_state" where
  "health vol reps =
     (let in_sync = length (filter (\<lambda>r. rep_sync r = InSync) reps) in
      if in_sync = 0 then Faulted
      else if (of_nat in_sync :: u32) \<ge> max (v_replicas vol) 1 then Healthy
      else HealthDegraded)"

subsection \<open>Lemmas\<close>

lemma max_opt_Some:
  "max_opt xs = Some m \<Longrightarrow> m \<in> set xs \<and> (\<forall>x \<in> set xs. x \<le> m)"
proof -
  have "foldl max a ys \<in> insert a (set ys) \<and> (\<forall>x \<in> insert a (set ys). x \<le> foldl max a ys)"
    for a :: u64 and ys
  proof (induction ys arbitrary: a)
    case Nil
    then show ?case by simp
  next
    case (Cons y ys)
    from Cons.IH [of "max a y"] show ?case by (auto simp: max_def split: if_splits)
  qed
  then show "max_opt xs = Some m \<Longrightarrow> m \<in> set xs \<and> (\<forall>x \<in> set xs. x \<le> m)"
    by (cases xs) (auto simp: max_opt_def)
qed

text \<open>An agreed \<open>active\<close> means every superblock lists the member as active: once a lower rank has
  been seen it is never raised again.\<close>

lemma weaker_active:
  "fst (weaker acc rec) = ''active'' \<Longrightarrow> sl_state rec = ''active'' \<and> (\<forall>s. acc = Some s \<longrightarrow> fst s = ''active'')"
  by (cases acc) (auto simp: weaker_def sync_rank_def split: if_splits)

lemma agreed_loop_active:
  "fst (agreed_loop member acc sbs) = ''active'' \<Longrightarrow>
     (\<forall>s. acc = Some s \<longrightarrow> fst s = ''active'') \<and>
     (\<forall>sb \<in> set sbs. \<exists>rec. slot_of member sb = Some rec \<and> sl_state rec = ''active'')"
proof (induction sbs arbitrary: acc)
  case Nil
  then show ?case by (cases acc) auto
next
  case (Cons sb sbs)
  show ?case
  proof (cases "slot_of member sb")
    case None
    with Cons.prems show ?thesis by simp
  next
    case (Some rec)
    with Cons.prems have "fst (agreed_loop member (Some (weaker acc rec)) sbs) = ''active''" by simp
    from Cons.IH [OF this] weaker_active [of acc rec] Some show ?thesis by auto
  qed
qed

lemma agreed_active:
  "fst (agreed_state member newest) = ''active'' \<Longrightarrow> sb \<in> set newest \<Longrightarrow>
     \<exists>rec. slot_of member sb = Some rec \<and> sl_state rec = ''active''"
  unfolding agreed_state_def using agreed_loop_active by blast

lemma superblock_member_active:
  assumes "mr_state (superblock_member prev mx newest sb) = ''active''"
  shows "\<not> sb_events sb < mx" and "\<not> is_some_and (Option.bind prev ar_events) (\<lambda>f. sb_events sb < f)"
    and "fst (agreed_state (sb_member_uuid sb) newest) = ''active''"
    and "prev = Some l \<Longrightarrow> \<not> is_some_and (ar_events l) (\<lambda>f. sb_events sb > f) \<Longrightarrow>
      \<exists>m \<in> set (ar_members l). eq_ignore_case (mr_uuid m) (sb_member_uuid sb) \<and> mr_state m = ''active''"
  using assms
  by (auto simp: superblock_member_def Let_def find_Some_iff split: if_splits option.splits prod.splits)

text \<open>Property C5. From the legs' superblocks alone a copy reads active only on evidence: its
  superblock is of this array and at the newest event count read, every superblock at that count
  records it active, its count is not below the head's last live reading, and unless it is newer
  than that reading the reading had it active too.\<close>

theorem superblock_active_evidence:
  assumes "from_superblocks vol prev sbs now = Some r"
    and "m \<in> set (ar_members r)" and "mr_state m = ''active''"
  shows "\<exists>sb \<in> set sbs. sb_member_uuid sb = mr_uuid m \<and>
      is_some_and (v_array_id vol) (eq_ignore_case (sb_array_uuid sb)) \<and>
      (\<forall>sb' \<in> set sbs. is_some_and (v_array_id vol) (eq_ignore_case (sb_array_uuid sb')) \<longrightarrow>
         sb_events sb' \<le> sb_events sb \<and>
         (sb_events sb' = sb_events sb \<longrightarrow>
            (\<exists>rec. slot_of (mr_uuid m) sb' = Some rec \<and> sl_state rec = ''active''))) \<and>
      (\<forall>l. live_reading vol prev = Some l \<longrightarrow>
         (\<forall>f. ar_events l = Some f \<longrightarrow> f \<le> sb_events sb) \<and>
         (\<not> is_some_and (ar_events l) (\<lambda>f. f < sb_events sb) \<longrightarrow>
            (\<exists>m' \<in> set (ar_members l). eq_ignore_case (mr_uuid m') (mr_uuid m) \<and> mr_state m' = ''active'')))"
proof -
  obtain array_id mx where a: "v_array_id vol = Some array_id"
    and mx: "max_opt (map sb_events (filter (\<lambda>s. eq_ignore_case (sb_array_uuid s) array_id) sbs)) = Some mx"
    and r: "ar_members r = map (superblock_member (live_reading vol prev) mx
        (filter (\<lambda>s. sb_events s = mx) (filter (\<lambda>s. eq_ignore_case (sb_array_uuid s) array_id) sbs)))
        (filter (\<lambda>s. eq_ignore_case (sb_array_uuid s) array_id) sbs)"
    using assms(1) by (auto simp: from_superblocks_def Let_def bind_eq_Some_conv)
  let ?ours = "filter (\<lambda>s. eq_ignore_case (sb_array_uuid s) array_id) sbs"
  let ?newest = "filter (\<lambda>s. sb_events s = mx) ?ours"
  obtain sb where sb: "sb \<in> set ?ours" and m: "m = superblock_member (live_reading vol prev) mx ?newest sb"
    using assms(2) r by auto
  note act = superblock_member_active [OF assms(3) [unfolded m]]
  have le: "sb_events s \<le> mx" if "s \<in> set ?ours" for s
    using max_opt_Some [OF mx] that by auto
  have eq: "sb_events sb = mx" using le [OF sb] act(1) by simp
  have uuid: "mr_uuid m = sb_member_uuid sb"
    by (simp add: m superblock_member_def Let_def split: prod.splits)
  have agree: "\<exists>rec. slot_of (mr_uuid m) s = Some rec \<and> sl_state rec = ''active''"
    if "s \<in> set ?ours" and "sb_events s = mx" for s
    using agreed_active [OF act(3), of s] that by (simp add: uuid)
  show ?thesis
    using sb eq uuid agree le act(2,4)
    by (intro bexI [of _ sb]) (auto simp: a not_less)
qed

lemma leg_in_sync:
  assumes "mirrored vol" and "leg_sync vol (reading_of vol reading) l = InSync"
  shows "l_state l = Created \<and> (\<exists>rd m. reading = Some rd \<and> Some (ar_head rd) = v_head vol \<and> Some (ar_array_id rd) = v_array_id vol \<and>
    member_of l rd = Some m \<and> mr_state m = ''active'')"
proof -
  have "l_state l = Created"
    and "unwrap_or (Option.bind (reading_of vol reading) (\<lambda>r.
      map_option (\<lambda>m. member_sync m (ar_member_data_bytes r)) (member_of l r))) Detached = InSync"
    using assms by (auto simp: leg_sync_def split: if_splits assembly_state.splits)
  moreover from this obtain rd m where "reading_of vol reading = Some rd" "member_of l rd = Some m"
    "member_sync m (ar_member_data_bytes rd) = InSync"
    by (cases "reading_of vol reading"; cases "member_of l (the (reading_of vol reading))") auto
  ultimately show ?thesis
    by (auto simp: reading_of_def member_sync_def Let_def split: if_splits)
qed

text \<open>A mirrored volume's copy is reported in sync only when the leg is created and a
  reading of this head and this array has its member active; with no such reading every copy is
  detached.\<close>

theorem replicas_in_sync_evidence:
  assumes "mirrored vol" and "r \<in> set (replicas vol reading)" and "rep_sync r = InSync"
  shows "\<exists>l rd m. l \<in> set (all_legs vol) \<and> l_node l = rep_node r \<and> l_state l = Created \<and>
           reading = Some rd \<and> Some (ar_head rd) = v_head vol \<and> Some (ar_array_id rd) = v_array_id vol \<and>
           member_of l rd = Some m \<and> mr_state m = ''active''"
proof -
  obtain l where l: "l \<in> set (all_legs vol)" "l_node l = rep_node r"
    "leg_sync vol (reading_of vol reading) l = InSync"
    using assms(2,3) by (auto simp: replicas_def)
  with leg_in_sync [OF assms(1) l(3)] show ?thesis by blast
qed

text \<open>A resync's progress is a percentage between 0 and 100 and its lag never wraps:
  done and lag add up to the member's data.\<close>

theorem member_sync_bounds:
  assumes "member_sync m data = Resyncing pct lag"
  shows "0 \<le> pct \<and> pct \<le> 100 \<and> unat lag + unat (min (unwrap_or (mr_rebuilt_bytes m) 0) data) = unat data"
proof -
  let ?dn = "min (unwrap_or (mr_rebuilt_bytes m) 0) data"
  have pct: "pct = rebuild_pct ?dn data" and lag: "lag = data - ?dn"
    using assms by (auto simp: member_sync_def Let_def split: if_splits)
  have le: "?dn \<le> data" by simp
  then have nle: "unat ?dn \<le> unat data" by (simp add: word_le_nat_alt)
  have "unat lag = unat data - unat ?dn" using le by (simp add: lag unat_sub)
  with nle have sum: "unat lag + unat ?dn = unat data" by simp
  have "0 \<le> pct \<and> pct \<le> 100"
  proof (cases "data = 0")
    case True
    then show ?thesis by (simp add: pct rebuild_pct_def)
  next
    case False
    then have pos: "0 < unat data" by (simp add: unat_gt_0)
    let ?x = "of_nat (unat ?dn) * 1000 / of_nat (unat data) :: f64"
    have "of_nat (unat ?dn) \<le> (of_nat (unat data) :: rat)" using nle by (simp only: of_nat_le_iff)
    then have "?x \<le> 1000" using pos by (simp add: pos_divide_le_eq del: of_nat_unat)
    then have "floor (?x + 1 / 2) \<le> 1000" by linarith
    moreover have "0 \<le> ?x" by (simp del: of_nat_unat)
    then have "0 \<le> floor (?x + 1 / 2)" by linarith
    ultimately show ?thesis
      unfolding pct rebuild_pct_def using False by (simp add: of_int_le_iff [of _ 1000, where 'a = rat, simplified])
  qed
  with sum show ?thesis by simp
qed

text \<open>A two-way mirror whose head \<open>a\<close> holds the array \<open>A1\<close>, read from the legs' superblocks.\<close>

definition wit_leg :: "string \<Rightarrow> string \<Rightarrow> leg" where
  "wit_leg n u =
     \<lparr>l_node = n, l_volume_id = Some (''v-'' @ n), l_state = Created, l_message = None,
      l_master_node = None, l_export = None, l_drive_uuid = None, l_member_uuid = Some u, l_epoch = Some 1\<rparr>"

definition wit_vol :: dist_volume where
  "wit_vol =
     \<lparr>v_name = ''vol'', v_size_bytes = 1000, v_pool = None, v_replicas = 2, v_rung = ''host'',
      v_legs = [wit_leg ''a'' ''u1'', wit_leg ''b'' ''u2''], v_assembly = Assembled, v_head = Some ''a'',
      v_array_id = Some ''A1'', v_created_at = 0, v_replacing = None, v_next_releg_after = None,
      v_next_assemble_after = None, v_export = default_export, v_epoch = 1, v_fenced = False,
      v_bandwidth_class = Normal, v_extent_size_bytes = None, v_rate_pending = False,
      v_dual_attach = None, v_migration = None, v_clone_of = None, v_expanding = None\<rparr>"

definition wit_sb :: "string \<Rightarrow> u64 \<Rightarrow> leg_superblock" where
  "wit_sb u e =
     \<lparr>sb_array_uuid = ''a1'', sb_member_uuid = u, sb_events = e, sb_data_size = 1000,
      sb_slots = [\<lparr>sl_member_uuid = ''u1'', sl_state = ''active'', sl_rebuilt_to = 1000\<rparr>,
                  \<lparr>sl_member_uuid = ''u2'', sl_state = ''rebuilding'', sl_rebuilt_to = 400\<rparr>]\<rparr>"

definition wit_reading :: array_reading where
  "wit_reading =
     \<lparr>ar_read_at = 7, ar_head = ''a'', ar_array_id = ''A1'', ar_state = ''unknown'',
      ar_member_data_bytes = 1000,
      ar_members = [\<lparr>mr_uuid = ''u1'', mr_device_path = [], mr_state = ''active'', mr_rebuilt_bytes = Some 1000\<rparr>,
                    \<lparr>mr_uuid = ''u2'', mr_device_path = [], mr_state = ''rebuilding'', mr_rebuilt_bytes = Some 400\<rparr>],
      ar_rebuild_bytes_per_sec = None, ar_events = Some 9, ar_source = FromSuperblock, ar_head_read_at = None\<rparr>"

theorem superblock_active_evidence_witness:
  "from_superblocks wit_vol None [wit_sb ''u1'' 9, wit_sb ''u2'' 9] 7 = Some wit_reading \<and>
   (\<exists>sb \<in> set [wit_sb ''u1'' 9, wit_sb ''u2'' 9]. sb_member_uuid sb = ''u1'')"
proof -
  have r: "from_superblocks wit_vol None [wit_sb ''u1'' 9, wit_sb ''u2'' 9] 7 = Some wit_reading"
    by code_simp
  have m: "\<lparr>mr_uuid = ''u1'', mr_device_path = [], mr_state = ''active'', mr_rebuilt_bytes = Some 1000\<rparr>
      \<in> set (ar_members wit_reading)"
    by (simp add: wit_reading_def)
  show ?thesis
    using r superblock_active_evidence [OF r m] by auto
qed

theorem replicas_in_sync_evidence_witness:
  "\<exists>l rd m. l \<in> set (all_legs wit_vol) \<and> l_node l = ''a'' \<and> l_state l = Created \<and>
     Some wit_reading = Some rd \<and> Some (ar_head rd) = v_head wit_vol \<and>
     Some (ar_array_id rd) = v_array_id wit_vol \<and> member_of l rd = Some m \<and> mr_state m = ''active''"
proof -
  have "mirrored wit_vol" by (simp add: wit_vol_def)
  moreover have "\<lparr>rep_node = ''a'', rep_role = Master, rep_sync = InSync\<rparr> \<in> set (replicas wit_vol (Some wit_reading))"
    by code_simp
  ultimately show ?thesis
    using replicas_in_sync_evidence [of wit_vol "\<lparr>rep_node = ''a'', rep_role = Master, rep_sync = InSync\<rparr>" "Some wit_reading"]
    by simp
qed

theorem member_sync_bounds_witness:
  "member_sync \<lparr>mr_uuid = ''u2'', mr_device_path = [], mr_state = ''rebuilding'', mr_rebuilt_bytes = Some 400\<rparr> 1000
     = Resyncing 40 600 \<and> (40 :: f64) \<le> 100"
proof -
  have e: "member_sync \<lparr>mr_uuid = ''u2'', mr_device_path = [], mr_state = ''rebuilding'', mr_rebuilt_bytes = Some 400\<rparr> 1000
     = Resyncing 40 600" by code_simp
  with member_sync_bounds [OF e] show ?thesis by blast
qed

end
