(* ===== verification/System.thy ===== *)
theory System
  imports Sync Engine Events Replicate
begin

section \<open>The running instance\<close>

text \<open>
  The state every handler shares (\<open>AppState\<close> of \<open>src/api/mod.rs\<close>) and the steps handlers are made of.
  The record \<open>env\<close> holds what is fixed or outside: the configuration a handler reads, the wire to the
  engines, where tokens come from, how an engine's error prints, the clock, what saving the state and
  pushing it to peers do to the outside world, \<open>en_others\<close>: what other tasks of this instance do
  to the shared state while a handler waits for an engine, the placement settings, the poll interval, the pools,
  whether this instance acts on recovery (\<open>recovery_active\<close>: its setting and, with a store, its
  leadership), and what sleeping does to the outside world. A handler is a function on \<open>sys\<close>; an engine
  call is \<open>call\<close>, which runs it on the world and then lets the others run. The lock-protected sections
  of the source are the steps between calls. Event texts are left out (\<open>note_event\<close> records subject,
  severity and kind).
\<close>

record 'w sys =
  sy_fed :: fed_state
  sy_claims :: "string list"
  sy_heads :: "(string, array_reading) btree"
  sy_live :: "(string, array_reading) btree"
  sy_noted :: "string list"
  sy_events :: event_log
  sy_world :: 'w

record 'w env =
  en_wire :: "'w wire"
  en_token :: "node_config \<Rightarrow> string option"
  en_admin :: "string \<Rightarrow> string option"
  en_host_nqn :: string
  en_recovery :: recovery_config
  en_text :: "engine_error \<Rightarrow> string"
  en_now :: "'w \<Rightarrow> time"
  en_save :: "fed_state \<Rightarrow> 'w \<Rightarrow> 'w"
  en_push :: "payload \<Rightarrow> 'w \<Rightarrow> 'w"
  en_others :: "'w sys \<Rightarrow> 'w sys"
  en_rungs :: "string list"
  en_io_weight :: f64
  en_poll_secs :: u64
  en_pools :: "pool_config list"
  en_active :: "'w \<Rightarrow> bool"
  en_sleep :: "duration \<Rightarrow> 'w \<Rightarrow> 'w"

definition call :: "'w env \<Rightarrow> ('w wire \<Rightarrow> ('w, 'a) io) \<Rightarrow> 'w sys \<Rightarrow> (engine_error + 'a) \<times> 'w sys" where
  "call env m s =
     (let (r, w) = m (en_wire env) (sy_world s) in (r, en_others env (s\<lparr>sy_world := w\<rparr>)))"

definition engine_for :: "'w env \<Rightarrow> node \<Rightarrow> engine" where
  "engine_for env n =
     with_admin (new_engine (nc_engine_url (n_config n)) (en_token env (n_config n)))
       (en_admin env (nc_engine_url (n_config n)))"

definition now :: "'w env \<Rightarrow> 'w sys \<Rightarrow> time" where
  "now env s = en_now env (sy_world s)"

definition persist :: "'w env \<Rightarrow> 'w sys \<Rightarrow> 'w sys" where
  "persist env s = s\<lparr>sy_world := en_save env (sy_fed s) (sy_world s)\<rparr>"

definition push_to_peers :: "'w env \<Rightarrow> 'w sys \<Rightarrow> 'w sys" where
  "push_to_peers env s = s\<lparr>sy_world := en_push env (build_payload (sy_fed s)) (sy_world s)\<rparr>"

abbreviation publish_state :: "'w env \<Rightarrow> 'w sys \<Rightarrow> 'w sys" where
  "publish_state env s \<equiv> persist env (push_to_peers env s)"

definition note_event :: "'w env \<Rightarrow> string \<Rightarrow> severity \<Rightarrow> string \<Rightarrow> 'w sys \<Rightarrow> 'w sys" where
  "note_event env kind sev subject s =
     s\<lparr>sy_events := snd (push (sy_events s) (now env s) (Some subject) sev kind [])\<rparr>"

definition with_fed :: "(fed_state \<Rightarrow> fed_state) \<Rightarrow> 'w sys \<Rightarrow> 'w sys" where
  "with_fed f s = s\<lparr>sy_fed := f (sy_fed s)\<rparr>"

definition on_volume :: "string \<Rightarrow> (dist_volume \<Rightarrow> dist_volume) \<Rightarrow> fed_state \<Rightarrow> fed_state" where
  "on_volume name f fed = fed\<lparr>f_volumes := bt_modify name f (f_volumes fed)\<rparr>"

definition put_volume :: "string \<Rightarrow> dist_volume \<Rightarrow> fed_state \<Rightarrow> fed_state" where
  "put_volume name v fed = fed\<lparr>f_volumes := bt_insert name v (f_volumes fed)\<rparr>"

abbreviation volume :: "string \<Rightarrow> 'w sys \<Rightarrow> dist_volume option" where
  "volume name s \<equiv> bt_get (f_volumes (sy_fed s)) name"

definition healthy_engine :: "'w env \<Rightarrow> fed_state \<Rightarrow> string \<Rightarrow> engine option" where
  "healthy_engine env fed n =
     map_option (engine_for env) (filter_opt (\<lambda>x. ns_healthy (n_status x)) (bt_get (f_nodes fed) n))"

subsection \<open>The one-replacement-per-volume claim\<close>

definition claim :: "string \<Rightarrow> 'w sys \<Rightarrow> bool \<times> 'w sys" where
  "claim name s = (if name \<in> set (sy_claims s) then (False, s) else (True, s\<lparr>sy_claims := name # sy_claims s\<rparr>))"

definition release :: "string \<Rightarrow> 'w sys \<Rightarrow> 'w sys" where
  "release name s = s\<lparr>sy_claims := removeAll name (sy_claims s)\<rparr>"

definition busy :: "string \<Rightarrow> 'w sys \<Rightarrow> bool" where
  "busy name s \<longleftrightarrow> name \<in> set (sy_claims s)"

subsection \<open>What steps leave unchanged\<close>

lemma frame_fed [frame_simps, simp]:
  "sy_fed (persist env s) = sy_fed s"
  "sy_fed (push_to_peers env s) = sy_fed s"
  "sy_fed (note_event env k sev n s) = sy_fed s"
  "sy_fed (release n s) = sy_fed s"
  "sy_fed (with_fed f s) = f (sy_fed s)"
  by (simp_all add: persist_def push_to_peers_def note_event_def release_def with_fed_def)

lemma frame_claims [frame_simps, simp]:
  "sy_claims (persist env s) = sy_claims s"
  "sy_claims (push_to_peers env s) = sy_claims s"
  "sy_claims (note_event env k sev n s) = sy_claims s"
  "sy_claims (with_fed f s) = sy_claims s"
  by (simp_all add: persist_def push_to_peers_def note_event_def with_fed_def)

lemma volumes_bump [simp]: "f_volumes (bump fed) = f_volumes fed"
  by (simp add: bump_def)

lemma nodes_bump [simp]: "f_nodes (bump fed) = f_nodes fed"
  by (simp add: bump_def)

lemma volumes_on_volume [simp]: "f_volumes (on_volume name f fed) = bt_modify name f (f_volumes fed)"
  by (simp add: on_volume_def)

lemma volumes_put_volume [simp]: "f_volumes (put_volume name v fed) = bt_insert name v (f_volumes fed)"
  by (simp add: put_volume_def)

lemma nodes_put_volume [simp]: "f_nodes (put_volume name v fed) = f_nodes fed" "f_nodes (on_volume name g fed) = f_nodes fed"
  by (simp_all add: put_volume_def on_volume_def)

text \<open>A part of the state that does not depend on the outside world and that no other task changes
  during a call.\<close>

definition quiet :: "'w env \<Rightarrow> ('w sys \<Rightarrow> 'b) \<Rightarrow> bool" where
  "quiet env g \<longleftrightarrow> (\<forall>s. g (en_others env s) = g s) \<and> (\<forall>s w. g (s\<lparr>sy_world := w\<rparr>) = g s)"

lemma call_quiet: "quiet env g \<Longrightarrow> g (snd (call env m s)) = g s"
  by (simp add: call_def quiet_def split: prod.splits)

lemma call_quiet_eq: "quiet env g \<Longrightarrow> call env m s = (r, s') \<Longrightarrow> g s' = g s"
  using call_quiet [of env g m s] by simp

subsection \<open>A small instance\<close>

text \<open>An instance with two healthy nodes \<open>a\<close> and \<open>b\<close> and one volume, whose engines answer every request
  alike; nothing else runs. The witnesses use it.\<close>

definition small_env :: "response \<Rightarrow> unit env" where
  "small_env r =
     \<lparr>en_wire = \<lparr>wi_send = (\<lambda>q w. (Inr r, w)), wi_volume = (\<lambda>_. None)\<rparr>, en_token = (\<lambda>_. None), en_admin = (\<lambda>_. None),
      en_host_nqn = ''nqn.{node}'', en_recovery = default_recovery, en_text = (\<lambda>_. ''error''), en_now = (\<lambda>_. 100),
      en_save = (\<lambda>_ w. w), en_push = (\<lambda>_ w. w), en_others = (\<lambda>s. s),
      en_rungs = [''host''], en_io_weight = 0, en_poll_secs = 15, en_pools = [], en_active = (\<lambda>_. True), en_sleep = (\<lambda>_ w. w)\<rparr>"

definition small_node :: "string \<Rightarrow> node" where
  "small_node n = \<lparr>n_config = wit_config n, n_status = (new_status Static)\<lparr>ns_healthy := True\<rparr>\<rparr>"

definition small_sys :: "dist_volume \<Rightarrow> unit sys" where
  "small_sys v =
     \<lparr>sy_fed = default_fed\<lparr>f_nodes := [(''a'', small_node ''a''), (''b'', small_node ''b'')], f_volumes := [(''vol'', v)]\<rparr>,
      sy_claims = [], sy_heads = [], sy_live = [], sy_noted = [], sy_events = new_log 16, sy_world = ()\<rparr>"

lemma small_quiet [simp]: "(\<And>s w. g (s\<lparr>sy_world := w\<rparr>) = g s) \<Longrightarrow> quiet (small_env r) g"
  by (simp add: quiet_def small_env_def)

definition attach_answer :: response where
  "attach_answer = \<lparr>rs_status = 200, rs_status_text = ''200 OK'', rs_json = Some (JObj
     [(''transport'', JStr ''nvme_tcp''), (''nqn'', JStr ''nqn.t''), (''nsid'', JInt 1),
      (''addresses'', JArr [JObj [(''traddr'', JStr ''10.0.0.1''), (''trsvcid'', JInt 4420)]])])\<rparr>"

definition empty_answer :: response where
  "empty_answer = \<lparr>rs_status = 200, rs_status_text = ''200 OK'', rs_json = Some (JArr [])\<rparr>"

end
