(* ===== verification/Export.thy ===== *)
theory Export
  imports System
begin

section \<open>Serving a volume to consumers\<close>

text \<open>
  Models the export half of \<open>src/orchestrate.rs\<close>: where a volume is served from, publishing it
  (\<open>publish_inner\<close>, the whole handler), recreating a lost served volume, serving and withdrawing one
  consumer host, revoking before a delete, and republishing when a node answers again. Errors are
  \<open>anyhow\<close> values: a text, or an engine's typed error. \<open>DivergesOnClone\<close> stands for the unbounded
  recursion of \<open>serve_at\<close> on a record that is a clone of nothing.
\<close>

datatype anyhow = Msg string | Eng engine_error | Panic | DivergesOnClone

definition anyhow_text :: "'w env \<Rightarrow> anyhow \<Rightarrow> string" where
  "anyhow_text env e = (case e of Msg m \<Rightarrow> m | Eng x \<Rightarrow> en_text env x | _ \<Rightarrow> [])"

definition not_found_err :: "anyhow \<Rightarrow> bool" where
  "not_found_err e = (case e of Eng x \<Rightarrow> is_not_found x | _ \<Rightarrow> False)"

definition dash :: string where
  "dash = [CHR '' '', CHR 0xE2, CHR 0x80, CHR 0x94, CHR '' '']"

definition MIRROR_SUFFIX :: string where
  "MIRROR_SUFFIX = ''-mirror''"

definition engine_of :: "'w env \<Rightarrow> fed_state \<Rightarrow> string \<Rightarrow> anyhow + engine" where
  "engine_of env fed n =
     (case bt_get (f_nodes fed) n of
        Some x \<Rightarrow> Inr (engine_for env x)
      | None \<Rightarrow> Inl (Msg (''node '' @ n @ '' not in registry'')))"

subsection \<open>Where a volume is served\<close>

record served_at =
  sa_node :: string
  sa_engine :: engine
  sa_volume_id :: "string option"
  sa_master_node :: "string option"
  sa_array_id :: "string option"

definition serve_single :: "'w env \<Rightarrow> fed_state \<Rightarrow> dist_volume \<Rightarrow> anyhow + served_at" where
  "serve_single env fed vol =
     (case v_legs vol of
        l # _ \<Rightarrow>
          if l_state l = Created \<and> l_volume_id l \<noteq> None then
            (case engine_of env fed (l_node l) of
               Inl e \<Rightarrow> Inl e
             | Inr eng \<Rightarrow> Inr \<lparr>sa_node = l_node l, sa_engine = eng, sa_volume_id = l_volume_id l,
                               sa_master_node = l_master_node l, sa_array_id = None\<rparr>)
          else Inl (Msg (v_name vol @ '': its leg is not created''))
      | [] \<Rightarrow> Inl (Msg (v_name vol @ '': its leg is not created'')))"

definition serve_mirror :: "'w env \<Rightarrow> fed_state \<Rightarrow> dist_volume \<Rightarrow> anyhow + served_at" where
  "serve_mirror env fed vol =
     (case v_head vol of
        None \<Rightarrow> Inl (Msg (v_name vol @ '': no head''))
      | Some head \<Rightarrow>
          (case v_array_id vol of
             None \<Rightarrow> Inl (Msg (v_name vol @ '': no array id''))
           | Some array_id \<Rightarrow>
               (let (volume_id, master_node) =
                      (if x_node (v_export vol) = Some head
                       then (x_volume_id (v_export vol), x_master_node (v_export vol)) else (None, None))
                in case engine_of env fed head of
                     Inl e \<Rightarrow> Inl e
                   | Inr eng \<Rightarrow> Inr \<lparr>sa_node = head, sa_engine = eng, sa_volume_id = volume_id,
                                     sa_master_node = master_node, sa_array_id = Some array_id\<rparr>)))"

definition serve_own :: "'w env \<Rightarrow> fed_state \<Rightarrow> dist_volume \<Rightarrow> anyhow + served_at" where
  "serve_own env fed vol =
     (case v_assembly vol of
        SingleLeg \<Rightarrow> serve_single env fed vol
      | Assembled \<Rightarrow> serve_mirror env fed vol
      | Degraded \<Rightarrow> serve_mirror env fed vol
      | PendingEngineSupport \<Rightarrow>
          Inl (Msg (v_name vol @ '': not assembled'' @ dash @ ''nothing to serve until the mirror exists''))
      | Clone \<Rightarrow> Inl DivergesOnClone)"

definition serve_at :: "'w env \<Rightarrow> fed_state \<Rightarrow> dist_volume \<Rightarrow> anyhow + served_at" where
  "serve_at env fed vol =
     (if v_assembly vol \<noteq> Clone then serve_own env fed vol
      else (case filter_opt (\<lambda>p. v_clone_of p = None) (parent_of fed vol) of
          None \<Rightarrow> Inl (Msg (v_name vol @ '': its parent volume is gone''))
        | Some parent \<Rightarrow>
            (case serve_own env fed parent of
               Inl e \<Rightarrow> Inl e
             | Inr p \<Rightarrow>
                 (let here = (x_node (v_export vol) = Some (sa_node p)) in
                  Inr (p\<lparr>sa_volume_id := filter_opt (\<lambda>_. here) (x_volume_id (v_export vol)),
                         sa_master_node := filter_opt (\<lambda>_. here) (x_master_node (v_export vol)),
                         sa_array_id := None\<rparr>)))))"

definition served_name :: "dist_volume \<Rightarrow> string" where
  "served_name vol =
     (if v_assembly vol = SingleLeg \<or> v_assembly vol = Clone then v_name vol else v_name vol @ MIRROR_SUFFIX)"

record data_at =
  dt_node :: string
  dt_engine :: engine
  dt_engine_name :: string
  dt_master_node :: "string option"
  dt_parent :: string

definition data_at_of :: "'w env \<Rightarrow> fed_state \<Rightarrow> dist_volume \<Rightarrow> anyhow + data_at" where
  "data_at_of env fed vol =
     (case filter_opt (\<lambda>p. v_clone_of p = None) (parent_of fed vol) of
        None \<Rightarrow> Inl (Msg (v_name vol @ '': its parent volume is gone''))
      | Some parent \<Rightarrow>
          if \<not> (v_assembly parent = SingleLeg \<or> mirrored parent)
          then Inl (Msg (v_name parent @ '': not assembled'' @ dash @ ''no data to take a point in time from''))
          else (case serve_at env fed parent of
              Inl e \<Rightarrow> Inl e
            | Inr srv \<Rightarrow>
                Inr \<lparr>dt_node = sa_node srv, dt_engine = sa_engine srv, dt_engine_name = served_name vol,
                     dt_master_node = or_else (Option.bind (find (\<lambda>l. l_node l = sa_node srv) (v_legs parent)) l_master_node)
                       (sa_master_node srv),
                     dt_parent = v_name parent\<rparr>))"

subsection \<open>Publishing\<close>

definition gone_message :: "string \<Rightarrow> string option \<Rightarrow> string option \<Rightarrow> string" where
  "gone_message name volume_id node =
     name @ '': served volume '' @ unwrap_or volume_id ''?'' @ '' is gone from '' @ unwrap_or node ''its engine'' @
     ''; its data is not recreated'' @ dash @ ''POST /api/v1/volumes/'' @ name @
     ''/export {\"recreate\": true} serves a new, EMPTY one, or delete the volume''"

definition served_local_id ::
  "'w env \<Rightarrow> served_at \<Rightarrow> dist_volume \<Rightarrow> string \<Rightarrow> bool \<Rightarrow> 'w sys \<Rightarrow> (anyhow + string) \<times> 'w sys" where
  "served_local_id env srv vol vid adopted s =
     (if adopted then (Inr vid, s)
      else case (if x_node (v_export vol) = Some (sa_node srv) \<and> x_volume_id (v_export vol) = Some vid
                 then x_local_id (v_export vol) else None) of
          Some l \<Rightarrow> (Inr l, s)
        | None \<Rightarrow>
            (case call env (\<lambda>wr. local_volume_id wr (sa_engine srv) (served_name vol)) s of
               (Inl e, s) \<Rightarrow> (Inl (Msg (sa_node srv @ '': '' @ en_text env e)), s)
             | (Inr l, s) \<Rightarrow> (Inr l, s)))"

text \<open>What the attach part of a publish found: the mutable variables it captures.\<close>

record attach_part =
  ap_result :: "anyhow + attached_leg option"
  ap_volume_id :: "string option"
  ap_master_node :: "string option"
  ap_adopted :: bool
  ap_gone :: bool

abbreviation at_text :: "'w env \<Rightarrow> served_at \<Rightarrow> engine_error \<Rightarrow> anyhow" where
  "at_text env srv e \<equiv> Msg (sa_node srv @ '': '' @ en_text env e)"

definition attach_adopted :: "'w env \<Rightarrow> served_at \<Rightarrow> bool \<Rightarrow> attach_part \<Rightarrow> 'w sys \<Rightarrow> attach_part \<times> 'w sys" where
  "attach_adopted env srv per_host a s =
     (case ap_volume_id a of
        None \<Rightarrow> (a\<lparr>ap_result := Inl (Msg (sa_node srv @
                  '': the served volume did not come across with the array'' @ dash @ ''not creating an empty one''))\<rparr>, s)
      | Some vid \<Rightarrow>
          if per_host then (a\<lparr>ap_result := Inr None\<rparr>, s)
          else (case call env (\<lambda>wr. attach_any wr (sa_engine srv) vid) s of
              (Inr c, s) \<Rightarrow> (a\<lparr>ap_result := Inr (Some c)\<rparr>, s)
            | (Inl e, s) \<Rightarrow> (a\<lparr>ap_result := Inl (at_text env srv e), ap_gone := is_not_found e\<rparr>, s)))"

text \<open>A mirror's served volume, carved on the array when there is none yet.\<close>

definition ensure_served ::
  "'w env \<Rightarrow> string \<Rightarrow> dist_volume \<Rightarrow> served_at \<Rightarrow> attach_part \<Rightarrow> 'w sys \<Rightarrow> (anyhow + attach_part) \<times> 'w sys" where
  "ensure_served env name vol srv a s =
     (if ap_volume_id a \<noteq> None then (Inr a, s)
      else case sa_array_id srv of
          None \<Rightarrow> (Inl Panic, s)
        | Some array_id \<Rightarrow>
            (case call env (\<lambda>wr. create_pinned_volume wr (sa_engine srv) (name @ MIRROR_SUFFIX) (leg_bytes vol) array_id) s of
               (Inl e, s) \<Rightarrow> (Inl (at_text env srv e), s)
             | (Inr created, s) \<Rightarrow>
                 (case get_str ''id'' created of
                    None \<Rightarrow> (Inl (Msg (sa_node srv @ '': create returned no id'')), s)
                  | Some i \<Rightarrow>
                      if list_ex (\<lambda>l. l_volume_id l = Some i) (v_legs vol)
                      then (Inl (Msg (sa_node srv @ '': the engine answered with a leg ('' @ i @ ''), not a volume on the array'')), s)
                      else (Inr (a\<lparr>ap_volume_id := Some i, ap_master_node := master_node_of created\<rparr>), s))))"

definition attach_own ::
  "'w env \<Rightarrow> string \<Rightarrow> dist_volume \<Rightarrow> served_at \<Rightarrow> bool \<Rightarrow> bool \<Rightarrow> attach_part \<Rightarrow> 'w sys \<Rightarrow> attach_part \<times> 'w sys" where
  "attach_own env name vol srv per_host recorded a s =
     (case ensure_served env name vol srv a s of
        (Inl e, s) \<Rightarrow> (a\<lparr>ap_result := Inl e\<rparr>, s)
      | (Inr a, s) \<Rightarrow>
          if per_host then (a\<lparr>ap_result := Inr None\<rparr>, s)
          else (case ap_volume_id a of
              None \<Rightarrow> (a\<lparr>ap_result := Inl Panic\<rparr>, s)
            | Some vid \<Rightarrow>
                (case call env (\<lambda>wr. attach_volume wr (sa_engine srv) vid (unwrap_or (ap_master_node a) ''localhost'')) s of
                   (Inr c, s) \<Rightarrow> (a\<lparr>ap_result := Inr (Some c)\<rparr>, s)
                 | (Inl e, s) \<Rightarrow> (a\<lparr>ap_result := Inl (at_text env srv e), ap_gone := recorded \<and> is_not_found e\<rparr>, s))))"

definition attach_served ::
  "'w env \<Rightarrow> string \<Rightarrow> dist_volume \<Rightarrow> served_at \<Rightarrow> bool \<Rightarrow> 'w sys \<Rightarrow> attach_part \<times> 'w sys" where
  "attach_served env name vol srv per_host s =
     (let recorded = (sa_volume_id srv \<noteq> None);
          a = \<lparr>ap_result = Inr None, ap_volume_id = sa_volume_id srv, ap_master_node = sa_master_node srv,
               ap_adopted = (x_adopted (v_export vol) \<and> x_node (v_export vol) = Some (sa_node srv)), ap_gone = False\<rparr>
      in if v_assembly vol = Clone \<and> ap_volume_id a = None then
           (case call env (\<lambda>wr. local_volume_id wr (sa_engine srv) (v_name vol)) s of
              (Inl e, s) \<Rightarrow> (a\<lparr>ap_result := Inl (at_text env srv e), ap_gone := is_not_found e\<rparr>, s)
            | (Inr i, s) \<Rightarrow> attach_adopted env srv per_host (a\<lparr>ap_volume_id := Some i, ap_adopted := True\<rparr>) s)
         else if ap_adopted a then attach_adopted env srv per_host a s
         else attach_own env name vol srv per_host recorded a s)"

text \<open>Serving each named host: the records, the secrets, the failures and whether one was a 404.\<close>

record hosts_part =
  hp_served :: "(string, host_serve) btree"
  hp_secrets :: "(string, string) btree"
  hp_failures :: "string list"
  hp_gone :: bool

definition serve_one ::
  "'w env \<Rightarrow> served_at \<Rightarrow> bool \<Rightarrow> string \<Rightarrow> hosts_part \<times> 'w sys \<Rightarrow> host_serve \<Rightarrow> hosts_part \<times> 'w sys" where
  "serve_one env srv recorded lid ps h =
     (let (p, s) = ps in
      case call env (\<lambda>wr. attach_for_host wr (sa_engine srv) lid (hs_host_nqn h) (hs_dhchap h)) s of
        (Inr (coords, secret), s) \<Rightarrow>
          (p\<lparr>hp_served := bt_insert (hs_host_nqn h)
               (h\<lparr>hs_coordinates_changed := is_some_and (hs_coordinates h) (\<lambda>c. c \<noteq> coords),
                  hs_coordinates := Some coords, hs_served_at := Some (now env s), hs_message := None\<rparr>) (hp_served p),
             hp_secrets := (case secret of None \<Rightarrow> hp_secrets p | Some x \<Rightarrow> bt_insert (hs_host_nqn h) x (hp_secrets p))\<rparr>, s)
      | (Inl e, s) \<Rightarrow>
          (let m = sa_node srv @ '': '' @ en_text env e in
           (p\<lparr>hp_served := bt_insert (hs_host_nqn h) (h\<lparr>hs_message := Some m\<rparr>) (hp_served p),
              hp_failures := hp_failures p @ [hs_host_nqn h @ '': '' @ m],
              hp_gone := (hp_gone p \<or> (recorded \<and> is_not_found e))\<rparr>, s)))"

definition serve_hosts ::
  "'w env \<Rightarrow> served_at \<Rightarrow> bool \<Rightarrow> bool \<Rightarrow> string \<Rightarrow> host_serve list \<Rightarrow> 'w sys \<Rightarrow> hosts_part \<times> 'w sys" where
  "serve_hosts env srv recorded gone lid hosts s =
     foldl (serve_one env srv recorded lid)
       (\<lparr>hp_served = [], hp_secrets = [], hp_failures = [], hp_gone = gone\<rparr>, s) hosts"

definition publish_ready :: "'w env \<Rightarrow> string \<Rightarrow> fed_state \<Rightarrow> (string option \<times> anyhow) + (dist_volume \<times> served_at)" where
  "publish_ready env name fed =
     (case bt_get (f_volumes fed) name of
        None \<Rightarrow> Inl (None, Msg (''volume '' @ name @ '' not found''))
      | Some vol \<Rightarrow>
          if x_state (v_export vol) = Revoking
          then Inl (None, Msg (name @ '': being deleted'' @ dash @ ''a delete stopped while revoking its export ('' @
                 unwrap_or (x_message (v_export vol)) ''no message'' @ ''); DELETE it again''))
          else if x_gone (v_export vol)
          then Inl (None, Msg (gone_message (v_name vol) (x_volume_id (v_export vol)) (x_node (v_export vol))))
          else (case serve_at env fed vol of
              Inl e \<Rightarrow> Inl (None, e)
            | Inr srv \<Rightarrow>
                if healthy_node fed (sa_node srv) then Inr (vol, srv)
                else Inl (Some (sa_node srv),
                       Msg (name @ '': '' @ sa_node srv @ '' is unreachable'' @ dash @ ''cannot serve from it''))))"

text \<open>A failure before any engine was called, recorded when the volume is still there.\<close>

definition record_unreachable :: "'w env \<Rightarrow> string \<Rightarrow> string \<Rightarrow> anyhow \<Rightarrow> 'w sys \<Rightarrow> 'w sys" where
  "record_unreachable env name node e s =
     (case volume name s of
        None \<Rightarrow> s
      | Some _ \<Rightarrow>
          note_event env ''assemble'' Error name (publish_state env (with_fed (\<lambda>fed. bump (on_volume name
            (\<lambda>v. v\<lparr>v_export := (v_export v)\<lparr>x_state := ExportFailed, x_message := Some (anyhow_text env e),
                                            x_node := Some node\<rparr>\<rparr>) fed)) s)))"

definition hosts_after :: "(string, host_serve) btree \<Rightarrow> host_serve list \<Rightarrow> host_serve list" where
  "hosts_after served hosts =
     map (\<lambda>h. case bt_get served (hs_host_nqn h) of
         Some r \<Rightarrow> r\<lparr>hs_dhchap := hs_dhchap h \<or> hs_dhchap r\<rparr>
       | None \<Rightarrow> h) hosts"

definition new_export ::
  "'w env \<Rightarrow> time \<Rightarrow> export \<Rightarrow> served_at \<Rightarrow> attach_part \<Rightarrow> bool \<Rightarrow> string option \<Rightarrow> (string, host_serve) btree \<Rightarrow> export" where
  "new_export env t previous srv a per_host local_id served =
     (let hosts = hosts_after served (x_hosts previous);
          same_served = (x_node previous = Some (sa_node srv) \<and> x_volume_id previous = ap_volume_id a);
          ex = default_export\<lparr>x_volume_id := ap_volume_id a, x_node := Some (sa_node srv),
                 x_master_node := ap_master_node a, x_adopted := ap_adopted a,
                 x_per_host := (per_host \<or> x_per_host previous),
                 x_local_id := or_else local_id (filter_opt (\<lambda>_. same_served) (x_local_id previous)),
                 x_withdrawing := x_withdrawing previous, x_hosts := hosts\<rparr>
      in case ap_result a of
           Inr (Some coords) \<Rightarrow>
             ex\<lparr>x_state := Published,
                x_coordinates_changed := is_some_and (x_coordinates previous) (\<lambda>c. c \<noteq> coords),
                x_coordinates := Some coords, x_published_at := Some t\<rparr>
         | Inr None \<Rightarrow>
             ex\<lparr>x_state := Published, x_coordinates_changed := list_ex hs_coordinates_changed hosts,
                x_published_at := Some t\<rparr>
         | Inl e \<Rightarrow>
             ex\<lparr>x_state := ExportFailed, x_message := Some (anyhow_text env e),
                x_coordinates := x_coordinates previous, x_gone := ap_gone a\<rparr>)"

definition record_leg_export :: "anyhow + attached_leg option \<Rightarrow> dist_volume \<Rightarrow> dist_volume" where
  "record_leg_export r v =
     (case r of
        Inr (Some coords) \<Rightarrow>
          if v_assembly v = SingleLeg
          then v\<lparr>v_legs := (case v_legs v of [] \<Rightarrow> [] | l # ls \<Rightarrow> l\<lparr>l_export := Some coords\<rparr> # ls)\<rparr> else v
      | _ \<Rightarrow> v)"

text \<open>The hosts are served when the attach part did not fail and some are named; then the failures
  and a 404 replace the result.\<close>

definition serve_named ::
  "'w env \<Rightarrow> string \<Rightarrow> dist_volume \<Rightarrow> served_at \<Rightarrow> bool \<Rightarrow> attach_part \<Rightarrow> 'w sys \<Rightarrow>
     attach_part \<times> string option \<times> hosts_part \<times> 'w sys" where
  "serve_named env name vol srv recorded a s =
     (let none = \<lparr>hp_served = [], hp_secrets = [], hp_failures = [], hp_gone = ap_gone a\<rparr>;
          hosts = x_hosts (v_export vol)
      in case (ap_result a, ap_volume_id a) of
           (Inr _, Some vid) \<Rightarrow>
             if hosts = [] then (a, None, none, s)
             else (case served_local_id env srv vol vid (ap_adopted a) s of
                 (Inl e, s) \<Rightarrow> (a\<lparr>ap_result := Inl e, ap_gone := recorded \<and> not_found_err e\<rparr>, None, none, s)
               | (Inr lid, s) \<Rightarrow>
                   (let (p, s) = serve_hosts env srv recorded (ap_gone a) lid hosts s in
                    (a\<lparr>ap_gone := hp_gone p,
                       ap_result := (if hp_failures p \<noteq> []
                                     then Inl (Msg (''serving '' @ join ''; '' (hp_failures p))) else ap_result a)\<rparr>,
                     Some lid, p, s)))
         | (Inr _, None) \<Rightarrow> if hosts = [] then (a, None, none, s) else (a\<lparr>ap_result := Inl Panic\<rparr>, None, none, s)
         | (Inl _, _) \<Rightarrow> (a, None, none, s))"

definition publish_inner ::
  "'w env \<Rightarrow> string \<Rightarrow> 'w sys \<Rightarrow> (anyhow + (export \<times> (string, string) btree)) \<times> 'w sys" where
  "publish_inner env name s =
     (case publish_ready env name (sy_fed s) of
        Inl (None, e) \<Rightarrow> (Inl e, s)
      | Inl (Some node, e) \<Rightarrow> (Inl e, record_unreachable env name node e s)
      | Inr (vol, srv) \<Rightarrow>
          (let per_host = (x_per_host (v_export vol) \<or> x_hosts (v_export vol) \<noteq> []);
               recorded = (sa_volume_id srv \<noteq> None);
               (a, s) = attach_served env name vol srv per_host s;
               (a, lid, p, s) = serve_named env name vol srv recorded a s;
               a = (if ap_gone a then a\<lparr>ap_result := Inl (Msg (gone_message name (ap_volume_id a) (Some (sa_node srv))))\<rparr> else a)
           in case volume name s of
                None \<Rightarrow> (Inl (Msg (name @ '': deleted while it was being published'')), s)
              | Some v \<Rightarrow>
                  (let ex = new_export env (now env s) (v_export v) srv a per_host lid (hp_served p);
                       s = publish_state env (with_fed (\<lambda>fed. bump (on_volume name
                             (\<lambda>v. (record_leg_export (ap_result a) v)\<lparr>v_export := ex\<rparr>) fed)) s);
                       s = note_event env ''assemble'' (case ap_result a of Inl _ \<Rightarrow> Error | Inr _ \<Rightarrow> Info) name s
                   in (case ap_result a of Inl e \<Rightarrow> Inl e | Inr _ \<Rightarrow> Inr (ex, hp_secrets p), s))))"

definition publish :: "'w env \<Rightarrow> string \<Rightarrow> 'w sys \<Rightarrow> (anyhow + export) \<times> 'w sys" where
  "publish env name s =
     (case publish_inner env name s of
        (Inl e, s) \<Rightarrow> (Inl e, s)
      | (Inr (ex, _), s) \<Rightarrow> (Inr ex, s))"

definition publish_clones_of :: "'w env \<Rightarrow> string \<Rightarrow> 'w sys \<Rightarrow> 'w sys" where
  "publish_clones_of env parent s =
     foldl (\<lambda>s name. snd (publish env name s)) s
       (map v_name (filter (\<lambda>v. is_some_and (v_clone_of v) (\<lambda>c. co_parent c = parent) \<and> \<not> x_gone (v_export v))
          (bt_values (f_volumes (sy_fed s)))))"

definition recreate_export :: "'w env \<Rightarrow> string \<Rightarrow> 'w sys \<Rightarrow> (anyhow + export) \<times> 'w sys" where
  "recreate_export env name s =
     (case volume name s of
        None \<Rightarrow> (Inl (Msg (''volume '' @ name @ '' not found'')), s)
      | Some v \<Rightarrow>
          if \<not> x_gone (v_export v)
          then (Inl (Msg (name @ '': its served volume is not gone'' @ dash @ ''nothing to recreate'')), s)
          else if \<not> mirrored v
          then (Inl (Msg (name @ '': a single leg is the volume's data'' @ dash @
                  ''there is nothing to recreate; delete the volume'')), s)
          else
            (let s = with_fed (\<lambda>fed. bump (on_volume name (\<lambda>v. v\<lparr>v_export := (v_export v)
                       \<lparr>x_gone := False, x_volume_id := None, x_local_id := None, x_adopted := False\<rparr>\<rparr>) fed)) s;
                 s = note_event env ''assemble'' Warning name s
             in case publish env name s of
                  (Inl e, s) \<Rightarrow> (Inl e, s)
                | (Inr _, s) \<Rightarrow>
                    (case volume name s of
                       None \<Rightarrow> (Inl (Msg (name @ '': deleted while it was being recreated'')), s)
                     | Some v \<Rightarrow>
                         (let ex = (v_export v)\<lparr>x_coordinates_changed := True,
                                x_hosts := map (\<lambda>h. h\<lparr>hs_coordinates_changed := True\<rparr>) (x_hosts (v_export v))\<rparr>
                          in (Inr ex, publish_state env (with_fed (\<lambda>fed. bump (on_volume name (\<lambda>v. v\<lparr>v_export := ex\<rparr>) fed)) s))))))"

subsection \<open>Consumer hosts\<close>

text \<open>\<open>str::trim\<close> on ASCII white space.\<close>

definition trim :: "string \<Rightarrow> string" where
  "trim x = rev (dropWhile ascii_whitespace (rev (dropWhile ascii_whitespace x)))"

definition valid_host_nqn :: "string \<Rightarrow> bool" where
  "valid_host_nqn h =
     (let h = trim h in take 4 h = ''nqn.'' \<and> length h \<le> 223 \<and> \<not> list_ex ascii_whitespace h)"

definition default_host :: "string \<Rightarrow> bool \<Rightarrow> host_serve" where
  "default_host nqn dhchap = \<lparr>hs_host_nqn = nqn, hs_dhchap = dhchap, hs_coordinates = None,
     hs_coordinates_changed = False, hs_served_at = None, hs_message = None\<rparr>"

definition ask_host :: "string \<Rightarrow> bool \<Rightarrow> export \<Rightarrow> export" where
  "ask_host nqn dhchap ex =
     ex\<lparr>x_hosts := (if list_ex (\<lambda>h. hs_host_nqn h = nqn) (x_hosts ex)
                    then update_first (\<lambda>h. hs_host_nqn h = nqn) (\<lambda>h. h\<lparr>hs_dhchap := hs_dhchap h \<or> dhchap\<rparr>) (x_hosts ex)
                    else x_hosts ex @ [default_host nqn dhchap]),
        x_per_host := True,
        x_withdrawing := filter (\<lambda>w. pw_host_nqn w \<noteq> nqn) (x_withdrawing ex)\<rparr>"

definition serve_host ::
  "'w env \<Rightarrow> string \<Rightarrow> string \<Rightarrow> bool \<Rightarrow> 'w sys \<Rightarrow> (anyhow + (host_serve \<times> string option)) \<times> 'w sys" where
  "serve_host env name host_nqn dhchap s =
     (let nqn = trim host_nqn in
      if \<not> valid_host_nqn nqn then (Inl (Msg (nqn @ '' is not a host NQN'')), s)
      else if volume name s = None then (Inl (Msg (''volume '' @ name @ '' not found'')), s)
      else case publish_inner env name (with_fed (\<lambda>fed. bump (on_volume name
                  (\<lambda>v. v\<lparr>v_export := ask_host nqn dhchap (v_export v)\<rparr>) fed)) s) of
          (Inl e, s) \<Rightarrow>
            (case Option.bind (volume name s) (\<lambda>v. Option.bind (find (\<lambda>h. hs_host_nqn h = nqn) (x_hosts (v_export v))) hs_message) of
               Some m \<Rightarrow> (Inl (Msg (name @ '': serving '' @ nqn @ '': '' @ m)), s)
             | None \<Rightarrow> (Inl e, s))
        | (Inr (ex, secrets), s) \<Rightarrow>
            (case find (\<lambda>h. hs_host_nqn h = nqn) (x_hosts ex) of
               None \<Rightarrow> (Inl (Msg (name @ '': '' @ nqn @ '' was withdrawn while it was being served'')), s)
             | Some rec \<Rightarrow> (Inr (rec, bt_get secrets nqn), s)))"

datatype withdrawn = WithdrawDone | WithdrawPending | NothingServed

definition withdraw_on_engine :: "'w env \<Rightarrow> pending_withdraw \<Rightarrow> 'w sys \<Rightarrow> (anyhow + unit) \<times> 'w sys" where
  "withdraw_on_engine env w s =
     (case healthy_engine env (sy_fed s) (pw_node w) of
        None \<Rightarrow> (Inl (Msg (pw_node w @ '' is unreachable'')), s)
      | Some eng \<Rightarrow>
          (let withdraw = (\<lambda>i s. case call env (\<lambda>wr. Engine.withdraw_host wr eng i (pw_host_nqn w)) s of
                 (Inl e, s) \<Rightarrow> (Inl (Eng e), s) | (Inr _, s) \<Rightarrow> (Inr (), s))
           in case pw_local_id w of
                Some i \<Rightarrow> withdraw i s
              | None \<Rightarrow>
                  (case call env (\<lambda>wr. local_volume_id wr eng (pw_name w)) s of
                     (Inr i, s) \<Rightarrow> withdraw i s
                   | (Inl e, s) \<Rightarrow> if is_not_found e then (Inr (), s) else (Inl (Eng e), s))))"

definition withdraw_from_host :: "'w env \<Rightarrow> string \<Rightarrow> string \<Rightarrow> 'w sys \<Rightarrow> (anyhow + withdrawn) \<times> 'w sys" where
  "withdraw_from_host env name host_nqn s =
     (let nqn = trim host_nqn in
      case volume name s of
        None \<Rightarrow> (Inl (Msg (''volume '' @ name @ '' not found'')), s)
      | Some v \<Rightarrow>
          (let s = publish_state env (with_fed (\<lambda>fed. bump (on_volume name (\<lambda>v. v\<lparr>v_export := (v_export v)
                     \<lparr>x_hosts := filter (\<lambda>h. hs_host_nqn h \<noteq> nqn) (x_hosts (v_export v))\<rparr>\<rparr>) fed)) s)
           in case x_node (v_export v) of
                None \<Rightarrow> (Inr NothingServed, s)
              | Some node \<Rightarrow>
                  (let pending = \<lparr>pw_node = node, pw_local_id = x_local_id (v_export v), pw_name = served_name v, pw_host_nqn = nqn\<rparr>
                   in case withdraw_on_engine env pending s of
                        (Inr _, s) \<Rightarrow> (Inr WithdrawDone, note_event env ''assemble'' Info name s)
                      | (Inl _, s) \<Rightarrow>
                          (let s = publish_state env (with_fed (\<lambda>fed. bump (on_volume name (\<lambda>v. v\<lparr>v_export := (v_export v)
                                     \<lparr>x_withdrawing := (if pending \<in> set (x_withdrawing (v_export v)) then x_withdrawing (v_export v)
                                                        else x_withdrawing (v_export v) @ [pending])\<rparr>\<rparr>) fed)) s)
                           in (Inr WithdrawPending, note_event env ''assemble'' Warning name s)))))"

definition withdraw_due :: "'w env \<Rightarrow> 'w sys \<Rightarrow> string \<times> pending_withdraw \<Rightarrow> 'w sys" where
  "withdraw_due env s due =
     (let (name, w) = due in
      case withdraw_on_engine env w s of
        (Inl _, s) \<Rightarrow> s
      | (Inr _, s) \<Rightarrow>
          note_event env ''assemble'' Info name (publish_state env (with_fed (\<lambda>fed. bump (on_volume name
            (\<lambda>v. v\<lparr>v_export := (v_export v)\<lparr>x_withdrawing := filter (\<lambda>x. x \<noteq> w) (x_withdrawing (v_export v))\<rparr>\<rparr>) fed)) s)))"

definition withdraw_pending_on :: "'w env \<Rightarrow> string \<Rightarrow> 'w sys \<Rightarrow> 'w sys" where
  "withdraw_pending_on env node s =
     foldl (withdraw_due env) s
       (concat (map (\<lambda>v. map (Pair (v_name v)) (filter (\<lambda>w. pw_node w = node) (x_withdrawing (v_export v))))
          (bt_values (f_volumes (sy_fed s)))))"

definition republish_on :: "'w env \<Rightarrow> string \<Rightarrow> 'w sys \<Rightarrow> 'w sys" where
  "republish_on env node s =
     (let s = withdraw_pending_on env node s in
      foldl (\<lambda>s name. snd (publish env name s)) s
        (map v_name (filter (\<lambda>v. (x_state (v_export v) = Published \<or> x_state (v_export v) = ExportFailed) \<and>
             \<not> x_gone (v_export v) \<and> x_node (v_export v) = Some node) (bt_values (f_volumes (sy_fed s))))))"

subsection \<open>Revoking\<close>

definition set_export_state :: "'w env \<Rightarrow> string \<Rightarrow> export_state \<Rightarrow> string option \<Rightarrow> 'w sys \<Rightarrow> 'w sys" where
  "set_export_state env name st message s =
     (case volume name s of
        None \<Rightarrow> s
      | Some _ \<Rightarrow> publish_state env (with_fed (\<lambda>fed. bump (on_volume name (\<lambda>v. v\<lparr>v_export := (v_export v)
          \<lparr>x_state := st, x_message := message\<rparr>\<rparr>) fed)) s))"

definition revoke_on :: "'w env \<Rightarrow> dist_volume \<Rightarrow> engine \<Rightarrow> string \<Rightarrow> 'w sys \<Rightarrow> (engine_error + unit) \<times> 'w sys" where
  "revoke_on env vol eng vid s =
     (if x_adopted (v_export vol)
      then (let (_, s) = call env (\<lambda>wr. detach_any wr eng vid) s in call env (\<lambda>wr. delete_any_volume wr eng vid) s)
      else (let s = (if x_coordinates (v_export vol) \<noteq> None \<or> x_hosts (v_export vol) \<noteq> []
                     then snd (call env (\<lambda>wr. detach_volume wr eng vid (unwrap_or (x_master_node (v_export vol)) ''localhost'')) s)
                     else s)
            in call env (\<lambda>wr. delete_volume wr eng vid) s))"

definition revoke :: "'w env \<Rightarrow> dist_volume \<Rightarrow> 'w sys \<Rightarrow> (anyhow + unit) \<times> 'w sys" where
  "revoke env vol s =
     (case (x_node (v_export vol), x_volume_id (v_export vol)) of
        (Some node, Some vid) \<Rightarrow>
          if list_ex (\<lambda>l. l_volume_id l = Some vid) (v_legs vol) then (Inr (), s)
          else (case healthy_engine env (sy_fed s) node of
              None \<Rightarrow> (Inr (), s)
            | Some eng \<Rightarrow>
                (case revoke_on env vol eng vid (set_export_state env (v_name vol) Revoking (Some ''delete in progress'') s) of
                   (Inr _, s) \<Rightarrow> (Inr (), s)
                 | (Inl e, s) \<Rightarrow>
                     (let m = node @ '': consumer volume '' @ vid @ '': '' @ en_text env e in
                      (Inl (Msg m), set_export_state env (v_name vol) Revoking (Some m) s))))
      | _ \<Rightarrow> (Inr (), s))"

subsection \<open>Lemmas\<close>

lemma attach_adopted_keeps [simp]:
  "ap_volume_id (fst (attach_adopted env srv ph a s)) = ap_volume_id a"
  by (auto simp: attach_adopted_def split: option.splits sum.splits prod.splits)

lemma ensure_served_recorded: "ap_volume_id a = Some vid \<Longrightarrow> ensure_served env name vol srv a s = (Inr a, s)"
  by (simp add: ensure_served_def)

lemma attach_own_recorded:
  "ap_volume_id a = Some vid \<Longrightarrow> ap_volume_id (fst (attach_own env name vol srv ph rc a s)) = Some vid"
  by (auto simp: attach_own_def ensure_served_recorded split: sum.splits prod.splits)

lemma attach_served_recorded:
  "sa_volume_id srv = Some vid \<Longrightarrow> ap_volume_id (fst (attach_served env name vol srv ph s)) = Some vid"
  by (simp add: attach_served_def Let_def attach_own_recorded)

lemma serve_named_volume_id [simp]:
  "ap_volume_id (fst (serve_named env name vol srv rc a s)) = ap_volume_id a"
  by (auto simp: serve_named_def Let_def split: sum.splits option.splits prod.splits)

text \<open>The records of the hosts served are kept under their host's name, and come from a host asked for.\<close>

definition served_of :: "host_serve list \<Rightarrow> (string, host_serve) btree \<Rightarrow> bool" where
  "served_of hosts m \<longleftrightarrow> (\<forall>k r. bt_get m k = Some r \<longrightarrow>
     (\<exists>h \<in> set hosts. hs_host_nqn h = k \<and> hs_host_nqn r = k \<and> hs_dhchap r = hs_dhchap h))"

lemma serve_one_served:
  "served_of hosts (hp_served (fst ps)) \<Longrightarrow> h \<in> set hosts \<Longrightarrow>
     served_of hosts (hp_served (fst (serve_one env srv rc lid ps h)))"
  by (cases ps) (auto simp: serve_one_def served_of_def Let_def split: sum.splits prod.splits)

lemma serve_hosts_served: "served_of hosts (hp_served (fst (serve_hosts env srv rc g lid hosts s)))"
proof -
  have "served_of hosts (hp_served (fst ps)) \<Longrightarrow> set hs \<subseteq> set hosts \<Longrightarrow>
      served_of hosts (hp_served (fst (foldl (serve_one env srv rc lid) ps hs)))" for ps hs
    by (induction hs arbitrary: ps) (auto simp: serve_one_served)
  note this [of "(\<lparr>hp_served = [], hp_secrets = [], hp_failures = [], hp_gone = g\<rparr>, s)" hosts]
  moreover have "served_of hosts []" by (simp add: served_of_def)
  ultimately show ?thesis by (simp add: serve_hosts_def)
qed

lemma served_of_Nil [simp]: "served_of hosts []"
  by (simp add: served_of_def)

lemma serve_named_served: "served_of (x_hosts (v_export vol)) (hp_served (fst (snd (snd (serve_named env name vol srv rc a s)))))"
proof (cases "ap_result a")
  case (Inl e)
  then show ?thesis by (simp add: serve_named_def Let_def)
next
  case (Inr c)
  show ?thesis
  proof (cases "ap_volume_id a")
    case None
    with Inr show ?thesis by (simp add: serve_named_def Let_def)
  next
    case (Some vid)
    obtain lr s1 where l: "served_local_id env srv vol vid (ap_adopted a) s = (lr, s1)"
      by (cases "served_local_id env srv vol vid (ap_adopted a) s")
    obtain p s2 where p: "serve_hosts env srv rc (ap_gone a) (projr lr) (x_hosts (v_export vol)) s1 = (p, s2)"
      by (cases "serve_hosts env srv rc (ap_gone a) (projr lr) (x_hosts (v_export vol)) s1")
    have "served_of (x_hosts (v_export vol)) (hp_served p)"
      using serve_hosts_served [of "x_hosts (v_export vol)" env srv rc "ap_gone a" "projr lr" s1] by (simp add: p)
    with Inr Some l p show ?thesis by (cases lr) (auto simp: serve_named_def Let_def)
  qed
qed



lemma x_hosts_new_export [simp]:
  "x_hosts (new_export env t previous srv a ph lid served) = hosts_after served (x_hosts previous)"
  by (simp add: new_export_def Let_def split: sum.splits option.splits)

lemma x_volume_id_new_export [simp]:
  "x_volume_id (new_export env t previous srv a ph lid served) = ap_volume_id a"
  by (simp add: new_export_def Let_def split: sum.splits option.splits)

lemma x_node_new_export [simp]:
  "x_node (new_export env t previous srv a ph lid served) = Some (sa_node srv)"
  by (simp add: new_export_def Let_def split: sum.splits option.splits)

lemma x_withdrawing_new_export [simp]:
  "x_withdrawing (new_export env t previous srv a ph lid served) = x_withdrawing previous"
  by (simp add: new_export_def Let_def split: sum.splits option.splits)

lemma x_state_new_export:
  "x_state (new_export env t previous srv a ph lid served) = Published \<or> x_state (new_export env t previous srv a ph lid served) = ExportFailed"
  by (simp add: new_export_def Let_def split: sum.splits option.splits)

lemma v_export_record_leg [simp]: "v_export (record_leg_export r v) = v_export v"
  by (simp add: record_leg_export_def split: sum.splits option.splits)

text \<open>The engine calls of a publish leave every quiet part of the state alone.\<close>

lemma served_local_id_quiet: "quiet env g \<Longrightarrow> g (snd (served_local_id env srv vol vid ad s)) = g s"
  by (auto simp: served_local_id_def dest: call_quiet_eq split: option.splits sum.splits prod.splits)

lemma attach_adopted_quiet: "quiet env g \<Longrightarrow> g (snd (attach_adopted env srv ph a s)) = g s"
  by (auto simp: attach_adopted_def dest: call_quiet_eq split: option.splits sum.splits prod.splits)

lemma ensure_served_quiet: "quiet env g \<Longrightarrow> g (snd (ensure_served env name vol srv a s)) = g s"
  by (auto simp: ensure_served_def dest: call_quiet_eq split: option.splits sum.splits prod.splits)

lemma attach_own_quiet:
  assumes "quiet env g"
  shows "g (snd (attach_own env name vol srv ph rc a s)) = g s"
proof -
  obtain r s1 where e: "ensure_served env name vol srv a s = (r, s1)" by (cases "ensure_served env name vol srv a s")
  then have "g s1 = g s" using ensure_served_quiet [OF assms, of name vol srv a s] by simp
  then show ?thesis
    by (auto simp: attach_own_def e dest: call_quiet_eq [OF assms] split: option.splits sum.splits prod.splits)
qed

lemma attach_served_quiet:
  assumes "quiet env g"
  shows "g (snd (attach_served env name vol srv ph s)) = g s"
  by (auto simp: attach_served_def Let_def attach_adopted_quiet [OF assms] attach_own_quiet [OF assms]
      dest: call_quiet_eq [OF assms] split: sum.splits prod.splits)

lemma serve_hosts_quiet:
  assumes "quiet env g"
  shows "g (snd (serve_hosts env srv rc gn lid hosts s)) = g s"
proof -
  have one: "g (snd (serve_one env srv rc lid ps h)) = g (snd ps)" for ps h
    by (cases ps) (auto simp: serve_one_def Let_def dest: call_quiet_eq [OF assms] split: sum.splits prod.splits)
  have "g (snd (foldl (serve_one env srv rc lid) ps hs)) = g (snd ps)" for ps hs
    by (induction hs arbitrary: ps) (simp_all add: one)
  then show ?thesis by (simp add: serve_hosts_def)
qed

lemma serve_named_quiet:
  assumes "quiet env g"
  shows "g (snd (snd (snd (serve_named env name vol srv rc a s)))) = g s"
proof -
  have "served_local_id env srv vol vid ad s = (lr, s1) \<Longrightarrow> g s1 = g s" for vid ad lr s1
    using served_local_id_quiet [OF assms, of srv vol vid ad s] by simp
  moreover have "serve_hosts env srv rc gn lid hs s1 = (p, s2) \<Longrightarrow> g s2 = g s1" for gn lid hs s1 p s2
    using serve_hosts_quiet [OF assms, of srv rc gn lid hs s1] by simp
  ultimately show ?thesis
    by (simp add: serve_named_def Let_def split: sum.splits option.splits prod.splits)
qed

text \<open>The part of a volume record that serving it does not touch.\<close>

definition core :: "dist_volume \<Rightarrow> dist_volume" where
  "core v = v\<lparr>v_export := default_export, v_legs := map (\<lambda>l. l\<lparr>l_export := None\<rparr>) (v_legs v)\<rparr>"

lemma core_export [simp]: "core (v\<lparr>v_export := x\<rparr>) = core v"
  by (simp add: core_def)

lemma core_record_leg [simp]: "core (record_leg_export r v) = core v"
  by (simp add: core_def record_leg_export_def split: sum.splits option.splits list.splits)


text \<open>What a publish leaves on the record, whatever the other tasks did meanwhile: \<open>v\<close> is the record as
  it was found when the outcome was written.\<close>

lemma publish_inner_done:
  assumes ready: "publish_ready env name (sy_fed s) = Inr (vol, srv)"
    and run: "publish_inner env name s = (r, s')" and there: "volume name s' = Some v'"
  shows "\<exists>a lid served v t. v_export v' = new_export env t (v_export v) srv a
            (x_per_host (v_export vol) \<or> x_hosts (v_export vol) \<noteq> []) lid served \<and>
          served_of (x_hosts (v_export vol)) served \<and>
          (\<forall>vid. sa_volume_id srv = Some vid \<longrightarrow> ap_volume_id a = Some vid) \<and>
          (r = (case ap_result a of Inl e \<Rightarrow> Inl e | Inr _ \<Rightarrow> Inr (v_export v', snd (projr r)))) \<and>
          (quiet env (volume name) \<longrightarrow> volume name s = Some v) \<and> core v' = core v"
proof -
  let ?ph = "x_per_host (v_export vol) \<or> x_hosts (v_export vol) \<noteq> []"
  obtain a1 s1 where a1: "attach_served env name vol srv ?ph s = (a1, s1)" by (cases "attach_served env name vol srv ?ph s")
  obtain a2 lid p s2 where a2: "serve_named env name vol srv (sa_volume_id srv \<noteq> None) a1 s1 = (a2, lid, p, s2)"
    by (cases "serve_named env name vol srv (sa_volume_id srv \<noteq> None) a1 s1") auto
  define a where "a = (if ap_gone a2 then a2\<lparr>ap_result := Inl (Msg (gone_message name (ap_volume_id a2) (Some (sa_node srv))))\<rparr> else a2)"
  have vid: "\<forall>vid. sa_volume_id srv = Some vid \<longrightarrow> ap_volume_id a = Some vid"
  proof -
    have "ap_volume_id a2 = ap_volume_id a1" by (metis a2 fst_conv serve_named_volume_id)
    then show ?thesis using attach_served_recorded [of srv _ env name vol ?ph s] by (auto simp: a1 a_def)
  qed
  have served: "served_of (x_hosts (v_export vol)) (hp_served p)"
    using serve_named_served [of vol env name srv "sa_volume_id srv \<noteq> None" a1 s1] by (simp only: a2 fst_conv snd_conv)
  show ?thesis
  proof (cases "volume name s2")
    case None
    with ready run there show ?thesis by (simp add: publish_inner_def Let_def a1 a2 del: not_None_eq)
  next
    case (Some v)
    let ?ex = "new_export env (now env s2) (v_export v) srv a ?ph lid (hp_served p)"
    have r: "r = (case ap_result a of Inl e \<Rightarrow> Inl e | Inr _ \<Rightarrow> Inr (?ex, hp_secrets p))"
      and s': "s' = note_event env ''assemble'' (case ap_result a of Inl _ \<Rightarrow> Error | Inr _ \<Rightarrow> Info) name
         (publish_state env (with_fed (\<lambda>fed. bump (on_volume name
            (\<lambda>v. (record_leg_export (ap_result a) v)\<lparr>v_export := ?ex\<rparr>) fed)) s2))"
      using run by (simp_all add: publish_inner_def Let_def ready a1 a2 Some a_def [symmetric] del: not_None_eq)
    have "volume name s = Some v" if q: "quiet env (volume name)"
      using attach_served_quiet [OF q, of name vol srv ?ph s]
        serve_named_quiet [OF q, of name vol srv "sa_volume_id srv \<noteq> None" a1 s1] Some by (simp only: a1 a2 snd_conv)
    moreover have "v_export v' = ?ex" "core v' = core v" using there Some by (auto simp: s')
    ultimately show ?thesis using vid served r
      by (intro exI [of _ a] exI [of _ lid] exI [of _ "hp_served p"] exI [of _ v] exI [of _ "now env s2"])
        (auto split: sum.splits)
  qed
qed

lemma publish_ready_volume: "publish_ready env name fed = Inr (vol, srv) \<Longrightarrow> bt_get (f_volumes fed) name = Some vol"
  by (auto simp: publish_ready_def split: option.splits if_splits sum.splits)



lemma set_export_state_volume:
  "volume name s = Some v \<Longrightarrow>
     volume name (set_export_state env name st m s) = Some (v\<lparr>v_export := (v_export v)\<lparr>x_state := st, x_message := m\<rparr>\<rparr>)"
  by (simp add: set_export_state_def)

lemma revoke_on_quiet:
  assumes "quiet env g"
  shows "g (snd (revoke_on env vol eng vid s)) = g s"
  by (auto simp: revoke_on_def Let_def call_quiet [OF assms] dest: call_quiet_eq [OF assms] split: prod.splits)

subsection \<open>Properties\<close>


text \<open>Property C7. A delete revokes a served volume that is no leg and whose node answers. If no other task changes the record
  during the revoke's calls, the record then says \<open>Revoking\<close>, whatever the engine answered, and every publish that
  starts while the record stays so is refused without an engine call or a change of the state.\<close>

theorem revoked_not_served:
  assumes "volume (v_name vol) s = Some vol" and "quiet env (volume (v_name vol))"
    and "x_node (v_export vol) = Some node" and "x_volume_id (v_export vol) = Some vid"
    and "\<not> list_ex (\<lambda>l. l_volume_id l = Some vid) (v_legs vol)"
    and "healthy_engine env (sy_fed s) node = Some eng"
    and "revoke env vol s = (r, s')"
  shows "(\<exists>v'. volume (v_name vol) s' = Some v' \<and> x_state (v_export v') = Revoking) \<and>
     (\<forall>s2. volume (v_name vol) s2 = volume (v_name vol) s' \<longrightarrow> (\<exists>e. publish_inner env (v_name vol) s2 = (Inl e, s2)))"
proof -
  let ?s1 = "set_export_state env (v_name vol) Revoking (Some ''delete in progress'') s"
  obtain r2 s2 where r2: "revoke_on env vol eng vid ?s1 = (r2, s2)" by (cases "revoke_on env vol eng vid ?s1")
  have "volume (v_name vol) s2 = volume (v_name vol) ?s1"
    using revoke_on_quiet [OF assms(2), of vol eng vid ?s1] by (simp only: r2 snd_conv)
  then have "\<exists>v2. volume (v_name vol) s2 = Some v2 \<and> x_state (v_export v2) = Revoking"
    using set_export_state_volume [OF assms(1)] by simp
  then have rev: "\<exists>v'. volume (v_name vol) s' = Some v' \<and> x_state (v_export v') = Revoking"
    using assms(3-7) r2 by (auto simp: revoke_def set_export_state_volume Let_def split: sum.splits)
  then show ?thesis by (auto simp: publish_inner_def publish_ready_def)
qed

text \<open>A publish already under way takes the revoke back: whatever the other tasks did meanwhile, the record it writes is
  published or failed.\<close>

lemma publish_takes_revoke_back:
  assumes "publish_ready env name (sy_fed s) = Inr (vol, srv)" and "publish_inner env name s = (r, s')" and "volume name s' = Some v'"
  shows "x_state (v_export v') = Published \<or> x_state (v_export v') = ExportFailed"
proof -
  from publish_inner_done [OF assms] show ?thesis by (elim exE conjE) (simp only: x_state_new_export)
qed

text \<open>The engine-local id of a served volume: a lookup that fails because the engine
  has no such volume (404) is wrapped in a text before it is tested, so the publish of a host-served
  volume with no local id on record marks it failed but never gone.\<close>

theorem host_publish_misses_gone:
  assumes "publish_ready env name (sy_fed s) = Inr (vol, srv)" and "quiet env (volume name)"
    and "x_hosts (v_export vol) \<noteq> []" and "v_assembly vol \<noteq> Clone" and "\<not> x_adopted (v_export vol)"
    and "sa_volume_id srv = Some vid" and "x_local_id (v_export vol) = None"
    and "call env (\<lambda>wr. local_volume_id wr (sa_engine srv) (served_name vol)) s = (Inl (HttpStatus path 404 m), s1)"
    and "publish_inner env name s = (r, s')"
  shows "\<exists>v'. volume name s' = Some v' \<and> x_state (v_export v') = ExportFailed \<and> \<not> x_gone (v_export v')"
proof -
  have vol: "volume name s = Some vol" using publish_ready_volume [OF assms(1)] .
  have s1: "volume name s1 = Some vol" using call_quiet_eq [OF assms(2,8)] vol by simp
  have lid: "served_local_id env srv vol vid False s = (Inl (at_text env srv (HttpStatus path 404 m)), s1)"
    using assms(7,8) by (cases "x_node (v_export vol) = Some (sa_node srv) \<and> x_volume_id (v_export vol) = Some vid")
      (simp_all add: served_local_id_def)
  have "attach_served env name vol srv True s =
      (\<lparr>ap_result = Inr None, ap_volume_id = Some vid, ap_master_node = sa_master_node srv, ap_adopted = False, ap_gone = False\<rparr>, s)"
    using assms(4-6) by (simp add: attach_served_def Let_def attach_own_def ensure_served_recorded)
  then show ?thesis
    using assms(9) vol s1
    by (auto simp: publish_inner_def Let_def assms(1,3) serve_named_def lid not_found_err_def new_export_def)
qed

text \<open>A mirror on \<open>a\<close> and \<open>b\<close>, served from \<open>a\<close> as the engine volume \<open>m1\<close> to one host.\<close>

definition exported :: "string option \<Rightarrow> dist_volume" where
  "exported lid = wit_vol\<lparr>v_export := default_export\<lparr>x_state := Published, x_volume_id := Some ''m1'', x_node := Some ''a'',
     x_hosts := [default_host ''nqn.h'' True], x_per_host := True, x_local_id := lid\<rparr>\<rparr>"

abbreviation run_publish :: "response \<Rightarrow> string option \<Rightarrow> (anyhow + (export \<times> (string, string) btree)) \<times> unit sys" where
  "run_publish r lid \<equiv> publish_inner (small_env r) ''vol'' (small_sys (exported lid))"

abbreviation small_srv :: served_at where
  "small_srv \<equiv> \<lparr>sa_node = ''a'', sa_engine = new_engine ''http://a'' None, sa_volume_id = Some ''m1'', sa_master_node = None,
     sa_array_id = Some ''A1''\<rparr>"

lemma small_ready: "publish_ready (small_env r) ''vol'' (sy_fed (small_sys (exported lid))) = Inr (exported lid, small_srv)"
  by (simp add: publish_ready_def small_sys_def small_env_def exported_def wit_vol_def serve_at_def serve_own_def serve_mirror_def
      engine_of_def small_node_def wit_config_def engine_for_def with_admin_def new_engine_def trim_end_slash_def
      healthy_node_def default_export_def)

lemma small_published: "volume ''vol'' (snd (run_publish attach_answer (Some ''l1''))) \<noteq> None"
  by code_simp


theorem revoked_not_served_witness:
  "\<exists>e. publish_inner (small_env attach_answer) ''vol'' (snd (revoke (small_env attach_answer) (exported None) (small_sys (exported None)))) =
     (Inl e, snd (revoke (small_env attach_answer) (exported None) (small_sys (exported None))))"
proof -
  have "v_name (exported None) = ''vol''" by (simp add: exported_def wit_vol_def)
  moreover have "volume ''vol'' (small_sys (exported None)) = Some (exported None)" by (simp add: small_sys_def)
  moreover have "healthy_engine (small_env attach_answer) (sy_fed (small_sys (exported None))) ''a'' =
      Some (engine_for (small_env attach_answer) (small_node ''a''))"
    by (simp add: healthy_engine_def small_sys_def small_node_def del: map_option_eq_Some)
  ultimately show ?thesis
    using revoked_not_served [of "small_sys (exported None)" "exported None" "small_env attach_answer" "''a''" "''m1''"
        "engine_for (small_env attach_answer) (small_node ''a'')", OF _ _ _ _ _ _ prod.collapse [symmetric]]
    by (simp add: exported_def wit_vol_def wit_leg_def)
qed

theorem host_publish_misses_gone_witness:
  "\<exists>v'. volume ''vol'' (snd (run_publish empty_answer None)) = Some v' \<and> x_state (v_export v') = ExportFailed \<and> \<not> x_gone (v_export v')"
proof -
  have "call (small_env empty_answer) (\<lambda>wr. local_volume_id wr (sa_engine small_srv) (served_name (exported None))) (small_sys (exported None)) =
     (Inl (HttpStatus ''/api/v1/volumes'' 404 ''no engine volume named vol-mirror''), small_sys (exported None))"
    by (simp add: call_def small_env_def local_volume_id_def get_items_def fetch_def io_defs empty_answer_def error_for_status_def
        body_json_def served_name_def exported_def wit_vol_def MIRROR_SUFFIX_def small_sys_def List.map_filter_def)
  then show ?thesis
    using host_publish_misses_gone [OF small_ready, of empty_answer None "''m1''", OF _ _ _ _ _ _ _ prod.collapse [symmetric]]
    by (simp add: exported_def wit_vol_def default_export_def)
qed

end
