(* ===== verification/Head.thy ===== *)
theory Head
  imports Export
begin

section \<open>The head of a mirrored volume\<close>

text \<open>
  Models the acting half of \<open>src/head.rs\<close>: fencing a volume's epoch, promoting another leg's node to
  head, putting an array back together on its own head, dual-attach windows, rebuild rates, reading the
  arrays, and cleaning up after former heads. Refusals are the source's enum with the message's case in
  place of its text; the JSON view a handler answers with is left out.
\<close>

datatype conflict =
    NotMirrored | WindowOpen | NotAssembled | ReplacementInFlight | HoldsNoLeg string
  | LegNotReady leg_state | NodeUnreachable string | HeadStillRunning string | NoArrayId | Busy
  | FencedReplacingOrWindow | NoHead | NoLegAnswers | NoSlaveLeg | SeveralSlaves | IsHead string
  | NoWindow | WindowFor string | LegHasNoVolume string

datatype upstream =
    AttachFailed string engine_error | OpenFailed string string engine_error | AssembleFailed string engine_error
  | NotThisArray string | LegUnreachable string | HeadUnreachable string

datatype head_refusal = NotFound string | StaleEpoch u64 | Conflict conflict | Upstream upstream

subsection \<open>Fencing\<close>

definition apply_fence :: "dist_volume \<Rightarrow> u64 \<Rightarrow> head_refusal + (u64 \<times> dist_volume)" where
  "apply_fence vol expected =
     (if v_epoch vol \<noteq> expected then Inl (StaleEpoch (v_epoch vol))
      else if \<not> mirrored vol then Inl (Conflict NotMirrored)
      else Inr (v_epoch vol + 1, vol\<lparr>v_epoch := v_epoch vol + 1, v_fenced := True\<rparr>))"

record fence_report =
  fr_epoch :: u64
  fr_legs :: "(string \<times> u64) list"
  fr_not_fenced :: "(string \<times> engine_error option) list"

definition fence_one ::
  "'w env \<Rightarrow> fence_report \<times> 'w sys \<Rightarrow> string \<times> string \<times> engine option \<Rightarrow> fence_report \<times> 'w sys" where
  "fence_one env os l =
     (let (out, s) = os; (node, vid, eng) = l in
      case eng of
        None \<Rightarrow> (out\<lparr>fr_not_fenced := fr_not_fenced out @ [(node, None)]\<rparr>, s)
      | Some e \<Rightarrow>
          (case call env (\<lambda>wr. fence_leg wr e vid) s of
             (Inr le, s) \<Rightarrow> (out\<lparr>fr_legs := fr_legs out @ [(node, le)]\<rparr>, s)
           | (Inl err, s) \<Rightarrow> (out\<lparr>fr_not_fenced := fr_not_fenced out @ [(node, Some err)]\<rparr>, s)))"

definition record_epochs :: "(string \<times> u64) list \<Rightarrow> leg list \<Rightarrow> leg list" where
  "record_epochs les legs =
     foldl (\<lambda>ls (node, le). update_first (\<lambda>l. l_node l = node) (\<lambda>l. l\<lparr>l_epoch := Some le\<rparr>) ls) legs les"

definition fence :: "'w env \<Rightarrow> string \<Rightarrow> u64 \<Rightarrow> 'w sys \<Rightarrow> (head_refusal + fence_report) \<times> 'w sys" where
  "fence env name expected s =
     (case volume name s of
        None \<Rightarrow> (Inl (NotFound name), s)
      | Some vol \<Rightarrow>
          (case apply_fence vol expected of
             Inl e \<Rightarrow> (Inl e, s)
           | Inr (epoch, vol') \<Rightarrow>
               (let legs = List.map_filter (\<lambda>l. if l_state l = Created
                               then map_option (\<lambda>vid. (l_node l, vid, healthy_engine env (sy_fed s) (l_node l))) (l_volume_id l)
                               else None) (v_legs vol');
                    s = publish_state env (with_fed (\<lambda>fed. bump (on_volume name (\<lambda>_. vol') fed)) s);
                    (out, s) = foldl (fence_one env) (\<lparr>fr_epoch = epoch, fr_legs = [], fr_not_fenced = []\<rparr>, s) legs;
                    s = publish_state env (with_fed (\<lambda>fed. bump (on_volume name
                          (\<lambda>v. v\<lparr>v_legs := record_epochs (fr_legs out) (v_legs v)\<rparr>) fed)) s);
                    s = note_event env ''replication'' (if fr_not_fenced out = [] then Info else Warning) name s
                in (Inr out, s))))"

subsection \<open>Promoting\<close>

definition check_promote :: "dist_volume \<Rightarrow> string \<Rightarrow> u64 \<Rightarrow> bool \<Rightarrow> head_refusal + string option" where
  "check_promote vol target fenced_epoch target_healthy =
     (if \<not> v_fenced vol \<or> v_epoch vol \<noteq> fenced_epoch then Inl (StaleEpoch (v_epoch vol))
      else if v_dual_attach vol \<noteq> None then Inl (Conflict WindowOpen)
      else if \<not> mirrored vol then Inl (Conflict NotAssembled)
      else if v_replacing vol \<noteq> None then Inl (Conflict ReplacementInFlight)
      else (case find (\<lambda>l. l_node l = target) (v_legs vol) of
          None \<Rightarrow> Inl (Conflict (HoldsNoLeg target))
        | Some l \<Rightarrow>
            if l_state l \<noteq> Created \<or> l_volume_id l = None then Inl (Conflict (LegNotReady (l_state l)))
            else if \<not> target_healthy then Inl (Conflict (NodeUnreachable target))
            else Inr (v_head vol)))"

definition leg_engines :: "'w env \<Rightarrow> fed_state \<Rightarrow> leg list \<Rightarrow> (string, engine) btree" where
  "leg_engines env fed legs =
     bt_collect (List.map_filter (\<lambda>l. map_option (Pair (l_node l)) (healthy_engine env fed (l_node l))) legs)"

text \<open>Opening the chosen legs on the head: the legs with what was recorded, and the drives in order.\<close>

definition open_leg ::
  "'w env \<Rightarrow> string \<Rightarrow> engine \<Rightarrow> (string, engine) btree \<Rightarrow> leg \<Rightarrow> 'w sys \<Rightarrow> (head_refusal + (leg \<times> string)) \<times> 'w sys" where
  "open_leg env target teng engines l s =
     (case bt_get engines (l_node l) of
        None \<Rightarrow> (Inl (Upstream (LegUnreachable (l_node l))), s)
      | Some eng \<Rightarrow>
          (case l_volume_id l of
             None \<Rightarrow> (Inl (Conflict (LegHasNoVolume (l_node l))), s)
           | Some vid \<Rightarrow>
               (case call env (\<lambda>wr. attach_leg wr eng vid (unwrap_or (l_master_node l) ''localhost'') (l_epoch l)
                       (Some (host_nqn_for (en_host_nqn env) target))) s of
                  (Inl e, s) \<Rightarrow> (Inl (Upstream (AttachFailed (l_node l) e)), s)
                | (Inr att, s) \<Rightarrow>
                    (case call env (\<lambda>wr. add_drive_idempotent wr teng (drive_uri att)) s of
                       (Inl e, s) \<Rightarrow> (Inl (Upstream (OpenFailed target (drive_uri att) e)), s)
                     | (Inr uuid, s) \<Rightarrow> (Inr (l\<lparr>l_export := Some att, l_drive_uuid := Some uuid\<rparr>, uuid), s)))))"

fun open_legs ::
  "'w env \<Rightarrow> string \<Rightarrow> engine \<Rightarrow> (string, engine) btree \<Rightarrow> nat list \<Rightarrow> leg list \<Rightarrow> string list \<Rightarrow> 'w sys \<Rightarrow>
     (head_refusal + (leg list \<times> string list)) \<times> 'w sys" where
  "open_legs env target teng engines [] legs uuids s = (Inr (legs, uuids), s)"
| "open_legs env target teng engines (i # is) legs uuids s =
     (case open_leg env target teng engines (legs ! i) s of
        (Inl e, s) \<Rightarrow> (Inl e, s)
      | (Inr (l, uuid), s) \<Rightarrow> open_legs env target teng engines is (legs[i := l]) (uuids @ [uuid]) s)"

definition has_array :: "string \<Rightarrow> json list \<Rightarrow> bool" where
  "has_array array_id arrays = list_ex (\<lambda>x. is_some_and (get_str ''id'' x) (\<lambda>i. eq_ignore_case i array_id)) arrays"

text \<open>Members as the head numbers them, matched by the drive each was opened as.\<close>

definition number_members :: "member_reading list \<Rightarrow> nat list \<Rightarrow> leg list \<Rightarrow> leg list" where
  "number_members members idxs legs =
     foldl (\<lambda>ls i. case find (\<lambda>m. Some (mr_device_path m) = map_option drive_uri (l_export (ls ! i))) members of
         None \<Rightarrow> ls
       | Some m \<Rightarrow> ls[i := (ls ! i)\<lparr>l_member_uuid := Some (mr_uuid m)\<rparr>]) legs idxs"

definition assemble_on ::
  "'w env \<Rightarrow> dist_volume \<Rightarrow> nat list \<Rightarrow> string \<Rightarrow> engine \<Rightarrow> (string, engine) btree \<Rightarrow> 'w sys \<Rightarrow>
     (head_refusal + (string option \<times> dist_volume)) \<times> 'w sys" where
  "assemble_on env vol idxs target teng engines s =
     (case v_array_id vol of
        None \<Rightarrow> (Inl (Conflict NoArrayId), s)
      | Some array_id \<Rightarrow>
          (case open_legs env target teng engines idxs (v_legs vol) [] s of
             (Inl e, s) \<Rightarrow> (Inl e, s)
           | (Inr (legs, uuids), s) \<Rightarrow>
               (case call env (\<lambda>wr. assemble_arrays wr teng uuids) s of
                  (Inl e, s) \<Rightarrow> (Inl (Upstream (AssembleFailed target e)), s)
                | (Inr rep, s) \<Rightarrow>
                    if \<not> has_array array_id (get_array ''arrays'' rep) then (Inl (Upstream (NotThisArray array_id)), s)
                    else
                      (let (arr, s) = call env (\<lambda>wr. get_raid_array wr teng array_id) s;
                           legs = (case arr of
                               Inl _ \<Rightarrow> legs
                             | Inr a \<Rightarrow> number_members (ar_members (parse_array (now env s) target array_id a)) idxs legs);
                           s = snd (call env (\<lambda>wr. set_rebuild_rate wr teng array_id (rate (en_recovery env) (v_bandwidth_class vol))) s);
                           (vols, s) = call env (\<lambda>wr. list_engine_volumes wr teng) s;
                           served = (case vols of
                               Inl _ \<Rightarrow> None
                             | Inr vs \<Rightarrow> map_option ev_id (find (\<lambda>v. ev_name v = v_name vol @ MIRROR_SUFFIX) vs))
                       in (Inr (served, vol\<lparr>v_legs := legs\<rparr>), s)))))"

fun reattach_legs :: "'w env \<Rightarrow> (string, engine) btree \<Rightarrow> string \<Rightarrow> leg list \<Rightarrow> 'w sys \<Rightarrow> leg list \<times> 'w sys" where
  "reattach_legs env engines head [] s = ([], s)"
| "reattach_legs env engines head (l # ls) s =
     (let (l, s) =
        (case (if l_state l = Created then bt_get engines (l_node l) else None, l_volume_id l) of
           (Some eng, Some vid) \<Rightarrow>
             (case call env (\<lambda>wr. attach_leg wr eng vid (unwrap_or (l_master_node l) ''localhost'') (l_epoch l)
                     (Some (host_nqn_for (en_host_nqn env) head))) s of
                (Inr att, s) \<Rightarrow> (l\<lparr>l_export := Some att\<rparr>, s)
              | (Inl _, s) \<Rightarrow> (l, s))
         | _ \<Rightarrow> (l, s));
        (ls, s) = reattach_legs env engines head ls s
      in (l # ls, s))"

definition store_volume :: "'w env \<Rightarrow> dist_volume \<Rightarrow> 'w sys \<Rightarrow> 'w sys" where
  "store_volume env vol s = publish_state env (with_fed (\<lambda>fed. bump (put_volume (v_name vol) vol fed)) s)"

definition all_created :: "leg list \<Rightarrow> assembly_state" where
  "all_created legs = (if list_all (\<lambda>l. l_state l = Created) legs then Assembled else Degraded)"

text \<open>The record after a failover to \<open>target\<close>: legs on nodes that do not answer are lost, the target is
  the head, the epoch is no longer fenced, and the served volume is the one that came across.\<close>

definition lose_leg :: "(string, engine) btree \<Rightarrow> leg \<Rightarrow> leg" where
  "lose_leg engines l =
     (if l_state l = Created \<and> bt_get engines (l_node l) = None
      then l\<lparr>l_state := Lost, l_message := Some (''node '' @ l_node l @ '' unreachable at promote'')\<rparr> else l)"

definition promoted :: "string \<Rightarrow> (string, engine) btree \<Rightarrow> string option \<Rightarrow> dist_volume \<Rightarrow> dist_volume" where
  "promoted target engines served vol =
     (let legs = map (lose_leg engines) (v_legs vol); ex = v_export vol in
      vol\<lparr>v_legs := legs, v_head := Some target, v_fenced := False, v_assembly := all_created legs,
          v_export := \<lparr>x_state = x_state ex, x_volume_id = served, x_node = Some target, x_master_node = None,
            x_coordinates = x_coordinates ex, x_published_at = x_published_at ex, x_coordinates_changed = False,
            x_message = None, x_adopted = True, x_hosts = x_hosts ex, x_per_host = x_per_host ex,
            x_local_id = served, x_withdrawing = x_withdrawing ex, x_gone = False\<rparr>\<rparr>)"

definition served_lost :: "string \<Rightarrow> string \<Rightarrow> string" where
  "served_lost name target =
     name @ '': the served volume '' @ name @ MIRROR_SUFFIX @ '' did not come across with the array on '' @ target @ dash @
     ''not serving (an empty volume in its place would hide the data)''"

definition former_head :: "string \<Rightarrow> string \<Rightarrow> string \<Rightarrow> time \<Rightarrow> dist_volume \<Rightarrow> stale_head" where
  "former_head name old array_id t vol =
     \<lparr>sh_node = old, sh_array_id = array_id,
      sh_drive_uris = List.map_filter (\<lambda>l. map_option drive_uri (l_export l)) (v_legs vol),
      sh_of_volume = name, sh_epoch = v_epoch vol, sh_since = t,
      sh_served_v1 = (if x_node (v_export vol) = Some old \<and> \<not> x_adopted (v_export vol)
                      then x_volume_id (v_export vol) else None)\<rparr>"

definition push_stale :: "stale_head \<Rightarrow> fed_state \<Rightarrow> fed_state" where
  "push_stale st fed = fed\<lparr>f_stale_heads := f_stale_heads fed @ [st]\<rparr>"

text \<open>After a failover was stored: serve what came across, or say that nothing did.\<close>

definition serve_promoted :: "'w env \<Rightarrow> string \<Rightarrow> string \<Rightarrow> string option \<Rightarrow> 'w sys \<Rightarrow> 'w sys" where
  "serve_promoted env name target served s =
     (case served of
        Some _ \<Rightarrow> publish_clones_of env name (snd (publish env name s))
      | None \<Rightarrow>
          note_event env ''replication'' Error name (persist env (with_fed (on_volume name
            (\<lambda>v. v\<lparr>v_export := (v_export v)\<lparr>x_state := ExportFailed, x_message := Some (served_lost name target)\<rparr>\<rparr>)) s)))"

definition failover ::
  "'w env \<Rightarrow> string \<Rightarrow> string \<Rightarrow> string \<Rightarrow> string option \<Rightarrow> engine \<Rightarrow> (string, engine) btree \<Rightarrow> dist_volume \<Rightarrow> 'w sys \<Rightarrow>
     (head_refusal + unit) \<times> 'w sys" where
  "failover env name target array_id old_head teng engines vol s =
     (let surviving = filter (\<lambda>i. l_state (v_legs vol ! i) = Created \<and> bt_get engines (l_node (v_legs vol ! i)) \<noteq> None)
            [0..<length (v_legs vol)]
      in case assemble_on env vol surviving target teng engines s of
           (Inl e, s) \<Rightarrow> (Inl e, s)
         | (Inr (served, vol), s) \<Rightarrow>
             (let old = unwrap_or old_head [];
                  st = former_head name old array_id (now env s) vol;
                  s = publish_state env (with_fed (\<lambda>fed. bump (put_volume name (promoted target engines served vol)
                        (if old \<noteq> [] then push_stale st fed else fed))) s);
                  s = note_event env ''replication'' Info name s
              in (Inr (), serve_promoted env name target served s)))"

definition promote_claimed :: "'w env \<Rightarrow> string \<Rightarrow> string \<Rightarrow> u64 \<Rightarrow> 'w sys \<Rightarrow> (head_refusal + unit) \<times> 'w sys" where
  "promote_claimed env name target fenced_epoch s =
     (case volume name s of
        None \<Rightarrow> (Inl (NotFound name), s)
      | Some vol \<Rightarrow>
          (case check_promote vol target fenced_epoch (healthy_node (sy_fed s) target) of
             Inl e \<Rightarrow> (Inl e, s)
           | Inr old_head \<Rightarrow>
               (let alive = is_some_and old_head (healthy_node (sy_fed s));
                    engines = leg_engines env (sy_fed s) (v_legs vol)
                in case (v_array_id vol, bt_get engines target) of
                     (None, _) \<Rightarrow> (Inl (Conflict NoArrayId), s)
                   | (Some array_id, None) \<Rightarrow> (Inl (Conflict (NodeUnreachable target)), s)
                   | (Some array_id, Some teng) \<Rightarrow>
                       if old_head = Some target then
                         (let (legs, s) = reattach_legs env engines target (v_legs vol) s;
                              s = store_volume env (vol\<lparr>v_legs := legs, v_fenced := False\<rparr>) s
                          in (Inr (), note_event env ''replication'' Info name s))
                       else if alive then (Inl (Conflict (HeadStillRunning (unwrap_or old_head []))), s)
                       else failover env name target array_id old_head teng engines vol s)))"

definition promote :: "'w env \<Rightarrow> string \<Rightarrow> string \<Rightarrow> u64 \<Rightarrow> 'w sys \<Rightarrow> (head_refusal + unit) \<times> 'w sys" where
  "promote env name target fenced_epoch s =
     (case claim name s of
        (False, s) \<Rightarrow> (Inl (Conflict Busy), s)
      | (True, s) \<Rightarrow>
          (let (r, s) = promote_claimed env name target fenced_epoch s in (r, release name s)))"

subsection \<open>Reassembly on the same head\<close>

datatype reassembled = Present | Unread | ReassembledFrom nat bool

definition gone_reassembled :: "string \<Rightarrow> string \<Rightarrow> string \<Rightarrow> string" where
  "gone_reassembled name array_id head =
     name @ '': the served volume '' @ name @ MIRROR_SUFFIX @ '' did not come back with array '' @ array_id @ '' on '' @ head @
     ''; its data is not recreated'' @ dash @ ''POST /api/v1/volumes/'' @ name @
     ''/export {\"recreate\": true} serves a new, EMPTY one''"

definition reassembled_export :: "string \<Rightarrow> string \<Rightarrow> string \<Rightarrow> string option \<Rightarrow> export \<Rightarrow> export" where
  "reassembled_export name array_id head served ex =
     (case served of
        Some i \<Rightarrow> ex\<lparr>x_volume_id := Some i, x_local_id := Some i, x_node := Some head, x_master_node := None, x_adopted := True\<rparr>
      | None \<Rightarrow>
          if x_state ex \<noteq> NotExported
          then ex\<lparr>x_state := ExportFailed, x_gone := True, x_message := Some (gone_reassembled name array_id head)\<rparr>
          else ex)"

definition reassemble_idxs :: "(string, engine) btree \<Rightarrow> string \<Rightarrow> leg list \<Rightarrow> nat list" where
  "reassemble_idxs engines head legs =
     filter (\<lambda>i. let l = legs ! i in bt_get engines (l_node l) \<noteq> None \<and>
                  (l_state l = Created \<or> (l_state l = Lost \<and> l_node l = head))) [0..<length legs]"

definition reassemble :: "'w env \<Rightarrow> string \<Rightarrow> 'w sys \<Rightarrow> (head_refusal + reassembled) \<times> 'w sys" where
  "reassemble env name s =
     (case volume name s of
        None \<Rightarrow> (Inl (NotFound name), s)
      | Some vol \<Rightarrow>
          if \<not> mirrored vol then (Inl (Conflict NotAssembled), s)
          else if v_fenced vol \<or> v_replacing vol \<noteq> None \<or> v_dual_attach vol \<noteq> None
          then (Inl (Conflict FencedReplacingOrWindow), s)
          else (case v_head vol of
              None \<Rightarrow> (Inl (Conflict NoHead), s)
            | Some head \<Rightarrow>
                (case healthy_engine env (sy_fed s) head of
                   None \<Rightarrow> (Inl (Upstream (HeadUnreachable head)), s)
                 | Some heng \<Rightarrow>
                     (let engines = leg_engines env (sy_fed s) (v_legs vol) in
                      case v_array_id vol of
                        None \<Rightarrow> (Inl (Conflict NoArrayId), s)
                      | Some array_id \<Rightarrow>
                          (case call env (\<lambda>wr. find_array wr heng array_id) s of
                             (Inr (Some _), s) \<Rightarrow> (Inr Present, s)
                           | (Inl _, s) \<Rightarrow> (Inr Unread, s)
                           | (Inr None, s) \<Rightarrow>
                               (let idxs = reassemble_idxs engines head (v_legs vol) in
                                if idxs = [] then (Inl (Conflict NoLegAnswers), s)
                                else (case assemble_on env vol idxs head heng engines s of
                                    (Inl e, s) \<Rightarrow> (Inl e, s)
                                  | (Inr (served, vol'), s) \<Rightarrow>
                                      (let legs = foldl (\<lambda>ls i. ls[i := (ls ! i)\<lparr>l_state := Created, l_message := None\<rparr>]) (v_legs vol') idxs;
                                           was_served = (x_state (v_export vol') \<noteq> NotExported);
                                           vol'' = vol'\<lparr>v_legs := legs, v_assembly := all_created legs, v_next_assemble_after := None,
                                             v_export := reassembled_export name array_id head served (v_export vol')\<rparr>;
                                           s = note_event env ''replication'' Info name (store_volume env vol'' s);
                                           s = (if served \<noteq> None \<and> was_served then snd (publish env name s) else s);
                                           s = publish_clones_of env name s;
                                           s = (if x_message (v_export vol'') \<noteq> None \<and> x_gone (v_export vol'')
                                                then note_event env ''replication'' Error name s else s)
                                       in (Inr (ReassembledFrom (length idxs) (served \<noteq> None)), s))))))))) "

subsection \<open>Prestage choice, rebuild rates\<close>

definition prestage_from :: "dist_volume \<Rightarrow> head_refusal + string" where
  "prestage_from vol =
     (let slaves = filter (\<lambda>l. Some (l_node l) \<noteq> v_head vol) (v_legs vol) in
      case find (\<lambda>l. l_state l = Lost) slaves of
        Some l \<Rightarrow> Inr (l_node l)
      | None \<Rightarrow>
          (case slaves of
             [one] \<Rightarrow> Inr (l_node one)
           | [] \<Rightarrow> Inl (Conflict NoSlaveLeg)
           | _ \<Rightarrow> Inl (Conflict SeveralSlaves)))"

record rate_applied =
  ra_bytes_per_sec :: u64
  ra_applied :: bool
  ra_pending :: bool

definition apply_rate :: "'w env \<Rightarrow> string \<Rightarrow> 'w sys \<Rightarrow> rate_applied option \<times> 'w sys" where
  "apply_rate env name s =
     (case volume name s of
        None \<Rightarrow> (None, s)
      | Some vol \<Rightarrow>
          (let head = Option.bind (v_head vol) (bt_get (f_nodes (sy_fed s)));
               bytes = rate (en_recovery env) (v_bandwidth_class vol)
           in case (head, v_array_id vol) of
                (Some n, Some a) \<Rightarrow>
                  (let (applied, s) =
                         (if ns_healthy (n_status n)
                          then (case call env (\<lambda>wr. set_rebuild_rate wr (engine_for env n) a bytes) s of
                              (Inr _, s) \<Rightarrow> (True, s) | (Inl _, s) \<Rightarrow> (False, s))
                          else (False, s));
                       s = (case volume name s of
                              Some v \<Rightarrow>
                                if v_rate_pending v = applied
                                then persist env (with_fed (on_volume name (\<lambda>v. v\<lparr>v_rate_pending := \<not> applied\<rparr>)) s) else s
                            | None \<Rightarrow> s)
                   in (Some \<lparr>ra_bytes_per_sec = bytes, ra_applied = applied, ra_pending = \<not> applied\<rparr>, s))
              | _ \<Rightarrow>
                  (Some \<lparr>ra_bytes_per_sec = bytes, ra_applied = False, ra_pending = False\<rparr>,
                   with_fed (on_volume name (\<lambda>v. v\<lparr>v_rate_pending := False\<rparr>)) s)))"

definition set_bandwidth_class :: "'w env \<Rightarrow> string \<Rightarrow> bandwidth_class \<Rightarrow> 'w sys \<Rightarrow> (head_refusal + rate_applied option) \<times> 'w sys" where
  "set_bandwidth_class env name cls s =
     (case volume name s of
        None \<Rightarrow> (Inl (NotFound name), s)
      | Some vol \<Rightarrow>
          (let changed = (v_bandwidth_class vol \<noteq> cls);
               s = (if changed
                    then publish_state env (with_fed (\<lambda>fed. bump (on_volume name (\<lambda>v. v\<lparr>v_bandwidth_class := cls\<rparr>) fed)) s) else s);
               (r, s) = apply_rate env name s;
               s = (if changed then note_event env ''replication'' Info name s else s)
           in (Inr r, s)))"

definition retry_pending_rates :: "'w env \<Rightarrow> 'w sys \<Rightarrow> 'w sys" where
  "retry_pending_rates env s =
     foldl (\<lambda>s name. case apply_rate env name s of
         (Some r, s) \<Rightarrow> if ra_applied r then note_event env ''replication'' Info name s else s
       | (None, s) \<Rightarrow> s) s
       (map v_name (filter (\<lambda>v. v_rate_pending v \<and> is_some_and (v_head v) (healthy_node (sy_fed s))) (bt_values (f_volumes (sy_fed s)))))"

subsection \<open>Dual-attach windows\<close>

definition apply_open_window :: "dist_volume \<Rightarrow> string \<Rightarrow> duration \<Rightarrow> time \<Rightarrow> head_refusal + (dual_attach \<times> dist_volume)" where
  "apply_open_window vol target ttl t =
     (if \<not> mirrored vol then Inl (Conflict NotAssembled)
      else case filter_opt (\<lambda>w. da_target_node w \<noteq> target) (v_dual_attach vol) of
          Some w \<Rightarrow> Inl (Conflict (WindowFor (da_target_node w)))
        | None \<Rightarrow>
            if Some target = v_head vol then Inl (Conflict (IsHead target))
            else if \<not> list_ex (\<lambda>l. l_node l = target \<and> l_state l = Created) (v_legs vol) then Inl (Conflict (HoldsNoLeg target))
            else (let w = \<lparr>da_target_node = target, da_epoch = v_epoch vol,
                           da_opened_at = unwrap_or (map_option da_opened_at (v_dual_attach vol)) t, da_expires_at = t + ttl\<rparr>
                  in Inr (w, vol\<lparr>v_dual_attach := Some w\<rparr>)))"

definition clamp :: "u64 \<Rightarrow> u64 \<Rightarrow> u64 \<Rightarrow> u64" where
  "clamp x lo hi = (if x < lo then lo else if hi < x then hi else x)"

definition open_window :: "'w env \<Rightarrow> string \<Rightarrow> string \<Rightarrow> u64 \<Rightarrow> 'w sys \<Rightarrow> (head_refusal + dual_attach) \<times> 'w sys" where
  "open_window env name target ttl_secs s =
     (let ttl = from_secs (clamp ttl_secs 1 (max (rc_max_dual_attach_secs (en_recovery env)) 1)) in
      case volume name s of
        None \<Rightarrow> (Inl (NotFound name), s)
      | Some vol \<Rightarrow>
          (case apply_open_window vol target ttl (now env s) of
             Inl e \<Rightarrow> (Inl e, s)
           | Inr (w, vol') \<Rightarrow>
               (Inr w, note_event env ''replication'' Info name
                  (publish_state env (with_fed (\<lambda>fed. bump (on_volume name (\<lambda>_. vol') fed)) s)))))"

datatype outcome = Commit | Abort

definition close_window :: "'w env \<Rightarrow> string \<Rightarrow> u64 \<Rightarrow> outcome \<Rightarrow> 'w sys \<Rightarrow> (head_refusal + unit) \<times> 'w sys" where
  "close_window env name epoch out s =
     (case volume name s of
        None \<Rightarrow> (Inl (NotFound name), s)
      | Some vol \<Rightarrow>
          (case v_dual_attach vol of
             None \<Rightarrow> (Inl (Conflict NoWindow), s)
           | Some w \<Rightarrow>
               if da_epoch w \<noteq> epoch then (Inl (StaleEpoch (da_epoch w)), s)
               else
                 (let s = publish_state env (with_fed (\<lambda>fed. bump (on_volume name (\<lambda>v. v\<lparr>v_dual_attach := None\<rparr>) fed)) s)
                  in case out of
                       Abort \<Rightarrow> (Inr (), note_event env ''replication'' Info name s)
                     | Commit \<Rightarrow>
                         (case fence env name epoch s of
                            (Inl e, s) \<Rightarrow> (Inl e, s)
                          | (Inr rep, s) \<Rightarrow>
                              promote env name (da_target_node w) (fr_epoch rep) (note_event env ''replication'' Info name s)))))"

definition expired :: "time \<Rightarrow> dist_volume \<Rightarrow> bool" where
  "expired t v = is_some_and (v_dual_attach v) (\<lambda>w. da_expires_at w \<le> t)"

definition expire_windows :: "fed_state \<Rightarrow> time \<Rightarrow> (string \<times> string) list \<times> fed_state" where
  "expire_windows fed t =
     (let closed = List.map_filter (\<lambda>v. if expired t v then map_option (\<lambda>w. (v_name v, da_target_node w)) (v_dual_attach v) else None)
                     (bt_values (f_volumes fed));
          fed' = fed\<lparr>f_volumes := bt_map (\<lambda>v. if expired t v then v\<lparr>v_dual_attach := None\<rparr> else v) (f_volumes fed)\<rparr>
      in (closed, if closed \<noteq> [] then bump fed' else fed'))"

subsection \<open>Reading the arrays\<close>

text \<open>One volume of a refresh: the head's array if it can be read, else the superblocks of the legs whose
  nodes answer.\<close>

record refreshing =
  rf_readings :: "(string, array_reading) btree"
  rf_live :: "(string, array_reading) btree"

fun read_superblocks :: "'w env \<Rightarrow> (engine \<times> string) list \<Rightarrow> 'w sys \<Rightarrow> leg_superblock list \<times> 'w sys" where
  "read_superblocks env [] s = ([], s)"
| "read_superblocks env ((eng, vid) # legs) s =
     (let (r, s) = call env (\<lambda>wr. leg_superblock_of wr eng vid) s;
          (sbs, s) = read_superblocks env legs s
      in ((case r of Inr (Some v) \<Rightarrow> (case parse_superblock v of Some sb \<Rightarrow> sb # sbs | None \<Rightarrow> sbs) | _ \<Rightarrow> sbs), s))"

definition refresh_one ::
  "'w env \<Rightarrow> refreshing \<times> 'w sys \<Rightarrow> dist_volume \<times> engine option \<times> (engine \<times> string) list \<Rightarrow> refreshing \<times> 'w sys" where
  "refresh_one env rs due =
     (let (rf, s) = rs; (vol, heng, legs) = due in
      case (v_head vol, v_array_id vol) of
        (Some head, Some arr) \<Rightarrow>
          (let (got, s) = (case heng of
                 None \<Rightarrow> (None, s)
               | Some e \<Rightarrow> (case call env (\<lambda>wr. get_raid_array wr e arr) s of (Inr a, s) \<Rightarrow> (Some a, s) | (Inl _, s) \<Rightarrow> (None, s)))
           in case got of
                Some a \<Rightarrow>
                  (let r = parse_array (now env s) head arr a in
                   (rf\<lparr>rf_live := bt_insert (v_name vol) r (rf_live rf), rf_readings := bt_insert (v_name vol) r (rf_readings rf)\<rparr>, s))
              | None \<Rightarrow>
                  (let (sbs, s) = read_superblocks env legs s in
                   case from_superblocks vol (bt_get (rf_live rf) (v_name vol)) sbs (now env s) of
                     Some r \<Rightarrow> (rf\<lparr>rf_readings := bt_insert (v_name vol) r (rf_readings rf)\<rparr>, s)
                   | None \<Rightarrow> (rf, s)))
      | _ \<Rightarrow> (rf, s))"

definition refresh_due :: "'w env \<Rightarrow> fed_state \<Rightarrow> (dist_volume \<times> engine option \<times> (engine \<times> string) list) list" where
  "refresh_due env fed =
     map (\<lambda>v. (v, Option.bind (v_head v) (healthy_engine env fed),
               List.map_filter (\<lambda>l. if l_state l = Created
                 then Option.bind (healthy_engine env fed (l_node l)) (\<lambda>e. map_option (Pair e) (l_volume_id l)) else None) (all_legs v)))
       (filter (\<lambda>v. mirrored v \<and> v_head v \<noteq> None \<and> v_array_id v \<noteq> None) (bt_values (f_volumes fed)))"

definition refresh :: "'w env \<Rightarrow> 'w sys \<Rightarrow> 'w sys" where
  "refresh env s =
     (let due = refresh_due env (sy_fed s);
          live = bt_retain (\<lambda>name _. list_ex (\<lambda>(v, _, _). v_name v = name) due) (sy_live s);
          (rf, s) = foldl (refresh_one env) (\<lparr>rf_readings = [], rf_live = live\<rparr>, s) due
      in s\<lparr>sy_live := rf_live rf, sy_heads := rf_readings rf\<rparr>)"

subsection \<open>Former heads\<close>

text \<open>The leftover \<open>/v1\<close> record of a former head: an outer \<open>None\<close> when a listing failed.\<close>

definition leftover_record :: "'w env \<Rightarrow> stale_head \<Rightarrow> engine \<Rightarrow> 'w sys \<Rightarrow> string option option \<times> 'w sys" where
  "leftover_record env st eng s =
     (case sh_served_v1 st of
        None \<Rightarrow> (Some None, s)
      | Some i \<Rightarrow>
          (let (recs, s) = call env (\<lambda>wr. list_volumes wr eng) s;
               (held, s) = call env (\<lambda>wr. list_engine_volumes wr eng) s
           in case (recs, held) of
                (Inr rs, Inr hs) \<Rightarrow>
                  if list_ex (\<lambda>v. get_str ''id'' v = Some i \<and> get_str ''name'' v = Some (sh_of_volume st @ MIRROR_SUFFIX)) rs \<and>
                     \<not> list_ex (\<lambda>v. ev_id v = i) hs
                  then (Some (Some i), s) else (Some None, s)
              | _ \<Rightarrow> (None, s)))"

definition close_drives :: "'w env \<Rightarrow> engine \<Rightarrow> string list \<Rightarrow> 'w sys \<Rightarrow> 'w sys" where
  "close_drives env eng uris s = foldl (\<lambda>s u. snd (call env (\<lambda>wr. delete_drive wr eng u True) s)) s uris"

definition forget_stale :: "'w env \<Rightarrow> stale_head \<Rightarrow> 'w sys \<Rightarrow> 'w sys" where
  "forget_stale env st s =
     note_event env ''replication'' Info (sh_of_volume st) (publish_state env (with_fed (\<lambda>fed. bump (fed\<lparr>f_stale_heads :=
       filter (\<lambda>x. \<not> (sh_node x = sh_node st \<and> sh_of_volume x = sh_of_volume st)) (f_stale_heads fed)\<rparr>)) s))"

definition reap_one :: "'w env \<Rightarrow> 'w sys \<Rightarrow> stale_head \<times> engine \<Rightarrow> 'w sys" where
  "reap_one env s due =
     (let (st, eng) = due in
      case call env (\<lambda>wr. list_arrays wr eng) s of
        (Inl _, s) \<Rightarrow> s
      | (Inr arrays, s) \<Rightarrow>
          if has_array (sh_array_id st) arrays then
            (let key = ''stale-head:'' @ sh_node st @ '':'' @ sh_of_volume st in
             if key \<in> set (sy_noted s) then s
             else note_event env ''replication'' Error (sh_of_volume st) (s\<lparr>sy_noted := key # sy_noted s\<rparr>))
          else (case leftover_record env st eng s of
              (None, s) \<Rightarrow> s
            | (Some left, s) \<Rightarrow>
                (let s = close_drives env eng (sh_drive_uris st) s in
                 case left of
                   None \<Rightarrow> forget_stale env st s
                 | Some i \<Rightarrow>
                     (case call env (\<lambda>wr. delete_volume wr eng i) s of
                        (Inl _, s) \<Rightarrow> s
                      | (Inr _, s) \<Rightarrow> forget_stale env st s))))"

definition reap_stale_heads :: "'w env \<Rightarrow> 'w sys \<Rightarrow> 'w sys" where
  "reap_stale_heads env s =
     foldl (reap_one env) s
       (List.map_filter (\<lambda>st. map_option (Pair st) (healthy_engine env (sy_fed s) (sh_node st))) (f_stale_heads (sy_fed s)))"

subsection \<open>Lemmas\<close>

abbreviation cores :: "'w sys \<Rightarrow> (string, dist_volume) btree" where
  "cores s \<equiv> bt_map core (f_volumes (sy_fed s))"

lemma bt_map_modify_id: "(\<And>v. core (f v) = core v) \<Longrightarrow> bt_map core (bt_modify k f m) = bt_map core m"
  by (auto simp: bt_map_def bt_modify_def)

lemma core_eqD:
  "core v = core v' \<Longrightarrow> v_epoch v = v_epoch v' \<and> v_fenced v = v_fenced v' \<and> v_head v = v_head v' \<and>
     v_dual_attach v = v_dual_attach v' \<and> v_assembly v = v_assembly v' \<and> v_replacing v = v_replacing v' \<and> v_name v = v_name v'"
  by (cases v; cases v') (simp add: core_def)

lemma quiet_cores: "quiet env (\<lambda>s. f_volumes (sy_fed s)) \<Longrightarrow> quiet env cores"
  by (simp add: quiet_def)

lemma publish_inner_cores:
  assumes q: "quiet env (\<lambda>s. f_volumes (sy_fed s))"
  shows "cores (snd (publish_inner env name s)) = cores s"
proof (cases "publish_ready env name (sy_fed s)")
  case (Inl ne)
  then show ?thesis
    by (cases ne) (auto simp: publish_inner_def record_unreachable_def bt_map_modify_id split: option.splits)
next
  case (Inr vs)
  obtain vol srv where vs: "vs = (vol, srv)" by (cases vs)
  let ?ph = "x_per_host (v_export vol) \<or> x_hosts (v_export vol) \<noteq> []"
  obtain a1 s1 where a1: "attach_served env name vol srv ?ph s = (a1, s1)" by (cases "attach_served env name vol srv ?ph s")
  obtain a2 lid p s2 where a2: "serve_named env name vol srv (sa_volume_id srv \<noteq> None) a1 s1 = (a2, lid, p, s2)"
    by (cases "serve_named env name vol srv (sa_volume_id srv \<noteq> None) a1 s1") auto
  have "f_volumes (sy_fed s2) = f_volumes (sy_fed s)"
    using attach_served_quiet [OF q, of name vol srv ?ph s]
      serve_named_quiet [OF q, of name vol srv "sa_volume_id srv \<noteq> None" a1 s1] by (simp only: a1 a2 snd_conv)
  then show ?thesis
    by (auto simp: publish_inner_def Inr vs Let_def a1 a2 bt_map_modify_id simp del: not_None_eq split: option.splits)
qed

lemma publish_cores: "quiet env (\<lambda>s. f_volumes (sy_fed s)) \<Longrightarrow> cores (snd (publish env name s)) = cores s"
  using publish_inner_cores [of env name s] by (auto simp: publish_def split: prod.splits sum.splits)

lemma publish_clones_cores:
  assumes "quiet env (\<lambda>s. f_volumes (sy_fed s))"
  shows "cores (publish_clones_of env name s) = cores s"
proof -
  have "cores (foldl (\<lambda>s n. snd (publish env n s)) s ns) = cores s" for ns
    by (induction ns arbitrary: s) (simp_all add: publish_cores [OF assms])
  then show ?thesis by (simp add: publish_clones_of_def)
qed

lemma cores_volume:
  "cores s' = cores s \<Longrightarrow> volume name s = Some v \<Longrightarrow> \<exists>v'. volume name s' = Some v' \<and> core v' = core v"
  by (metis bt_get_map map_option_eq_Some option.map(2))

lemma serve_promoted_cores:
  assumes "quiet env (\<lambda>s. f_volumes (sy_fed s))"
  shows "cores (serve_promoted env name target served s) = cores s"
  using publish_clones_cores [OF assms] publish_cores [OF assms]
  by (cases served) (simp_all add: serve_promoted_def bt_map_modify_id)

lemma open_leg_quiet:
  assumes q: "quiet env g" and "open_leg env target teng engines l s = (r, s')"
  shows "g s' = g s"
proof -
  have "g s2 = g s" if "call env m s = (r1, s1)" and "call env m' s1 = (r2, s2)" for m m' r1 r2 s1 s2
    using call_quiet_eq [OF q that(1)] call_quiet_eq [OF q that(2)] by simp
  with assms(2) show ?thesis
    by (auto simp: open_leg_def split: option.splits sum.splits prod.splits dest: call_quiet_eq [OF q])
qed

lemma open_legs_quiet:
  assumes q: "quiet env g"
  shows "g (snd (open_legs env target teng engines is legs uuids s)) = g s"
proof (induction "is" arbitrary: legs uuids s)
  case Nil
  then show ?case by simp
next
  case (Cons i "is")
  obtain r s1 where r: "open_leg env target teng engines (legs ! i) s = (r, s1)" by fastforce
  with Cons.IH open_leg_quiet [OF q r] show ?case by (auto split: sum.splits)
qed

text \<open>The parts of a leg that opening it does not touch.\<close>

definition leg_core :: "leg \<Rightarrow> leg" where
  "leg_core l = l\<lparr>l_export := None, l_drive_uuid := None, l_member_uuid := None\<rparr>"

lemma open_leg_core: "open_leg env target teng engines l s = (Inr (l', u), s') \<Longrightarrow> leg_core l' = leg_core l"
  by (auto simp: open_leg_def leg_core_def split: option.splits sum.splits prod.splits)

lemma update_core: "leg_core l = leg_core (legs ! i) \<Longrightarrow> map leg_core (legs[i := l]) = map leg_core legs"
  by (cases "i < length legs") (auto simp: map_update list_update_same_conv list_update_beyond)

lemma open_legs_core:
  "open_legs env target teng engines is legs uuids s = (Inr (legs', us), s') \<Longrightarrow> map leg_core legs' = map leg_core legs"
proof (induction "is" arbitrary: legs uuids s)
  case Nil
  then show ?case by simp
next
  case (Cons i "is")
  obtain r s1 where r: "open_leg env target teng engines (legs ! i) s = (r, s1)" by fastforce
  with Cons.prems obtain l u where lu: "r = Inr (l, u)" by (auto split: sum.splits)
  with Cons.prems r have "open_legs env target teng engines is (legs[i := l]) (uuids @ [u]) s1 = (Inr (legs', us), s')" by simp
  from Cons.IH [OF this] open_leg_core [OF r [unfolded lu]] show ?case by (simp add: update_core)
qed

lemma number_members_core: "map leg_core (number_members ms idxs legs) = map leg_core legs"
proof -
  have "leg_core (l\<lparr>l_member_uuid := x\<rparr>) = leg_core l" for l x by (simp add: leg_core_def)
  then have "map leg_core (number_members ms (idxs @ [i]) legs) = map leg_core (number_members ms idxs legs)" for idxs i
    by (auto simp: number_members_def update_core split: option.splits)
  then show ?thesis by (induction idxs rule: rev_induct) (simp_all add: number_members_def)
qed

lemma assemble_on_core:
  assumes q: "quiet env g" and "assemble_on env vol idxs target teng engines s = (Inr (served, vol'), s')"
  shows "g s' = g s" and "\<exists>legs. vol' = vol\<lparr>v_legs := legs\<rparr> \<and> map leg_core legs = map leg_core (v_legs vol)"
proof -
  obtain arr r s1 where arr: "v_array_id vol = Some arr"
    and o: "open_legs env target teng engines idxs (v_legs vol) [] s = (r, s1)"
    using assms(2) by (cases "open_legs env target teng engines idxs (v_legs vol) [] s") (auto simp: assemble_on_def split: option.splits)
  obtain legs uuids where r: "r = Inr (legs, uuids)" using assms(2) arr o by (cases r) (auto simp: assemble_on_def)
  have g1: "g s1 = g s" using open_legs_quiet [OF q, of target teng engines idxs "v_legs vol" "[]" s] o by simp
  have core: "map leg_core legs = map leg_core (v_legs vol)" using open_legs_core o r by blast
  obtain r2 s2 where c2: "call env (\<lambda>wr. assemble_arrays wr teng uuids) s1 = (r2, s2)" by fastforce
  obtain r3 s3 where c3: "call env (\<lambda>wr. get_raid_array wr teng arr) s2 = (r3, s3)" by fastforce
  obtain r4 s4 where c4: "call env (\<lambda>wr. set_rebuild_rate wr teng arr (rate (en_recovery env) (v_bandwidth_class vol))) s3 = (r4, s4)"
    by fastforce
  obtain r5 s5 where c5: "call env (\<lambda>wr. list_engine_volumes wr teng) s4 = (r5, s5)" by fastforce
  note res = assms(2) [unfolded assemble_on_def, simplified arr o r c2 c3 c4 c5 Let_def, simplified]
  have "g s5 = g s" using g1 call_quiet_eq [OF q c2] call_quiet_eq [OF q c3] call_quiet_eq [OF q c4] call_quiet_eq [OF q c5] by simp
  then show "g s' = g s" using res by (auto simp: c2 c3 c4 c5 split: sum.splits if_splits)
  show "\<exists>legs. vol' = vol\<lparr>v_legs := legs\<rparr> \<and> map leg_core legs = map leg_core (v_legs vol)"
    using res core number_members_core by (auto simp: c2 c3 c4 c5 split: sum.splits if_splits)
qed

lemma fence_one_quiet:
  assumes "quiet env g"
  shows "g (snd (fence_one env os l)) = g (snd os)"
  by (cases os; cases l) (auto simp: fence_one_def dest: call_quiet_eq [OF assms] split: option.splits sum.splits prod.splits)

lemma fence_loop_quiet: "quiet env g \<Longrightarrow> g (snd (foldl (fence_one env) os ls)) = g (snd os)"
  by (induction ls arbitrary: os) (simp_all add: fence_one_quiet)

lemma fence_one_epoch [simp]: "fr_epoch (fst (fence_one env os l)) = fr_epoch (fst os)"
  by (cases os; cases l) (auto simp: fence_one_def split: option.splits sum.splits prod.splits)

lemma fence_loop_epoch [simp]: "fr_epoch (fst (foldl (fence_one env) os ls)) = fr_epoch (fst os)"
  by (induction ls arbitrary: os) simp_all

text \<open>An accepted fence: the record it leaves.\<close>

lemma fence_accepted:
  assumes q: "quiet env (volume name)" and run: "fence env name expected s = (Inr rep, s')"
  shows "\<exists>v les. volume name s = Some v \<and> mirrored v \<and> v_epoch v = expected \<and> fr_epoch rep = expected + 1 \<and>
     volume name s' = Some (v\<lparr>v_epoch := expected + 1, v_fenced := True, v_legs := record_epochs les (v_legs v)\<rparr>)"
proof -
  obtain v where v: "volume name s = Some v" using run by (cases "volume name s") (auto simp: fence_def)
  have ok: "mirrored v" "v_epoch v = expected"
    using run v by (auto simp: fence_def apply_fence_def split: if_splits)
  let ?v1 = "v\<lparr>v_epoch := expected + 1, v_fenced := True\<rparr>"
  let ?s1 = "publish_state env (with_fed (\<lambda>fed. bump (on_volume name (\<lambda>_. ?v1) fed)) s)"
  let ?legs = "List.map_filter (\<lambda>l. if l_state l = Created
      then map_option (\<lambda>vid. (l_node l, vid, healthy_engine env (sy_fed s) (l_node l))) (l_volume_id l) else None) (v_legs v)"
  obtain out s2 where loop: "foldl (fence_one env) (\<lparr>fr_epoch = expected + 1, fr_legs = [], fr_not_fenced = []\<rparr>, ?s1) ?legs = (out, s2)"
    by (cases "foldl (fence_one env) (\<lparr>fr_epoch = expected + 1, fr_legs = [], fr_not_fenced = []\<rparr>, ?s1) ?legs")
  have s2: "volume name s2 = Some ?v1"
    using fence_loop_quiet [OF q, of "(\<lparr>fr_epoch = expected + 1, fr_legs = [], fr_not_fenced = []\<rparr>, ?s1)" ?legs] v by (simp add: loop)
  have ep: "fr_epoch out = expected + 1"
    using fence_loop_epoch [of env "(\<lparr>fr_epoch = expected + 1, fr_legs = [], fr_not_fenced = []\<rparr>, ?s1)" ?legs] by (simp only: loop) simp
  have "rep = out" and s': "volume name s' = Some (?v1\<lparr>v_legs := record_epochs (fr_legs out) (v_legs v)\<rparr>)"
    using run s2 v ok loop by (auto simp: fence_def apply_fence_def)
  with v ok ep show ?thesis by (intro exI [of _ v] exI [of _ "fr_legs out"]) simp
qed

lemma fence_refused: "fence env name expected s = (Inl e, s') \<Longrightarrow> s' = s"
  by (auto simp: fence_def Let_def split: option.splits sum.splits prod.splits)

lemma check_promote_ok:
  "check_promote v target e h = Inr old \<Longrightarrow>
     v_fenced v \<and> v_epoch v = e \<and> v_dual_attach v = None \<and> mirrored v \<and> v_replacing v = None \<and> old = v_head v \<and>
     (\<exists>l \<in> set (v_legs v). l_node l = target \<and> l_state l = Created \<and> l_volume_id l \<noteq> None) \<and> h"
  by (auto simp: check_promote_def find_Some_iff split: if_splits option.splits)

lemma promoted_fields [simp]:
  "v_head (promoted target engines served v) = Some target" "v_fenced (promoted target engines served v) = False"
  "v_epoch (promoted target engines served v) = v_epoch v" "v_dual_attach (promoted target engines served v) = v_dual_attach v"
  "v_replacing (promoted target engines served v) = v_replacing v" "v_name (promoted target engines served v) = v_name v"
  by (simp_all add: promoted_def Let_def)

lemma claim_fed: "claim name s = (b, s') \<Longrightarrow> sy_fed s' = sy_fed s"
  by (auto simp: claim_def split: if_splits)

text \<open>A failover that went through, and a head that stayed: the record they leave.\<close>

lemma failover_record:
  assumes q: "quiet env (\<lambda>s. f_volumes (sy_fed s))"
    and "failover env name target arr old teng engines v s = (Inr (), s')"
  shows "\<exists>v' served legs. volume name s' = Some v' \<and> map leg_core legs = map leg_core (v_legs v) \<and>
     core v' = core (promoted target engines served (v\<lparr>v_legs := legs\<rparr>))"
proof -
  let ?sv = "filter (\<lambda>i. l_state (v_legs v ! i) = Created \<and> bt_get engines (l_node (v_legs v ! i)) \<noteq> None) [0..<length (v_legs v)]"
  obtain r s1 where a: "assemble_on env v ?sv target teng engines s = (r, s1)" by fastforce
  then obtain served vol' where r: "r = Inr (served, vol')"
    using assms(2) by (cases r) (auto simp: failover_def Let_def)
  obtain legs where legs: "vol' = v\<lparr>v_legs := legs\<rparr>" "map leg_core legs = map leg_core (v_legs v)"
    using assemble_on_core(2) [OF q a [unfolded r]] by blast
  obtain s2 where "s' = serve_promoted env name target served s2"
    and "volume name s2 = Some (promoted target engines served vol')"
    using assms(2) a r by (auto simp: failover_def Let_def)
  with cores_volume [OF serve_promoted_cores [OF q]] legs show ?thesis by metis
qed

lemma reattach_legs_quiet:
  assumes "quiet env g"
  shows "g (snd (reattach_legs env engines head ls s)) = g s"
proof (induction ls arbitrary: s)
  case Nil
  then show ?case by simp
next
  case (Cons l ls)
  show ?case
    using Cons.IH
    by (auto simp: Let_def dest: call_quiet_eq [OF assms] split: option.splits sum.splits prod.splits) (metis call_quiet_eq [OF assms] snd_conv)+
qed

lemma promote_claimed_record:
  assumes q: "quiet env (\<lambda>s. f_volumes (sy_fed s))" and v: "volume name s = Some v" "v_name v = name"
    and run: "promote_claimed env name target e s = (Inr (), s')"
  shows "(\<exists>old. check_promote v target e (healthy_node (sy_fed s) target) = Inr old) \<and>
     (v_head v = Some target \<or> \<not> is_some_and (v_head v) (healthy_node (sy_fed s))) \<and>
     (\<exists>v'. volume name s' = Some v' \<and> v_head v' = Some target \<and> \<not> v_fenced v' \<and> v_epoch v' = e \<and>
           v_dual_attach v' = None \<and> v_replacing v' = None)"
proof -
  obtain old where c: "check_promote v target e (healthy_node (sy_fed s) target) = Inr old"
    using run v by (cases "check_promote v target e (healthy_node (sy_fed s) target)") (auto simp: promote_claimed_def)
  note ok = check_promote_ok [OF c]
  let ?eng = "leg_engines env (sy_fed s) (v_legs v)"
  obtain arr where arr: "v_array_id v = Some arr" using run v c by (cases "v_array_id v") (auto simp: promote_claimed_def Let_def)
  obtain teng where te: "bt_get ?eng target = Some teng"
    using run v c arr by (cases "bt_get ?eng target") (auto simp: promote_claimed_def Let_def)
  show ?thesis
  proof (cases "old = Some target")
    case True
    obtain legs s1 where ra: "reattach_legs env ?eng target (v_legs v) s = (legs, s1)" by fastforce
    have "volume name s' = Some (v\<lparr>v_legs := legs, v_fenced := False\<rparr>)"
      using run v c arr te True ra by (auto simp: promote_claimed_def Let_def store_volume_def)
    with ok True c show ?thesis by auto
  next
    case False
    then have dead: "\<not> is_some_and old (healthy_node (sy_fed s))"
      and "failover env name target arr old teng ?eng v s = (Inr (), s')"
      using run v c arr te by (auto simp: promote_claimed_def Let_def split: if_splits)
    from failover_record [OF q this(2)] obtain v' served legs where
      "volume name s' = Some v'" "core v' = core (promoted target ?eng served (v\<lparr>v_legs := legs\<rparr>))" by blast
    with core_eqD [OF this(2)] ok dead c show ?thesis by auto
  qed
qed

subsection \<open>Dual-attach windows\<close>

lemma clamp_le: "lo \<le> hi \<Longrightarrow> clamp x lo hi \<le> hi"
  by (auto simp: clamp_def not_less)

lemma expire_windows_spec:
  assumes "expire_windows fed t = (cls, fed')"
  shows "(\<forall>k v'. bt_get (f_volumes fed') k = Some v' \<longrightarrow> \<not> expired t v') \<and>
     (\<forall>k v. bt_get (f_volumes fed) k = Some v \<longrightarrow> \<not> expired t v \<longrightarrow> bt_get (f_volumes fed') k = Some v) \<and>
     f_revision fed' = f_revision fed + (if cls = [] then 0 else 1)"
proof -
  let ?f = "\<lambda>v. if expired t v then v\<lparr>v_dual_attach := None\<rparr> else v"
  have vols: "f_volumes fed' = bt_map ?f (f_volumes fed)"
    and rev: "f_revision fed' = f_revision fed + (if cls = [] then 0 else 1)"
    using assms unfolding expire_windows_def Let_def by (auto simp: bump_def)
  have closes: "\<not> expired t (?f v)" for v by (simp add: expired_def)
  have "\<forall>k v'. bt_get (f_volumes fed') k = Some v' \<longrightarrow> \<not> expired t v'"
  proof (intro allI impI)
    fix k v' assume "bt_get (f_volumes fed') k = Some v'"
    then have "map_option ?f (bt_get (f_volumes fed) k) = Some v'" by (simp only: vols bt_get_map)
    then obtain v where "?f v = v'" unfolding map_option_eq_Some by blast
    with closes [of v] show "\<not> expired t v'" by simp
  qed
  moreover have "\<forall>k v. bt_get (f_volumes fed) k = Some v \<longrightarrow> \<not> expired t v \<longrightarrow> bt_get (f_volumes fed') k = Some v"
    unfolding vols bt_get_map by simp
  ultimately show ?thesis using rev by blast
qed

subsection \<open>Properties\<close>

text \<open>Property C1. Fencing is a compare-and-swap on the volume's epoch: it succeeds only on a mirrored
  volume at exactly the expected epoch, leaves it fenced one higher and reports that epoch, so a second
  fence at the same expectation is refused with the current epoch; a refused fence changes nothing.\<close>

theorem fence_cas:
  assumes "quiet env (volume name)" and "fence env name expected s = (r, s')"
  shows "case r of
       Inl e \<Rightarrow> s' = s
     | Inr rep \<Rightarrow> (\<exists>v v'. volume name s = Some v \<and> mirrored v \<and> v_epoch v = expected \<and>
         volume name s' = Some v' \<and> v_epoch v' = expected + 1 \<and> v_fenced v' \<and> fr_epoch rep = expected + 1 \<and>
         fence env name expected s' = (Inl (StaleEpoch (expected + 1)), s'))"
proof (cases r)
  case (Inl e)
  with fence_refused assms(2) show ?thesis by simp
next
  case (Inr rep)
  with fence_accepted [OF assms(1)] assms(2) obtain v les where
    "volume name s = Some v" "mirrored v" "v_epoch v = expected" "fr_epoch rep = expected + 1"
    "volume name s' = Some (v\<lparr>v_epoch := expected + 1, v_fenced := True, v_legs := record_epochs les (v_legs v)\<rparr>)" by blast
  then show ?thesis by (auto simp: Inr fence_def apply_fence_def)
qed

text \<open>Property C2. A promote succeeds only for the fenced epoch, on a node that holds a created leg and
  answers, and never takes the array from a head that is known to answer; it leaves the target as head,
  unfenced, at that epoch, so no further promote at that epoch is accepted.\<close>

theorem promote_safe:
  assumes "quiet env (\<lambda>s. f_volumes (sy_fed s))" and "volume name s = Some v" and "v_name v = name"
    and "promote env name target e s = (Inr (), s')"
  shows "v_fenced v \<and> v_epoch v = e \<and> (\<exists>l \<in> set (v_legs v). l_node l = target \<and> l_state l = Created) \<and>
     healthy_node (sy_fed s) target \<and>
     (v_head v = Some target \<or> \<not> is_some_and (v_head v) (healthy_node (sy_fed s))) \<and>
     (\<exists>v'. volume name s' = Some v' \<and> v_head v' = Some target \<and> \<not> v_fenced v' \<and> v_epoch v' = e \<and>
        (\<forall>t h. check_promote v' t e h = Inl (StaleEpoch e)))"
proof -
  obtain s0 where s0: "claim name s = (True, s0)" using assms(4) by (auto simp: promote_def split: prod.splits bool.splits)
  then have fed: "sy_fed s0 = sy_fed s" by (rule claim_fed)
  obtain s1 where s1: "promote_claimed env name target e s0 = (Inr (), s1)" "s' = release name s1"
    using assms(4) s0 by (auto simp: promote_def split: prod.splits)
  have v0: "volume name s0 = Some v" using assms(2) fed by simp
  note rec = promote_claimed_record [OF assms(1) v0 assms(3) s1(1)]
  then obtain old where "check_promote v target e (healthy_node (sy_fed s0) target) = Inr old" by blast
  from check_promote_ok [OF this] rec show ?thesis by (auto simp: fed s1(2) check_promote_def)
qed

text \<open>Promoting the head a volume already has writes back the record it read before its
  engine calls: whatever the other tasks do meanwhile, the volume ends unfenced at the epoch of the
  promote. A fence accepted during those calls is lost and the epoch goes back.\<close>

theorem promote_overwrites_fence:
  assumes "volume name s = Some v" and "v_name v = name" and "v_head v = Some target"
    and "promote_claimed env name target e s = (Inr (), s')"
  shows "\<exists>v'. volume name s' = Some v' \<and> v_epoch v' = e \<and> \<not> v_fenced v'"
proof -
  obtain old where c: "check_promote v target e (healthy_node (sy_fed s) target) = Inr old"
    using assms(1,4) by (cases "check_promote v target e (healthy_node (sy_fed s) target)") (auto simp: promote_claimed_def)
  note ok = check_promote_ok [OF c]
  obtain legs s1 where ra: "reattach_legs env (leg_engines env (sy_fed s) (v_legs v)) target (v_legs v) s = (legs, s1)" by fastforce
  have "volume name s' = Some (v\<lparr>v_legs := legs, v_fenced := False\<rparr>)"
    using assms ok c ra by (auto simp: promote_claimed_def Let_def store_volume_def split: option.splits)
  with ok show ?thesis by simp
qed

text \<open>A dual-attach window is bounded: opening one never gives more than the configured
  maximum (at least a second), keeps the time the window was first opened, and one expiry pass at or after
  its end leaves no expired window on any volume while it keeps the others and counts a revision for what
  it closed.\<close>

theorem window_bounded:
  assumes "open_window env name target ttl s = (Inr w, s')"
  shows "da_expires_at w \<le> now env s + from_secs (max (rc_max_dual_attach_secs (en_recovery env)) 1) \<and>
     (\<exists>v. volume name s = Some v \<and> da_opened_at w = unwrap_or (map_option da_opened_at (v_dual_attach v)) (now env s)) \<and>
     (\<forall>t fed closed fed'. expire_windows fed t = (closed, fed') \<longrightarrow>
        (\<forall>k v'. bt_get (f_volumes fed') k = Some v' \<longrightarrow> \<not> expired t v') \<and>
        (\<forall>k v. bt_get (f_volumes fed) k = Some v \<longrightarrow> \<not> expired t v \<longrightarrow> bt_get (f_volumes fed') k = Some v) \<and>
        f_revision fed' = f_revision fed + (if closed = [] then 0 else 1))"
proof -
  obtain v where v: "volume name s = Some v" using assms by (cases "volume name s") (auto simp: open_window_def Let_def)
  let ?ttl = "from_secs (clamp ttl 1 (max (rc_max_dual_attach_secs (en_recovery env)) 1))"
  obtain v' where w: "apply_open_window v target ?ttl (now env s) = Inr (w, v')"
    using assms v by (auto simp: open_window_def Let_def split: sum.splits)
  have "clamp ttl 1 (max (rc_max_dual_attach_secs (en_recovery env)) 1) \<le> max (rc_max_dual_attach_secs (en_recovery env)) 1"
    by (rule clamp_le) simp
  then have "?ttl \<le> from_secs (max (rc_max_dual_attach_secs (en_recovery env)) 1)"
    by (simp add: from_secs_def word_le_nat_alt)
  then have "now env s + ?ttl \<le> now env s + from_secs (max (rc_max_dual_attach_secs (en_recovery env)) 1)" by simp
  moreover have "da_expires_at w = now env s + ?ttl"
    and op: "da_opened_at w = unwrap_or (map_option da_opened_at (v_dual_attach v)) (now env s)"
    using w by (auto simp: apply_open_window_def Let_def split: if_splits option.splits)
  ultimately have "da_expires_at w \<le> now env s + from_secs (max (rc_max_dual_attach_secs (en_recovery env)) 1)" by argo
  then show ?thesis
    using v op by (intro conjI exI [of _ v] allI impI) (assumption | rule expire_windows_spec [THEN conjunct1, rule_format]
      | rule expire_windows_spec [THEN conjunct2, THEN conjunct1, rule_format]
      | rule expire_windows_spec [THEN conjunct2, THEN conjunct2])+
qed

text \<open>Witnesses: the small instance, its volume fenced or not, and the same instance in which another task
  fences the volume during every engine call.\<close>

definition epoch_answer :: response where
  "epoch_answer = \<lparr>rs_status = 200, rs_status_text = ''200 OK'', rs_json = Some (JObj [(''epoch'', JInt 5)])\<rparr>"

definition fenced_vol :: dist_volume where
  "fenced_vol = wit_vol\<lparr>v_epoch := 2, v_fenced := True\<rparr>"

definition racing_env :: "unit env" where
  "racing_env = (small_env attach_answer)\<lparr>en_others := with_fed (on_volume ''vol''
     (\<lambda>v. case apply_fence v 2 of Inl _ \<Rightarrow> v | Inr (_, v') \<Rightarrow> v'))\<rparr>"

theorem fence_cas_witness:
  "\<exists>v'. volume ''vol'' (snd (fence (small_env epoch_answer) ''vol'' 1 (small_sys wit_vol))) = Some v' \<and> v_epoch v' = 2 \<and> v_fenced v'"
proof -
  let ?f = "fence (small_env epoch_answer) ''vol'' 1 (small_sys wit_vol)"
  have "\<not> isl (fst ?f)" by code_simp
  then obtain rep where run: "?f = (Inr rep, snd ?f)" by (cases "fst ?f") (auto simp: prod_eq_iff)
  have "quiet (small_env epoch_answer) (volume ''vol'')" by simp
  from fence_cas [OF this run] show ?thesis by auto
qed

theorem promote_safe_witness:
  "\<exists>v'. volume ''vol'' (snd (promote (small_env attach_answer) ''vol'' ''a'' 2 (small_sys fenced_vol))) = Some v' \<and>
     v_head v' = Some ''a'' \<and> \<not> v_fenced v' \<and> v_epoch v' = 2"
proof -
  let ?p = "promote (small_env attach_answer) ''vol'' ''a'' 2 (small_sys fenced_vol)"
  have "\<not> isl (fst ?p)" by code_simp
  then have run: "?p = (Inr (), snd ?p)" by (cases "fst ?p") (auto simp: prod_eq_iff)
  have v: "volume ''vol'' (small_sys fenced_vol) = Some fenced_vol" by (simp add: small_sys_def)
  have n: "v_name fenced_vol = ''vol''" by (simp add: fenced_vol_def wit_vol_def)
  have q: "quiet (small_env attach_answer) (\<lambda>s. f_volumes (sy_fed s))" by simp
  from promote_safe [OF q v n run] show ?thesis by blast
qed

theorem promote_overwrites_fence_witness:
  "(\<exists>v1. volume ''vol'' (en_others racing_env (small_sys fenced_vol)) = Some v1 \<and> v_epoch v1 = 3 \<and> v_fenced v1) \<and>
   (\<exists>v'. volume ''vol'' (snd (promote_claimed racing_env ''vol'' ''a'' 2 (small_sys fenced_vol))) = Some v' \<and> v_epoch v' = 2 \<and> \<not> v_fenced v')"
proof
  show "\<exists>v1. volume ''vol'' (en_others racing_env (small_sys fenced_vol)) = Some v1 \<and> v_epoch v1 = 3 \<and> v_fenced v1"
    by (simp add: racing_env_def small_sys_def apply_fence_def fenced_vol_def wit_vol_def)
  let ?p = "promote_claimed racing_env ''vol'' ''a'' 2 (small_sys fenced_vol)"
  have "\<not> isl (fst ?p)" by code_simp
  then have run: "?p = (Inr (), snd ?p)" by (cases "fst ?p") (auto simp: prod_eq_iff)
  have v: "volume ''vol'' (small_sys fenced_vol) = Some fenced_vol" by (simp add: small_sys_def)
  have n: "v_name fenced_vol = ''vol''" "v_head fenced_vol = Some ''a''" by (simp_all add: fenced_vol_def wit_vol_def)
  from promote_overwrites_fence [OF v n run]
  show "\<exists>v'. volume ''vol'' (snd ?p) = Some v' \<and> v_epoch v' = 2 \<and> \<not> v_fenced v'" .
qed

theorem window_bounded_witness:
  "\<exists>w s'. open_window (small_env attach_answer) ''vol'' ''b'' 10 (small_sys wit_vol) = (Inr w, s') \<and>
     da_expires_at w \<le> 100 + from_secs 3600"
proof -
  let ?o = "open_window (small_env attach_answer) ''vol'' ''b'' 10 (small_sys wit_vol)"
  have "\<not> isl (fst ?o)"
    by (simp add: open_window_def Let_def small_sys_def apply_open_window_def wit_vol_def wit_leg_def)
  then obtain w where w: "?o = (Inr w, snd ?o)" by (cases "fst ?o") (auto simp: prod_eq_iff)
  have "now (small_env attach_answer) (small_sys wit_vol) = 100"
    and "max (rc_max_dual_attach_secs (en_recovery (small_env attach_answer))) 1 = 3600"
    by (simp_all add: now_def small_env_def default_recovery_def)
  with window_bounded [OF w] have "da_expires_at w \<le> 100 + from_secs 3600" by argo
  with w show ?thesis by blast
qed

end
