(* ===== verification/Recover.thy ===== *)
theory Recover
  imports Head Placement
begin

section \<open>What the reconciler decides\<close>

text \<open>
  Models the decisions of \<open>src/orchestrate.rs\<close>, all pure functions of the federation state: whether an array
  of the head is the volume's own, where a leg may move, which legs are lost and what to start for them,
  when a lost head leg is back, which volumes to re-head or reassemble. The actions on legs are in
  \<open>Replace\<close>, on arrays in \<open>Assemble\<close> and \<open>Head\<close>, the passes in \<open>Reconcile\<close>.
\<close>

subsection \<open>Arrays over a volume's legs\<close>

datatype array_match = NoArray | Exact json | ArrayConflict string string

definition member_paths :: "json \<Rightarrow> string list" where
  "member_paths a = List.map_filter (get_str ''device_path'') (get_array ''members'' a)"

text \<open>The intersection of two \<open>BTreeSet\<close>s is visited in order, so its first element is the least.\<close>

definition first_common :: "string list \<Rightarrow> string list \<Rightarrow> string option" where
  "first_common xs ys = (case sort (filter (\<lambda>x. x \<in> set ys) xs) of [] \<Rightarrow> None | x # _ \<Rightarrow> Some x)"

fun match_array :: "json list \<Rightarrow> string list \<Rightarrow> array_match" where
  "match_array [] uris = NoArray"
| "match_array (a # as) uris =
     (if set (member_paths a) = set uris then Exact a
      else case first_common (member_paths a) uris of
          Some u \<Rightarrow> ArrayConflict (unwrap_or (get_str ''id'' a) ''?'') u
        | None \<Rightarrow> match_array as uris)"

subsection \<open>Where a leg may move\<close>

definition candidate_of :: "node \<Rightarrow> candidate" where
  "candidate_of n =
     \<lparr>c_name = nc_name (n_config n), c_labels = node_labels n, c_free_bytes = ns_free_bytes (n_status n),
      c_total_bytes = ns_total_bytes (n_status n), c_io_busy = map_option io_busy (ns_io (n_status n))\<rparr>"

definition staying_domains :: "fed_state \<Rightarrow> string list \<Rightarrow> dist_volume \<Rightarrow> string \<Rightarrow> string list" where
  "staying_domains fed rungs vol from =
     List.map_filter (\<lambda>l. if l_node l \<noteq> from
         then map_option (\<lambda>n. domain_at (node_labels n) rungs (v_rung vol)) (bt_get (f_nodes fed) (l_node l)) else None) (v_legs vol)"

definition move_target_candidates :: "fed_state \<Rightarrow> string list \<Rightarrow> dist_volume \<Rightarrow> string \<Rightarrow> candidate list" where
  "move_target_candidates fed rungs vol from =
     map candidate_of (filter (\<lambda>n. ns_healthy (n_status n) \<and>
         list_all (\<lambda>l. l_node l \<noteq> nc_name (n_config n)) (v_legs vol) \<and>
         domain_at (node_labels n) rungs (v_rung vol) \<notin> set (staying_domains fed rungs vol from)) (bt_values (f_nodes fed)))"

subsection \<open>Lost legs\<close>

record recovery_plan =
  rp_lost :: "(string \<times> string) list"
  rp_head_lost :: "(string \<times> string) list"
  rp_start :: "(string \<times> string) list"
  rp_resume :: "string list"
  rp_assemble :: "string list"

definition no_plan :: recovery_plan where
  "no_plan = \<lparr>rp_lost = [], rp_head_lost = [], rp_start = [], rp_resume = [], rp_assemble = []\<rparr>"

abbreviation before :: "time \<Rightarrow> time option \<Rightarrow> bool" where
  "before t x \<equiv> is_some_and x (\<lambda>u. t < u)"

definition unreachable_leg :: "(string \<Rightarrow> bool) \<Rightarrow> leg \<Rightarrow> bool" where
  "unreachable_leg healthy l \<longleftrightarrow> l_state l = Created \<and> \<not> healthy (l_node l)"

definition mark_lost :: "(string \<Rightarrow> bool) \<Rightarrow> leg \<Rightarrow> leg" where
  "mark_lost healthy l =
     (if unreachable_leg healthy l
      then l\<lparr>l_state := Lost, l_message := Some (''node '' @ l_node l @ '' unreachable'')\<rparr> else l)"

definition lost_nodes :: "dist_volume \<Rightarrow> string list" where
  "lost_nodes v = map l_node (filter (\<lambda>l. l_state l = Lost) (v_legs v))"

definition degrade :: "(string \<Rightarrow> bool) \<Rightarrow> dist_volume \<Rightarrow> dist_volume" where
  "degrade healthy v =
     (let v = v\<lparr>v_legs := map (mark_lost healthy) (v_legs v)\<rparr> in
      if lost_nodes v \<noteq> [] \<and> v_assembly v = Assembled then v\<lparr>v_assembly := Degraded\<rparr> else v)"

definition assemble_ready :: "(string \<Rightarrow> bool) \<Rightarrow> dist_volume \<Rightarrow> bool" where
  "assemble_ready healthy v \<longleftrightarrow>
     2 \<le> length (v_legs v) \<and> list_all (\<lambda>l. l_state l = Created \<and> l_volume_id l \<noteq> None \<and> healthy (l_node l)) (v_legs v)"

text \<open>What the pass decides for a mirrored volume, after its legs were marked.\<close>

definition plan_mirrored ::
  "bool \<Rightarrow> time \<Rightarrow> (string \<Rightarrow> bool) \<Rightarrow> (string \<Rightarrow> bool) \<Rightarrow> dist_volume \<Rightarrow> recovery_plan \<Rightarrow> recovery_plan" where
  "plan_mirrored enabled t busyf healthy v pl =
     (if v_replacing v \<noteq> None then
        (if enabled \<and> \<not> busyf (v_name v) then pl\<lparr>rp_resume := rp_resume pl @ [v_name v]\<rparr> else pl)
      else if \<not> enabled \<or> lost_nodes v = [] \<or> busyf (v_name v) then pl
      else if (case v_head v of Some h \<Rightarrow> h \<in> set (lost_nodes v) \<or> \<not> healthy h | None \<Rightarrow> True) then pl
      else if before t (v_next_releg_after v) then pl
      else pl\<lparr>rp_start := rp_start pl @ [(v_name v, hd (lost_nodes v))]\<rparr>)"

definition recover_volume ::
  "bool \<Rightarrow> time \<Rightarrow> (string \<Rightarrow> bool) \<Rightarrow> (string \<Rightarrow> bool) \<Rightarrow> dist_volume \<Rightarrow> recovery_plan \<Rightarrow> dist_volume \<times> recovery_plan" where
  "recover_volume enabled t busyf healthy v pl =
     (if v_assembly v = PendingEngineSupport then
        (v, if enabled \<and> assemble_ready healthy v \<and> \<not> busyf (v_name v) \<and> \<not> before t (v_next_assemble_after v)
            then pl\<lparr>rp_assemble := rp_assemble pl @ [v_name v]\<rparr> else pl)
      else if \<not> mirrored v then (v, pl)
      else
        (let lost = map l_node (filter (unreachable_leg healthy) (v_legs v));
             pl = pl\<lparr>rp_lost := rp_lost pl @ map (Pair (v_name v)) lost,
                         rp_head_lost := rp_head_lost pl @ map (Pair (v_name v)) (filter (\<lambda>n. v_head v = Some n) lost)\<rparr>
         in (degrade healthy v, plan_mirrored enabled t busyf healthy (degrade healthy v) pl)))"

fun recover_volumes ::
  "bool \<Rightarrow> time \<Rightarrow> (string \<Rightarrow> bool) \<Rightarrow> (string \<Rightarrow> bool) \<Rightarrow> (string, dist_volume) btree \<Rightarrow> recovery_plan \<Rightarrow>
     (string, dist_volume) btree \<times> recovery_plan" where
  "recover_volumes enabled t busyf healthy [] pl = ([], pl)"
| "recover_volumes enabled t busyf healthy ((k, v) # vs) pl =
     (let (v', pl) = recover_volume enabled t busyf healthy v pl;
          (vs', pl) = recover_volumes enabled t busyf healthy vs pl
      in ((k, v') # vs', pl))"

definition changes :: "(string \<Rightarrow> bool) \<Rightarrow> dist_volume \<Rightarrow> bool" where
  "changes healthy v \<longleftrightarrow>
     mirrored v \<and> (list_ex (unreachable_leg healthy) (v_legs v) \<or> (lost_nodes v \<noteq> [] \<and> v_assembly v = Assembled))"

definition plan_recovery :: "fed_state \<Rightarrow> bool \<Rightarrow> time \<Rightarrow> (string \<Rightarrow> bool) \<Rightarrow> recovery_plan \<times> fed_state" where
  "plan_recovery fed enabled t busyf =
     (let (vols, pl) = recover_volumes enabled t busyf (healthy_node fed) (f_volumes fed) no_plan;
          fed' = fed\<lparr>f_volumes := vols\<rparr>
      in (pl, if list_ex (changes (healthy_node fed)) (bt_values (f_volumes fed)) then bump fed' else fed'))"

subsection \<open>A lost head leg that answers again\<close>

datatype head_return = Restored bool | NotActive string | ArrayGone

definition head_rejoin_candidates :: "fed_state \<Rightarrow> (string \<Rightarrow> bool) \<Rightarrow> (string \<times> string \<times> string) list" where
  "head_rejoin_candidates fed busyf =
     List.map_filter (\<lambda>v.
       if v_assembly v = Degraded \<and> \<not> v_fenced v \<and> \<not> busyf (v_name v) then
         (case (v_head v, v_array_id v) of
            (Some head, Some arr) \<Rightarrow>
              if healthy_node fed head \<and> list_ex (\<lambda>l. l_node l = head \<and> l_state l = Lost) (v_legs v)
              then Some (v_name v, head, arr) else None
          | _ \<Rightarrow> None)
       else None) (bt_values (f_volumes fed))"

definition gone_text :: "string \<Rightarrow> string \<Rightarrow> string" where
  "gone_text head arr = ''head '' @ head @ '' answers but no longer holds array '' @ arr @ '' (engine restart, #15)''"

definition not_active_text :: "string \<Rightarrow> string \<Rightarrow> string \<Rightarrow> string" where
  "not_active_text head arr st = ''head '' @ head @ '' answers; its member of array '' @ arr @ '' is '' @ st"

definition set_message :: "nat \<Rightarrow> string \<Rightarrow> head_return \<Rightarrow> dist_volume \<Rightarrow> (head_return \<times> bool) option \<times> dist_volume" where
  "set_message idx message found v =
     (Some (found, l_message (v_legs v ! idx) \<noteq> Some message),
      v\<lparr>v_legs := (v_legs v)[idx := (v_legs v ! idx)\<lparr>l_message := Some message\<rparr>]\<rparr>)"

definition apply_head_reading :: "dist_volume \<Rightarrow> array_reading option \<Rightarrow> (head_return \<times> bool) option \<times> dist_volume" where
  "apply_head_reading v reading =
     (case (v_head v, v_array_id v) of
        (Some head, Some arr) \<Rightarrow>
          (case position (\<lambda>l. l_node l = head \<and> l_state l = Lost) (v_legs v) of
             None \<Rightarrow> (None, v)
           | Some idx \<Rightarrow>
               (case reading of
                  None \<Rightarrow> set_message idx (gone_text head arr) ArrayGone v
                | Some r \<Rightarrow>
                    if ar_head r \<noteq> head \<or> ar_array_id r \<noteq> arr then (None, v)
                    else (case member_of (v_legs v ! idx) r of
                        Some m \<Rightarrow>
                          if mr_state m = ''active'' then
                            (let v = v\<lparr>v_legs := (v_legs v)[idx := (v_legs v ! idx)\<lparr>l_state := Created, l_message := None\<rparr>]\<rparr>;
                                 ok = (lost_nodes v = [])
                             in (Some (Restored ok, True), if ok then v\<lparr>v_assembly := Assembled\<rparr> else v))
                          else set_message idx (not_active_text head arr (mr_state m)) (NotActive (mr_state m)) v
                      | None \<Rightarrow> set_message idx (not_active_text head arr ''missing'') (NotActive ''missing'') v)))
      | _ \<Rightarrow> (None, v))"

subsection \<open>Re-heading and reassembling\<close>

record rehead_plan_result =
  rh_start :: "(string \<times> string \<times> u64) list"
  rh_held :: "string list"

definition rehead_due :: "fed_state \<Rightarrow> duration \<Rightarrow> duration \<Rightarrow> (string \<Rightarrow> bool) \<Rightarrow> time \<Rightarrow> dist_volume \<Rightarrow> bool" where
  "rehead_due fed interval after busyf t v \<longleftrightarrow>
     mirrored v \<and> \<not> v_fenced v \<and> v_replacing v = None \<and> v_dual_attach v = None \<and> \<not> busyf (v_name v) \<and>
     \<not> before t (v_next_assemble_after v) \<and>
     is_some_and (Option.bind (v_head v) (bt_get (f_nodes fed)))
       (\<lambda>h. \<not> ns_healthy (n_status h) \<and> after \<le> interval * unat (ns_consecutive_failures (n_status h)))"

definition rehead_target :: "fed_state \<Rightarrow> (string, array_reading) btree \<Rightarrow> dist_volume \<Rightarrow> string option" where
  "rehead_target fed readings v =
     map_option rep_node (find (\<lambda>r. Some (rep_node r) \<noteq> v_head v \<and> healthy_node fed (rep_node r) \<and> rep_sync r = InSync)
       (replicas v (bt_get readings (v_name v))))"

definition rehead_plan ::
  "fed_state \<Rightarrow> (string, array_reading) btree \<Rightarrow> duration \<Rightarrow> duration \<Rightarrow> (string \<Rightarrow> bool) \<Rightarrow> time \<Rightarrow> rehead_plan_result" where
  "rehead_plan fed readings interval after busyf t =
     foldl (\<lambda>pl v. if rehead_due fed interval after busyf t v then
         (case rehead_target fed readings v of
            Some n \<Rightarrow> pl\<lparr>rh_start := rh_start pl @ [(v_name v, n, v_epoch v)]\<rparr>
          | None \<Rightarrow> pl\<lparr>rh_held := rh_held pl @ [v_name v]\<rparr>) else pl)
       \<lparr>rh_start = [], rh_held = []\<rparr> (bt_values (f_volumes fed))"

definition reassemble_candidates ::
  "fed_state \<Rightarrow> (string \<Rightarrow> bool) \<Rightarrow> (string \<Rightarrow> bool) \<Rightarrow> time \<Rightarrow> string list" where
  "reassemble_candidates fed readf busyf t =
     map v_name (filter (\<lambda>v. mirrored v \<and> \<not> v_fenced v \<and> v_replacing v = None \<and> v_dual_attach v = None \<and>
         \<not> before t (v_next_assemble_after v) \<and> is_some_and (v_head v) (healthy_node fed) \<and>
         \<not> readf (v_name v) \<and> \<not> busyf (v_name v)) (bt_values (f_volumes fed)))"

subsection \<open>Lemmas on the arrays\<close>

lemma first_common_Some: "first_common xs ys = Some u \<Longrightarrow> u \<in> set xs \<and> u \<in> set ys"
proof -
  assume "first_common xs ys = Some u"
  then obtain us where "sort (filter (\<lambda>x. x \<in> set ys) xs) = u # us"
    by (auto simp: first_common_def split: list.splits)
  then have "u \<in> set (sort (filter (\<lambda>x. x \<in> set ys) xs))" by simp
  then show ?thesis by simp
qed

lemma first_common_None: "first_common xs ys = None \<Longrightarrow> set xs \<inter> set ys = {}"
proof -
  assume "first_common xs ys = None"
  then have "sort (filter (\<lambda>x. x \<in> set ys) xs) = []" by (auto simp: first_common_def split: list.splits)
  then have "set (sort (filter (\<lambda>x. x \<in> set ys) xs)) = {}" by simp
  then show ?thesis by auto
qed

text \<open>The head's arrays are matched on exact evidence: an array is adopted only when its members are
  exactly the volume's drives, a new one is created only when no array of the head uses any of them, and any
  other overlap is refused and names a drive that really is shared.\<close>

lemma match_array_exact:
  "case match_array arrays uris of
     Exact a \<Rightarrow> a \<in> set arrays \<and> set (member_paths a) = set uris
   | NoArray \<Rightarrow> (\<forall>a \<in> set arrays. set (member_paths a) \<inter> set uris = {})
   | ArrayConflict i u \<Rightarrow> u \<in> set uris \<and> (\<exists>a \<in> set arrays. u \<in> set (member_paths a) \<and> set (member_paths a) \<noteq> set uris)"
proof (induction arrays)
  case Nil
  then show ?case by simp
next
  case (Cons a as)
  show ?case
  proof (cases "first_common (member_paths a) uris")
    case None
    with Cons first_common_None [OF None] show ?thesis by (auto split: array_match.splits)
  next
    case (Some u)
    with first_common_Some [OF Some] show ?thesis by auto
  qed
qed

lemma match_array_exact_witness:
  "match_array [JObj [(''id'', JStr ''A1''), (''members'', JArr [JObj [(''device_path'', JStr ''u'')], JObj [(''device_path'', JStr ''x'')]])]] [''u'', ''w''] =
     ArrayConflict ''A1'' ''u'' \<and> ''u'' \<in> set [''u'', ''w'']"
proof -
  have m: "match_array [JObj [(''id'', JStr ''A1''), (''members'', JArr [JObj [(''device_path'', JStr ''u'')], JObj [(''device_path'', JStr ''x'')]])]] [''u'', ''w''] =
     ArrayConflict ''A1'' ''u''" by code_simp
  from match_array_exact [of "[JObj [(''id'', JStr ''A1''), (''members'', JArr [JObj [(''device_path'', JStr ''u'')], JObj [(''device_path'', JStr ''x'')]])]]"
      "[''u'', ''w'']", unfolded m] m show ?thesis by simp
qed

subsection \<open>Lemmas on the pass\<close>

lemma leg_marked [simp]: "l_node (mark_lost h l) = l_node l"
  by (simp add: mark_lost_def)

lemma mark_lost_reachable [simp]: "\<not> unreachable_leg h (mark_lost h l)"
  by (simp add: mark_lost_def unreachable_leg_def)

lemma mark_lost_id: "\<not> unreachable_leg h l \<Longrightarrow> mark_lost h l = l"
  by (simp add: mark_lost_def)

lemma degrade_frame [simp]:
  "v_name (degrade h v) = v_name v" "v_head (degrade h v) = v_head v" "v_replacing (degrade h v) = v_replacing v"
  "v_legs (degrade h v) = map (mark_lost h) (v_legs v)" "v_fenced (degrade h v) = v_fenced v"
  "v_next_releg_after (degrade h v) = v_next_releg_after v" "mirrored (degrade h v) = mirrored v"
  by (auto simp: degrade_def Let_def)

lemma degrade_assembled: "v_assembly (degrade h v) = Assembled \<Longrightarrow> lost_nodes (degrade h v) = []"
  by (auto simp: degrade_def Let_def lost_nodes_def split: if_splits)

lemma degrade_unchanged: "mirrored v \<Longrightarrow> \<not> changes h v \<Longrightarrow> degrade h v = v"
proof -
  assume m: "mirrored v" and c: "\<not> changes h v"
  then have "map (mark_lost h) (v_legs v) = v_legs v"
    by (auto simp: changes_def list_ex_iff mark_lost_id intro: map_idI)
  with m c show ?thesis by (auto simp: degrade_def changes_def)
qed

lemma degrade_settles: "\<not> changes h (degrade h v)"
  using degrade_assembled [of h v] by (auto simp: changes_def list_ex_iff)

text \<open>What the pass makes of one volume's record.\<close>

definition passed :: "(string \<Rightarrow> bool) \<Rightarrow> dist_volume \<Rightarrow> dist_volume" where
  "passed h v = (if mirrored v then degrade h v else v)"

lemma recover_volume_record: "fst (recover_volume enabled t busyf h v pl) = passed h v"
  by (simp add: recover_volume_def passed_def Let_def)

lemma recover_volumes_records: "fst (recover_volumes enabled t busyf h vs pl) = bt_map (passed h) vs"
proof (induction vs arbitrary: pl)
  case Nil
  then show ?case by (simp add: bt_map_def)
next
  case (Cons kv vs)
  obtain k v where kv: "kv = (k, v)" by (cases kv)
  obtain v' p1 where one: "recover_volume enabled t busyf h v pl = (v', p1)" by fastforce
  obtain vs' p2 where rest: "recover_volumes enabled t busyf h vs p1 = (vs', p2)" by fastforce
  from Cons [of p1] recover_volume_record [of enabled t busyf h v pl] show ?case
    by (simp add: kv one rest bt_map_def)
qed

lemma passed_name [simp]: "v_name (passed h v) = v_name v"
  by (simp add: passed_def)

lemma passed_mirrored [simp]: "mirrored (passed h v) = mirrored v"
  by (auto simp: passed_def)

lemma passed_settles: "\<not> changes h (passed h v)"
  by (auto simp: passed_def degrade_settles) (simp_all add: changes_def)

lemma passed_twice: "passed h (passed h v) = passed h v"
proof (cases "mirrored v")
  case True
  then have "passed h (degrade h v) = degrade h (degrade h v)" by (simp add: passed_def)
  with True degrade_unchanged [OF _ degrade_settles, of h v] show ?thesis by (simp add: passed_def)
qed (simp add: passed_def)

text \<open>What can be started: the conditions under which the pass adds a re-leg.\<close>

definition releg_due :: "bool \<Rightarrow> time \<Rightarrow> (string \<Rightarrow> bool) \<Rightarrow> (string \<Rightarrow> bool) \<Rightarrow> dist_volume \<Rightarrow> string \<Rightarrow> bool" where
  "releg_due enabled t busyf h v src \<longleftrightarrow>
     enabled \<and> \<not> busyf (v_name v) \<and> mirrored v \<and> v_replacing v = None \<and> \<not> before t (v_next_releg_after v) \<and>
     src \<in> set (lost_nodes v) \<and> is_some_and (v_head v) (\<lambda>n. h n \<and> n \<notin> set (lost_nodes v))"

lemma plan_mirrored_start:
  assumes "mirrored v"
  shows "rp_start (plan_mirrored enabled t busyf h v pl) = rp_start pl \<or>
    (\<exists>src. rp_start (plan_mirrored enabled t busyf h v pl) = rp_start pl @ [(v_name v, src)] \<and> releg_due enabled t busyf h v src)"
  using assms by (auto simp: plan_mirrored_def releg_due_def hd_in_set split: option.splits)

lemma recover_volume_start:
  "rp_start (snd (recover_volume enabled t busyf h v pl)) = rp_start pl \<or>
   (\<exists>src. rp_start (snd (recover_volume enabled t busyf h v pl)) = rp_start pl @ [(v_name v, src)] \<and>
      releg_due enabled t busyf h (passed h v) src)"
proof (cases "mirrored v")
  case True
  then have pend: "v_assembly v \<noteq> PendingEngineSupport" by auto
  let ?lost = "map l_node (filter (unreachable_leg h) (v_legs v))"
  let ?p = "pl\<lparr>rp_lost := rp_lost pl @ map (Pair (v_name v)) ?lost,
    rp_head_lost := rp_head_lost pl @ map (Pair (v_name v)) (filter (\<lambda>n. v_head v = Some n) ?lost)\<rparr>"
  have run: "snd (recover_volume enabled t busyf h v pl) = plan_mirrored enabled t busyf h (degrade h v) ?p"
    using True pend by (simp only: recover_volume_def Let_def if_False simp_thms) auto
  have "mirrored (degrade h v)" using True by simp
  from plan_mirrored_start [OF this, of enabled t busyf h ?p] True show ?thesis
    by (simp add: run passed_def)
next
  case False
  then show ?thesis by (simp add: recover_volume_def)
qed

text \<open>The re-legs of a pass: one for each volume at most, in the order of the map.\<close>

lemma recover_volumes_start:
  "\<exists>starts. rp_start (snd (recover_volumes enabled t busyf h vs pl)) = rp_start pl @ starts \<and>
     (\<forall>(n, src) \<in> set starts. \<exists>v \<in> set (bt_values vs). v_name v = n \<and> releg_due enabled t busyf h (passed h v) src) \<and>
     (distinct (map v_name (bt_values vs)) \<longrightarrow> distinct (map fst starts))"
proof (induction vs arbitrary: pl)
  case Nil
  then show ?case by simp
next
  case (Cons kv vs)
  obtain k v where kv: "kv = (k, v)" by (cases kv)
  obtain v' p1 where one: "recover_volume enabled t busyf h v pl = (v', p1)" by fastforce
  obtain vs' p2 where rest: "recover_volumes enabled t busyf h vs p1 = (vs', p2)" by fastforce
  from Cons.IH [of p1] rest obtain starts where st: "rp_start p2 = rp_start p1 @ starts"
      "\<forall>(n, src) \<in> set starts. \<exists>v \<in> set (bt_values vs). v_name v = n \<and> releg_due enabled t busyf h (passed h v) src"
      "distinct (map v_name (bt_values vs)) \<longrightarrow> distinct (map fst starts)" by auto
  have names: "fst ` set starts \<subseteq> v_name ` set (bt_values vs)" using st(2) by force
  from recover_volume_start [of enabled t busyf h v pl] one consider
      "rp_start p1 = rp_start pl"
    | src where "rp_start p1 = rp_start pl @ [(v_name v, src)]" "releg_due enabled t busyf h (passed h v) src"
    by auto
  then show ?case
  proof cases
    case 1
    with st kv one rest show ?thesis by (intro exI [of _ starts]) auto
  next
    case 2
    with st names kv one rest show ?thesis by (intro exI [of _ "(v_name v, src) # starts"]) auto
  qed
qed

text \<open>The volumes of a federation are kept under their names.\<close>

definition volumes_ok :: "fed_state \<Rightarrow> bool" where
  "volumes_ok fed \<longleftrightarrow> bt_ok (f_volumes fed) \<and> (\<forall>(k, v) \<in> set (f_volumes fed). v_name v = k)"

lemma volumes_ok_names: "volumes_ok fed \<Longrightarrow> map v_name (bt_values (f_volumes fed)) = bt_keys (f_volumes fed)"
  by (auto simp: volumes_ok_def intro!: map_cong)

lemma volumes_ok_get: "volumes_ok fed \<Longrightarrow> v \<in> set (bt_values (f_volumes fed)) \<Longrightarrow> bt_get (f_volumes fed) (v_name v) = Some v"
  by (force simp: volumes_ok_def bt_value_iff [symmetric])

text \<open>Property C21. The reconciler starts a re-leg only where it is safe and due: recovery is on, the volume is
  mirrored, has a lost leg on the node it names, no replacement in flight and no claim, its cooldown has
  passed, and its head answers and holds a leg that is not lost. No volume gets two re-legs in a pass.\<close>

lemma recovery_starts_safely:
  assumes "volumes_ok fed" and "plan_recovery fed enabled t busyf = (pl, fed')"
    and "(name, src) \<in> set (rp_start pl)"
  shows "\<exists>v. bt_get (f_volumes fed') name = Some v \<and> enabled \<and> \<not> busyf name \<and> mirrored v \<and> v_replacing v = None \<and>
    \<not> before t (v_next_releg_after v) \<and> src \<in> set (lost_nodes v) \<and>
    (\<exists>hd. v_head v = Some hd \<and> healthy_node fed hd \<and> hd \<notin> set (lost_nodes v)) \<and> distinct (map fst (rp_start pl))"
proof -
  let ?h = "healthy_node fed"
  obtain vols where run: "recover_volumes enabled t busyf ?h (f_volumes fed) no_plan = (vols, pl)"
    and fed': "f_volumes fed' = vols"
    using assms(2) by (auto simp: plan_recovery_def Let_def bump_def split: prod.splits if_splits)
  from recover_volumes_records [of enabled t busyf ?h "f_volumes fed" no_plan] run fed'
  have vols: "f_volumes fed' = bt_map (passed ?h) (f_volumes fed)" by simp
  obtain starts where st: "rp_start pl = starts"
      "\<forall>(n, src) \<in> set starts. \<exists>v \<in> set (bt_values (f_volumes fed)). v_name v = n \<and> releg_due enabled t busyf ?h (passed ?h v) src"
      "distinct (map v_name (bt_values (f_volumes fed))) \<longrightarrow> distinct (map fst starts)"
    using recover_volumes_start [of enabled t busyf ?h "f_volumes fed" no_plan] run by (auto simp: no_plan_def)
  from st(1,2) assms(3) obtain v where v: "v \<in> set (bt_values (f_volumes fed))" "v_name v = name"
      "releg_due enabled t busyf ?h (passed ?h v) src" by blast
  have "bt_get (f_volumes fed') name = Some (passed ?h v)"
    using volumes_ok_get [OF assms(1) v(1)] v(2) by (simp add: vols)
  moreover have "distinct (map fst (rp_start pl))"
    using st(1,3) assms(1) unfolding volumes_ok_names [OF assms(1)] by (auto simp: volumes_ok_def bt_ok_distinct)
  ultimately show ?thesis using v(2,3) by (auto simp: releg_due_def is_some_and_iff)
qed

lemma plan_mirrored_losses [simp]:
  "rp_lost (plan_mirrored enabled t busyf h v pl) = rp_lost pl"
  "rp_head_lost (plan_mirrored enabled t busyf h v pl) = rp_head_lost pl"
  by (simp_all add: plan_mirrored_def split: option.splits)

lemma recover_volume_quiet:
  "\<not> changes h v \<Longrightarrow> rp_lost (snd (recover_volume enabled t busyf h v pl)) = rp_lost pl \<and>
     rp_head_lost (snd (recover_volume enabled t busyf h v pl)) = rp_head_lost pl"
  by (auto simp: recover_volume_def Let_def changes_def list_ex_iff filter_empty_conv)

lemma recover_volumes_quiet:
  "list_all (\<lambda>v. \<not> changes h v) (bt_values vs) \<Longrightarrow>
     rp_lost (snd (recover_volumes enabled t busyf h vs pl)) = rp_lost pl \<and>
     rp_head_lost (snd (recover_volumes enabled t busyf h vs pl)) = rp_head_lost pl"
proof (induction vs arbitrary: pl)
  case Nil
  then show ?case by simp
next
  case (Cons kv vs)
  obtain k v where kv: "kv = (k, v)" by (cases kv)
  obtain v' p1 where one: "recover_volume enabled t busyf h v pl = (v', p1)" by fastforce
  obtain vs' p2 where rest: "recover_volumes enabled t busyf h vs p1 = (vs', p2)" by fastforce
  from Cons kv one rest recover_volume_quiet [of h v enabled t busyf pl] Cons.IH [of p1] show ?case by simp
qed

text \<open>After a pass no leg of a mirrored volume counts as created on a node that does not answer, and no
  volume with a lost leg counts as assembled. A second pass over the same nodes finds nothing: it reports no
  loss again and leaves the records and the revision as they are.\<close>

lemma recovery_pass_settles:
  assumes "plan_recovery fed enabled t busyf = (pl, fed')" and "plan_recovery fed' enabled' t' busyf' = (pl', fed'')"
  shows "(\<forall>(k, v) \<in> set (f_volumes fed'). mirrored v \<longrightarrow>
      (\<forall>l \<in> set (v_legs v). l_state l = Created \<longrightarrow> healthy_node fed (l_node l)) \<and>
      (v_assembly v = Assembled \<longrightarrow> lost_nodes v = [])) \<and>
    rp_lost pl' = [] \<and> rp_head_lost pl' = [] \<and> fed'' = fed'"
proof -
  let ?h = "healthy_node fed"
  have vols: "f_volumes fed' = bt_map (passed ?h) (f_volumes fed)" and nodes: "f_nodes fed' = f_nodes fed"
    using assms(1) recover_volumes_records [of enabled t busyf ?h "f_volumes fed" no_plan]
    by (auto simp: plan_recovery_def Let_def bump_def split: prod.splits if_splits)
  have same: "healthy_node fed' = ?h" using nodes by (auto simp: healthy_node_def)
  have still: "list_all (\<lambda>v. \<not> changes ?h v) (bt_values (f_volumes fed'))"
    by (auto simp: vols bt_map_def list_all_iff passed_settles)
  then have quiet: "\<not> list_ex (changes ?h) (bt_values (f_volumes fed'))"
    by (simp add: list_all_iff list_ex_iff)
  have settled: "mirrored v \<longrightarrow> (\<forall>l \<in> set (v_legs v). l_state l = Created \<longrightarrow> ?h (l_node l)) \<and>
      (v_assembly v = Assembled \<longrightarrow> lost_nodes v = [])" if "(k, v) \<in> set (f_volumes fed')" for k v
    using that still by (force simp: list_all_iff changes_def list_ex_iff unreachable_leg_def)
  have "bt_map (passed ?h) (bt_map (passed ?h) (f_volumes fed)) = bt_map (passed ?h) (f_volumes fed)"
    by (auto simp: bt_map_def passed_twice)
  then have "f_volumes fed' = bt_map (passed ?h) (f_volumes fed')" by (simp only: vols)
  then have "fed'' = fed'" and lost: "rp_lost pl' = []" "rp_head_lost pl' = []"
    using assms(2) quiet recover_volumes_records [of enabled' t' busyf' ?h "f_volumes fed'" no_plan]
      recover_volumes_quiet [OF still, of enabled' t' busyf' no_plan]
    by (auto simp: plan_recovery_def Let_def same no_plan_def split: prod.splits)
  with settled show ?thesis by blast
qed

text \<open>The reading of a head that answers again.\<close>

lemma position_update:
  "position P xs = Some i \<Longrightarrow> P y \<Longrightarrow> position P (xs[i := y]) = Some i"
  by (induction xs arbitrary: i) (auto split: if_splits nat.splits)

text \<open>A message that was set: what the record keeps, and that setting it again finds it there.\<close>

lemma set_message_once:
  assumes "set_message idx msg f v = (Some (found, changed), v')" and "idx < length (v_legs v)"
  shows "found = f \<and> map (\<lambda>l. l\<lparr>l_message := None\<rparr>) (v_legs v') = map (\<lambda>l. l\<lparr>l_message := None\<rparr>) (v_legs v) \<and>
    v_assembly v' = v_assembly v \<and> (\<not> changed \<longrightarrow> v' = v) \<and> set_message idx msg f v' = (Some (found, False), v')"
proof -
  let ?l = "(v_legs v ! idx)\<lparr>l_message := Some msg\<rparr>"
  have v': "v' = v\<lparr>v_legs := (v_legs v)[idx := ?l]\<rparr>" "found = f" "changed \<longleftrightarrow> l_message (v_legs v ! idx) \<noteq> Some msg"
    using assms(1) by (auto simp: set_message_def)
  have "map (\<lambda>l. l\<lparr>l_message := None\<rparr>) ((v_legs v)[idx := ?l]) = map (\<lambda>l. l\<lparr>l_message := None\<rparr>) (v_legs v)"
    using assms(2) by (simp add: map_update list_update_same_conv)
  moreover have "v' = v" if "\<not> changed"
  proof -
    from that v'(3) have "?l = v_legs v ! idx" by simp
    then show ?thesis by (simp add: v'(1))
  qed
  moreover have "set_message idx msg f v' = (Some (f, False), v')"
    using assms(2) by (simp add: set_message_def v'(1))
  ultimately show ?thesis by (simp add: v')
qed

lemma reading_of_message [simp]: "member_of (l\<lparr>l_message := x\<rparr>) r = member_of l r"
proof -
  have "is_member_of (l\<lparr>l_message := x\<rparr>) = is_member_of l" by (simp add: is_member_of_def fun_eq_iff)
  then show ?thesis by (simp add: member_of_def)
qed

text \<open>A finding about a head that answers again is reported once: applying the same reading to the record
  it left changes nothing more. The lost leg is restored only on a reading of this head and this array in
  which its member is active, and the volume counts as assembled again only when no leg is lost.\<close>

lemma head_reading_once:
  assumes "apply_head_reading v reading = (Some (found, changed), v')"
  shows "(case found of
       Restored ok \<Rightarrow> changed \<and> (ok \<longleftrightarrow> lost_nodes v' = []) \<and> (v_assembly v' = Assembled \<longrightarrow> ok \<or> v_assembly v = Assembled) \<and>
         (\<exists>r l m. reading = Some r \<and> Some (ar_head r) = v_head v \<and> Some (ar_array_id r) = v_array_id v \<and>
            l \<in> set (v_legs v) \<and> l_state l = Lost \<and> Some (l_node l) = v_head v \<and> member_of l r = Some m \<and> mr_state m = ''active'')
     | _ \<Rightarrow> map (\<lambda>l. l\<lparr>l_message := None\<rparr>) (v_legs v') = map (\<lambda>l. l\<lparr>l_message := None\<rparr>) (v_legs v) \<and>
         v_assembly v' = v_assembly v \<and> (\<not> changed \<longrightarrow> v' = v) \<and>
         apply_head_reading v' reading = (Some (found, False), v'))"
proof -
  obtain head arr idx where at: "v_head v = Some head" "v_array_id v = Some arr"
      "position (\<lambda>l. l_node l = head \<and> l_state l = Lost) (v_legs v) = Some idx"
    using assms by (auto simp: apply_head_reading_def split: option.splits)
  from position_Some [OF at(3)] have idx: "idx < length (v_legs v)" "l_node (v_legs v ! idx) = head" "l_state (v_legs v ! idx) = Lost"
    by auto
  have again: "position (\<lambda>l. l_node l = head \<and> l_state l = Lost) ((v_legs v)[idx := (v_legs v ! idx)\<lparr>l_message := x\<rparr>]) = Some idx" for x
    using idx by (intro position_update [OF at(3)]) simp
  have keeps: ?thesis
    if "set_message idx msg f v = (Some (found, changed), v')" and "\<And>ok. f \<noteq> Restored ok"
      and "apply_head_reading v' reading = set_message idx msg f v'" for msg f
  proof -
    note once = set_message_once [OF that(1) idx(1)]
    with that(2,3) show ?thesis by (cases found) auto
  qed
  have v': "v' = v\<lparr>v_legs := (v_legs v)[idx := (v_legs v ! idx)\<lparr>l_message := Some msg\<rparr>]\<rparr>"
    if "set_message idx msg f v = (Some (found, changed), v')" for msg f
    using that by (simp add: set_message_def)
  show ?thesis
  proof (cases reading)
    case None
    with assms at have set: "set_message idx (gone_text head arr) ArrayGone v = (Some (found, changed), v')"
      by (simp add: apply_head_reading_def)
    show ?thesis
      by (rule keeps [OF set]) (simp_all add: apply_head_reading_def v' [OF set] at again None)
  next
    case (Some r)
    with assms at have ids: "ar_head r = head" "ar_array_id r = arr"
      by (auto simp: apply_head_reading_def split: if_splits)
    show ?thesis
    proof (cases "member_of (v_legs v ! idx) r")
      case None
      with assms at Some ids have set: "set_message idx (not_active_text head arr ''missing'') (NotActive ''missing'') v = (Some (found, changed), v')"
        by (simp add: apply_head_reading_def)
      show ?thesis
        by (rule keeps [OF set]) (simp_all add: apply_head_reading_def v' [OF set] at again Some ids None idx)
    next
      case m: (Some m)
      show ?thesis
      proof (cases "mr_state m = ''active''")
        case True
        let ?v = "v\<lparr>v_legs := (v_legs v)[idx := (v_legs v ! idx)\<lparr>l_state := Created, l_message := None\<rparr>]\<rparr>"
        have res: "found = Restored (lost_nodes ?v = [])" "changed" "v' = (if lost_nodes ?v = [] then ?v\<lparr>v_assembly := Assembled\<rparr> else ?v)"
          using assms at Some ids m True by (simp_all add: apply_head_reading_def Let_def)
        have "lost_nodes v' = lost_nodes ?v" using res(3) by (auto simp: lost_nodes_def)
        moreover have "v_assembly v' = Assembled \<longrightarrow> lost_nodes ?v = [] \<or> v_assembly v = Assembled" using res(3) by auto
        moreover have "v_legs v ! idx \<in> set (v_legs v)" using idx(1) by simp
        ultimately show ?thesis using res(1,2) idx(2,3) at(1,2) m True Some ids by auto
      next
        case False
        with assms at Some ids m have set: "set_message idx (not_active_text head arr (mr_state m)) (NotActive (mr_state m)) v = (Some (found, changed), v')"
          by (simp add: apply_head_reading_def)
        show ?thesis
          by (rule keeps [OF set]) (simp_all add: apply_head_reading_def v' [OF set] at again Some ids m False idx)
      qed
    qed
  qed
qed

lemma find_SomeD: "find P xs = Some x \<Longrightarrow> x \<in> set xs \<and> P x"
  by (induction xs) (auto split: if_splits)

lemma find_distinct_node:
  "distinct (map l_node ls) \<Longrightarrow> l \<in> set ls \<Longrightarrow> find (\<lambda>x. l_node x = l_node l) ls = Some l"
  by (induction ls) (auto simp: image_iff)

text \<open>An automatic re-head hands the volume only to a copy known to hold every write, and the fence
  and the promote it starts are accepted: for each volume planned, the head is known and does not answer, the
  fence at the recorded epoch succeeds and raises it by one, and the promote at that epoch passes every check.\<close>

lemma rehead_fence_promote:
  assumes "volumes_ok fed" and "(name, target, epoch) \<in> set (rh_start (rehead_plan fed readings interval after busyf t))"
    and "bt_get (f_volumes fed) name = Some v"
    and "distinct (map l_node (v_legs v))" and "\<forall>l \<in> set (v_legs v). l_state l = Created \<longrightarrow> l_volume_id l \<noteq> None"
  shows "\<exists>hd v'. v_head v = Some hd \<and> target \<noteq> hd \<and> \<not> healthy_node fed hd \<and>
    apply_fence v epoch = Inr (epoch + 1, v') \<and>
    check_promote v' target (epoch + 1) (healthy_node fed target) = Inr (Some hd) \<and>
    (\<exists>l rd m. l \<in> set (v_legs v) \<and> l_node l = target \<and> bt_get readings name = Some rd \<and> ar_head rd = hd \<and>
       Some (ar_array_id rd) = v_array_id v \<and> member_of l rd = Some m \<and> mr_state m = ''active'')"
proof -
  have "\<exists>v \<in> set vs. rehead_due fed interval after busyf t v \<and> rehead_target fed readings v = Some target \<and> name = v_name v \<and> epoch = v_epoch v"
    if "(name, target, epoch) \<in> set (rh_start (foldl (\<lambda>pl v. if rehead_due fed interval after busyf t v then
         (case rehead_target fed readings v of
            Some n \<Rightarrow> pl\<lparr>rh_start := rh_start pl @ [(v_name v, n, v_epoch v)]\<rparr>
          | None \<Rightarrow> pl\<lparr>rh_held := rh_held pl @ [v_name v]\<rparr>) else pl) \<lparr>rh_start = [], rh_held = []\<rparr> vs))" for vs
    using that by (induction vs rule: rev_induct) (auto split: if_splits option.splits)
  with assms(2) obtain w where w: "w \<in> set (bt_values (f_volumes fed))" "rehead_due fed interval after busyf t w"
      "rehead_target fed readings w = Some target" "name = v_name w" "epoch = v_epoch w"
    unfolding rehead_plan_def by blast
  have "w = v" using volumes_ok_get [OF assms(1) w(1)] w(4) assms(3) by simp
  note due = w(2,3,4,5) [unfolded this]
  obtain hd n where hd: "v_head v = Some hd" "bt_get (f_nodes fed) hd = Some n" "\<not> ns_healthy (n_status n)"
    using due(1) by (auto simp: rehead_due_def is_some_and_iff bind_eq_Some_conv)
  obtain r where r: "r \<in> set (replicas v (bt_get readings name))" "rep_node r = target" "target \<noteq> hd" "healthy_node fed target" "rep_sync r = InSync"
    using due(2,3) hd(1) by (auto simp: rehead_target_def dest: find_SomeD)
  have leg_of: "all_legs v = v_legs v" using due(1) by (simp add: all_legs_def rehead_due_def)
  obtain l where l: "l \<in> set (v_legs v)" "l_node l = target" "leg_sync v (reading_of v (bt_get readings name)) l = InSync"
    using r leg_of by (auto simp: replicas_def)
  have mir: "mirrored v" using due(1) by (simp add: rehead_due_def)
  from leg_in_sync [OF mir l(3)] obtain rd m where ev: "l_state l = Created" "bt_get readings name = Some rd"
      "Some (ar_head rd) = v_head v" "Some (ar_array_id rd) = v_array_id v" "member_of l rd = Some m" "mr_state m = ''active''"
    by blast
  have found: "find (\<lambda>l. l_node l = target) (v_legs v) = Some l"
    using find_distinct_node [OF assms(4) l(1)] l(2) by simp
  let ?v = "v\<lparr>v_epoch := v_epoch v + 1, v_fenced := True\<rparr>"
  have "apply_fence v epoch = Inr (epoch + 1, ?v)" using mir due(4) by (simp add: apply_fence_def)
  moreover have "check_promote ?v target (epoch + 1) (healthy_node fed target) = Inr (Some hd)"
    using due(1,4) mir found ev(1) assms(5) l(1) r(4) hd(1) by (auto simp: check_promote_def rehead_due_def)
  moreover have "\<not> healthy_node fed hd" using hd(2,3) by (simp add: healthy_node_def)
  ultimately show ?thesis using hd(1) r(3) l(1,2) ev by auto
qed

subsection \<open>Where a moved leg lands\<close>

text \<open>A leg moves only to a node that answers, carries no leg of the volume and lies in a failure
  domain none of the staying legs lies in, so legs in distinct domains stay in distinct domains.\<close>

lemma move_keeps_domains:
  assumes "c \<in> set (move_target_candidates fed rungs vol from_node)"
    and "\<forall>(k, n) \<in> set (f_nodes fed). nc_name (n_config n) = k" and "bt_ok (f_nodes fed)"
    and "\<forall>l \<in> set (v_legs vol). bt_get (f_nodes fed) (l_node l) \<noteq> None"
    and "distinct (map (\<lambda>l. domain_at (node_labels (the (bt_get (f_nodes fed) (l_node l)))) rungs (v_rung vol)) (v_legs vol))"
  shows "healthy_node fed (c_name c) \<and> c_name c \<notin> l_node ` set (v_legs vol) \<and>
    distinct (map (\<lambda>n. domain_at (node_labels (the (bt_get (f_nodes fed) n))) rungs (v_rung vol))
      (c_name c # filter (\<lambda>n. n \<noteq> from_node) (map l_node (v_legs vol))))"
proof -
  let ?dom = "\<lambda>n. domain_at (node_labels (the (bt_get (f_nodes fed) n))) rungs (v_rung vol)"
  obtain n where n: "n \<in> set (bt_values (f_nodes fed))" "c = candidate_of n" "ns_healthy (n_status n)"
      "list_all (\<lambda>l. l_node l \<noteq> nc_name (n_config n)) (v_legs vol)"
      "domain_at (node_labels n) rungs (v_rung vol) \<notin> set (staying_domains fed rungs vol from_node)"
    using assms(1) by (auto simp: move_target_candidates_def)
  have name: "c_name c = nc_name (n_config n)" by (simp add: n(2) candidate_of_def)
  have get: "bt_get (f_nodes fed) (c_name c) = Some n"
    using n(1) assms(2,3) by (force simp: name bt_value_iff [symmetric])
  have stay: "?dom ` set (filter (\<lambda>n. n \<noteq> from_node) (map l_node (v_legs vol))) \<subseteq> set (staying_domains fed rungs vol from_node)"
    using assms(4) by (force simp: staying_domains_def List.map_filter_def)
  have "distinct (map ?dom (map l_node (v_legs vol)))" using assms(5) by (simp add: comp_def)
  then have "distinct (map ?dom (filter (\<lambda>n. n \<noteq> from_node) (map l_node (v_legs vol))))"
    by (rule distinct_map_filter)
  moreover have "?dom (c_name c) \<notin> ?dom ` set (filter (\<lambda>n. n \<noteq> from_node) (map l_node (v_legs vol)))"
    using stay n(5) get by auto
  moreover have "c_name c \<notin> l_node ` set (v_legs vol)" using n(4) by (auto simp: name list_all_iff)
  ultimately show ?thesis using get n(3) by (simp add: healthy_node_def)
qed

subsection \<open>Witnesses\<close>

text \<open>Two nodes, of which \<open>b\<close> does not answer, and the small volume with its head on \<open>a\<close>.\<close>

definition lost_fed :: fed_state where
  "lost_fed = default_fed\<lparr>f_nodes := [(''a'', small_node ''a''), (''b'', (small_node ''b'')\<lparr>n_status := new_status Static\<rparr>)],
     f_volumes := [(''vol'', wit_vol)]\<rparr>"

lemma lost_plan: "rp_start (fst (plan_recovery lost_fed True 0 (\<lambda>_. False))) = [(''vol'', ''b'')]"
  by code_simp

lemma recovery_starts_safely_witness:
  "\<exists>v. bt_get (f_volumes (snd (plan_recovery lost_fed True 0 (\<lambda>_. False)))) ''vol'' = Some v \<and> ''b'' \<in> set (lost_nodes v)"
proof -
  have "volumes_ok lost_fed" by (simp add: volumes_ok_def lost_fed_def wit_vol_def)
  moreover have "(''vol'', ''b'') \<in> set (rp_start (fst (plan_recovery lost_fed True 0 (\<lambda>_. False))))" by (simp add: lost_plan)
  ultimately show ?thesis
    using recovery_starts_safely [OF _ prod.collapse [symmetric]] by blast
qed

lemma recovery_pass_settles_witness:
  "snd (plan_recovery (snd (plan_recovery lost_fed True 0 (\<lambda>_. False))) True 9 (\<lambda>_. False)) =
     snd (plan_recovery lost_fed True 0 (\<lambda>_. False))"
  using recovery_pass_settles [OF prod.collapse [symmetric] prod.collapse [symmetric]] by blast

definition lost_head_vol :: dist_volume where
  "lost_head_vol = wit_vol\<lparr>v_legs := [(wit_leg ''a'' ''u1'')\<lparr>l_state := Lost\<rparr>, wit_leg ''b'' ''u2''], v_assembly := Degraded\<rparr>"

lemma head_reading_once_witness:
  "\<exists>v'. apply_head_reading lost_head_vol None = (Some (ArrayGone, True), v') \<and>
     apply_head_reading v' None = (Some (ArrayGone, False), v')"
proof -
  have "fst (apply_head_reading lost_head_vol None) = Some (ArrayGone, True)" by code_simp
  then obtain v' where v': "apply_head_reading lost_head_vol None = (Some (ArrayGone, True), v')"
    by (metis prod.collapse)
  with head_reading_once [OF v'] show ?thesis by auto
qed

definition dead_head_fed :: fed_state where
  "dead_head_fed = default_fed\<lparr>f_nodes := [(''a'', (small_node ''a'')\<lparr>n_status := (new_status Static)\<lparr>ns_consecutive_failures := 9\<rparr>\<rparr>), (''b'', small_node ''b'')],
     f_volumes := [(''vol'', wit_vol)]\<rparr>"

definition full_reading :: array_reading where
  "full_reading = wit_reading\<lparr>ar_members := [\<lparr>mr_uuid = ''u2'', mr_device_path = [], mr_state = ''active'', mr_rebuilt_bytes = None\<rparr>]\<rparr>"

lemma rehead_fence_promote_witness:
  "\<exists>v'. apply_fence wit_vol 1 = Inr (2, v') \<and> check_promote v' ''b'' 2 (healthy_node dead_head_fed ''b'') = Inr (Some ''a'')"
proof -
  have "volumes_ok dead_head_fed" by (simp add: volumes_ok_def dead_head_fed_def wit_vol_def)
  moreover have "rh_start (rehead_plan dead_head_fed [(''vol'', full_reading)] 10 60 (\<lambda>_. False) 0) = [(''vol'', ''b'', 1)]"
    by code_simp
  then have "(''vol'', ''b'', 1) \<in> set (rh_start (rehead_plan dead_head_fed [(''vol'', full_reading)] 10 60 (\<lambda>_. False) 0))" by simp
  moreover have "bt_get (f_volumes dead_head_fed) ''vol'' = Some wit_vol" by (simp add: dead_head_fed_def)
  moreover have "distinct (map l_node (v_legs wit_vol))" "\<forall>l \<in> set (v_legs wit_vol). l_state l = Created \<longrightarrow> l_volume_id l \<noteq> None"
    by (simp_all add: wit_vol_def wit_leg_def)
  ultimately obtain hd v' where "v_head wit_vol = Some hd" "apply_fence wit_vol 1 = Inr (1 + 1, v')"
      "check_promote v' ''b'' (1 + 1) (healthy_node dead_head_fed ''b'') = Inr (Some hd)"
    using rehead_fence_promote by blast
  then show ?thesis by (auto simp: wit_vol_def)
qed

definition three_fed :: fed_state where
  "three_fed = default_fed\<lparr>f_nodes := [(''a'', small_node ''a''), (''b'', (small_node ''b'')\<lparr>n_status := new_status Static\<rparr>), (''c'', small_node ''c'')],
     f_volumes := [(''vol'', wit_vol)]\<rparr>"

lemma move_keeps_domains_witness:
  "map c_name (move_target_candidates three_fed [''node''] wit_vol ''b'') = [''c''] \<and> healthy_node three_fed ''c''"
proof -
  have cands: "map c_name (move_target_candidates three_fed [''node''] wit_vol ''b'') = [''c'']" by code_simp
  have "''c'' \<in> set (map c_name (move_target_candidates three_fed [''node''] wit_vol ''b''))" unfolding cands by simp
  then obtain c where c: "c \<in> set (move_target_candidates three_fed [''node''] wit_vol ''b'')" "c_name c = ''c''"
    by auto
  have "\<forall>(k, n) \<in> set (f_nodes three_fed). nc_name (n_config n) = k" "bt_ok (f_nodes three_fed)"
      "\<forall>l \<in> set (v_legs wit_vol). bt_get (f_nodes three_fed) (l_node l) \<noteq> None"
    by (simp_all add: three_fed_def small_node_def wit_config_def wit_vol_def wit_leg_def)
  moreover have "distinct (map (\<lambda>l. domain_at (node_labels (the (bt_get (f_nodes three_fed) (l_node l)))) [''node''] (v_rung wit_vol)) (v_legs wit_vol))"
    by code_simp
  ultimately show ?thesis using move_keeps_domains [OF c(1)] c(2) cands by simp
qed

end
