(* ===== verification/Assemble.thy ===== *)
theory Assemble
  imports Recover
begin

section \<open>Assembling a volume's legs\<close>

text \<open>
  Models the wiring of \<open>src/orchestrate.rs\<close>: assembling the RAID1 of a volume on its head (exports, head
  drives, adopting, reassembling or creating the array) and retrying a failed assembly. Errors are cases in place of texts.
  \<open>assemble_inner\<close> changes the caller's copy of the volume as it goes, so it returns the copy beside the
  result.
\<close>

datatype wiring_error =
    VolumeBusy | VolumeUnknown | SingleLegOnly | LegsNotCreated | NodeUnknown string | NoEngine string
  | WireStep string engine_error | SharedDrive string string | AssembledInto nat | OtherMembers string | NoArrayAnswer
  | NotMovable | ReplacementRunning | NoLegThere string | HeadNone | HeadDown string | TargetUnhealthy string
  | TargetHasLeg string | NoTarget plan_error | ArrayUnknown | NoIdReturned | DeletedMeanwhile

definition registered_engine :: "'w env \<Rightarrow> fed_state \<Rightarrow> string \<Rightarrow> engine option" where
  "registered_engine env fed n = map_option (engine_for env) (bt_get (f_nodes fed) n)"

definition master_or_local :: "leg \<Rightarrow> string" where
  "master_or_local l = unwrap_or (l_master_node l) ''localhost''"

subsection \<open>The three steps\<close>

text \<open>An export that stays: made for this head, or before exports named their host.\<close>

definition export_kept :: "string \<Rightarrow> leg \<Rightarrow> bool" where
  "export_kept nqn l = is_some_and (l_export l) (\<lambda>x. unwrap_or (map_option (\<lambda>h. h = nqn) (a_host_nqn x)) True)"

fun export_legs ::
  "'w env \<Rightarrow> (string, engine) btree \<Rightarrow> string \<Rightarrow> leg list \<Rightarrow> 'w sys \<Rightarrow> (wiring_error + unit) \<times> leg list \<times> 'w sys" where
  "export_legs env engines nqn [] s = (Inr (), [], s)"
| "export_legs env engines nqn (l # ls) s =
     (if export_kept nqn l then
        (case export_legs env engines nqn ls s of (r, ls, s) \<Rightarrow> (r, l # ls, s))
      else
        (case (bt_get engines (l_node l), l_volume_id l) of
           (Some eng, Some vid) \<Rightarrow>
             (case call env (\<lambda>wr. attach_leg wr eng vid (master_or_local l) (l_epoch l) (Some nqn)) s of
                (Inl e, s) \<Rightarrow> (Inl (WireStep (l_node l) e), l # ls, s)
              | (Inr att, s) \<Rightarrow>
                  (case export_legs env engines nqn ls s of (r, ls, s) \<Rightarrow> (r, l\<lparr>l_export := Some att\<rparr> # ls, s)))
         | _ \<Rightarrow> (Inl (NoEngine (l_node l)), l # ls, s)))"

fun open_drives ::
  "'w env \<Rightarrow> string \<Rightarrow> engine \<Rightarrow> leg list \<Rightarrow> 'w sys \<Rightarrow> (wiring_error + string list) \<times> leg list \<times> 'w sys" where
  "open_drives env head heng [] s = (Inr [], [], s)"
| "open_drives env head heng (l # ls) s =
     (case l_export l of
        None \<Rightarrow> (Inl (NoEngine (l_node l)), l # ls, s)
      | Some x \<Rightarrow>
          (case call env (\<lambda>wr. add_drive_idempotent wr heng (drive_uri x)) s of
             (Inl e, s) \<Rightarrow> (Inl (WireStep head e), l # ls, s)
           | (Inr u, s) \<Rightarrow>
               (case open_drives env head heng ls s of
                  (r, ls, s) \<Rightarrow> (map_sum id (Cons u) r, l\<lparr>l_drive_uuid := Some u\<rparr> # ls, s))))"

definition leg_uris :: "leg list \<Rightarrow> string list" where
  "leg_uris legs = List.map_filter (\<lambda>l. map_option drive_uri (l_export l)) legs"

text \<open>A create that is refused because the legs carry an array already: put that one back together.\<close>

definition reassemble_refused ::
  "'w env \<Rightarrow> string \<Rightarrow> string \<Rightarrow> engine \<Rightarrow> string list \<Rightarrow> string list \<Rightarrow> 'w sys \<Rightarrow> (wiring_error + json) \<times> 'w sys" where
  "reassemble_refused env name head heng uris uuids s =
     (case call env (\<lambda>wr. assemble_arrays wr heng uuids) s of
        (Inl e, s) \<Rightarrow> (Inl (WireStep head e), s)
      | (Inr rep, s) \<Rightarrow>
          (case List.map_filter (get_str ''id'') (get_array ''arrays'' rep) of
             [i] \<Rightarrow>
               (case call env (\<lambda>wr. get_raid_array wr heng i) s of
                  (Inl e, s) \<Rightarrow> (Inl (WireStep head e), s)
                | (Inr arr, s) \<Rightarrow>
                    (case match_array [arr] uris of
                       Exact _ \<Rightarrow> (Inr arr, note_event env ''assemble'' Info name s)
                     | _ \<Rightarrow> (Inl (OtherMembers i), s)))
           | ids \<Rightarrow> (Inl (AssembledInto (length ids)), s)))"

definition obtain_array ::
  "'w env \<Rightarrow> string \<Rightarrow> string \<Rightarrow> engine \<Rightarrow> string list \<Rightarrow> string list \<Rightarrow> 'w sys \<Rightarrow> (wiring_error + json) \<times> 'w sys" where
  "obtain_array env name head heng uris uuids s =
     (case call env (\<lambda>wr. list_arrays wr heng) s of
        (Inl e, s) \<Rightarrow> (Inl (WireStep head e), s)
      | (Inr existing, s) \<Rightarrow>
          (case match_array existing uris of
             Exact arr \<Rightarrow> (Inr arr, note_event env ''assemble'' Info name s)
           | ArrayConflict a u \<Rightarrow> (Inl (SharedDrive a u), s)
           | NoArray \<Rightarrow>
               (case call env (\<lambda>wr. create_raid1 wr heng uuids) s of
                  (Inr arr, s) \<Rightarrow> (Inr arr, s)
                | (Inl e, s) \<Rightarrow>
                    if status_of e = Some 409 then reassemble_refused env name head heng uris uuids s
                    else (Inl (WireStep head e), s))))"

text \<open>Members are matched to legs by drive path, else by position.\<close>

definition member_slot :: "string list \<Rightarrow> nat \<Rightarrow> json \<Rightarrow> nat" where
  "member_slot uris i m = unwrap_or (Option.bind (get_str ''device_path'' m) (\<lambda>p. position (\<lambda>u. u = p) uris)) i"

definition match_members :: "string list \<Rightarrow> json list \<Rightarrow> leg list \<Rightarrow> leg list" where
  "match_members uris members legs =
     foldl (\<lambda>ls (i, m). case get_str ''uuid'' m of
         None \<Rightarrow> ls
       | Some u \<Rightarrow>
           (let k = member_slot uris i m in
            if k < length ls then ls[k := (ls ! k)\<lparr>l_member_uuid := Some u\<rparr>] else ls)) legs (enumerate 0 members)"

definition assemble_inner ::
  "'w env \<Rightarrow> (string, engine) btree \<Rightarrow> string \<Rightarrow> engine \<Rightarrow> dist_volume \<Rightarrow> 'w sys \<Rightarrow> (wiring_error + unit) \<times> dist_volume \<times> 'w sys" where
  "assemble_inner env engines head heng vol s =
     (case export_legs env engines (host_nqn_for (en_host_nqn env) head) (v_legs vol) s of
        (Inl e, legs, s) \<Rightarrow> (Inl e, vol\<lparr>v_legs := legs\<rparr>, s)
      | (Inr _, legs, s) \<Rightarrow>
          (case open_drives env head heng legs s of
             (Inl e, legs, s) \<Rightarrow> (Inl e, vol\<lparr>v_legs := legs\<rparr>, s)
           | (Inr uuids, legs, s) \<Rightarrow>
               (let vol = vol\<lparr>v_legs := legs\<rparr> in
                case obtain_array env (v_name vol) head heng (leg_uris legs) uuids s of
                  (Inl e, s) \<Rightarrow> (Inl e, vol, s)
                | (Inr arr, s) \<Rightarrow>
                    (case get_str ''id'' arr of
                       None \<Rightarrow> (Inl NoArrayAnswer, vol, s)
                     | Some array_id \<Rightarrow>
                         (let legs = match_members (leg_uris legs) (get_array ''members'' arr) legs;
                              vol = vol\<lparr>v_legs := legs, v_head := Some head, v_array_id := Some array_id, v_assembly := Assembled\<rparr>;
                              s = snd (call env (\<lambda>wr. set_rebuild_rate wr heng array_id (rate (en_recovery env) (v_bandwidth_class vol))) s)
                          in (Inr (), vol, note_event env ''assemble'' Info (v_name vol) s))))))"

subsection \<open>Assembly\<close>

definition leg_registry :: "'w env \<Rightarrow> fed_state \<Rightarrow> leg list \<Rightarrow> wiring_error + (string, engine) btree" where
  "leg_registry env fed legs =
     map_sum id bt_collect (collect_results (map (\<lambda>l. case registered_engine env fed (l_node l) of
         None \<Rightarrow> Inl (NodeUnknown (l_node l)) | Some e \<Rightarrow> Inr (l_node l, e)) legs))"

definition cooldown :: "'w env \<Rightarrow> duration" where
  "cooldown env = from_secs (rc_cooldown_secs (en_recovery env))"

definition record_assembly :: "'w env \<Rightarrow> string \<Rightarrow> (wiring_error + unit) \<Rightarrow> dist_volume \<Rightarrow> 'w sys \<Rightarrow> 'w sys" where
  "record_assembly env name r vol s =
     (let ok = \<not> isl r;
          vol = vol\<lparr>v_next_assemble_after := (if ok then None else Some (now env s + cooldown env))\<rparr>;
          s = with_fed (\<lambda>fed. if ok then bump (put_volume name vol fed) else put_volume name vol fed) s;
          s = (if ok then push_to_peers env s else s)
      in persist env s)"

definition assemble_claimed :: "'w env \<Rightarrow> string \<Rightarrow> 'w sys \<Rightarrow> (wiring_error + unit) \<times> 'w sys" where
  "assemble_claimed env name s =
     (case volume name s of
        None \<Rightarrow> (Inl VolumeUnknown, s)
      | Some vol \<Rightarrow>
          if length (v_legs vol) < 2 then (Inl SingleLegOnly, s)
          else if list_ex (\<lambda>l. l_state l \<noteq> Created \<or> l_volume_id l = None) (v_legs vol) then (Inl LegsNotCreated, s)
          else (case leg_registry env (sy_fed s) (v_legs vol) of
              Inl e \<Rightarrow> (Inl e, s)
            | Inr engines \<Rightarrow>
                (let head = l_node (hd (v_legs vol)) in
                 case bt_get engines head of
                   None \<Rightarrow> (Inl (NoEngine head), s)
                 | Some heng \<Rightarrow>
                     (case assemble_inner env engines head heng vol s of
                        (r, vol, s) \<Rightarrow> (r, record_assembly env name r vol s)))))"

definition assemble :: "'w env \<Rightarrow> string \<Rightarrow> 'w sys \<Rightarrow> (wiring_error + unit) \<times> 'w sys" where
  "assemble env name s =
     (case claim name s of
        (False, s) \<Rightarrow> (Inl VolumeBusy, s)
      | (True, s) \<Rightarrow> (case assemble_claimed env name s of (r, s) \<Rightarrow> (r, release name s)))"

text \<open>A retry by the reconciler: its outcome is reported, and an assembled volume is served.\<close>

definition after_assembly_retry :: "'w env \<Rightarrow> string \<Rightarrow> (wiring_error + unit) \<Rightarrow> 'w sys \<Rightarrow> 'w sys" where
  "after_assembly_retry env name r s =
     (case r of
        Inr _ \<Rightarrow> snd (publish env name s)
      | Inl _ \<Rightarrow> note_event env ''assemble'' Error name s)"

definition retry_assembly :: "'w env \<Rightarrow> string \<Rightarrow> 'w sys \<Rightarrow> 'w sys" where
  "retry_assembly env name s =
     (case assemble_claimed env name s of (r, s) \<Rightarrow> after_assembly_retry env name r (release name s))"

subsection \<open>Lemmas\<close>

text \<open>What wiring a leg does not touch.\<close>

lemma leg_core_updates [simp]:
  "leg_core (l\<lparr>l_export := x\<rparr>) = leg_core l" "leg_core (l\<lparr>l_drive_uuid := y\<rparr>) = leg_core l"
  "leg_core (l\<lparr>l_member_uuid := z\<rparr>) = leg_core l"
  by (simp_all add: leg_core_def)

lemma call_Inr: "call env m s = (Inr a, s') \<Longrightarrow> \<exists>w w'. m (en_wire env) w = (Inr a, w')"
  by (auto simp: call_def split: prod.splits)

lemma attach_leg_host: "attach_leg wr e vid n ep h w = (Inr att, w') \<Longrightarrow> a_host_nqn att = h"
  by (auto simp: attach_leg_def attempt_def io_ok_def split: prod.splits sum.splits)

lemma call_attach_kept:
  assumes "call env (\<lambda>wr. attach_leg wr eng vid m ep (Some nqn)) s = (Inr att, s')"
  shows "export_kept nqn (l\<lparr>l_export := Some att\<rparr>)"
proof -
  from call_Inr [OF assms] obtain w w' where "attach_leg (en_wire env) eng vid m ep (Some nqn) w = (Inr att, w')" by blast
  then have "a_host_nqn att = Some nqn" by (rule attach_leg_host)
  then show ?thesis by (simp add: export_kept_def)
qed

lemma export_legs_core:
  "export_legs env engines nqn ls s = (r, ls', s') \<Longrightarrow>
     map leg_core ls' = map leg_core ls \<and> (r = Inr () \<longrightarrow> list_all (export_kept nqn) ls')"
proof (induction ls arbitrary: r ls' s s')
  case Nil
  then show ?case by simp
next
  case (Cons l ls)
  show ?case
  proof (cases "export_kept nqn l")
    case True
    obtain r1 ls1 s1 where "export_legs env engines nqn ls s = (r1, ls1, s1)" by (metis prod_cases3)
    with Cons.IH [OF this] Cons.prems True show ?thesis by auto
  next
    case False
    show ?thesis
    proof (cases "\<exists>eng vid. bt_get engines (l_node l) = Some eng \<and> l_volume_id l = Some vid")
      case no: False
      with Cons.prems False show ?thesis by (auto split: option.splits)
    next
      case True
      then obtain eng vid where ev: "bt_get engines (l_node l) = Some eng" "l_volume_id l = Some vid" by blast
      obtain a s1 where call: "call env (\<lambda>wr. attach_leg wr eng vid (master_or_local l) (l_epoch l) (Some nqn)) s = (a, s1)" by fastforce
      show ?thesis
      proof (cases a)
        case (Inl e)
        with Cons.prems False ev call show ?thesis by auto
      next
        case (Inr att)
        obtain r1 ls1 s2 where rest: "export_legs env engines nqn ls s1 = (r1, ls1, s2)" by (metis prod_cases3)
        have "export_kept nqn (l\<lparr>l_export := Some att\<rparr>)" by (rule call_attach_kept [OF call [unfolded Inr]])
        with Cons.IH [OF rest] Cons.prems False ev call Inr rest show ?thesis by auto
      qed
    qed
  qed
qed

lemma open_drives_core:
  "open_drives env head heng ls s = (r, ls', s') \<Longrightarrow>
     map leg_core ls' = map leg_core ls \<and> map l_export ls' = map l_export ls \<and>
     (\<forall>us. r = Inr us \<longrightarrow> map l_drive_uuid ls' = map Some us)"
proof (induction ls arbitrary: r ls' s s')
  case Nil
  then show ?case by auto
next
  case (Cons l ls)
  show ?case
  proof (cases "l_export l")
    case None
    with Cons.prems show ?thesis by auto
  next
    case (Some x)
    obtain a s1 where call: "call env (\<lambda>wr. add_drive_idempotent wr heng (drive_uri x)) s = (a, s1)" by fastforce
    obtain r1 ls1 s2 where rest: "open_drives env head heng ls s1 = (r1, ls1, s2)" by (metis prod_cases3)
    show ?thesis
    proof (cases a)
      case (Inl e)
      with Cons.prems Some call show ?thesis by auto
    next
      case (Inr u)
      with Cons.IH [OF rest] Cons.prems Some call rest show ?thesis by (cases r1) auto
    qed
  qed
qed

lemma export_kept_cong: "l_export l = l_export l' \<Longrightarrow> export_kept nqn l = export_kept nqn l'"
  by (simp add: export_kept_def)

text \<open>Numbering the members touches the member ids only.\<close>

definition but_member :: "leg \<Rightarrow> leg" where
  "but_member l = l\<lparr>l_member_uuid := None\<rparr>"

lemma match_members_but: "map but_member (match_members uris members legs) = map but_member legs"
proof -
  have step: "map but_member (ls[k := (ls ! k)\<lparr>l_member_uuid := Some u\<rparr>]) = map but_member ls" for ls k u
    by (cases "k < length ls") (simp_all add: map_update but_member_def list_update_same_conv list_update_beyond)
  have "map but_member (foldl (\<lambda>ls (i, m). case get_str ''uuid'' m of
         None \<Rightarrow> ls
       | Some u \<Rightarrow>
           (let k = member_slot uris i m in
            if k < length ls then ls[k := (ls ! k)\<lparr>l_member_uuid := Some u\<rparr>] else ls)) legs ims) = map but_member legs" for ims
    by (induction ims rule: rev_induct) (auto simp: Let_def step split: option.splits)
  then show ?thesis by (simp add: match_members_def)
qed

lemma but_member_eqD: "but_member l = but_member l' \<Longrightarrow> leg_core l = leg_core l' \<and> l_export l = l_export l' \<and> l_drive_uuid l = l_drive_uuid l'"
  by (cases l; cases l') (auto simp: but_member_def leg_core_def)

lemma match_members_core:
  "map leg_core (match_members uris members legs) = map leg_core legs"
  "map l_export (match_members uris members legs) = map l_export legs"
  "map l_drive_uuid (match_members uris members legs) = map l_drive_uuid legs"
proof -
  have "list_all2 (\<lambda>a b. but_member a = but_member b) (match_members uris members legs) legs"
    using match_members_but [of uris members legs] by (simp add: list_all2_conv_all_nth list_eq_iff_nth_eq)
  then have all: "list_all2 (\<lambda>a b. leg_core a = leg_core b \<and> l_export a = l_export b \<and> l_drive_uuid a = l_drive_uuid b)
      (match_members uris members legs) legs"
    by (rule list.rel_mono_strong) (rule but_member_eqD)
  then show "map leg_core (match_members uris members legs) = map leg_core legs"
    "map l_export (match_members uris members legs) = map l_export legs"
    "map l_drive_uuid (match_members uris members legs) = map l_drive_uuid legs"
    by (auto simp: list_all2_conv_all_nth list_eq_iff_nth_eq)
qed

lemma list_all_kept: "map l_export xs = map l_export ys \<Longrightarrow> list_all (export_kept nqn) xs = list_all (export_kept nqn) ys"
proof -
  assume "map l_export xs = map l_export ys"
  then have "map (export_kept nqn) xs = map (export_kept nqn) ys"
    by (auto simp: list_eq_iff_nth_eq export_kept_def)
  then have "list_all id (map (export_kept nqn) xs) = list_all id (map (export_kept nqn) ys)" by simp
  then show ?thesis by (simp add: list.pred_map)
qed

text \<open>What an assembly leaves in the caller's copy.\<close>

definition wired :: "string \<Rightarrow> leg \<Rightarrow> bool" where
  "wired nqn l \<longleftrightarrow> export_kept nqn l \<and> l_drive_uuid l \<noteq> None"

lemma wired_all:
  assumes "list_all (export_kept nqn) ls" and "map l_export ls' = map l_export ls" and "map l_drive_uuid ls' = map Some us"
  shows "list_all (wired nqn) ls'"
proof -
  have "list_all (export_kept nqn) ls'" using assms(1) list_all_kept [OF assms(2)] by simp
  moreover have "set (map l_drive_uuid ls') \<subseteq> range Some" unfolding assms(3) by auto
  then have "list_all (\<lambda>l. l_drive_uuid l \<noteq> None) ls'" by (auto simp: list_all_iff)
  ultimately show ?thesis by (simp add: list_all_iff wired_def)
qed

lemma assemble_inner_copy:
  assumes "assemble_inner env engines head heng vol s = (r, vol', s')"
  shows "map leg_core (v_legs vol') = map leg_core (v_legs vol) \<and> v_name vol' = v_name vol \<and>
    (case r of
       Inl _ \<Rightarrow> vol' = vol\<lparr>v_legs := v_legs vol'\<rparr>
     | Inr _ \<Rightarrow> v_assembly vol' = Assembled \<and> v_head vol' = Some head \<and> v_array_id vol' \<noteq> None \<and>
         list_all (wired (host_nqn_for (en_host_nqn env) head)) (v_legs vol'))"
proof -
  let ?nqn = "host_nqn_for (en_host_nqn env) head"
  obtain r1 legs1 s1 where e: "export_legs env engines ?nqn (v_legs vol) s = (r1, legs1, s1)" by (metis prod_cases3)
  note core1 = export_legs_core [OF e]
  show ?thesis
  proof (cases r1)
    case (Inl e1)
    with assms core1 show ?thesis by (auto simp: assemble_inner_def e)
  next
    case r1: (Inr u)
    obtain r2 legs2 s2 where d: "open_drives env head heng legs1 s1 = (r2, legs2, s2)" by (metis prod_cases3)
    note core2 = open_drives_core [OF d]
    show ?thesis
    proof (cases r2)
      case (Inl e2)
      with assms core1 core2 r1 show ?thesis by (auto simp: assemble_inner_def e d)
    next
      case r2: (Inr uuids)
      obtain r3 s3 where a: "obtain_array env (v_name vol) head heng (leg_uris legs2) uuids s2 = (r3, s3)" by fastforce
      show ?thesis
      proof (cases r3)
        case (Inl e3)
        with assms core1 core2 r1 r2 show ?thesis by (auto simp: assemble_inner_def e d a Let_def)
      next
        case r3: (Inr arr)
        show ?thesis
        proof (cases "get_str ''id'' arr")
          case None
          with assms core1 core2 r1 r2 r3 show ?thesis by (auto simp: assemble_inner_def e d a Let_def)
        next
          case (Some i)
          let ?legs = "match_members (leg_uris legs2) (get_array ''members'' arr) legs2"
          have name: "v_name (vol\<lparr>v_legs := legs2\<rparr>) = v_name vol" by simp
          let ?v = "vol\<lparr>v_legs := legs2\<rparr>\<lparr>v_legs := ?legs, v_head := Some head, v_array_id := Some i, v_assembly := Assembled\<rparr>"
          have "fst (assemble_inner env engines head heng vol s) = Inr ()"
            "fst (snd (assemble_inner env engines head heng vol s)) = ?v"
            by (simp_all only: assemble_inner_def e r1 prod.case sum.case d r2 Let_def name a r3 Some option.case fst_conv snd_conv)
          with assms have eq: "r = Inr ()" "vol' = ?v" by (simp_all only: fst_conv snd_conv)
          have "list_all (export_kept ?nqn) legs2"
            using core1 r1 list_all_kept [of legs2 legs1 ?nqn] core2 by simp
          moreover have "map l_drive_uuid ?legs = map Some uuids" using core2 r2 by (simp add: match_members_core)
          ultimately have "list_all (wired ?nqn) ?legs" by (intro wired_all) (simp_all add: match_members_core)
          moreover have "map leg_core ?legs = map leg_core (v_legs vol)" using core1 core2 by (simp add: match_members_core)
          ultimately show ?thesis unfolding eq sum.case
            by simp
        qed
      qed
    qed
  qed
qed

text \<open>Property C20. An assembly, once its checks passed, leaves one of two records. On success the volume is assembled
  with its head on the first leg's node, an array, every leg exported to that head and opened there. On failure
  assembly, head and array are as before, the exports and drives the attempt made are kept on the legs for the retry,
  and the retry is due the cooldown after the attempt ended. Either way the legs' nodes, engine volumes and states are
  those that were read.\<close>

lemma assemble_records:
  assumes "volume name s = Some vol" and "2 \<le> length (v_legs vol)"
    and "list_all (\<lambda>l. l_state l = Created \<and> l_volume_id l \<noteq> None) (v_legs vol)"
    and "leg_registry env (sy_fed s) (v_legs vol) = Inr engines" and "bt_get engines (l_node (hd (v_legs vol))) = Some heng"
    and "assemble_claimed env name s = (r, s')"
  shows "\<exists>v vol' s1. assemble_inner env engines (l_node (hd (v_legs vol))) heng vol s = (r, vol', s1) \<and>
    volume name s' = Some v \<and> map leg_core (v_legs v) = map leg_core (v_legs vol) \<and>
    (case r of
       Inr _ \<Rightarrow> v_assembly v = Assembled \<and> v_head v = Some (l_node (hd (v_legs vol))) \<and> v_array_id v \<noteq> None \<and>
         v_next_assemble_after v = None \<and> list_all (wired (host_nqn_for (en_host_nqn env) (l_node (hd (v_legs vol))))) (v_legs v)
     | Inl _ \<Rightarrow> v_assembly v = v_assembly vol \<and> v_head v = v_head vol \<and> v_array_id v = v_array_id vol \<and>
         v_legs v = v_legs vol' \<and> v_next_assemble_after v = Some (now env s1 + cooldown env))"
proof -
  let ?head = "l_node (hd (v_legs vol))"
  obtain r1 vol' s1 where inner: "assemble_inner env engines ?head heng vol s = (r1, vol', s1)" by (metis prod_cases3)
  have run: "r = r1" "s' = record_assembly env name r1 vol' s1"
    using assms inner
    by (auto simp: assemble_claimed_def list_all_iff list_ex_iff split: if_splits)
  note copy = assemble_inner_copy [OF inner]
  show ?thesis
  proof (cases r1)
    case (Inl e)
    with copy have "vol' = vol\<lparr>v_legs := v_legs vol'\<rparr>" by simp
    then have "v_assembly vol' = v_assembly vol" "v_head vol' = v_head vol" "v_array_id vol' = v_array_id vol"
      by (metis dist_volume.select_convs(7,8,9) dist_volume.surjective dist_volume.update_convs(6))+
    with copy Inl run inner show ?thesis by (simp add: record_assembly_def Let_def)
  next
    case (Inr u)
    with copy run inner show ?thesis by (simp add: record_assembly_def Let_def)
  qed
qed

text \<open>An assembly stores the copy it made when it began. A delete takes no claim, so a volume deleted while
  the assembly waits for an engine is on record again once the assembly ends, whether it succeeded or not.\<close>

lemma assemble_resurrects:
  assumes "volume name s = Some vol" and "2 \<le> length (v_legs vol)"
    and "list_all (\<lambda>l. l_state l = Created \<and> l_volume_id l \<noteq> None) (v_legs vol)"
    and "leg_registry env (sy_fed s) (v_legs vol) = Inr engines" and "bt_get engines (l_node (hd (v_legs vol))) = Some heng"
    and "assemble_inner env engines (l_node (hd (v_legs vol))) heng vol s = (r1, vol1, s1)" and "volume name s1 = None"
    and "assemble_claimed env name s = (r, s')"
  shows "volume name s' \<noteq> None"
proof -
  have "s' = record_assembly env name r1 vol1 s1"
    using assms by (auto simp: assemble_claimed_def list_all_iff list_ex_iff split: if_splits)
  then show ?thesis by (simp add: record_assembly_def Let_def)
qed

subsection \<open>Witnesses\<close>

text \<open>An answer that serves every call of an assembly: an attached leg, an open drive, an array.\<close>

definition wiring_answer :: response where
  "wiring_answer = \<lparr>rs_status = 200, rs_status_text = ''200 OK'', rs_json = Some (JObj
     [(''transport'', JStr ''nvme_tcp''), (''nqn'', JStr ''nqn.t''), (''nsid'', JInt 1),
      (''addresses'', JArr [JObj [(''traddr'', JStr ''10.0.0.1''), (''trsvcid'', JInt 4420)]]),
      (''uuid'', JStr ''d1''), (''id'', JStr ''r1''), (''member_uuid'', JStr ''m9'')])\<rparr>"

definition bare_vol :: dist_volume where
  "bare_vol = wit_vol\<lparr>v_head := None, v_array_id := None, v_assembly := PendingEngineSupport\<rparr>"

lemma bare_checks:
  "volume ''vol'' (small_sys bare_vol) = Some bare_vol" "2 \<le> length (v_legs bare_vol)"
  "list_all (\<lambda>l. l_state l = Created \<and> l_volume_id l \<noteq> None) (v_legs bare_vol)"
  by (simp_all add: small_sys_def bare_vol_def wit_vol_def wit_leg_def)

lemma bare_head: "l_node (hd (v_legs bare_vol)) = ''a''"
  by (simp add: bare_vol_def wit_vol_def wit_leg_def)

lemma bare_registry:
  "leg_registry (small_env r) (sy_fed (small_sys bare_vol)) (v_legs bare_vol) =
     Inr [(''a'', engine_for (small_env r) (small_node ''a'')), (''b'', engine_for (small_env r) (small_node ''b''))]"
  "bt_get [(''a'', engine_for (small_env r) (small_node ''a'')), (''b'', engine_for (small_env r) (small_node ''b''))]
     (l_node (hd (v_legs bare_vol))) = Some (engine_for (small_env r) (small_node ''a''))"
  by (simp_all add: leg_registry_def registered_engine_def small_sys_def bare_vol_def wit_vol_def wit_leg_def bt_collect_def)

lemma wiring_calls:
  "\<exists>att. call (small_env wiring_answer) (\<lambda>wr. attach_leg wr e vid m ep h) s = (Inr att, s)"
  "call (small_env wiring_answer) (\<lambda>wr. add_drive_idempotent wr e path) s = (Inr ''d1'', s)"
  "call (small_env wiring_answer) (\<lambda>wr. list_arrays wr e) s = (Inr [], s)"
  "\<exists>arr. call (small_env wiring_answer) (\<lambda>wr. create_raid1 wr e us) s = (Inr arr, s) \<and> get_str ''id'' arr = Some ''r1''"
  by (simp_all add: call_def small_env_def attempt_def send_def io_ok_def io_err_def ok_or_def attach_leg_def v1_post_def post_json_def
      read_post_def check_refused_def parse_attach_def add_drive_idempotent_def list_arrays_def get_items_def fetch_def
      error_for_status_def body_json_def create_raid1_def admin_post_def admin_send_def wiring_answer_def Let_def)

lemma wiring_exports:
  assumes "\<forall>l \<in> set ls. bt_get engines (l_node l) \<noteq> None \<and> l_volume_id l \<noteq> None"
  shows "\<exists>ls'. export_legs (small_env wiring_answer) engines nqn ls s = (Inr (), ls', s) \<and> list_all (\<lambda>l. l_export l \<noteq> None) ls'"
  using assms
proof (induction ls)
  case (Cons l ls)
  then obtain ls' where "export_legs (small_env wiring_answer) engines nqn ls s = (Inr (), ls', s)"
      "list_all (\<lambda>l. l_export l \<noteq> None) ls'" by auto
  moreover obtain eng vid where "bt_get engines (l_node l) = Some eng" "l_volume_id l = Some vid" using Cons.prems by auto
  moreover obtain att where "call (small_env wiring_answer) (\<lambda>wr. attach_leg wr eng vid (master_or_local l) (l_epoch l) (Some nqn)) s = (Inr att, s)"
    using wiring_calls(1) by blast
  ultimately show ?case by (cases "l_export l") (auto simp: export_kept_def)
qed simp

lemma wiring_drives:
  "list_all (\<lambda>l. l_export l \<noteq> None) ls \<Longrightarrow>
     \<exists>us ls'. open_drives (small_env wiring_answer) head heng ls s = (Inr us, ls', s)"
  by (induction ls) (auto simp: wiring_calls(2))

lemma wiring_completes:
  assumes "\<forall>l \<in> set (v_legs vol). bt_get engines (l_node l) \<noteq> None \<and> l_volume_id l \<noteq> None"
  shows "fst (assemble_inner (small_env wiring_answer) engines head heng vol s) = Inr ()"
proof -
  let ?e = "small_env wiring_answer"
  obtain ls1 where e: "export_legs ?e engines (host_nqn_for (en_host_nqn ?e) head) (v_legs vol) s = (Inr (), ls1, s)"
      and x: "list_all (\<lambda>l. l_export l \<noteq> None) ls1"
    using wiring_exports [OF assms] by blast
  obtain us ls2 where d: "open_drives ?e head heng ls1 s = (Inr us, ls2, s)" using wiring_drives [OF x] by blast
  obtain arr where c: "call ?e (\<lambda>wr. create_raid1 wr heng us) s = (Inr arr, s)" and i: "get_str ''id'' arr = Some ''r1''"
    using wiring_calls(4) by blast
  have a: "obtain_array ?e (v_name (vol\<lparr>v_legs := ls2\<rparr>)) head heng (leg_uris ls2) us s = (Inr arr, s)"
    by (simp add: obtain_array_def wiring_calls(3) c)
  show ?thesis
    by (simp only: assemble_inner_def e prod.case sum.case d Let_def a i option.case fst_conv)
qed

lemma assemble_records_witness:
  "\<exists>v. volume ''vol'' (snd (assemble_claimed (small_env wiring_answer) ''vol'' (small_sys bare_vol))) = Some v \<and> v_assembly v = Assembled"
proof -
  let ?es = "[(''a'', engine_for (small_env wiring_answer) (small_node ''a'')), (''b'', engine_for (small_env wiring_answer) (small_node ''b''))]"
  let ?i = "assemble_inner (small_env wiring_answer) ?es (l_node (hd (v_legs bare_vol)))
    (engine_for (small_env wiring_answer) (small_node ''a'')) bare_vol (small_sys bare_vol)"
  have "fst ?i = Inr ()"
    by (rule wiring_completes) (simp add: bare_vol_def wit_vol_def wit_leg_def)
  moreover have "fst (assemble_claimed (small_env wiring_answer) ''vol'' (small_sys bare_vol)) = fst ?i"
    using bare_checks bare_registry [of wiring_answer]
    by (auto simp: assemble_claimed_def list_all_iff list_ex_iff bare_head Let_def split: prod.split)
  ultimately have ok: "fst (assemble_claimed (small_env wiring_answer) ''vol'' (small_sys bare_vol)) = Inr ()" by simp
  from assemble_records [OF bare_checks bare_registry [of wiring_answer] prod.collapse [symmetric]]
  show ?thesis unfolding ok sum.case by (elim exE conjE) (intro exI conjI, assumption+)
qed

text \<open>An instance where another task deletes the volume while an engine is waited for.\<close>

definition deleting_env :: "unit env" where
  "deleting_env = (small_env empty_answer)\<lparr>en_others := with_fed (\<lambda>fed. fed\<lparr>f_volumes := []\<rparr>)\<rparr>"

lemma assemble_resurrects_witness:
  "volume ''vol'' (snd (assemble_claimed deleting_env ''vol'' (small_sys bare_vol))) \<noteq> None"
proof -
  have reg: "leg_registry deleting_env (sy_fed (small_sys bare_vol)) (v_legs bare_vol) =
     Inr [(''a'', engine_for deleting_env (small_node ''a'')), (''b'', engine_for deleting_env (small_node ''b''))]"
    "bt_get [(''a'', engine_for deleting_env (small_node ''a'')), (''b'', engine_for deleting_env (small_node ''b''))]
     (l_node (hd (v_legs bare_vol))) = Some (engine_for deleting_env (small_node ''a''))"
    by (simp_all add: leg_registry_def registered_engine_def small_sys_def bare_vol_def wit_vol_def wit_leg_def bt_collect_def)
  let ?i = "assemble_inner deleting_env [(''a'', engine_for deleting_env (small_node ''a'')), (''b'', engine_for deleting_env (small_node ''b''))]
    (l_node (hd (v_legs bare_vol))) (engine_for deleting_env (small_node ''a'')) bare_vol (small_sys bare_vol)"
  have "f_volumes (sy_fed (snd (snd ?i))) = []" by code_simp
  then have gone: "volume ''vol'' (snd (snd ?i)) = None" by simp
  have "?i = (fst ?i, fst (snd ?i), snd (snd ?i))" by simp
  from assemble_resurrects [OF bare_checks reg this gone prod.collapse [symmetric]] show ?thesis .
qed

end
