(* ===== verification/Replace.thy ===== *)
theory Replace
  imports Assemble
begin

section \<open>Replacing a leg\<close>

text \<open>
  Models the rest of the wiring of \<open>src/orchestrate.rs\<close>: tearing an assembly down, building a replacement
  leg and undoing it, waiting for its rebuild, finishing a replacement, and deleting orphaned legs. Waiting
  is a loop over the clock that ends when the member is active or failed or has made no progress for the
  stall time; it is a partial function, so that not ending would be the value \<open>None\<close>.
\<close>

subsection \<open>Teardown\<close>

text \<open>The read lock is held throughout, so the nodes are those at the start.\<close>

definition teardown :: "'w env \<Rightarrow> dist_volume \<Rightarrow> 'w sys \<Rightarrow> wiring_error list \<times> 'w sys" where
  "teardown env vol s =
     (let fed = sy_fed s;
          (errs, s) =
        (case (Option.bind (v_head vol) (registered_engine env fed), v_array_id vol) of
           (Some eng, Some array_id) \<Rightarrow>
             (let (r, s) = call env (\<lambda>wr. delete_array wr eng array_id) s;
                  errs = (case r of Inl e \<Rightarrow> [WireStep array_id e] | Inr _ \<Rightarrow> [])
              in foldl (\<lambda>(errs, s) l. case l_export l of
                   None \<Rightarrow> (errs, s)
                 | Some x \<Rightarrow>
                     (case call env (\<lambda>wr. delete_drive wr eng (drive_uri x) True) s of
                        (Inl e, s) \<Rightarrow> (errs @ [WireStep (drive_uri x) e], s)
                      | (Inr _, s) \<Rightarrow> (errs, s))) (errs, s) (all_legs vol))
         | _ \<Rightarrow> ([], s))
      in foldl (\<lambda>(errs, s) l. case (l_volume_id l, l_export l, healthy_engine env fed (l_node l)) of
           (Some vid, Some _, Some eng) \<Rightarrow>
             (case call env (\<lambda>wr. detach_volume wr eng vid (master_or_local l)) s of
                (Inl e, s) \<Rightarrow> (errs @ [WireStep (l_node l) e], s)
              | (Inr _, s) \<Rightarrow> (errs, s))
         | _ \<Rightarrow> (errs, s)) (errs, s) (all_legs vol))"

subsection \<open>Building the new leg\<close>

definition undo_leg :: "'w env \<Rightarrow> engine \<Rightarrow> string \<Rightarrow> engine \<Rightarrow> leg \<Rightarrow> 'w sys \<Rightarrow> 'w sys" where
  "undo_leg env heng array_id teng l s =
     (let s = (case l_member_uuid l of None \<Rightarrow> s | Some m \<Rightarrow> snd (call env (\<lambda>wr. array_remove_member wr heng array_id m) s));
          s = (case l_export l of None \<Rightarrow> s | Some x \<Rightarrow> snd (call env (\<lambda>wr. delete_drive wr heng (drive_uri x) True) s))
      in case (l_volume_id l, l_master_node l) of
           (Some vid, Some master) \<Rightarrow>
             (let s = (if l_export l \<noteq> None then snd (call env (\<lambda>wr. detach_volume wr teng vid master) s) else s)
              in snd (call env (\<lambda>wr. delete_volume wr teng vid) s))
         | _ \<Rightarrow> s)"

definition choose_target :: "'w env \<Rightarrow> fed_state \<Rightarrow> dist_volume \<Rightarrow> string \<Rightarrow> string option \<Rightarrow> wiring_error + string" where
  "choose_target env fed vol from_node to_node =
     (case to_node of
        Some t \<Rightarrow>
          (case bt_get (f_nodes fed) t of
             None \<Rightarrow> Inl (NodeUnknown t)
           | Some n \<Rightarrow>
               if \<not> ns_healthy (n_status n) then Inl (TargetUnhealthy t)
               else if list_ex (\<lambda>l. l_node l = t) (v_legs vol) then Inl (TargetHasLeg t)
               else Inr t)
      | None \<Rightarrow>
          (case plan (move_target_candidates fed (en_rungs env) vol from_node) (en_rungs env) (v_rung vol) 1 (leg_bytes vol) (en_io_weight env) of
             Inl e \<Rightarrow> Inl (NoTarget e)
           | Inr [] \<Rightarrow> Inl VolumeUnknown
           | Inr (t # _) \<Rightarrow> Inr t))"

text \<open>The checks under the read lock: the volume, where its array lives and where the leg goes.\<close>

definition check_replacement ::
  "'w env \<Rightarrow> fed_state \<Rightarrow> string \<Rightarrow> string \<Rightarrow> string option \<Rightarrow> wiring_error + (dist_volume \<times> string \<times> string \<times> engine \<times> engine)" where
  "check_replacement env fed name from_node to_node =
     (case bt_get (f_volumes fed) name of
        None \<Rightarrow> Inl VolumeUnknown
      | Some vol \<Rightarrow>
          if \<not> mirrored vol then Inl NotMovable
          else if v_replacing vol \<noteq> None then Inl ReplacementRunning
          else if \<not> list_ex (\<lambda>l. l_node l = from_node) (v_legs vol) then Inl (NoLegThere from_node)
          else (case v_head vol of
              None \<Rightarrow> Inl HeadNone
            | Some head \<Rightarrow>
                if \<not> healthy_node fed head then Inl (HeadDown head)
                else (case choose_target env fed vol from_node to_node of
                    Inl e \<Rightarrow> Inl e
                  | Inr target \<Rightarrow>
                      (case (registered_engine env fed target, registered_engine env fed head) of
                         (None, _) \<Rightarrow> Inl (NodeUnknown target)
                       | (_, None) \<Rightarrow> Inl (NodeUnknown head)
                       | (Some teng, Some heng) \<Rightarrow> Inr (vol, target, head, teng, heng)))))"

definition new_leg :: "string \<Rightarrow> string \<Rightarrow> string \<Rightarrow> leg" where
  "new_leg target vid master =
     \<lparr>l_node = target, l_volume_id = Some vid, l_state = Created, l_message = Some ''rebuilding'', l_master_node = Some master,
      l_export = None, l_drive_uuid = None, l_member_uuid = None, l_epoch = None\<rparr>"

text \<open>Wiring the new leg: what was done so far is in the leg, also when a step fails.\<close>

definition wire_leg ::
  "'w env \<Rightarrow> dist_volume \<Rightarrow> string \<Rightarrow> string \<Rightarrow> engine \<Rightarrow> engine \<Rightarrow> string \<Rightarrow> string \<Rightarrow> leg \<Rightarrow> 'w sys \<Rightarrow>
     (wiring_error + unit) \<times> leg \<times> 'w sys" where
  "wire_leg env vol head array_id teng heng vid master l s =
     (case call env (\<lambda>wr. attach_leg wr teng vid master None (Some (host_nqn_for (en_host_nqn env) head))) s of
        (Inl e, s) \<Rightarrow> (Inl (WireStep (l_node l) e), l, s)
      | (Inr att, s) \<Rightarrow>
          (let l = l\<lparr>l_export := Some att\<rparr> in
           case call env (\<lambda>wr. add_drive_idempotent wr heng (drive_uri att)) s of
             (Inl e, s) \<Rightarrow> (Inl (WireStep head e), l, s)
           | (Inr drive, s) \<Rightarrow>
               (let l = l\<lparr>l_drive_uuid := Some drive\<rparr>;
                    s = snd (call env (\<lambda>wr. set_rebuild_rate wr heng array_id (rate (en_recovery env) (v_bandwidth_class vol))) s)
                in case call env (\<lambda>wr. array_add_member wr heng array_id drive) s of
                     (Inl e, s) \<Rightarrow> (Inl (WireStep head e), l, s)
                   | (Inr m, s) \<Rightarrow> (Inr (), l\<lparr>l_member_uuid := Some m\<rparr>, s))))"

definition record_replacement :: "'w env \<Rightarrow> string \<Rightarrow> replacement \<Rightarrow> 'w sys \<Rightarrow> 'w sys" where
  "record_replacement env name rep s =
     note_event env ''assemble'' Info name (publish_state env
       (with_fed (\<lambda>fed. bump (on_volume name (\<lambda>v. v\<lparr>v_replacing := Some rep\<rparr>) fed)) s))"

definition build_replacement ::
  "'w env \<Rightarrow> string \<Rightarrow> string \<Rightarrow> string option \<Rightarrow> string \<Rightarrow> 'w sys \<Rightarrow> (wiring_error + string) \<times> 'w sys" where
  "build_replacement env name from_node to_node reason s =
     (case check_replacement env (sy_fed s) name from_node to_node of
        Inl e \<Rightarrow> (Inl e, s)
      | Inr (vol, target, head, teng, heng) \<Rightarrow>
          (case v_array_id vol of
             None \<Rightarrow> (Inl ArrayUnknown, s)
           | Some array_id \<Rightarrow>
               (case call env (\<lambda>wr. create_volume wr teng (v_name vol) (leg_bytes vol) (v_extent_size_bytes vol)) s of
                  (Inl e, s) \<Rightarrow> (Inl (WireStep target e), s)
                | (Inr created, s) \<Rightarrow>
                    (case get_str ''id'' created of
                       None \<Rightarrow> (Inl NoIdReturned, s)
                     | Some vid \<Rightarrow>
                         (let master = unwrap_or (master_node_of created) ''localhost'' in
                          case wire_leg env vol head array_id teng heng vid master (new_leg target vid master) s of
                            (Inl e, l, s) \<Rightarrow> (Inl e, undo_leg env heng array_id teng l s)
                          | (Inr _, l, s) \<Rightarrow>
                              (case volume name s of
                                 None \<Rightarrow> (Inl DeletedMeanwhile, undo_leg env heng array_id teng l s)
                               | Some _ \<Rightarrow>
                                   (Inr target, record_replacement env name
                                      \<lparr>r_from = from_node, r_leg = l, r_reason = reason, r_started_at = now env s\<rparr> s)))))))"

text \<open>Starting a replacement keeps the claim for the task that finishes it.\<close>

definition start_replacement ::
  "'w env \<Rightarrow> string \<Rightarrow> string \<Rightarrow> string option \<Rightarrow> string \<Rightarrow> 'w sys \<Rightarrow> (wiring_error + string) \<times> 'w sys" where
  "start_replacement env name from_node to_node reason s =
     (case claim name s of
        (False, s) \<Rightarrow> (Inl ReplacementRunning, s)
      | (True, s) \<Rightarrow>
          (case build_replacement env name from_node to_node reason s of
             (Inr t, s) \<Rightarrow> (Inr t, s)
           | (Inl e, s) \<Rightarrow> (Inl e, release name s)))"

abbreviation move_leg :: "'w env \<Rightarrow> string \<Rightarrow> string \<Rightarrow> string option \<Rightarrow> 'w sys \<Rightarrow> (wiring_error + string) \<times> 'w sys" where
  "move_leg env name from_node to_node \<equiv> start_replacement env name from_node to_node ''operator move''"

subsection \<open>Waiting for the rebuild\<close>

definition member_progress :: "string \<Rightarrow> json \<Rightarrow> (string \<times> u64 option) option" where
  "member_progress member arr =
     (let m = find (\<lambda>m. get_str ''uuid'' m = Some member) (get_array ''members'' arr) in
      map_option (\<lambda>st. (lowercase st, Option.bind m (get_u64 ''rebuilt_bytes''))) (Option.bind m (get_str ''state'')))"

definition tick :: "duration \<Rightarrow> duration" where
  "tick stall = max 100000000 (min 3000000000 (stall div 4))"

definition sleep :: "'w env \<Rightarrow> duration \<Rightarrow> 'w sys \<Rightarrow> 'w sys" where
  "sleep env d s = en_others env (s\<lparr>sy_world := en_sleep env d (sy_world s)\<rparr>)"

record waiting =
  wt_deadline :: time
  wt_last_put :: time
  wt_seen :: "(string \<times> u64 option) option"

definition put_rate :: "'w env \<Rightarrow> string \<Rightarrow> engine \<Rightarrow> string \<Rightarrow> waiting \<Rightarrow> 'w sys \<Rightarrow> waiting \<times> 'w sys" where
  "put_rate env name eng array_id wt s =
     (if now env s - wt_last_put wt \<ge> secs 60 then
        (let s = (case volume name s of
                    None \<Rightarrow> s
                  | Some v \<Rightarrow> snd (call env (\<lambda>wr. set_rebuild_rate wr eng array_id (rate (en_recovery env) (v_bandwidth_class v))) s))
         in (wt\<lparr>wt_last_put := now env s\<rparr>, s))
      else (wt, s))"

text \<open>One turn: the outcome, or the state to go on with.\<close>

definition wait_turn ::
  "'w env \<Rightarrow> string \<Rightarrow> engine \<Rightarrow> string \<Rightarrow> string \<Rightarrow> duration \<Rightarrow> waiting \<Rightarrow> 'w sys \<Rightarrow> (bool + waiting) \<times> 'w sys" where
  "wait_turn env name eng array_id member stall wt s =
     (let (r, s) = call env (\<lambda>wr. get_raid_array wr eng array_id) s;
          seen = (case r of Inl _ \<Rightarrow> None | Inr arr \<Rightarrow> member_progress member arr)
      in if map_option fst seen = Some ''active'' then (Inl True, s)
         else if map_option fst seen = Some ''failed'' then (Inl False, s)
         else
           (let wt = (if seen \<noteq> None \<and> seen \<noteq> wt_seen wt then wt\<lparr>wt_deadline := now env s + stall, wt_seen := seen\<rparr> else wt)
            in if now env s > wt_deadline wt then (Inl False, s)
               else (let (wt, s) = put_rate env name eng array_id wt s in (Inr wt, sleep env (tick stall) s))))"

partial_function (option) wait_loop ::
  "'w env \<Rightarrow> string \<Rightarrow> engine \<Rightarrow> string \<Rightarrow> string \<Rightarrow> duration \<Rightarrow> waiting \<Rightarrow> 'w sys \<Rightarrow> (bool \<times> 'w sys) option" where
  "wait_loop env name eng array_id member stall wt s =
     (case wait_turn env name eng array_id member stall wt s of
        (Inl b, s) \<Rightarrow> Some (b, s)
      | (Inr wt, s) \<Rightarrow> wait_loop env name eng array_id member stall wt s)"

definition wait_member_active ::
  "'w env \<Rightarrow> string \<Rightarrow> engine \<Rightarrow> string \<Rightarrow> string \<Rightarrow> duration \<Rightarrow> 'w sys \<Rightarrow> (bool \<times> 'w sys) option" where
  "wait_member_active env name eng array_id member stall s =
     wait_loop env name eng array_id member stall \<lparr>wt_deadline = now env s + stall, wt_last_put = now env s, wt_seen = None\<rparr> s"

subsection \<open>Finishing\<close>

definition rebuild_failed :: "'w env \<Rightarrow> string \<Rightarrow> 'w sys \<Rightarrow> 'w sys" where
  "rebuild_failed env name s =
     note_event env ''assemble'' Error name (publish_state env (with_fed (\<lambda>fed. bump (on_volume name
       (\<lambda>v. v\<lparr>v_replacing := None, v_next_releg_after := Some (now env s + cooldown env)\<rparr>) fed)) s))"

text \<open>Retiring the old leg: whether anything is left to clean up, and the orphan to record.\<close>

definition retire_leg ::
  "'w env \<Rightarrow> string \<Rightarrow> engine \<Rightarrow> string \<Rightarrow> replacement \<Rightarrow> leg \<Rightarrow> 'w sys \<Rightarrow> bool \<times> orphan option \<times> 'w sys" where
  "retire_leg env name heng array_id rep old s =
     (let (n1, s) = (case l_member_uuid old of
            None \<Rightarrow> (False, s)
          | Some m \<Rightarrow> (case call env (\<lambda>wr. array_remove_member wr heng array_id m) s of (r, s) \<Rightarrow> (isl r, s)));
          (n2, s) = (case l_export old of
            None \<Rightarrow> (False, s)
          | Some x \<Rightarrow> (case call env (\<lambda>wr. delete_drive wr heng (drive_uri x) True) s of (r, s) \<Rightarrow> (isl r, s)))
      in case l_volume_id old of
           None \<Rightarrow> (n1 \<or> n2, None, s)
         | Some vid \<Rightarrow>
             (let (deleted, s) = (case healthy_engine env (sy_fed s) (r_from rep) of
                    None \<Rightarrow> (False, s)
                  | Some eng \<Rightarrow>
                      (let s = snd (call env (\<lambda>wr. detach_volume wr eng vid (master_or_local old)) s)
                       in case call env (\<lambda>wr. delete_volume wr eng vid) s of (r, s) \<Rightarrow> (\<not> isl r, s)))
              in (n1 \<or> n2 \<or> \<not> deleted,
                  if deleted then None
                  else Some \<lparr>o_node = r_from rep, o_volume_id = vid, o_master_node = l_master_node old, o_of_volume = name,
                    o_reason = r_reason rep, o_since = now env s\<rparr>, s)))"

definition add_orphan :: "orphan option \<Rightarrow> fed_state \<Rightarrow> fed_state" where
  "add_orphan x fed = (case x of None \<Rightarrow> fed | Some o1 \<Rightarrow> fed\<lparr>f_orphans := f_orphans fed @ [o1]\<rparr>)"

definition replaced :: "replacement \<Rightarrow> dist_volume \<Rightarrow> dist_volume" where
  "replaced rep v =
     (let nl = (r_leg rep)\<lparr>l_message := None\<rparr>;
          legs = (if list_ex (\<lambda>l. l_node l = r_from rep) (v_legs v)
                  then update_first (\<lambda>l. l_node l = r_from rep) (\<lambda>_. nl) (v_legs v) else v_legs v @ [nl])
      in v\<lparr>v_legs := legs, v_replacing := None, v_next_releg_after := None,
           v_assembly := (if list_ex (\<lambda>l. l_state l = Lost) legs then Degraded else Assembled)\<rparr>)"

definition retire_old ::
  "'w env \<Rightarrow> string \<Rightarrow> engine \<Rightarrow> string \<Rightarrow> replacement \<Rightarrow> 'w sys \<Rightarrow> bool \<times> orphan option \<times> 'w sys" where
  "retire_old env name heng array_id rep s =
     (case Option.bind (volume name s) (\<lambda>v. find (\<lambda>l. l_node l = r_from rep) (v_legs v)) of
        None \<Rightarrow> (False, None, s)
      | Some old \<Rightarrow> retire_leg env name heng array_id rep old s)"

definition rebuild_done :: "'w env \<Rightarrow> string \<Rightarrow> engine \<Rightarrow> string \<Rightarrow> replacement \<Rightarrow> 'w sys \<Rightarrow> 'w sys" where
  "rebuild_done env name heng array_id rep s =
     (case retire_old env name heng array_id rep s of
        (notes, orph, s) \<Rightarrow>
          note_event env ''assemble'' (if notes then Warning else Info) name (publish_state env
            (with_fed (\<lambda>fed. bump (on_volume name (replaced rep) (add_orphan orph fed))) s)))"

definition finish_inner :: "'w env \<Rightarrow> string \<Rightarrow> 'w sys \<Rightarrow> 'w sys option" where
  "finish_inner env name s =
     (case volume name s of
        None \<Rightarrow> Some s
      | Some vol \<Rightarrow>
          (case (v_replacing vol, v_head vol, v_array_id vol) of
             (Some rep, Some head, Some array_id) \<Rightarrow>
               (case (registered_engine env (sy_fed s) head, registered_engine env (sy_fed s) (l_node (r_leg rep))) of
                  (Some heng, Some teng) \<Rightarrow>
                    map_option (\<lambda>(ok, s).
                        if ok then rebuild_done env name heng array_id rep s
                        else rebuild_failed env name (undo_leg env heng array_id teng (r_leg rep) s))
                      (wait_member_active env name heng array_id (unwrap_or (l_member_uuid (r_leg rep)) [])
                         (from_secs (max (rc_rebuild_timeout_secs (en_recovery env)) 1)) s)
                | _ \<Rightarrow> Some s)
           | _ \<Rightarrow> Some s))"

definition finish_replacement :: "'w env \<Rightarrow> string \<Rightarrow> 'w sys \<Rightarrow> 'w sys option" where
  "finish_replacement env name s = map_option (release name) (finish_inner env name s)"

subsection \<open>Orphans\<close>

definition reap_orphan :: "'w env \<Rightarrow> 'w sys \<Rightarrow> orphan \<times> engine \<Rightarrow> 'w sys" where
  "reap_orphan env s due =
     (let (orph, eng) = due;
          s = snd (call env (\<lambda>wr. detach_volume wr eng (o_volume_id orph) (unwrap_or (o_master_node orph) ''localhost'')) s)
      in case call env (\<lambda>wr. delete_volume wr eng (o_volume_id orph)) s of
           (Inl _, s) \<Rightarrow> s
         | (Inr _, s) \<Rightarrow>
             note_event env ''assemble'' Info (o_of_volume orph) (publish_state env (with_fed (\<lambda>fed. bump (fed\<lparr>f_orphans :=
               filter (\<lambda>x. \<not> (o_node x = o_node orph \<and> o_volume_id x = o_volume_id orph)) (f_orphans fed)\<rparr>)) s)))"

definition reap_orphans :: "'w env \<Rightarrow> 'w sys \<Rightarrow> 'w sys" where
  "reap_orphans env s =
     foldl (reap_orphan env) s
       (List.map_filter (\<lambda>x. map_option (Pair x) (healthy_engine env (sy_fed s) (o_node x))) (f_orphans (sy_fed s)))"

subsection \<open>Waiting ends\<close>

text \<open>What the wait relies on: the clock does not run backwards, sleeping takes its time, and the bytes the
  rebuild has left never grow.\<close>

definition clock_runs :: "'w env \<Rightarrow> bool" where
  "clock_runs env \<longleftrightarrow>
     (\<forall>q w. en_now env w \<le> en_now env (snd (wi_send (en_wire env) q w))) \<and>
     (\<forall>s. en_now env (sy_world s) \<le> en_now env (sy_world (en_others env s))) \<and>
     (\<forall>d w. en_now env w + d \<le> en_now env (en_sleep env d w))"

definition never_grows :: "'w env \<Rightarrow> ('w \<Rightarrow> nat) \<Rightarrow> bool" where
  "never_grows env left \<longleftrightarrow>
     (\<forall>q w. left (snd (wi_send (en_wire env) q w)) \<le> left w) \<and>
     (\<forall>s. left (sy_world (en_others env s)) \<le> left (sy_world s)) \<and>
     (\<forall>d w. left (en_sleep env d w) \<le> left w)"

text \<open>A measurement that only grows in one order over every outside step; the clock and, downwards, the bytes
  left are two.\<close>

definition outside_monotone :: "'w env \<Rightarrow> ('w \<Rightarrow> 'w \<Rightarrow> bool) \<Rightarrow> bool" where
  "outside_monotone env le \<longleftrightarrow> transp le \<and> reflp le \<and>
     (\<forall>q w. le w (snd (wi_send (en_wire env) q w))) \<and> (\<forall>s. le (sy_world s) (sy_world (en_others env s)))"

lemma send_world: "snd (send wr q w) = snd (wi_send wr q w)"
  by (auto simp: send_def split: prod.splits sum.splits)

lemma fetch_world: "snd (fetch wr e path w) = snd (wi_send wr (get e path) w)"
  using send_world [of wr "get e path" w]
  by (auto simp: fetch_def attempt_def error_for_status_def body_json_def io_ok_def io_err_def ok_or_def
      split: prod.splits sum.splits option.splits)

lemma rate_world: "snd (set_rebuild_rate wr e a r w) = snd (wi_send wr (with_body (req e PUT (''/api/v1/arrays/'' @ a @ ''/rebuild''))
    (JObj [(''max_bytes_per_sec'', num r)])) w)"
  using send_world [of wr "with_body (req e PUT (''/api/v1/arrays/'' @ a @ ''/rebuild'')) (JObj [(''max_bytes_per_sec'', num r)])" w]
  by (auto simp: set_rebuild_rate_def Let_def attempt_def check_refused_def io_ok_def io_err_def split: prod.splits sum.splits if_splits)

lemma call_world: "sy_world (snd (call env m s)) = sy_world (en_others env (s\<lparr>sy_world := snd (m (en_wire env) (sy_world s))\<rparr>))"
  by (simp add: call_def split: prod.splits)

lemma call_monotone:
  assumes "outside_monotone env le" and "\<And>w. \<exists>q. snd (m (en_wire env) w) = snd (wi_send (en_wire env) q w)"
  shows "le (sy_world s) (sy_world (snd (call env m s)))"
proof -
  let ?w = "snd (m (en_wire env) (sy_world s))"
  have "le (sy_world s) ?w" using assms(1) assms(2) [of "sy_world s"] by (auto simp: outside_monotone_def)
  moreover have "le (sy_world (s\<lparr>sy_world := ?w\<rparr>)) (sy_world (en_others env (s\<lparr>sy_world := ?w\<rparr>)))"
    using assms(1) unfolding outside_monotone_def by blast
  ultimately have "le ?w (sy_world (snd (call env m s)))" "le (sy_world s) ?w" unfolding call_world by simp_all
  then show ?thesis using assms(1) unfolding outside_monotone_def by (meson transpD)
qed

lemma get_raid_array_monotone: "outside_monotone env le \<Longrightarrow> le (sy_world s) (sy_world (snd (call env (\<lambda>wr. get_raid_array wr e a) s)))"
  by (rule call_monotone) (auto simp: get_raid_array_def fetch_world)

lemma put_rate_monotone:
  assumes "outside_monotone env le"
  shows "le (sy_world s) (sy_world (snd (put_rate env name e a wt s)))"
proof -
  have refl: "le w w" for w using assms by (auto simp: outside_monotone_def reflp_def)
  have "le (sy_world s) (sy_world (snd (call env (\<lambda>wr. set_rebuild_rate wr e a r) s)))" for r
    by (rule call_monotone [OF assms]) (metis rate_world)
  then show ?thesis by (auto simp: put_rate_def Let_def refl split: option.splits)
qed

lemma put_rate_waiting: "wt_deadline (fst (put_rate env name e a wt s)) = wt_deadline wt \<and> wt_seen (fst (put_rate env name e a wt s)) = wt_seen wt"
  by (simp add: put_rate_def Let_def split: option.splits)

text \<open>What a reading of the member relies on: while it is readable, it is determined by the bytes left.\<close>

definition reads_bytes_left :: "'w env \<Rightarrow> engine \<Rightarrow> string \<Rightarrow> string \<Rightarrow> ('w \<Rightarrow> nat) \<Rightarrow> (nat \<Rightarrow> string \<times> u64 option) \<Rightarrow> bool" where
  "reads_bytes_left env eng array_id member left g \<longleftrightarrow>
     (\<forall>w arr w'. get_raid_array (en_wire env) eng array_id w = (Inr arr, w') \<longrightarrow>
        member_progress member arr \<in> {None, Some (g (left w'))})"

lemma clock_monotone: "clock_runs env \<Longrightarrow> outside_monotone env (\<lambda>w w'. en_now env w \<le> en_now env w')"
  by (auto simp: clock_runs_def outside_monotone_def transp_def reflp_def)

lemma left_monotone: "never_grows env left \<Longrightarrow> outside_monotone env (\<lambda>w w'. left w' \<le> left w)"
  by (auto simp: never_grows_def outside_monotone_def transp_def reflp_def)

lemma tick_pos: "0 < tick d"
  by (simp add: tick_def)

lemma reading_left:
  assumes "never_grows env left" and "reads_bytes_left env eng array_id member left g"
    and "call env (\<lambda>wr. get_raid_array wr eng array_id) s = (Inr arr, s1)" and "member_progress member arr = Some p"
  shows "\<exists>k. p = g k \<and> left (sy_world s1) \<le> k \<and> k \<le> left (sy_world s)"
proof -
  obtain w' where w': "get_raid_array (en_wire env) eng array_id (sy_world s) = (Inr arr, w')" "s1 = en_others env (s\<lparr>sy_world := w'\<rparr>)"
    using assms(3) by (auto simp: call_def split: prod.splits)
  have "p = g (left w')" using assms(2,4) w'(1) unfolding reads_bytes_left_def by fastforce
  moreover have "left w' \<le> left (sy_world s)"
    using assms(1) fetch_world [of "en_wire env" eng "''/api/v1/arrays/'' @ array_id" "sy_world s"] w'(1)
    by (simp add: never_grows_def get_raid_array_def)
  moreover have "left (sy_world s1) \<le> left (sy_world (s\<lparr>sy_world := w'\<rparr>))"
    using assms(1) unfolding w'(2) never_grows_def by blast
  ultimately show ?thesis by auto
qed

lemma turn_goes_on:
  assumes run: "clock_runs env" and left: "never_grows env left" and read: "reads_bytes_left env eng array_id member left g"
    and turn: "wait_turn env name eng array_id member stall wt s = (Inr wt', s')"
  shows "now env s < now env s' \<and> now env s \<le> wt_deadline wt' \<and> left (sy_world s') \<le> left (sy_world s) \<and>
    ((wt_seen wt' = wt_seen wt \<and> wt_deadline wt' = wt_deadline wt) \<or>
     (\<exists>k. wt_seen wt' = Some (g k) \<and> wt_seen wt \<noteq> Some (g k) \<and> left (sy_world s') \<le> k \<and> k \<le> left (sy_world s)))"
proof -
  obtain r s1 where c: "call env (\<lambda>wr. get_raid_array wr eng array_id) s = (r, s1)" by fastforce
  define seen where "seen = (case r of Inl _ \<Rightarrow> None | Inr arr \<Rightarrow> member_progress member arr)"
  define w1 where "w1 = (if seen \<noteq> None \<and> seen \<noteq> wt_seen wt then wt\<lparr>wt_deadline := now env s1 + stall, wt_seen := seen\<rparr> else wt)"
  obtain w2 s2 where pr: "put_rate env name eng array_id w1 s1 = (w2, s2)" by fastforce
  have run2: "\<not> now env s1 > wt_deadline w1" "wt' = w2" "s' = sleep env (tick stall) s2"
    using turn unfolding wait_turn_def c Let_def prod.case seen_def [symmetric] w1_def [symmetric] pr
    by (simp_all split: if_split_asm)
  have keep: "wt_deadline wt' = wt_deadline w1" "wt_seen wt' = wt_seen w1"
    using put_rate_waiting [where env = env and name = name and e = eng and a = array_id and wt = w1 and s = s1] by (simp_all add: pr run2)
  have t1: "now env s \<le> now env s1" and l1: "left (sy_world s1) \<le> left (sy_world s)"
    using get_raid_array_monotone [OF clock_monotone [OF run], where s = s and e = eng and a = array_id]
      get_raid_array_monotone [OF left_monotone [OF left], where s = s and e = eng and a = array_id] by (simp_all add: c now_def)
  have t2: "now env s1 \<le> now env s2" and l2: "left (sy_world s2) \<le> left (sy_world s1)"
    using put_rate_monotone [OF clock_monotone [OF run], where s = s1 and name = name and e = eng and a = array_id and wt = w1]
      put_rate_monotone [OF left_monotone [OF left], where s = s1 and name = name and e = eng and a = array_id and wt = w1] by (simp_all add: pr now_def)
  let ?s3 = "s2\<lparr>sy_world := en_sleep env (tick stall) (sy_world s2)\<rparr>"
  have "now env s2 + tick stall \<le> now env ?s3" "left (sy_world ?s3) \<le> left (sy_world s2)"
    using run left by (simp_all add: clock_runs_def never_grows_def now_def)
  moreover have "now env ?s3 \<le> now env (en_others env ?s3)" "left (sy_world (en_others env ?s3)) \<le> left (sy_world ?s3)"
    using run left unfolding clock_runs_def never_grows_def now_def by blast+
  ultimately have t3: "now env s2 < now env s'" and l3: "left (sy_world s') \<le> left (sy_world s2)"
    using tick_pos [of stall] unfolding run2(3) sleep_def by linarith+
  have "(wt_seen w1 = wt_seen wt \<and> wt_deadline w1 = wt_deadline wt) \<or>
      (\<exists>k. wt_seen w1 = Some (g k) \<and> wt_seen wt \<noteq> Some (g k) \<and> left (sy_world s') \<le> k \<and> k \<le> left (sy_world s))"
  proof (cases "seen \<noteq> None \<and> seen \<noteq> wt_seen wt")
    case True
    then obtain arr p where p: "r = Inr arr" "member_progress member arr = Some p" "seen = Some p"
      by (cases r) (auto simp: seen_def)
    from reading_left [OF left read c [unfolded p(1)] p(2)] obtain k where
      "p = g k" "left (sy_world s1) \<le> k" "k \<le> left (sy_world s)" by blast
    with True p l2 l3 show ?thesis by (auto simp: w1_def)
  qed (auto simp: w1_def)
  then show ?thesis using keep t1 t2 t3 l1 l2 l3 run2(1) by auto
qed

text \<open>The order the waiting states go down in: the bytes last seen left, then the time to the deadline.\<close>

lemma wait_loop_returns:
  assumes run: "clock_runs env" and left: "never_grows env left" and read: "reads_bytes_left env eng array_id member left g"
  shows "(wt_seen wt = None \<and> left (sy_world s) < n) \<or> (\<exists>k. wt_seen wt = Some (g k) \<and> left (sy_world s) \<le> k \<and> k \<le> n) \<Longrightarrow>
    \<exists>b s'. wait_loop env name eng array_id member stall wt s = Some (b, s')"
proof (induction n arbitrary: wt s rule: less_induct)
  case outer: (less n)
  from outer.prems show ?case
  proof (induction "wt_deadline wt + 1 - now env s" arbitrary: wt s rule: less_induct)
    case inner: less
    obtain x s1 where turn: "wait_turn env name eng array_id member stall wt s = (x, s1)" by fastforce
    show ?case
    proof (cases x)
      case (Inl b)
      then show ?thesis using turn by (subst wait_loop.simps) simp
    next
      case (Inr wt1)
      note on = turn_goes_on [OF run left read turn [unfolded Inr]]
      have "\<exists>b s'. wait_loop env name eng array_id member stall wt1 s1 = Some (b, s')"
      proof (cases "wt_seen wt1 = wt_seen wt \<and> wt_deadline wt1 = wt_deadline wt")
        case True
        have "wt_deadline wt1 + 1 - now env s1 < wt_deadline wt + 1 - now env s" using on True by linarith
        moreover have "(wt_seen wt1 = None \<and> left (sy_world s1) < n) \<or>
            (\<exists>k. wt_seen wt1 = Some (g k) \<and> left (sy_world s1) \<le> k \<and> k \<le> n)"
          using inner.prems on True by (auto intro: order_trans)
        ultimately show ?thesis by (rule inner.hyps)
      next
        case False
        with on obtain k where k: "wt_seen wt1 = Some (g k)" "wt_seen wt \<noteq> Some (g k)" "left (sy_world s1) \<le> k" "k \<le> left (sy_world s)"
          by blast
        have "k < n" using inner.prems k by (auto simp: le_less)
        moreover have "\<exists>k'. wt_seen wt1 = Some (g k') \<and> left (sy_world s1) \<le> k' \<and> k' \<le> k" using k by blast
        ultimately show ?thesis using outer.IH by blast
      qed
      then show ?thesis using turn Inr by (subst wait_loop.simps) simp
    qed
  qed
qed

text \<open>Property C17. Waiting for a rebuild ends: when the clock runs, sleeping takes its time, and what the engine
  reports of the member is determined by the bytes left to rebuild, which never grow, the wait returns. A
  rebuild that stops making progress is given up after the stall time, whatever else engines answer.\<close>

theorem wait_ends:
  assumes "clock_runs env" and "never_grows env left" and "reads_bytes_left env eng array_id member left g"
  shows "\<exists>b s'. wait_member_active env name eng array_id member stall s = Some (b, s')"
  unfolding wait_member_active_def
  by (rule wait_loop_returns [OF assms, where n = "Suc (left (sy_world s))"]) simp

subsection \<open>What the steps leave alone\<close>

lemma quiet_sleep: "quiet env g \<Longrightarrow> g (sleep env d s) = g s"
  by (simp add: sleep_def quiet_def)

lemma quiet_persist:
  "quiet env g \<Longrightarrow> g (persist env s) = g s" "quiet env g \<Longrightarrow> g (push_to_peers env s) = g s"
  by (simp_all add: persist_def push_to_peers_def quiet_def)

lemma quiet_put_rate: "quiet env g \<Longrightarrow> g (snd (put_rate env name e a wt s)) = g s"
  by (simp add: put_rate_def Let_def call_quiet split: option.splits)

lemma quiet_turn: "quiet env g \<Longrightarrow> g (snd (wait_turn env name e a m stall wt s)) = g s"
  by (auto simp: wait_turn_def Let_def quiet_sleep call_quiet split: prod.split sum.split)
    (metis call_quiet_eq quiet_put_rate snd_conv)+

lemma wait_loop_quiet:
  assumes q: "quiet env g"
  shows "wait_loop env name e a m stall wt s = Some (b, s') \<Longrightarrow> g s' = g s"
proof -
  have step: "env' = env \<longrightarrow> g (snd y) = g s"
    if ih: "\<And>env' n e a m st wt s y. loop env' n e a m st wt s = Some y \<Longrightarrow> env' = env \<longrightarrow> g (snd y) = g s"
      and eq: "(case wait_turn env' n e a m st wt s of
        (Inl b, s) \<Rightarrow> Some (b, s) | (Inr wt, s) \<Rightarrow> loop env' n e a m st wt s) = Some y" for loop env' n e a m st wt s y
  proof
    assume env: "env' = env"
    obtain x s1 where t: "wait_turn env n e a m st wt s = (x, s1)" by fastforce
    have "g s1 = g s" using quiet_turn [OF q, of n e a m st wt s] t by simp
    with eq t env show "g (snd y) = g s" by (cases x) (auto dest: ih)
  qed
  assume "wait_loop env name e a m stall wt s = Some (b, s')"
  then have "env = env \<longrightarrow> g (snd (b, s')) = g s"
    by (rule wait_loop.raw_induct [where P = "\<lambda>env' n e a m st wt s y. env' = env \<longrightarrow> g (snd y) = g s", rotated]) (rule step)
  then show "g s' = g s" by simp
qed

text \<open>What a wait that succeeds has read last.\<close>

definition member_seen_active :: "'w env \<Rightarrow> engine \<Rightarrow> string \<Rightarrow> string \<Rightarrow> 'w sys \<Rightarrow> bool" where
  "member_seen_active env eng array_id member s \<longleftrightarrow>
     (\<exists>s1 arr. call env (\<lambda>wr. get_raid_array wr eng array_id) s1 = (Inr arr, s) \<and>
        map_option fst (member_progress member arr) = Some ''active'')"

lemma turn_active:
  assumes "wait_turn env name e a m stall wt s = (Inl True, s')"
  shows "member_seen_active env e a m s'"
proof -
  obtain r s1 where c: "call env (\<lambda>wr. get_raid_array wr e a) s = (r, s1)" by fastforce
  let ?seen = "case r of Inl _ \<Rightarrow> None | Inr arr \<Rightarrow> member_progress m arr"
  have "map_option fst ?seen = Some ''active'' \<and> s' = s1"
    using assms unfolding wait_turn_def c Let_def prod.case by (simp split: if_split_asm prod.splits)
  with c show ?thesis by (cases r) (auto simp: member_seen_active_def)
qed

lemma wait_loop_active:
  "wait_loop env name e a m stall wt s = Some (True, s') \<Longrightarrow> member_seen_active env e a m s'"
proof -
  have step: "fst y \<longrightarrow> member_seen_active env e a m (snd y)"
    if ih: "\<And>env n e a m st wt s y. loop env n e a m st wt s = Some y \<Longrightarrow> fst y \<longrightarrow> member_seen_active env e a m (snd y)"
      and eq: "(case wait_turn env n e a m st wt s of
        (Inl b, s) \<Rightarrow> Some (b, s) | (Inr wt, s) \<Rightarrow> loop env n e a m st wt s) = Some y" for loop env n e a m st wt s y
  proof
    assume y: "fst y"
    obtain x s1 where t: "wait_turn env n e a m st wt s = (x, s1)" by fastforce
    with eq y ih show "member_seen_active env e a m (snd y)" by (cases x) (auto dest: turn_active)
  qed
  assume "wait_loop env name e a m stall wt s = Some (True, s')"
  then have "fst (True, s') \<longrightarrow> member_seen_active env e a m (snd (True, s'))"
    by (rule wait_loop.raw_induct [where P = "\<lambda>env n e a m st wt s y. fst y \<longrightarrow> member_seen_active env e a m (snd y)", rotated]) (rule step)
  then show "member_seen_active env e a m s'" by simp
qed

subsection \<open>Outcomes\<close>

lemma quiet_undo: "quiet env g \<Longrightarrow> g (undo_leg env heng aid teng l s) = g s"
  by (simp add: undo_leg_def Let_def call_quiet split: option.splits)

lemma quiet_retire:
  assumes q: "quiet env g" and r: "retire_leg env name heng aid rep old s = (n, orph, s')"
  shows "g s' = g s"
  using r unfolding retire_leg_def
  by (auto simp: Let_def call_quiet [OF q] split: option.splits prod.splits dest!: call_quiet_eq [OF q])

lemma not_isl_unit: "\<not> isl (r :: 'e + unit) \<longleftrightarrow> r = Inr ()"
  by (cases r) auto

text \<open>A leg that leaves its volume is never forgotten: when an old leg with an engine volume is retired,
  its engine accepted the delete, or an orphan naming that node and engine volume is recorded.\<close>

theorem old_leg_accounted:
  assumes "retire_leg env name heng array_id rep old s = (n, orph, s')" and "l_volume_id old = Some vid"
  shows "(\<exists>eng s1 s2. call env (\<lambda>wr. delete_volume wr eng vid) s1 = (Inr (), s2)) \<and> orph = None \<or>
    (\<exists>o1. orph = Some o1 \<and> o_node o1 = r_from rep \<and> o_volume_id o1 = vid \<and> o_of_volume o1 = name \<and> n)"
  using assms unfolding retire_leg_def
  by (auto simp: Let_def not_isl_unit split: option.splits prod.splits if_splits)

lemma quiet_retire_old:
  "quiet env g \<Longrightarrow> retire_old env name heng aid rep s = (n, orph, s') \<Longrightarrow> g s' = g s"
  by (auto simp: retire_old_def dest: quiet_retire split: option.splits)

lemma volume_publish_state [simp]: "volume name (publish_state env s) = volume name s"
  by (simp add: persist_def push_to_peers_def)

text \<open>Property C16. A replacement ends one of two ways. The new leg takes the old one's place only after the head's
  engine reported its member active; otherwise the volume keeps the legs it had and the next replacement waits
  for the cooldown. Either way nothing is being replaced any more.\<close>

theorem replacement_outcome:
  assumes "quiet env (volume name)" and "volume name s = Some vol"
    and "v_replacing vol = Some rep" and "v_head vol = Some hn" and "v_array_id vol = Some aid"
    and "registered_engine env (sy_fed s) hn = Some heng" and "registered_engine env (sy_fed s) (l_node (r_leg rep)) = Some teng"
    and "finish_replacement env name s = Some s'"
  shows "\<exists>v. volume name s' = Some v \<and> v_replacing v = None \<and>
    ((\<exists>s1. member_seen_active env heng aid (unwrap_or (l_member_uuid (r_leg rep)) []) s1) \<and> v = replaced rep vol \<or>
     v_legs v = v_legs vol \<and> v_assembly v = v_assembly vol \<and> is_some_and (v_next_releg_after v) (\<lambda>t. cooldown env \<le> t))"
proof -
  let ?stall = "from_secs (max (rc_rebuild_timeout_secs (en_recovery env)) 1)"
  let ?m = "unwrap_or (l_member_uuid (r_leg rep)) []"
  obtain ok s1 where w: "wait_member_active env name heng aid ?m ?stall s = Some (ok, s1)"
      and s': "s' = release name (if ok then rebuild_done env name heng aid rep s1
        else rebuild_failed env name (undo_leg env heng aid teng (r_leg rep) s1))"
    using assms(2-8) by (auto simp: finish_replacement_def finish_inner_def)
  have v1: "volume name s1 = Some vol"
    using wait_loop_quiet [OF assms(1) w [unfolded wait_member_active_def]] assms(2) by simp
  show ?thesis
  proof (cases ok)
    case True
    obtain n orph s2 where r: "retire_old env name heng aid rep s1 = (n, orph, s2)" by (metis prod_cases3)
    have v2: "volume name s2 = Some vol" using quiet_retire_old [OF assms(1) r] v1 by simp
    have "f_volumes (add_orphan orph fed) = f_volumes fed" for fed by (simp add: add_orphan_def split: option.split)
    then have "volume name s' = Some (replaced rep vol)"
      unfolding s' using True v2 by (simp add: rebuild_done_def r persist_def push_to_peers_def)
    moreover have "\<exists>s1. member_seen_active env heng aid ?m s1"
      using wait_loop_active [OF w [unfolded wait_member_active_def eqTrueI [OF True]]] by blast
    moreover have "v_replacing (replaced rep vol) = None" by (simp add: replaced_def Let_def)
    ultimately show ?thesis by blast
  next
    case False
    have "volume name (undo_leg env heng aid teng (r_leg rep) s1) = Some vol" using quiet_undo [OF assms(1)] v1 by simp
    then show ?thesis unfolding s' using False by (simp add: rebuild_failed_def persist_def push_to_peers_def)
  qed
qed

text \<open>A rebuild that fails is undone without recording what could not be undone: when the engine of the new
  leg refuses or cannot be reached, the new leg's engine volume is named by no leg, no replacement and no orphan
  any more, so nothing will ever delete it.\<close>

theorem undone_leg_forgotten:
  assumes "quiet env sy_fed" and "volume name s = Some vol"
    and "v_replacing vol = Some rep" and "v_head vol = Some hn" and "v_array_id vol = Some aid"
    and "registered_engine env (sy_fed s) hn = Some heng" and "registered_engine env (sy_fed s) (l_node (r_leg rep)) = Some teng"
    and "l_volume_id (r_leg rep) = Some vid"
    and "\<And>s. isl (fst (call env (\<lambda>wr. delete_volume wr teng vid) s))"
    and "wait_member_active env name heng aid (unwrap_or (l_member_uuid (r_leg rep)) [])
      (from_secs (max (rc_rebuild_timeout_secs (en_recovery env)) 1)) s = Some (False, s1)"
    and "vid \<notin> Option.these (l_volume_id ` set (v_legs vol))" and "vid \<notin> o_volume_id ` set (f_orphans (sy_fed s))"
  shows "\<exists>s' v. finish_replacement env name s = Some s' \<and> volume name s' = Some v \<and>
    vid \<notin> Option.these (l_volume_id ` set (all_legs v)) \<and> vid \<notin> o_volume_id ` set (f_orphans (sy_fed s'))"
proof -
  let ?s2 = "undo_leg env heng aid teng (r_leg rep) s1"
  have run: "finish_replacement env name s = Some (release name (rebuild_failed env name ?s2))"
    using assms(2-7,10) by (simp add: finish_replacement_def finish_inner_def)
  have fed: "sy_fed ?s2 = sy_fed s"
    using quiet_undo [OF assms(1)] wait_loop_quiet [OF assms(1) assms(10) [unfolded wait_member_active_def]] by simp
  obtain v where v: "volume name (release name (rebuild_failed env name ?s2)) = Some v" "v_legs v = v_legs vol" "v_replacing v = None"
    using assms(2) by (simp add: rebuild_failed_def persist_def push_to_peers_def fed)
  have "f_orphans (sy_fed (release name (rebuild_failed env name ?s2))) = f_orphans (sy_fed s)"
    by (simp add: rebuild_failed_def persist_def push_to_peers_def fed bump_def on_volume_def)
  with run v assms(11,12) show ?thesis by (auto simp: all_legs_def)
qed

subsection \<open>Starting\<close>

lemma quiet_wire_leg:
  assumes q: "quiet env g" and w: "wire_leg env vol hn aid teng heng vid master l s = (r, l', s')"
  shows "g s' = g s"
  using w unfolding wire_leg_def
  by (auto simp: Let_def call_quiet [OF q] split: prod.splits sum.splits dest!: call_quiet_eq [OF q])

lemma wire_leg_core:
  assumes "wire_leg env vol hn aid teng heng vid master l s = (r, l', s')"
  shows "leg_core l' = leg_core l \<and> l_master_node l' = l_master_node l \<and> (r = Inr () \<longrightarrow> l_member_uuid l' \<noteq> None)"
  using assms unfolding wire_leg_def
  by (auto simp: Let_def split: prod.splits sum.splits)

lemma choose_target_fresh:
  assumes "choose_target env fed vol from_node to_node = Inr t"
  shows "t \<notin> l_node ` set (v_legs vol)"
proof (cases to_node)
  case (Some x)
  with assms show ?thesis by (auto simp: choose_target_def list_ex_iff split: option.splits if_splits)
next
  case None
  then obtain ts where "plan (move_target_candidates fed (en_rungs env) vol from_node) (en_rungs env) (v_rung vol) 1 (leg_bytes vol) (en_io_weight env) =
      Inr (t # ts)"
    using assms by (auto simp: choose_target_def split: sum.splits list.splits)
  from plan_legs [OF this] obtain ps where "t # ts = map c_name ps"
      "\<forall>c \<in> set ps. c \<in> set (move_target_candidates fed (en_rungs env) vol from_node) \<and> leg_bytes vol \<le> c_free_bytes c" by (elim exE conjE) (rule that; assumption)
  then obtain c where c: "t = c_name c" "c \<in> set (move_target_candidates fed (en_rungs env) vol from_node)" by (cases ps) auto
  then show ?thesis by (auto simp: move_target_candidates_def list_all_iff candidate_of_def)
qed

lemma check_replacement_facts:
  assumes "check_replacement env fed name from_node to_node = Inr (vol, target, head, teng, heng)"
  shows "bt_get (f_volumes fed) name = Some vol \<and> mirrored vol \<and> v_replacing vol = None \<and> from_node \<in> l_node ` set (v_legs vol) \<and>
    v_head vol = Some head \<and> healthy_node fed head \<and> target \<notin> l_node ` set (v_legs vol)"
  using assms unfolding check_replacement_def
  by (auto simp: list_ex_iff image_iff dest: choose_target_fresh split: option.splits sum.splits if_split_asm)

lemma build_outcome:
  assumes q: "quiet env g" and v: "quiet env (volume name)" and b: "build_replacement env name from_node to_node reason s = (r, s')"
  shows "case r of
      Inl _ \<Rightarrow> g s' = g s
    | Inr t \<Rightarrow> (\<exists>vol rep s1. volume name s = Some vol \<and> mirrored vol \<and> v_replacing vol = None \<and>
        from_node \<in> l_node ` set (v_legs vol) \<and> t \<notin> l_node ` set (v_legs vol) \<and> g s1 = g s \<and> volume name s1 = Some vol \<and>
        s' = record_replacement env name rep s1 \<and> r_from rep = from_node \<and> l_node (r_leg rep) = t \<and> l_member_uuid (r_leg rep) \<noteq> None)"
proof (cases "check_replacement env (sy_fed s) name from_node to_node")
  case (Inl e)
  with b show ?thesis by (auto simp: build_replacement_def)
next
  case (Inr x)
  obtain vol target head teng heng where x: "x = (vol, target, head, teng, heng)" by (metis prod.exhaust)
  note chk = check_replacement_facts [OF Inr [unfolded x]]
  show ?thesis
  proof (cases "v_array_id vol")
    case None
    with b Inr x show ?thesis by (auto simp: build_replacement_def)
  next
    case (Some aid)
    obtain c s1 where c: "call env (\<lambda>wr. create_volume wr teng (v_name vol) (leg_bytes vol) (v_extent_size_bytes vol)) s = (c, s1)" by fastforce
    have g1: "g s1 = g s" "volume name s1 = volume name s" by (rule call_quiet_eq [OF q c], rule call_quiet_eq [OF v c])
    show ?thesis
    proof (cases "\<exists>created vid. c = Inr created \<and> get_str ''id'' created = Some vid")
      case False
      with b Inr x Some c g1 show ?thesis by (auto simp: build_replacement_def split: sum.splits option.splits)
    next
      case True
      then obtain created vid where cr: "c = Inr created" "get_str ''id'' created = Some vid" by blast
      let ?m = "unwrap_or (master_node_of created) ''localhost''"
      obtain r2 l s2 where w: "wire_leg env vol head aid teng heng vid ?m (new_leg target vid ?m) s1 = (r2, l, s2)" by (metis prod_cases3)
      have g2: "g s2 = g s" "volume name s2 = volume name s" using quiet_wire_leg [OF q w] quiet_wire_leg [OF v w] g1 by simp_all
      have core: "leg_core l = leg_core (new_leg target vid ?m)" "r2 = Inr () \<Longrightarrow> l_member_uuid l \<noteq> None"
        using wire_leg_core [OF w] by blast+
      have "l_node (leg_core l) = target" unfolding core(1) by (simp add: leg_core_def new_leg_def)
      then have node: "l_node l = target" by (simp add: leg_core_def)
      show ?thesis
      proof (cases r2)
        case (Inl e)
        with b Inr x Some c cr w g2 quiet_undo [OF q] show ?thesis by (auto simp: build_replacement_def Let_def)
      next
        case ok: (Inr u)
        let ?rep = "\<lparr>r_from = from_node, r_leg = l, r_reason = reason, r_started_at = now env s2\<rparr>"
        have rs: "r = Inr target" "s' = record_replacement env name ?rep s2"
          using b chk g2 unfolding build_replacement_def Inr x prod.case sum.case Some option.case c cr Let_def w ok by simp_all
        have "l_member_uuid l \<noteq> None" using core(2) ok by simp
        then show ?thesis unfolding rs sum.case using chk g2 node
          by (intro exI [of _ vol] exI [of _ ?rep] exI [of _ s2]) simp
      qed
    qed
  qed
qed

text \<open>Property C15. Starting a replacement (an operator's move or a re-leg) is all or nothing for the record: when it fails
  the volumes and the claims are as before; when it succeeds the volume was mirrored with nothing else being
  replaced, it keeps all its legs, the new leg is on a node that holds none of them and is a member of the
  array, and the claim is held for the task that finishes.\<close>

theorem replacement_started:
  assumes "quiet env (\<lambda>s. f_volumes (sy_fed s))" and "quiet env sy_claims"
    and "start_replacement env name from_node to_node reason s = (r, s')"
  shows "case r of
      Inl _ \<Rightarrow> f_volumes (sy_fed s') = f_volumes (sy_fed s) \<and> set (sy_claims s') = set (sy_claims s)
    | Inr t \<Rightarrow> (\<exists>vol rep. volume name s = Some vol \<and> mirrored vol \<and> v_replacing vol = None \<and> \<not> busy name s \<and>
        from_node \<in> l_node ` set (v_legs vol) \<and> t \<notin> l_node ` set (v_legs vol) \<and>
        volume name s' = Some (vol\<lparr>v_replacing := Some rep\<rparr>) \<and> sy_claims s' = name # sy_claims s \<and>
        r_from rep = from_node \<and> l_node (r_leg rep) = t \<and> l_member_uuid (r_leg rep) \<noteq> None)"
proof (cases "busy name s")
  case True
  with assms(3) show ?thesis by (auto simp: start_replacement_def claim_def busy_def)
next
  case False
  let ?s0 = "s\<lparr>sy_claims := name # sy_claims s\<rparr>"
  let ?g = "\<lambda>s. (f_volumes (sy_fed s), sy_claims s)"
  have q: "quiet env ?g" and v: "quiet env (volume name)" using assms(1,2) by (simp_all add: quiet_def)
  obtain r0 s1 where b: "build_replacement env name from_node to_node reason ?s0 = (r0, s1)" by fastforce
  note out = build_outcome [OF q v b]
  show ?thesis
  proof (cases r0)
    case (Inl e)
    with assms(3) False b out show ?thesis
      by (auto simp: start_replacement_def claim_def busy_def release_def)
  next
    case (Inr t)
    with assms(3) False b have "r = Inr t" "s' = s1" by (simp_all add: start_replacement_def claim_def busy_def)
    moreover obtain vol rep s2 where "volume name s = Some vol" "mirrored vol" "v_replacing vol = None"
        "from_node \<in> l_node ` set (v_legs vol)" "t \<notin> l_node ` set (v_legs vol)" "?g s2 = ?g ?s0"
        "volume name s2 = Some vol" "s1 = record_replacement env name rep s2" "r_from rep = from_node"
        "l_node (r_leg rep) = t" "l_member_uuid (r_leg rep) \<noteq> None"
      using out unfolding Inr sum.case by (elim exE conjE) simp
    moreover from this have "volume name s1 = Some (vol\<lparr>v_replacing := Some rep\<rparr>)" "sy_claims s1 = name # sy_claims s"
      by (simp_all add: record_replacement_def)
    ultimately show ?thesis using False by (simp del: not_None_eq) blast
  qed
qed

subsection \<open>Reaping\<close>

text \<open>Orphan \<open>x\<close> was deleted: the engine of its node accepted the delete of its engine volume.\<close>

definition orphan_deleted :: "'w env \<Rightarrow> fed_state \<Rightarrow> orphan \<Rightarrow> bool" where
  "orphan_deleted env fed x \<longleftrightarrow>
     (\<exists>eng s1 s2. healthy_engine env fed (o_node x) = Some eng \<and>
        call env (\<lambda>wr. delete_volume wr eng (o_volume_id x)) s1 = (Inr (), s2))"

lemma reap_orphan_keeps:
  assumes q: "quiet env (\<lambda>s. f_orphans (sy_fed s))" and e: "healthy_engine env fed (o_node x) = Some eng"
  shows "f_orphans (sy_fed (reap_orphan env s (x, eng))) = f_orphans (sy_fed s) \<or>
    f_orphans (sy_fed (reap_orphan env s (x, eng))) =
      filter (\<lambda>y. \<not> (o_node y = o_node x \<and> o_volume_id y = o_volume_id x)) (f_orphans (sy_fed s)) \<and> orphan_deleted env fed x"
proof -
  let ?d = "call env (\<lambda>wr. detach_volume wr eng (o_volume_id x) (unwrap_or (o_master_node x) ''localhost'')) s"
  obtain r s2 where c: "call env (\<lambda>wr. delete_volume wr eng (o_volume_id x)) (snd ?d) = (r, s2)" by fastforce
  have o2: "f_orphans (sy_fed s2) = f_orphans (sy_fed s)" using call_quiet_eq [OF q c] call_quiet [OF q] by simp
  show ?thesis
  proof (cases r)
    case (Inl err)
    then show ?thesis using o2 by (simp add: reap_orphan_def c)
  next
    case (Inr u)
    then have "orphan_deleted env fed x" using e c unfolding orphan_deleted_def by auto
    then show ?thesis using o2 Inr by (simp add: reap_orphan_def c persist_def push_to_peers_def bump_def)
  qed
qed

lemma reap_fold:
  assumes q: "quiet env (\<lambda>s. f_orphans (sy_fed s))"
  shows "\<forall>(x, eng) \<in> set due. healthy_engine env fed (o_node x) = Some eng \<Longrightarrow>
    set (f_orphans (sy_fed (foldl (reap_orphan env) s due))) \<subseteq> set (f_orphans (sy_fed s)) \<and>
    (\<forall>y \<in> set (f_orphans (sy_fed s)). y \<in> set (f_orphans (sy_fed (foldl (reap_orphan env) s due))) \<or> orphan_deleted env fed y)"
proof (induction due arbitrary: s)
  case (Cons d due)
  obtain x eng where d: "d = (x, eng)" by fastforce
  with Cons.prems have e: "healthy_engine env fed (o_node x) = Some eng" by simp
  have same: "orphan_deleted env fed x \<Longrightarrow> o_node y = o_node x \<Longrightarrow> o_volume_id y = o_volume_id x \<Longrightarrow> orphan_deleted env fed y" for y
    by (simp add: orphan_deleted_def)
  have "\<forall>(x, eng) \<in> set due. healthy_engine env fed (o_node x) = Some eng" using Cons.prems by simp
  from Cons.IH [OF this, of "reap_orphan env s (x, eng)"] reap_orphan_keeps [OF q e, of s] same show ?case
    unfolding d foldl.simps by (elim disjE conjE) (simp_all, blast+)
qed simp

text \<open>Reaping drops an orphan only when the engine of its node, which answers, accepted the delete of that
  engine volume; every other orphan stays on record for the next pass and none is invented.\<close>

theorem orphans_reaped:
  assumes "quiet env (\<lambda>s. f_orphans (sy_fed s))"
  shows "set (f_orphans (sy_fed (reap_orphans env s))) \<subseteq> set (f_orphans (sy_fed s)) \<and>
    (\<forall>x \<in> set (f_orphans (sy_fed s)) - set (f_orphans (sy_fed (reap_orphans env s))). orphan_deleted env (sy_fed s) x)"
proof -
  let ?due = "List.map_filter (\<lambda>x. map_option (Pair x) (healthy_engine env (sy_fed s) (o_node x))) (f_orphans (sy_fed s))"
  have "\<forall>(x, eng) \<in> set ?due. healthy_engine env (sy_fed s) (o_node x) = Some eng"
    by (auto simp: map_filter_def)
  from reap_fold [OF assms this, of s] show ?thesis by (auto simp: reap_orphans_def)
qed

text \<open>A world that is its clock, with a rebuild that makes no progress.\<close>

definition stalled_answer :: response where
  "stalled_answer = \<lparr>rs_status = 200, rs_status_text = ''200 OK'', rs_json = Some (JObj
     [(''members'', JArr [JObj [(''uuid'', JStr ''m2''), (''state'', JStr ''Rebuilding''), (''rebuilt_bytes'', JInt 7)]])])\<rparr>"

definition clock_env :: "response \<Rightarrow> nat env" where
  "clock_env r =
     \<lparr>en_wire = \<lparr>wi_send = (\<lambda>q w. (Inr r, w)), wi_volume = (\<lambda>_. None)\<rparr>, en_token = (\<lambda>_. None), en_admin = (\<lambda>_. None),
      en_host_nqn = ''nqn.{node}'', en_recovery = default_recovery, en_text = (\<lambda>_. ''error''), en_now = (\<lambda>w. w),
      en_save = (\<lambda>_ w. w), en_push = (\<lambda>_ w. w), en_others = (\<lambda>s. s),
      en_rungs = [''host''], en_io_weight = 0, en_poll_secs = 15, en_pools = [], en_active = (\<lambda>_. True), en_sleep = (\<lambda>d w. w + d)\<rparr>"

definition clock_sys :: "dist_volume \<Rightarrow> nat sys" where
  "clock_sys v =
     \<lparr>sy_fed = default_fed\<lparr>f_nodes := [(''a'', small_node ''a''), (''b'', small_node ''b'')], f_volumes := [(''vol'', v)]\<rparr>,
      sy_claims = [], sy_heads = [], sy_live = [], sy_noted = [], sy_events = new_log 16, sy_world = 100\<rparr>"

lemma lower_rebuilding: "lowercase ''Rebuilding'' = ''rebuilding''"
  by code_simp

lemma stalled_reading:
  "get_raid_array (en_wire (clock_env stalled_answer)) e a w = (Inr arr, w') \<Longrightarrow>
     member_progress ''m2'' arr = Some (''rebuilding'', Some 7)"
  by (auto simp: get_raid_array_def fetch_def attempt_def send_def error_for_status_def body_json_def io_ok_def
      clock_env_def stalled_answer_def ok_or_def member_progress_def Let_def lower_rebuilding)

lemma wait_ends_witness:
  "\<exists>b s'. wait_member_active (clock_env stalled_answer) ''vol'' (new_engine ''http://a'' None) ''r1'' ''m2'' (from_secs 120) (clock_sys wit_vol) =
     Some (b, s')"
proof (rule wait_ends [where left = "\<lambda>_. 0" and g = "\<lambda>_. (''rebuilding'', Some 7)"])
  show "clock_runs (clock_env stalled_answer)" by (simp add: clock_runs_def clock_env_def)
  show "never_grows (clock_env stalled_answer) (\<lambda>_. 0)" by (simp add: never_grows_def)
  show "reads_bytes_left (clock_env stalled_answer) (new_engine ''http://a'' None) ''r1'' ''m2'' (\<lambda>_. 0) (\<lambda>_. (''rebuilding'', Some 7))"
    by (simp add: reads_bytes_left_def stalled_reading)
qed

lemma old_leg_accounted_witness:
  "\<exists>o1. fst (snd (retire_leg (small_env empty_answer) ''vol'' (new_engine ''http://a'' None) ''A1''
      \<lparr>r_from = ''gone'', r_leg = wit_leg ''c'' ''u3'', r_reason = [], r_started_at = 0\<rparr> (wit_leg ''gone'' ''u2'') (small_sys wit_vol))) = Some o1 \<and>
    o_node o1 = ''gone'' \<and> o_volume_id o1 = ''v-gone''"
proof -
  let ?r = "retire_leg (small_env empty_answer) ''vol'' (new_engine ''http://a'' None) ''A1''
      \<lparr>r_from = ''gone'', r_leg = wit_leg ''c'' ''u3'', r_reason = [], r_started_at = 0\<rparr> (wit_leg ''gone'' ''u2'') (small_sys wit_vol)"
  have eq: "?r = (fst ?r, fst (snd ?r), snd (snd ?r))" by simp
  have vid: "l_volume_id (wit_leg ''gone'' ''u2'') = Some ''v-gone''" by (simp add: wit_leg_def)
  have "fst (snd ?r) \<noteq> None" by code_simp
  with old_leg_accounted [OF eq vid] show ?thesis by auto
qed

text \<open>A replacement whose new member the engine reports active.\<close>

definition active_answer :: response where
  "active_answer = \<lparr>rs_status = 200, rs_status_text = ''200 OK'', rs_json = Some (JObj
     [(''members'', JArr [JObj [(''uuid'', JStr ''m2''), (''state'', JStr ''Active'')]])])\<rparr>"

definition replacing_vol :: dist_volume where
  "replacing_vol = wit_vol\<lparr>v_replacing := Some
     \<lparr>r_from = ''b'', r_leg = wit_leg ''a'' ''m2'', r_reason = ''operator move'', r_started_at = 0\<rparr>\<rparr>"

lemma lower_active: "lowercase ''Active'' = ''active''"
  by code_simp

lemma active_turn:
  "call (clock_env active_answer) (\<lambda>wr. get_raid_array wr e a) s = (Inr (the (rs_json active_answer)), s)"
  "member_progress ''m2'' (the (rs_json active_answer)) = Some (''active'', None)"
  by (simp_all add: call_def get_raid_array_def fetch_def attempt_def send_def error_for_status_def body_json_def io_ok_def
      clock_env_def active_answer_def ok_or_def member_progress_def Let_def lower_active)

lemma replacement_outcome_witness:
  "\<exists>v s'. finish_replacement (clock_env active_answer) ''vol'' (clock_sys replacing_vol) = Some s' \<and>
     volume ''vol'' s' = Some v \<and> v_replacing v = None"
proof -
  let ?e = "clock_env active_answer" and ?s = "clock_sys replacing_vol"
  let ?eng = "engine_for ?e (small_node ''a'')"
  have q: "quiet ?e (volume ''vol'')" by (simp add: quiet_def clock_env_def)
  have v: "volume ''vol'' ?s = Some replacing_vol" by (simp add: clock_sys_def)
  have f: "v_replacing replacing_vol = Some \<lparr>r_from = ''b'', r_leg = wit_leg ''a'' ''m2'', r_reason = ''operator move'', r_started_at = 0\<rparr>"
      "v_head replacing_vol = Some ''a''" "v_array_id replacing_vol = Some ''A1''"
    by (simp_all add: replacing_vol_def wit_vol_def)
  have n: "l_node (wit_leg ''a'' ''m2'') = ''a''" "l_member_uuid (wit_leg ''a'' ''m2'') = Some ''m2''" by (simp_all add: wit_leg_def)
  have e: "registered_engine ?e (sy_fed ?s) ''a'' = Some ?eng" by (simp add: registered_engine_def clock_sys_def)
  have w: "wait_member_active ?e ''vol'' ?eng ''A1'' ''m2'' d ?s = Some (True, ?s)" for d
    unfolding wait_member_active_def by (subst wait_loop.simps) (simp add: wait_turn_def active_turn)
  obtain s' where s': "finish_replacement ?e ''vol'' ?s = Some s'"
    by (simp add: finish_replacement_def finish_inner_def v f n e w del: map_option_eq_Some)
  from replacement_outcome [OF q v f(1-3) e _ s'] e n show ?thesis using s' by auto
qed

definition three_sys :: "unit sys" where
  "three_sys = (small_sys wit_vol)\<lparr>sy_fed := default_fed\<lparr>f_nodes := [(''a'', small_node ''a''), (''b'', small_node ''b''), (''c'', small_node ''c'')],
     f_volumes := [(''vol'', wit_vol)]\<rparr>\<rparr>"

lemma wiring_more_calls:
  "\<exists>created. call (small_env wiring_answer) (\<lambda>wr. create_volume wr e n z x) s = (Inr created, s) \<and> get_str ''id'' created = Some ''r1''"
  "call (small_env wiring_answer) (\<lambda>wr. array_add_member wr e a d) s = (Inr ''m9'', s)"
  "snd (call (small_env wiring_answer) m s) = s\<lparr>sy_world := ()\<rparr>"
  by (simp_all add: call_def small_env_def attempt_def send_def io_ok_def io_err_def ok_or_def create_volume_def post_json_def
      read_post_def check_refused_def array_add_member_def admin_post_def admin_send_def wiring_answer_def Let_def
      split: prod.split)

lemma replacement_started_witness:
  "\<exists>rep s'. start_replacement (small_env wiring_answer) ''vol'' ''b'' (Some ''c'') ''operator move'' three_sys = (Inr ''c'', s') \<and>
     volume ''vol'' s' = Some (wit_vol\<lparr>v_replacing := Some rep\<rparr>) \<and> l_node (r_leg rep) = ''c''"
proof -
  let ?e = "small_env wiring_answer" and ?s = "three_sys\<lparr>sy_claims := [''vol'']\<rparr>"
  let ?c = "engine_for ?e (small_node ''c'')" and ?a = "engine_for ?e (small_node ''a'')"
  have chk: "check_replacement ?e (sy_fed three_sys) ''vol'' ''b'' (Some ''c'') = Inr (wit_vol, ''c'', ''a'', ?c, ?a)"
    by (simp add: check_replacement_def choose_target_def three_sys_def wit_vol_def wit_leg_def small_node_def healthy_node_def registered_engine_def)
  obtain created where cr: "call ?e (\<lambda>wr. create_volume wr ?c (v_name wit_vol) (leg_bytes wit_vol) (v_extent_size_bytes wit_vol)) ?s = (Inr created, ?s)"
      "get_str ''id'' created = Some ''r1''"
    using wiring_more_calls(1) by blast
  let ?m = "unwrap_or (master_node_of created) ''localhost''"
  obtain att where at: "call ?e (\<lambda>wr. attach_leg wr ?c ''r1'' ?m None (Some (host_nqn_for (en_host_nqn ?e) ''a''))) ?s = (Inr att, ?s)"
    using wiring_calls(1) by blast
  obtain l where wl: "wire_leg ?e wit_vol ''a'' ''A1'' ?c ?a ''r1'' ?m (new_leg ''c'' ''r1'' ?m) ?s = (Inr (), l, ?s)"
    by (simp add: wire_leg_def at wiring_calls(2) wiring_more_calls Let_def)
  have aid: "v_array_id wit_vol = Some ''A1''" and vol: "volume ''vol'' three_sys = Some wit_vol" by (simp_all add: wit_vol_def three_sys_def)
  have "fst (build_replacement ?e ''vol'' ''b'' (Some ''c'') ''operator move'' ?s) = Inr ''c''"
    using chk by (simp add: build_replacement_def aid cr Let_def wl vol)
  moreover have "claim ''vol'' three_sys = (True, ?s)" by (simp add: claim_def three_sys_def small_sys_def)
  ultimately have "fst (start_replacement ?e ''vol'' ''b'' (Some ''c'') ''operator move'' three_sys) = Inr ''c''"
    by (auto simp: start_replacement_def split: prod.splits sum.splits)
  then obtain s' where run: "start_replacement ?e ''vol'' ''b'' (Some ''c'') ''operator move'' three_sys = (Inr ''c'', s')"
    by (metis prod.collapse)
  have "quiet ?e (\<lambda>s. f_volumes (sy_fed s))" "quiet ?e sy_claims" by simp_all
  from replacement_started [OF this run] vol run show ?thesis by (auto simp: three_sys_def)
qed

definition orphan_sys :: "unit sys" where
  "orphan_sys = three_sys\<lparr>sy_fed := (sy_fed three_sys)\<lparr>f_orphans :=
     [\<lparr>o_node = ''c'', o_volume_id = ''v-c'', o_master_node = None, o_of_volume = ''vol'', o_reason = [], o_since = 0\<rparr>]\<rparr>\<rparr>"

lemma orphans_reaped_witness:
  "set (f_orphans (sy_fed (reap_orphans (small_env empty_answer) orphan_sys))) \<subseteq> set (f_orphans (sy_fed orphan_sys))"
proof -
  have "quiet (small_env empty_answer) (\<lambda>s. f_orphans (sy_fed s))" by simp
  from orphans_reaped [OF this] show ?thesis by blast
qed

text \<open>An instance whose engines report the new member failed and refuse every delete.\<close>

definition refusing_env :: "nat env" where
  "refusing_env = (clock_env active_answer)\<lparr>en_wire := \<lparr>wi_send = (\<lambda>q w. (Inr (if rq_method q = GET then
      \<lparr>rs_status = 200, rs_status_text = ''200 OK'', rs_json = Some (JObj
        [(''members'', JArr [JObj [(''uuid'', JStr ''m2''), (''state'', JStr ''failed'')]])])\<rparr>
      else \<lparr>rs_status = 500, rs_status_text = ''500'', rs_json = None\<rparr>), w)), wi_volume = (\<lambda>_. None)\<rparr>\<rparr>"

definition failing_vol :: dist_volume where
  "failing_vol = wit_vol\<lparr>v_replacing := Some
     \<lparr>r_from = ''b'', r_leg = (wit_leg ''a'' ''m2'')\<lparr>l_volume_id := Some ''v-new''\<rparr>, r_reason = ''operator move'', r_started_at = 0\<rparr>\<rparr>"

lemma lower_failed: "lowercase ''failed'' = ''failed''"
  by code_simp

lemma refusing_calls:
  "\<exists>arr. call refusing_env (\<lambda>wr. get_raid_array wr e a) s = (Inr arr, s) \<and> member_progress ''m2'' arr = Some (''failed'', None)"
  "isl (fst (call refusing_env (\<lambda>wr. delete_volume wr e vid) s))"
  by (simp_all add: call_def get_raid_array_def fetch_def attempt_def send_def error_for_status_def body_json_def io_ok_def io_err_def
      refusing_env_def clock_env_def ok_or_def member_progress_def Let_def lower_failed get_def req_def delete_volume_def gone_ok_def)

lemma undone_leg_forgotten_witness:
  "\<exists>s' v. finish_replacement refusing_env ''vol'' (clock_sys failing_vol) = Some s' \<and> volume ''vol'' s' = Some v \<and>
    ''v-new'' \<notin> Option.these (l_volume_id ` set (all_legs v)) \<and> ''v-new'' \<notin> o_volume_id ` set (f_orphans (sy_fed s'))"
proof -
  let ?s = "clock_sys failing_vol" and ?l = "(wit_leg ''a'' ''m2'')\<lparr>l_volume_id := Some ''v-new''\<rparr>"
  let ?eng = "engine_for refusing_env (small_node ''a'')"
  have q: "quiet refusing_env sy_fed" by (simp add: quiet_def refusing_env_def clock_env_def)
  have v: "volume ''vol'' ?s = Some failing_vol" by (simp add: clock_sys_def)
  have f: "v_replacing failing_vol = Some \<lparr>r_from = ''b'', r_leg = ?l, r_reason = ''operator move'', r_started_at = 0\<rparr>"
      "v_head failing_vol = Some ''a''" "v_array_id failing_vol = Some ''A1''"
    by (simp_all add: failing_vol_def wit_vol_def)
  have n: "l_node ?l = ''a''" "l_member_uuid ?l = Some ''m2''" "l_volume_id ?l = Some ''v-new''" by (simp_all add: wit_leg_def)
  have e: "registered_engine refusing_env (sy_fed ?s) ''a'' = Some ?eng" by (simp add: registered_engine_def clock_sys_def)
  have w: "wait_member_active refusing_env ''vol'' ?eng ''A1'' ''m2'' d ?s = Some (False, ?s)" for d
  proof -
    obtain arr where "call refusing_env (\<lambda>wr. get_raid_array wr ?eng ''A1'') ?s = (Inr arr, ?s)"
        "member_progress ''m2'' arr = Some (''failed'', None)"
      using refusing_calls(1) by blast
    then show ?thesis unfolding wait_member_active_def by (subst wait_loop.simps) (simp add: wait_turn_def)
  qed
  have "''v-new'' \<notin> Option.these (l_volume_id ` set (v_legs failing_vol))" "''v-new'' \<notin> o_volume_id ` set (f_orphans (sy_fed ?s))"
    by (simp_all add: failing_vol_def wit_vol_def wit_leg_def clock_sys_def default_fed_def)
  with undone_leg_forgotten [OF q v f e _ _ refusing_calls(2)] n e w show ?thesis by simp
qed

end
