(* ===== verification/Rebalance.thy ===== *)
theory Rebalance
  imports Replace
begin

section \<open>Rebalancing a pool\<close>

text \<open>
  Models \<open>src/rebalance.rs\<close>: the moves each pool with watermarks wants (\<open>plan_rebalance\<close>, the
  source's \<open>plan\<close>) and the pass that starts them (\<open>rebalance_run\<close>). The inner loops of the source
  stop when no room is left; here a step with no room leaves the state as it is. Fractions are exact.
\<close>

record move =
  mv_pool :: string
  mv_volume :: string
  mv_from :: string
  mv_to :: string
  mv_from_used :: f64
  mv_to_used :: f64

datatype held_why = BadWatermarks f64 f64 | MemberDown string | MovesInFlight u32 u32 | NoLegFits f64 f64

record rebalance_plan =
  rb_moves :: "move list"
  rb_held :: "(string \<times> held_why) list"

definition used :: "node \<Rightarrow> f64" where
  "used n =
     (if ns_total_bytes (n_status n) = 0 then 0
      else 1 - of_nat (unat (ns_free_bytes (n_status n))) / of_nat (unat (ns_total_bytes (n_status n))))"

definition node_name :: "node \<Rightarrow> string" where
  "node_name n = nc_name (n_config n)"

definition pool_members :: "fed_state \<Rightarrow> pool_config \<Rightarrow> node list" where
  "pool_members fed pool = filter (\<lambda>n. matches (pc_selector pool) (n_config n)) (bt_values (f_nodes fed))"

definition pool_volumes :: "fed_state \<Rightarrow> pool_config \<Rightarrow> dist_volume list" where
  "pool_volumes fed pool = filter (\<lambda>v. v_pool v = Some (pc_name pool)) (bt_values (f_volumes fed))"

definition pool_room :: "fed_state \<Rightarrow> pool_config \<Rightarrow> u32 \<times> u32" where
  "pool_room fed pool =
     (let in_flight = of_nat (length (filter (\<lambda>v. v_replacing v \<noteq> None) (pool_volumes fed pool))) :: u32
      in (in_flight, if in_flight \<le> pc_max_moves pool then pc_max_moves pool - in_flight else 0))"

definition pool_sources :: "fed_state \<Rightarrow> pool_config \<Rightarrow> f64 \<Rightarrow> node list" where
  "pool_sources fed pool high =
     sort_key (\<lambda>n. (- used n, node_name n)) (filter (\<lambda>n. used n > high) (pool_members fed pool))"

subsection \<open>The moves off one source\<close>

definition movable :: "(string \<Rightarrow> bool) \<Rightarrow> time \<Rightarrow> string \<Rightarrow> dist_volume \<Rightarrow> bool" where
  "movable bsy tm src v \<longleftrightarrow>
     v_assembly v = Assembled \<and> \<not> v_fenced v \<and> v_replacing v = None \<and> v_dual_attach v = None \<and> v_migration v = None \<and>
     \<not> bsy (v_name v) \<and> unwrap_or (map_option (\<lambda>t. t \<le> tm) (v_next_releg_after v)) True \<and>
     v_head v \<noteq> Some src \<and> list_ex (\<lambda>l. l_node l = src \<and> l_state l = Created) (v_legs v)"

definition source_volumes :: "fed_state \<Rightarrow> pool_config \<Rightarrow> (string \<Rightarrow> bool) \<Rightarrow> time \<Rightarrow> node \<Rightarrow> dist_volume list" where
  "source_volumes fed pool bsy tm src =
     sort_key (\<lambda>v. (- uint (v_size_bytes v), v_name v)) (filter (movable bsy tm (node_name src)) (pool_volumes fed pool))"

record rebalancing =
  rl_room :: u32
  rl_promised :: "(string, u64) btree"
  rl_moved :: "string list"
  rl_moves :: "move list"

definition filled_after :: "candidate \<Rightarrow> u64 \<Rightarrow> f64" where
  "filled_after c bytes =
     of_nat (unat (c_total_bytes c - min (c_free_bytes c) (c_total_bytes c))) + of_nat (unat bytes)"

definition may_take :: "f64 \<Rightarrow> f64 \<Rightarrow> (string, u64) btree \<Rightarrow> u64 \<Rightarrow> candidate \<Rightarrow> bool" where
  "may_take high low promised sz c \<longleftrightarrow>
     c_total_bytes c > 0 \<and>
     1 - of_nat (unat (c_free_bytes c)) / of_nat (unat (c_total_bytes c)) < low \<and>
     filled_after c (unwrap_or (bt_get promised (c_name c)) 0 + sz) / of_nat (unat (c_total_bytes c)) \<le> high"

definition move_candidates ::
  "fed_state \<Rightarrow> string list \<Rightarrow> pool_config \<Rightarrow> f64 \<Rightarrow> f64 \<Rightarrow> (string, u64) btree \<Rightarrow> node \<Rightarrow> dist_volume \<Rightarrow> candidate list" where
  "move_candidates fed rungs pool high low promised src v =
     filter (may_take high low promised (v_size_bytes v))
       (filter (\<lambda>c. list_ex (\<lambda>m. node_name m = c_name c) (pool_members fed pool))
         (move_target_candidates fed rungs v (node_name src)))"

definition propose ::
  "fed_state \<Rightarrow> string list \<Rightarrow> f64 \<Rightarrow> pool_config \<Rightarrow> f64 \<Rightarrow> f64 \<Rightarrow> node \<Rightarrow> rebalancing \<Rightarrow> dist_volume \<Rightarrow> rebalancing" where
  "propose fed rungs w pool high low src st v =
     (if rl_room st = 0 \<or> v_name v \<in> set (rl_moved st) then st
      else (case plan (move_candidates fed rungs pool high low (rl_promised st) src v) rungs (v_rung v) 1 (v_size_bytes v) w of
          Inr (dest # _) \<Rightarrow>
            \<lparr>rl_room = rl_room st - 1,
             rl_promised = bt_insert dest (unwrap_or (bt_get (rl_promised st) dest) 0 + v_size_bytes v) (rl_promised st),
             rl_moved = v_name v # rl_moved st,
             rl_moves = rl_moves st @ [\<lparr>mv_pool = pc_name pool, mv_volume = v_name v, mv_from = node_name src, mv_to = dest,
               mv_from_used = used src, mv_to_used = unwrap_or (map_option used (bt_get (f_nodes fed) dest)) 0\<rparr>]\<rparr>
        | _ \<Rightarrow> st))"

definition propose_from ::
  "fed_state \<Rightarrow> string list \<Rightarrow> f64 \<Rightarrow> (string \<Rightarrow> bool) \<Rightarrow> time \<Rightarrow> pool_config \<Rightarrow> f64 \<Rightarrow> f64 \<Rightarrow> rebalancing \<Rightarrow> node \<Rightarrow> rebalancing" where
  "propose_from fed rungs w bsy tm pool high low st src =
     foldl (propose fed rungs w pool high low src) st (source_volumes fed pool bsy tm src)"

subsection \<open>The plan\<close>

definition plan_pool ::
  "fed_state \<Rightarrow> string list \<Rightarrow> f64 \<Rightarrow> (string \<Rightarrow> bool) \<Rightarrow> time \<Rightarrow> rebalance_plan \<Rightarrow> pool_config \<Rightarrow> rebalance_plan" where
  "plan_pool fed rungs w bsy tm out pool =
     (case (pc_high_watermark pool, pc_low_watermark pool) of
        (Some high, Some low) \<Rightarrow>
          (let hold = (\<lambda>why. out\<lparr>rb_held := rb_held out @ [(pc_name pool, why)]\<rparr>) in
           if \<not> (0 \<le> low \<and> low \<le> 1) \<or> \<not> (0 \<le> high \<and> high \<le> 1) \<or> low \<ge> high then hold (BadWatermarks low high)
           else (case find (\<lambda>n. \<not> ns_healthy (n_status n)) (pool_members fed pool) of
               Some down \<Rightarrow> hold (MemberDown (node_name down))
             | None \<Rightarrow>
                 (let (in_flight, room) = pool_room fed pool in
                  if room = 0 then hold (MovesInFlight in_flight (pc_max_moves pool))
                  else if pool_sources fed pool high = [] then out
                  else
                    (let st = foldl (propose_from fed rungs w bsy tm pool high low)
                           \<lparr>rl_room = room, rl_promised = [], rl_moved = [], rl_moves = []\<rparr> (pool_sources fed pool high);
                         out = out\<lparr>rb_moves := rb_moves out @ rl_moves st\<rparr>
                     in if list_all (\<lambda>m. mv_pool m \<noteq> pc_name pool) (rb_moves out)
                        then out\<lparr>rb_held := rb_held out @ [(pc_name pool, NoLegFits high low)]\<rparr>
                        else out))))
      | _ \<Rightarrow> out)"

definition plan_rebalance ::
  "fed_state \<Rightarrow> pool_config list \<Rightarrow> string list \<Rightarrow> f64 \<Rightarrow> (string \<Rightarrow> bool) \<Rightarrow> time \<Rightarrow> rebalance_plan" where
  "plan_rebalance fed pools rungs w bsy tm =
     foldl (plan_pool fed rungs w bsy tm) \<lparr>rb_moves = [], rb_held = []\<rparr> pools"

subsection \<open>The pass\<close>

definition releg_later :: "'w env \<Rightarrow> time \<Rightarrow> dist_volume \<Rightarrow> dist_volume" where
  "releg_later env t v = v\<lparr>v_next_releg_after := Some (t + cooldown env)\<rparr>"

definition start_move :: "'w env \<Rightarrow> time \<Rightarrow> 'w sys \<Rightarrow> move \<Rightarrow> 'w sys" where
  "start_move env t s m =
     (case start_replacement env (mv_volume m) (mv_from m) (Some (mv_to m)) ''rebalance''
             (note_event env ''rebalance'' Info (mv_volume m) s) of
        (Inr _, s) \<Rightarrow> s
      | (Inl _, s) \<Rightarrow>
          note_event env ''rebalance'' Warning (mv_volume m)
            (persist env (with_fed (on_volume (mv_volume m) (releg_later env t)) s)))"

definition rebalance_run :: "'w env \<Rightarrow> time \<Rightarrow> 'w sys \<Rightarrow> 'w sys" where
  "rebalance_run env t s =
     (if \<not> en_active env (sy_world s) then s
      else if list_all (\<lambda>p. pc_high_watermark p = None) (en_pools env) then s
      else foldl (start_move env t) s
        (rb_moves (plan_rebalance (sy_fed s) (en_pools env) (en_rungs env) (en_io_weight env) (\<lambda>n. busy n s) t)))"

subsection \<open>What the plan promises\<close>

text \<open>A move of volume \<open>v\<close> that the rules of its pool allow.\<close>

definition allowed_move :: "fed_state \<Rightarrow> (string \<Rightarrow> bool) \<Rightarrow> time \<Rightarrow> pool_config \<Rightarrow> f64 \<Rightarrow> f64 \<Rightarrow> move \<Rightarrow> dist_volume \<Rightarrow> bool" where
  "allowed_move fed bsy tm pool high low m v \<longleftrightarrow>
     mv_pool m = pc_name pool \<and> mv_volume m = v_name v \<and> v \<in> set (pool_volumes fed pool) \<and> movable bsy tm (mv_from m) v \<and>
     (\<exists>src \<in> set (pool_members fed pool). node_name src = mv_from m \<and> used src > high) \<and>
     (\<exists>dst \<in> set (bt_values (f_nodes fed)). node_name dst = mv_to m \<and> ns_healthy (n_status dst) \<and> used dst < low) \<and>
     (\<exists>dst \<in> set (pool_members fed pool). node_name dst = mv_to m) \<and> mv_to m \<notin> l_node ` set (v_legs v)"

lemma propose_cases:
  obtains (skip) "propose fed rungs w pool high low src st v = st"
  | (move) c where "c \<in> set (move_candidates fed rungs pool high low (rl_promised st) src v)"
      "rl_room st \<noteq> 0" "v_name v \<notin> set (rl_moved st)"
      "propose fed rungs w pool high low src st v =
         \<lparr>rl_room = rl_room st - 1,
          rl_promised = bt_insert (c_name c) (unwrap_or (bt_get (rl_promised st) (c_name c)) 0 + v_size_bytes v) (rl_promised st),
          rl_moved = v_name v # rl_moved st,
          rl_moves = rl_moves st @ [\<lparr>mv_pool = pc_name pool, mv_volume = v_name v, mv_from = node_name src, mv_to = c_name c,
            mv_from_used = used src, mv_to_used = unwrap_or (map_option used (bt_get (f_nodes fed) (c_name c))) 0\<rparr>]\<rparr>"
proof (cases "rl_room st = 0 \<or> v_name v \<in> set (rl_moved st)")
  case True
  then show ?thesis by (intro skip) (auto simp: propose_def)
next
  case False
  let ?cs = "move_candidates fed rungs pool high low (rl_promised st) src v"
  show ?thesis
  proof (cases "\<exists>t ts. plan ?cs rungs (v_rung v) 1 (v_size_bytes v) w = Inr (t # ts)")
    case True
    then obtain t ts where p: "plan ?cs rungs (v_rung v) 1 (v_size_bytes v) w = Inr (t # ts)" by blast
    from plan_legs [OF p] obtain ps where ps: "t # ts = map c_name ps"
        "\<forall>c \<in> set ps. c \<in> set ?cs \<and> v_size_bytes v \<le> c_free_bytes c"
      by (elim exE conjE) (rule that; assumption)
    then obtain c where "t = c_name c" "c \<in> set ?cs" by (cases ps) auto
    then show ?thesis using False p by (intro move [of c]) (auto simp: propose_def)
  next
    case no: False
    have "propose fed rungs w pool high low src st v = st"
      using no False by (auto simp: propose_def split: sum.splits list.splits)
    then show ?thesis by (rule skip)
  qed
qed

lemma candidate_used: "c = candidate_of n \<Longrightarrow> c_total_bytes c > 0 \<Longrightarrow>
    used n = 1 - of_nat (unat (c_free_bytes c)) / of_nat (unat (c_total_bytes c))"
  by (simp add: candidate_of_def used_def word_gt_0)

lemma move_allowed:
  assumes "c \<in> set (move_candidates fed rungs pool high low promised src v)"
    and "src \<in> set (pool_sources fed pool high)" and "v \<in> set (source_volumes fed pool bsy tm src)"
    and "m = \<lparr>mv_pool = pc_name pool, mv_volume = v_name v, mv_from = node_name src, mv_to = c_name c, mv_from_used = a, mv_to_used = b\<rparr>"
  shows "allowed_move fed bsy tm pool high low m v"
proof -
  from assms(1) obtain n where n: "n \<in> set (bt_values (f_nodes fed))" "c = candidate_of n" "ns_healthy (n_status n)"
      "list_all (\<lambda>l. l_node l \<noteq> node_name n) (v_legs v)"
    and take: "may_take high low promised (v_size_bytes v) c" "list_ex (\<lambda>m. node_name m = c_name c) (pool_members fed pool)"
    by (auto simp: move_candidates_def move_target_candidates_def node_name_def)
  have name: "c_name c = node_name n" by (simp add: n(2) candidate_of_def node_name_def)
  have "used n < low" using take(1) candidate_used [OF n(2)] by (simp add: may_take_def)
  then show ?thesis
    using assms(2-4) n take(2) name
    by (auto simp: allowed_move_def pool_sources_def source_volumes_def list_all_iff list_ex_iff)
qed

text \<open>What holds of the moves proposed so far, with the volumes \<open>vs\<close> they move.\<close>

definition landed :: "string \<Rightarrow> move list \<Rightarrow> dist_volume list \<Rightarrow> nat" where
  "landed t ms vs = sum_list (map (\<lambda>(m, v). if mv_to m = t then unat (v_size_bytes v) else 0) (zip ms vs))"

definition taken_ok :: "fed_state \<Rightarrow> f64 \<Rightarrow> move list \<Rightarrow> dist_volume list \<Rightarrow> bool" where
  "taken_ok fed high ms vs \<longleftrightarrow>
     (\<forall>m \<in> set ms. \<exists>n \<in> set (bt_values (f_nodes fed)). node_name n = mv_to m \<and> ns_total_bytes (n_status n) > 0 \<and>
        filled_after (candidate_of n) 0 + of_nat (landed (mv_to m) ms vs) \<le> high * of_nat (unat (ns_total_bytes (n_status n))))"

definition proposing :: "fed_state \<Rightarrow> (string \<Rightarrow> bool) \<Rightarrow> time \<Rightarrow> pool_config \<Rightarrow> f64 \<Rightarrow> f64 \<Rightarrow> nat \<Rightarrow> rebalancing \<Rightarrow> bool" where
  "proposing fed bsy tm pool high low room st \<longleftrightarrow>
     (\<exists>vs. list_all2 (allowed_move fed bsy tm pool high low) (rl_moves st) vs \<and>
        distinct (map v_name vs) \<and> set (map v_name vs) = set (rl_moved st) \<and> unat (rl_room st) + length vs = room \<and>
        (\<forall>t. unat (unwrap_or (bt_get (rl_promised st) t) 0) = landed t (rl_moves st) vs) \<and>
        taken_ok fed high (rl_moves st) vs)"

lemma landed_snoc:
  "length ms = length vs \<Longrightarrow> landed t (ms @ [m]) (vs @ [v]) = landed t ms vs + (if mv_to m = t then unat (v_size_bytes v) else 0)"
  by (simp add: landed_def)

lemma landed_le: "length ms = length vs \<Longrightarrow> landed t ms vs \<le> sum_list (map (\<lambda>v. unat (v_size_bytes v)) vs)"
  by (induction ms vs rule: list_induct2) (auto simp: landed_def)

lemma sum_list_subset:
  "distinct xs \<Longrightarrow> set xs \<subseteq> set ys \<Longrightarrow> sum_list (map f xs) \<le> sum_list (map (f :: 'a \<Rightarrow> nat) ys)"
proof -
  assume "distinct xs" "set xs \<subseteq> set ys"
  then have "sum_list (map f xs) = sum f (set xs)" by (simp add: sum_list_distinct_conv_sum_set)
  also have "\<dots> \<le> sum f (set ys)" by (rule sum_mono2) (use \<open>set xs \<subseteq> set ys\<close> in auto)
  also have "\<dots> \<le> sum_list (map f ys)" by (induction ys) (auto simp: sum.insert_if)
  finally show ?thesis .
qed

text \<open>No pool's volumes add up to more than a \<open>u64\<close> counts.\<close>

definition sizes_fit :: "fed_state \<Rightarrow> pool_config \<Rightarrow> bool" where
  "sizes_fit fed pool \<longleftrightarrow> sum_list (map (\<lambda>v. unat (v_size_bytes v)) (pool_volumes fed pool)) < 2 ^ 64"

lemma filled_after_add: "filled_after c b = filled_after c 0 + of_nat (unat b)"
  by (simp add: filled_after_def)

lemma propose_keeps:
  assumes inv: "proposing fed bsy tm pool high low room st" and fit: "sizes_fit fed pool"
    and src: "src \<in> set (pool_sources fed pool high)" and v: "v \<in> set (source_volumes fed pool bsy tm src)"
  shows "proposing fed bsy tm pool high low room (propose fed rungs w pool high low src st v)"
proof (cases rule: propose_cases [of fed rungs w pool high low src st v])
  case skip
  with inv show ?thesis by simp
next
  case (move c)
  from inv obtain vs where vs: "list_all2 (allowed_move fed bsy tm pool high low) (rl_moves st) vs"
      "distinct (map v_name vs)" "set (map v_name vs) = set (rl_moved st)" "unat (rl_room st) + length vs = room"
      "\<forall>t. unat (unwrap_or (bt_get (rl_promised st) t) 0) = landed t (rl_moves st) vs" "taken_ok fed high (rl_moves st) vs"
    unfolding proposing_def by blast
  let ?p = "propose fed rungs w pool high low src st v"
  let ?m = "\<lparr>mv_pool = pc_name pool, mv_volume = v_name v, mv_from = node_name src, mv_to = c_name c,
      mv_from_used = used src, mv_to_used = unwrap_or (map_option used (bt_get (f_nodes fed) (c_name c))) 0\<rparr>"
  have moves: "rl_moves ?p = rl_moves st @ [?m]" and prom: "rl_promised ?p =
      bt_insert (c_name c) (unwrap_or (bt_get (rl_promised st) (c_name c)) 0 + v_size_bytes v) (rl_promised st)"
    and rest: "rl_room ?p = rl_room st - 1" "rl_moved ?p = v_name v # rl_moved st"
    using move(4) by simp_all
  have len: "length (rl_moves st) = length vs" using vs(1) by (rule list_all2_lengthD)
  have allowed: "allowed_move fed bsy tm pool high low ?m v" by (rule move_allowed [OF move(1) src v refl])
  have dist: "distinct (map v_name (vs @ [v]))" using vs(2,3) move(3) by simp
  then have dvs: "distinct (vs @ [v])" by (simp only: distinct_map)
  have sub: "set (vs @ [v]) \<subseteq> set (pool_volumes fed pool)"
    using vs(1) allowed by (auto simp: allowed_move_def list_all2_conv_all_nth in_set_conv_nth)
  have small: "landed t (rl_moves ?p) (vs @ [v]) < 2 ^ 64" for t
    using landed_le [of "rl_moves ?p" "vs @ [v]" t] sum_list_subset [OF dvs sub, of "\<lambda>v. unat (v_size_bytes v)"] fit
    by (simp add: moves len sizes_fit_def)
  have lands: "landed t (rl_moves ?p) (vs @ [v]) = landed t (rl_moves st) vs + (if c_name c = t then unat (v_size_bytes v) else 0)" for t
    unfolding moves using landed_snoc [OF len] by simp
  have add: "unat (unwrap_or (bt_get (rl_promised st) (c_name c)) 0 + v_size_bytes v) = landed (c_name c) (rl_moves ?p) (vs @ [v])"
    using small [of "c_name c"] vs(5) unfolding lands by (simp add: unat_word_ariths)
  have promised: "unat (unwrap_or (bt_get (rl_promised ?p) t) 0) = landed t (rl_moves ?p) (vs @ [v])" for t
    using add vs(5) by (cases "t = c_name c") (auto simp: prom lands)
  from move(1) obtain n where n: "n \<in> set (bt_values (f_nodes fed))" "c = candidate_of n"
      and take: "may_take high low (rl_promised st) (v_size_bytes v) c"
    by (auto simp: move_candidates_def move_target_candidates_def)
  have tot: "c_total_bytes c = ns_total_bytes (n_status n)" and name: "c_name c = node_name n"
    by (simp_all add: n(2) candidate_of_def node_name_def)
  have gt: "c_total_bytes c > 0" using take by (simp add: may_take_def)
  then have "0 < unat (c_total_bytes c)" by (simp add: unat_gt_0)
  then have pos: "(0 :: f64) < of_nat (unat (c_total_bytes c))" by (simp only: of_nat_0_less_iff)
  have "filled_after c 0 + of_nat (landed (c_name c) (rl_moves ?p) (vs @ [v])) \<le> high * of_nat (unat (c_total_bytes c))"
    using take pos unfolding may_take_def add [symmetric] filled_after_add [of c "unwrap_or (bt_get (rl_promised st) (c_name c)) 0 + v_size_bytes v"]
    by (simp add: divide_le_eq)
  then have here: "\<exists>n \<in> set (bt_values (f_nodes fed)). node_name n = c_name c \<and> ns_total_bytes (n_status n) > 0 \<and>
      filled_after (candidate_of n) 0 + of_nat (landed (c_name c) (rl_moves ?p) (vs @ [v])) \<le> high * of_nat (unat (ns_total_bytes (n_status n)))"
    using n gt tot name by (intro bexI [of _ n]) auto
  have "taken_ok fed high (rl_moves ?p) (vs @ [v])"
    unfolding taken_ok_def
  proof
    fix m assume m: "m \<in> set (rl_moves ?p)"
    show "\<exists>n \<in> set (bt_values (f_nodes fed)). node_name n = mv_to m \<and> ns_total_bytes (n_status n) > 0 \<and>
        filled_after (candidate_of n) 0 + of_nat (landed (mv_to m) (rl_moves ?p) (vs @ [v])) \<le> high * of_nat (unat (ns_total_bytes (n_status n)))"
    proof (cases "mv_to m = c_name c")
      case True
      with here show ?thesis by simp
    next
      case False
      with m have "m \<in> set (rl_moves st)" by (auto simp: moves)
      with vs(6) False show ?thesis by (simp add: taken_ok_def lands)
    qed
  qed
  moreover have "list_all2 (allowed_move fed bsy tm pool high low) (rl_moves ?p) (vs @ [v])"
    unfolding moves using vs(1) allowed by (simp add: list_all2_appendI)
  moreover have "unat (rl_room ?p) + length (vs @ [v]) = room"
  proof -
    have "unat (rl_room st - 1) = unat (rl_room st) - 1" "unat (rl_room st) \<noteq> 0"
      using move(2) by (simp_all add: unat_minus_one unat_eq_zero)
    then show ?thesis using vs(4) by (simp add: rest)
  qed
  moreover have "set (map v_name (vs @ [v])) = set (rl_moved ?p)" using vs(3) by (simp add: rest)
  ultimately show ?thesis unfolding proposing_def using dist promised by (intro exI [of _ "vs @ [v]"]) blast
qed

lemma propose_from_keeps:
  assumes "proposing fed bsy tm pool high low room st" and "sizes_fit fed pool" and "src \<in> set (pool_sources fed pool high)"
  shows "proposing fed bsy tm pool high low room (propose_from fed rungs w bsy tm pool high low st src)"
proof -
  have "set vols \<subseteq> set (source_volumes fed pool bsy tm src) \<Longrightarrow> proposing fed bsy tm pool high low room st \<Longrightarrow>
      proposing fed bsy tm pool high low room (foldl (propose fed rungs w pool high low src) st vols)" for vols st
    by (induction vols arbitrary: st) (auto intro: propose_keeps assms(2,3))
  then show ?thesis using assms(1) by (simp add: propose_from_def)
qed

lemma proposing_all:
  assumes "sizes_fit fed pool"
  shows "proposing fed bsy tm pool high low (unat room)
    (foldl (propose_from fed rungs w bsy tm pool high low) \<lparr>rl_room = room, rl_promised = [], rl_moved = [], rl_moves = []\<rparr>
      (pool_sources fed pool high))"
proof -
  have "set srcs \<subseteq> set (pool_sources fed pool high) \<Longrightarrow> proposing fed bsy tm pool high low r st \<Longrightarrow>
      proposing fed bsy tm pool high low r (foldl (propose_from fed rungs w bsy tm pool high low) st srcs)" for srcs st r
    by (induction srcs arbitrary: st) (auto intro: propose_from_keeps assms)
  moreover have "proposing fed bsy tm pool high low (unat room) \<lparr>rl_room = room, rl_promised = [], rl_moved = [], rl_moves = []\<rparr>"
    by (auto simp: proposing_def landed_def taken_ok_def intro: exI [of _ "[]"])
  ultimately show ?thesis by blast
qed

lemma list_all2_member: "list_all2 P xs ys \<Longrightarrow> x \<in> set xs \<Longrightarrow> \<exists>y. P x y"
  by (induction rule: list_all2_induct) auto

lemma plan_pool_moves:
  obtains (none) "rb_moves (plan_pool fed rungs w bsy tm out pool) = rb_moves out"
  | (some) high low in_flight room where
      "pc_high_watermark pool = Some high" "pc_low_watermark pool = Some low" "pool_room fed pool = (in_flight, room)"
      "rb_moves (plan_pool fed rungs w bsy tm out pool) = rb_moves out @
        rl_moves (foldl (propose_from fed rungs w bsy tm pool high low)
          \<lparr>rl_room = room, rl_promised = [], rl_moved = [], rl_moves = []\<rparr> (pool_sources fed pool high))"
proof (cases "\<exists>high low. pc_high_watermark pool = Some high \<and> pc_low_watermark pool = Some low")
  case False
  then show ?thesis by (intro none) (auto simp: plan_pool_def split: option.split)
next
  case True
  then obtain high low where hl: "pc_high_watermark pool = Some high" "pc_low_watermark pool = Some low" by blast
  obtain in_flight room where r: "pool_room fed pool = (in_flight, room)" by fastforce
  have "rb_moves (plan_pool fed rungs w bsy tm out pool) = rb_moves out \<or>
      rb_moves (plan_pool fed rungs w bsy tm out pool) = rb_moves out @
        rl_moves (foldl (propose_from fed rungs w bsy tm pool high low)
          \<lparr>rl_room = room, rl_promised = [], rl_moved = [], rl_moves = []\<rparr> (pool_sources fed pool high))"
    by (simp add: plan_pool_def hl r Let_def split: option.split)
  then show ?thesis using none some [OF hl r] by blast
qed

text \<open>Every move a rebalance proposes is one its pool allows: the volume is assembled, idle and of that
  pool, the leg is a created one that is not the head's, on a member used above the high watermark, and it goes
  to a healthy member used below the low watermark that holds no leg of the volume.\<close>

theorem rebalance_moves_allowed:
  assumes "\<forall>pool \<in> set pools. sizes_fit fed pool" and "m \<in> set (rb_moves (plan_rebalance fed pools rungs w bsy tm))"
  shows "\<exists>pool \<in> set pools. \<exists>high low v. pc_high_watermark pool = Some high \<and> pc_low_watermark pool = Some low \<and>
    allowed_move fed bsy tm pool high low m v"
proof -
  have "\<forall>pool \<in> set ps. sizes_fit fed pool \<Longrightarrow> m \<in> set (rb_moves (foldl (plan_pool fed rungs w bsy tm) out ps)) \<Longrightarrow>
      m \<in> set (rb_moves out) \<or> (\<exists>pool \<in> set ps. \<exists>high low v. pc_high_watermark pool = Some high \<and> pc_low_watermark pool = Some low \<and>
        allowed_move fed bsy tm pool high low m v)" for ps out
  proof (induction ps arbitrary: out)
    case (Cons p ps)
    let ?out = "plan_pool fed rungs w bsy tm out p"
    have "m \<in> set (rb_moves ?out) \<or> (\<exists>pool \<in> set ps. \<exists>high low v. pc_high_watermark pool = Some high \<and> pc_low_watermark pool = Some low \<and>
        allowed_move fed bsy tm pool high low m v)"
      using Cons.IH [of ?out] Cons.prems by simp
    moreover have "m \<in> set (rb_moves out) \<or> (\<exists>high low v. pc_high_watermark p = Some high \<and> pc_low_watermark p = Some low \<and>
        allowed_move fed bsy tm p high low m v)" if "m \<in> set (rb_moves ?out)"
    proof (cases rule: plan_pool_moves [of fed rungs w bsy tm out p])
      case none
      with that show ?thesis by simp
    next
      case (some high low in_flight room)
      have "sizes_fit fed p" using Cons.prems(1) by simp
      from proposing_all [OF this, of bsy tm high low room rungs w] obtain vs where
          "list_all2 (allowed_move fed bsy tm p high low) (rl_moves (foldl (propose_from fed rungs w bsy tm p high low)
            \<lparr>rl_room = room, rl_promised = [], rl_moved = [], rl_moves = []\<rparr> (pool_sources fed p high))) vs"
        unfolding proposing_def by blast
      from list_all2_member [OF this, of m] that some(1,2,4) show ?thesis by auto
    qed
    ultimately show ?case by auto
  qed simp
  from this [OF assms(1)] assms(2) show ?thesis by (fastforce simp: plan_rebalance_def)
qed

text \<open>Property C22. A rebalance of a pool stays within its limits: with the replacements in flight it moves no more legs than
  the pool allows at once, it moves a volume at most once, and no target ends above the high watermark, counting
  everything the pass sends there.\<close>

theorem rebalance_within_limits:
  assumes "sizes_fit fed pool" and "pc_high_watermark pool = Some high"
    and "plan_rebalance fed [pool] rungs w bsy tm = out"
  shows "\<exists>vs. map v_name vs = map mv_volume (rb_moves out) \<and> set vs \<subseteq> set (pool_volumes fed pool) \<and> distinct (map v_name vs) \<and>
    length vs \<le> unat (snd (pool_room fed pool)) \<and> taken_ok fed high (rb_moves out) vs"
proof (cases rule: plan_pool_moves [of fed rungs w bsy tm "\<lparr>rb_moves = [], rb_held = []\<rparr>" pool])
  case none
  then have "rb_moves out = []" using assms(3) by (simp add: plan_rebalance_def)
  then show ?thesis by (auto simp: taken_ok_def)
next
  case (some hw low in_flight room)
  let ?st = "foldl (propose_from fed rungs w bsy tm pool high low)
    \<lparr>rl_room = room, rl_promised = [], rl_moved = [], rl_moves = []\<rparr> (pool_sources fed pool high)"
  have moves: "rb_moves out = rl_moves ?st" using some assms(2,3) by (simp add: plan_rebalance_def)
  from proposing_all [OF assms(1), of bsy tm high low room rungs w] obtain vs where vs:
      "list_all2 (allowed_move fed bsy tm pool high low) (rl_moves ?st) vs" "distinct (map v_name vs)"
      "unat (rl_room ?st) + length vs = unat room" "taken_ok fed high (rl_moves ?st) vs"
    unfolding proposing_def by blast
  have "map v_name vs = map mv_volume (rl_moves ?st)" "set vs \<subseteq> set (pool_volumes fed pool)"
    using vs(1) by (auto simp: list_all2_conv_all_nth allowed_move_def list_eq_iff_nth_eq in_set_conv_nth)
  then show ?thesis using vs some(3) unfolding moves by (intro exI [of _ vs]) simp
qed

subsection \<open>Witnesses\<close>

definition sized_node :: "string \<Rightarrow> u64 \<Rightarrow> node" where
  "sized_node n free = \<lparr>n_config = wit_config n, n_status = (new_status Static)\<lparr>ns_healthy := True, ns_free_bytes := free, ns_total_bytes := 20\<rparr>\<rparr>"

definition full_fed :: fed_state where
  "full_fed = default_fed\<lparr>f_nodes := [(''a'', sized_node ''a'' 10), (''b'', sized_node ''b'' 1), (''c'', sized_node ''c'' 18)],
     f_volumes := [(''vol'', wit_vol\<lparr>v_pool := Some ''p'', v_size_bytes := 1\<rparr>)]\<rparr>"

definition wit_pool :: pool_config where
  "wit_pool = \<lparr>pc_name = ''p'', pc_selector = \<lparr>sel_tier = None, sel_labels = [], sel_nodes = []\<rparr>, pc_replicas = 2, pc_rung = ''node'',
     pc_high_watermark = Some (8 / 10), pc_low_watermark = Some (5 / 10), pc_max_moves = 1\<rparr>"

lemma full_plan:
  "map (\<lambda>m. (mv_volume m, mv_from m, mv_to m)) (rb_moves (plan_rebalance full_fed [wit_pool] [''node''] 0 (\<lambda>_. False) 0)) =
     [(''vol'', ''b'', ''c'')]"
  by code_simp

lemma full_fits: "sizes_fit full_fed wit_pool"
  by (simp add: sizes_fit_def pool_volumes_def full_fed_def wit_pool_def wit_vol_def)

lemma rebalance_moves_allowed_witness:
  "\<exists>m v. m \<in> set (rb_moves (plan_rebalance full_fed [wit_pool] [''node''] 0 (\<lambda>_. False) 0)) \<and>
     allowed_move full_fed (\<lambda>_. False) 0 wit_pool (8 / 10) (5 / 10) m v"
proof -
  obtain m where m: "m \<in> set (rb_moves (plan_rebalance full_fed [wit_pool] [''node''] 0 (\<lambda>_. False) 0))"
    using full_plan by (cases "rb_moves (plan_rebalance full_fed [wit_pool] [''node''] 0 (\<lambda>_. False) 0)") auto
  have "\<forall>pool \<in> set [wit_pool]. sizes_fit full_fed pool" using full_fits by simp
  from rebalance_moves_allowed [OF this m] obtain high low v where
      "pc_high_watermark wit_pool = Some high" "pc_low_watermark wit_pool = Some low" "allowed_move full_fed (\<lambda>_. False) 0 wit_pool high low m v"
    by auto
  moreover from this have "high = 8 / 10" "low = 5 / 10" by (simp_all add: wit_pool_def)
  ultimately show ?thesis using m by blast
qed

lemma rebalance_within_limits_witness:
  "\<exists>vs. map v_name vs = [''vol''] \<and> set vs \<subseteq> set (pool_volumes full_fed wit_pool) \<and> length vs \<le> 1"
proof -
  have "map mv_volume (rb_moves (plan_rebalance full_fed [wit_pool] [''node''] 0 (\<lambda>_. False) 0)) = [''vol'']"
    using full_plan by auto
  moreover have "pc_high_watermark wit_pool = Some (8 / 10)" by (simp add: wit_pool_def)
  moreover have "unat (snd (pool_room full_fed wit_pool)) = 1" by code_simp
  ultimately show ?thesis
    using rebalance_within_limits [OF full_fits _ refl, of "8 / 10" "[''node'']" 0 "\<lambda>_. False" 0] by metis
qed

end
