(* ===== verification/Migrate.thy ===== *)
theory Migrate
  imports Rebalance
begin

section \<open>Moving a volume to another pool\<close>

text \<open>
  Models \<open>src/migrate.rs\<close>: what a migration does next (\<open>next_step\<close>), starting and cancelling one, and
  the pass that takes one step for every migrating volume that is idle. A migration keeps the text of what
  holds it up; how a reason prints is the parameter \<open>show\<close> of the operations that record one.
\<close>

datatype blocked = LegNotReady string leg_state | NoTargetInPool string string plan_error | PoolGone string

datatype mig_step = StepMove string string | StepDone | StepHandover | StepBlocked blocked

datatype mig_note = HeldBy blocked | AwaitsHandover string string | MoveRefused wiring_error

datatype mig_refusal =
    NoSuchPool string | NoSuchVolume string | MigratingTo string | OneLegOnly | NotAssembled assembly_state
  | NotIdle | AlreadyThere string | NoRoomFor plan_error

definition in_pool :: "fed_state \<Rightarrow> pool_config \<Rightarrow> string \<Rightarrow> bool" where
  "in_pool fed pool n = is_some_and (bt_get (f_nodes fed) n) (\<lambda>x. matches (pc_selector pool) (n_config x))"

definition outside :: "fed_state \<Rightarrow> pool_config \<Rightarrow> dist_volume \<Rightarrow> string list" where
  "outside fed pool v = filter (\<lambda>n. \<not> in_pool fed pool n) (map l_node (v_legs v))"

definition least :: "string list \<Rightarrow> string option" where
  "least xs = (case xs of [] \<Rightarrow> None | y # ys \<Rightarrow> Some (foldl min y ys))"

definition next_step :: "fed_state \<Rightarrow> pool_config \<Rightarrow> string list \<Rightarrow> f64 \<Rightarrow> dist_volume \<Rightarrow> mig_step" where
  "next_step fed pool rungs w v =
     (case find (\<lambda>l. l_state l \<noteq> Created) (v_legs v) of
        Some l \<Rightarrow> StepBlocked (LegNotReady (l_node l) (l_state l))
      | None \<Rightarrow>
          if outside fed pool v = [] then StepDone
          else (case least (filter (\<lambda>n. Some n \<noteq> v_head v) (outside fed pool v)) of
              None \<Rightarrow> StepHandover
            | Some src \<Rightarrow>
                (let cands = filter (\<lambda>c. in_pool fed pool (c_name c))
                       (move_target_candidates fed rungs (v\<lparr>v_rung := pc_rung pool\<rparr>) src)
                 in case plan cands rungs (pc_rung pool) 1 (v_size_bytes v) w of
                      Inr (t # _) \<Rightarrow> StepMove src t
                    | Inr [] \<Rightarrow> StepDone
                    | Inl e \<Rightarrow> StepBlocked (NoTargetInPool (pc_name pool) src e))))"

subsection \<open>Starting and cancelling\<close>

definition check_migration ::
  "'w env \<Rightarrow> fed_state \<Rightarrow> pool_config \<Rightarrow> string \<Rightarrow> string \<Rightarrow> mig_refusal + (migration + dist_volume)" where
  "check_migration env fed pool name dest =
     (case bt_get (f_volumes fed) name of
        None \<Rightarrow> Inl (NoSuchVolume name)
      | Some vol \<Rightarrow>
          (case v_migration vol of
             Some m \<Rightarrow> if m_to_pool m = dest then Inr (Inl m) else Inl (MigratingTo (m_to_pool m))
           | None \<Rightarrow>
               if v_assembly vol = SingleLeg then Inl OneLegOnly
               else if v_assembly vol \<noteq> Assembled then Inl (NotAssembled (v_assembly vol))
               else if v_fenced vol \<or> v_replacing vol \<noteq> None \<or> v_dual_attach vol \<noteq> None then Inl NotIdle
               else if list_all (\<lambda>l. in_pool fed pool (l_node l)) (v_legs vol) then Inl (AlreadyThere dest)
               else (case plan (map candidate_of (filter (\<lambda>n. ns_healthy (n_status n) \<and> matches (pc_selector pool) (n_config n))
                           (bt_values (f_nodes fed)))) (en_rungs env) (pc_rung pool) (of_nat (length (v_legs vol))) (v_size_bytes vol)
                         (en_io_weight env) of
                   Inl e \<Rightarrow> Inl (NoRoomFor e)
                 | Inr _ \<Rightarrow> Inr (Inr vol))))"

definition start_migration :: "'w env \<Rightarrow> string \<Rightarrow> string \<Rightarrow> 'w sys \<Rightarrow> (mig_refusal + migration) \<times> 'w sys" where
  "start_migration env name dest s =
     (case find_pool (en_pools env) dest of
        None \<Rightarrow> (Inl (NoSuchPool dest), s)
      | Some pool \<Rightarrow>
          (case check_migration env (sy_fed s) pool name dest of
             Inl e \<Rightarrow> (Inl e, s)
           | Inr (Inl m) \<Rightarrow> (Inr m, s)
           | Inr (Inr vol) \<Rightarrow>
               (let m = \<lparr>m_to_pool = dest, m_from_pool = v_pool vol, m_started_at = now env s, m_state = Moving, m_message = None\<rparr>
                in (Inr m, note_event env ''migrate'' Info name (publish_state env
                     (with_fed (\<lambda>fed. bump (on_volume name (\<lambda>v. v\<lparr>v_migration := Some m\<rparr>) fed)) s))))))"

definition cancel_migration :: "'w env \<Rightarrow> string \<Rightarrow> 'w sys \<Rightarrow> (mig_refusal + bool) \<times> 'w sys" where
  "cancel_migration env name s =
     (case volume name s of
        None \<Rightarrow> (Inl (NoSuchVolume name), s)
      | Some v \<Rightarrow>
          if v_migration v = None then (Inr False, s)
          else (Inr True, note_event env ''migrate'' Info name (publish_state env
            (with_fed (\<lambda>fed. bump (on_volume name (\<lambda>v. v\<lparr>v_migration := None\<rparr>) fed)) s))))"

subsection \<open>The pass\<close>

record mig_due =
  md_name :: string
  md_step :: mig_step
  md_was :: migration_state
  md_message :: "string option"
  md_to :: string

definition migrations_due :: "'w env \<Rightarrow> time \<Rightarrow> 'w sys \<Rightarrow> mig_due list" where
  "migrations_due env tm s =
     List.map_filter (\<lambda>v. map_option (\<lambda>m. \<lparr>md_name = v_name v,
         md_step = (case find_pool (en_pools env) (m_to_pool m) of
             Some pool \<Rightarrow> next_step (sy_fed s) pool (en_rungs env) (en_io_weight env) v
           | None \<Rightarrow> StepBlocked (PoolGone (m_to_pool m))),
         md_was = m_state m, md_message = m_message m, md_to = m_to_pool m\<rparr>) (v_migration v))
       (filter (\<lambda>v. v_replacing v = None \<and> \<not> busy (v_name v) s \<and> \<not> v_fenced v \<and> v_dual_attach v = None \<and>
           unwrap_or (map_option (\<lambda>t. t \<le> tm) (v_next_releg_after v)) True) (bt_values (f_volumes (sy_fed s))))"

definition set_migration :: "'w env \<Rightarrow> string \<Rightarrow> migration_state \<Rightarrow> string option \<Rightarrow> 'w sys \<Rightarrow> 'w sys" where
  "set_migration env name st msg s =
     publish_state env (with_fed (\<lambda>fed. bump (on_volume name
       (\<lambda>v. v\<lparr>v_migration := map_option (\<lambda>m. m\<lparr>m_state := st, m_message := msg\<rparr>) (v_migration v)\<rparr>) fed)) s)"

definition after_move :: "'w env \<Rightarrow> (mig_note \<Rightarrow> string) \<Rightarrow> time \<Rightarrow> wiring_error option \<Rightarrow> dist_volume \<Rightarrow> dist_volume" where
  "after_move env show tm e v =
     (let v = v\<lparr>v_migration := map_option (\<lambda>m. m\<lparr>m_state := Moving, m_message := map_option (\<lambda>x. show (MoveRefused x)) e\<rparr>) (v_migration v)\<rparr>
      in if e \<noteq> None then releg_later env tm v else v)"

definition arrived :: "'w env \<Rightarrow> string \<Rightarrow> dist_volume \<Rightarrow> dist_volume" where
  "arrived env dest v =
     (let v = v\<lparr>v_pool := Some dest\<rparr>;
          v = (case find_pool (en_pools env) dest of None \<Rightarrow> v | Some p \<Rightarrow> v\<lparr>v_rung := pc_rung p\<rparr>)
      in v\<lparr>v_migration := None\<rparr>)"

definition take_step :: "'w env \<Rightarrow> (mig_note \<Rightarrow> string) \<Rightarrow> time \<Rightarrow> 'w sys \<Rightarrow> mig_due \<Rightarrow> 'w sys" where
  "take_step env show tm s d =
     (let name = md_name d in
      case md_step d of
        StepMove src t \<Rightarrow>
          (case start_replacement env name src (Some t) ''tier migration'' s of
             (r, s) \<Rightarrow>
               (let e = (case r of Inl x \<Rightarrow> Some x | Inr _ \<Rightarrow> None) in
                note_event env ''migrate'' (if e = None then Info else Warning) name (publish_state env
                  (with_fed (\<lambda>fed. bump (on_volume name (after_move env show tm e) fed)) s))))
      | StepDone \<Rightarrow>
          note_event env ''migrate'' Info name (publish_state env
            (with_fed (\<lambda>fed. bump (on_volume name (arrived env (md_to d)) fed)) s))
      | StepHandover \<Rightarrow>
          if md_was d = WaitingHandover then s
          else note_event env ''migrate'' Warning name
            (set_migration env name WaitingHandover (Some (show (AwaitsHandover name (md_to d)))) s)
      | StepBlocked why \<Rightarrow>
          if md_message d = Some (show (HeldBy why)) then s
          else note_event env ''migrate'' Warning name (set_migration env name Moving (Some (show (HeldBy why))) s))"

definition migrate_run :: "'w env \<Rightarrow> (mig_note \<Rightarrow> string) \<Rightarrow> time \<Rightarrow> 'w sys \<Rightarrow> 'w sys" where
  "migrate_run env show tm s =
     (if \<not> en_active env (sy_world s) then s else foldl (take_step env show tm) s (migrations_due env tm s))"

subsection \<open>Steps that move\<close>

lemma foldl_min_mem: "foldl min (y :: string) ys \<in> insert y (set ys)"
proof (induction ys arbitrary: y)
  case (Cons a ys)
  from Cons.IH [of "min y a"] show ?case by (auto simp: min_def split: if_splits)
qed simp

lemma least_mem: "least xs = Some x \<Longrightarrow> x \<in> set xs"
  using foldl_min_mem by (auto simp: least_def split: list.splits)

lemma least_None [simp]: "least xs = None \<longleftrightarrow> xs = []"
  by (simp add: least_def split: list.split)

lemma next_step_move:
  assumes "next_step fed pool rungs w v = StepMove src t"
  shows "src \<in> set (outside fed pool v) \<and> v_head v \<noteq> Some src \<and> list_all (\<lambda>l. l_state l = Created) (v_legs v) \<and>
    in_pool fed pool t \<and> (\<exists>c \<in> set (move_target_candidates fed rungs (v\<lparr>v_rung := pc_rung pool\<rparr>) src). c_name c = t)"
proof -
  have none: "find (\<lambda>l. l_state l \<noteq> Created) (v_legs v) = None"
    using assms by (auto simp: next_step_def split: option.splits)
  obtain s0 where s0: "least (filter (\<lambda>n. Some n \<noteq> v_head v) (outside fed pool v)) = Some s0"
    using assms none by (auto simp: next_step_def split: option.splits if_splits)
  let ?cs = "filter (\<lambda>c. in_pool fed pool (c_name c)) (move_target_candidates fed rungs (v\<lparr>v_rung := pc_rung pool\<rparr>) s0)"
  obtain ts where p: "plan ?cs rungs (pc_rung pool) 1 (v_size_bytes v) w = Inr (t # ts)" and src: "src = s0"
    using assms none s0 by (auto simp: next_step_def Let_def split: sum.splits list.splits if_splits)
  from plan_legs [OF p] obtain ps where "t # ts = map c_name ps" "\<forall>c \<in> set ps. c \<in> set ?cs \<and> v_size_bytes v \<le> c_free_bytes c"
    by (elim exE conjE) (rule that; assumption)
  then obtain c where "c_name c = t" "c \<in> set ?cs" by (cases ps) auto
  moreover have "src \<in> set (outside fed pool v) \<and> v_head v \<noteq> Some src" using least_mem [OF s0] src by auto
  moreover have "list_all (\<lambda>l. l_state l = Created) (v_legs v)" using none by (simp add: find_None_iff list_all_iff)
  ultimately show ?thesis using src by auto
qed

lemma in_pool_replaced:
  assumes "distinct (map l_node (v_legs v))" and "r_from rep \<in> l_node ` set (v_legs v)"
  shows "outside fed pool (replaced rep v) = filter (\<lambda>n. \<not> in_pool fed pool n)
    (map (\<lambda>n. if n = r_from rep then l_node (r_leg rep) else n) (map l_node (v_legs v)))"
proof -
  have upd: "map l_node (update_first (\<lambda>l. l_node l = f) (\<lambda>_. nl) ls) = map (\<lambda>n. if n = f then l_node nl else n) (map l_node ls)"
    if "distinct (map l_node ls)" for f nl ls
    using that by (induction ls) (auto intro!: map_idI [symmetric], metis imageI)
  moreover have "list_ex (\<lambda>l. l_node l = r_from rep) (v_legs v)" using assms(2) by (auto simp: list_ex_iff)
  ultimately show ?thesis
    using upd [OF assms(1), of "r_from rep" "(r_leg rep)\<lparr>l_message := None\<rparr>"]
    by (simp add: outside_def replaced_def Let_def cong: if_cong)
qed

lemma filter_swap_less:
  assumes "f \<in> set ns" and "\<not> P f" and "P t"
  shows "length (filter (\<lambda>n. \<not> P n) (map (\<lambda>n. if n = f then t else n) ns)) < length (filter (\<lambda>n. \<not> P n) ns)"
proof -
  have le: "length (filter (\<lambda>n. \<not> P n) (map (\<lambda>n. if n = f then t else n) ms)) \<le> length (filter (\<lambda>n. \<not> P n) ms)" for ms
    using assms(3) by (induction ms) (auto simp: le_SucI)
  from assms(1) obtain as bs where "ns = as @ f # bs" by (meson split_list)
  with assms(2,3) le [of as] le [of bs] show ?thesis by simp
qed

text \<open>Property C23. A migration ends: each step that moves a leg takes one outside the destination, never the head's, to a
  healthy node of the destination without a leg of the volume, so once the replacement is finished one leg fewer
  is outside; after at most as many moves as legs outside, no step moves a leg.\<close>

theorem migration_progress:
  assumes "next_step fed pool rungs w v = StepMove src t" and "distinct (map l_node (v_legs v))"
    and "r_from rep = src" and "l_node (r_leg rep) = t"
  shows "v_head v \<noteq> Some src \<and> in_pool fed pool t \<and> t \<notin> l_node ` set (v_legs v) \<and>
    length (outside fed pool (replaced rep v)) < length (outside fed pool v)"
proof -
  note move = next_step_move [OF assms(1)]
  have mem: "src \<in> l_node ` set (v_legs v)" and out: "\<not> in_pool fed pool src" using move by (auto simp: outside_def)
  have "length (outside fed pool (replaced rep v)) < length (outside fed pool v)"
    unfolding in_pool_replaced [OF assms(2) mem [folded assms(3)]] unfolding outside_def assms(3,4)
    using filter_swap_less [of src "map l_node (v_legs v)" "in_pool fed pool" t] mem out move by simp
  moreover have "t \<notin> l_node ` set (v_legs v)"
    using move by (auto simp: move_target_candidates_def list_all_iff candidate_of_def)
  ultimately show ?thesis using move by blast
qed

text \<open>Starting a migration is refused without a change, or it records the destination on an assembled, idle
  volume with a leg outside it, when the destination has room for as many legs in distinct domains. Starting it
  again towards the same pool answers the recorded migration and changes nothing.\<close>

theorem migration_started:
  assumes "start_migration env name dest s = (r, s')"
  shows "case r of
      Inl _ \<Rightarrow> s' = s
    | Inr m \<Rightarrow> m_to_pool m = dest \<and> (\<exists>v pool. volume name s = Some v \<and> find_pool (en_pools env) dest = Some pool \<and>
        (s' = s \<and> v_migration v = Some m \<or>
         volume name s' = Some (v\<lparr>v_migration := Some m\<rparr>) \<and> v_migration v = None \<and> v_assembly v = Assembled \<and>
         \<not> v_fenced v \<and> v_replacing v = None \<and> v_dual_attach v = None \<and> outside (sy_fed s) pool v \<noteq> [] \<and>
         (\<exists>ps :: candidate list. length ps = unat (of_nat (length (v_legs v)) :: u32) \<and>
            distinct (map (\<lambda>c. domain_at (c_labels c) (en_rungs env) (pc_rung pool)) ps) \<and>
            (\<forall>c \<in> set ps. c_name c \<in> node_name ` set (pool_members (sy_fed s) pool)))))"
proof (cases r)
  case (Inl e)
  with assms show ?thesis by (auto simp: start_migration_def Let_def split: option.splits sum.splits)
next
  case (Inr m)
  with assms obtain pool where pool: "find_pool (en_pools env) dest = Some pool"
    by (auto simp: start_migration_def split: option.splits)
  obtain x where chk: "check_migration env (sy_fed s) pool name dest = Inr x"
    using assms Inr pool by (auto simp: start_migration_def split: sum.splits)
  obtain v where v: "volume name s = Some v" using chk by (auto simp: check_migration_def split: option.splits)
  show ?thesis
  proof (cases "v_migration v")
    case (Some m0)
    with chk v have "m_to_pool m0 = dest" "x = Inl m0" by (auto simp: check_migration_def split: if_splits)
    with assms Inr pool chk v Some show ?thesis by (auto simp: start_migration_def)
  next
    case None
    let ?cs = "map candidate_of (filter (\<lambda>n. ns_healthy (n_status n) \<and> matches (pc_selector pool) (n_config n)) (bt_values (f_nodes (sy_fed s))))"
    have ok: "v_assembly v = Assembled" "\<not> v_fenced v" "v_replacing v = None" "v_dual_attach v = None"
        "\<not> list_all (\<lambda>l. in_pool (sy_fed s) pool (l_node l)) (v_legs v)" "x = Inr v"
      using chk v None by (auto simp: check_migration_def split: if_splits sum.splits)
    obtain picks where p: "plan ?cs (en_rungs env) (pc_rung pool) (of_nat (length (v_legs v))) (v_size_bytes v) (en_io_weight env) = Inr picks"
      using chk v None ok(1-5) by (auto simp: check_migration_def split: if_splits sum.splits)
    from plan_legs [OF p] obtain ps where ps: "length ps = unat (of_nat (length (v_legs v)) :: u32)"
        "\<forall>c \<in> set ps. c \<in> set ?cs \<and> v_size_bytes v \<le> c_free_bytes c"
        "distinct (map (\<lambda>c. domain_at (c_labels c) (en_rungs env) (pc_rung pool)) ps)"
      by (elim exE conjE) (rule that; assumption)
    have "c_name c \<in> node_name ` set (pool_members (sy_fed s) pool)" if "c \<in> set ?cs" for c
      using that by (force simp: pool_members_def candidate_of_def node_name_def)
    with ps(2) have mem: "\<forall>c \<in> set ps. c_name c \<in> node_name ` set (pool_members (sy_fed s) pool)" by blast
    have out: "outside (sy_fed s) pool v \<noteq> []" using ok(5) by (auto simp: outside_def list_all_iff filter_empty_conv)
    have res: "m_to_pool m = dest" "volume name s' = Some (v\<lparr>v_migration := Some m\<rparr>)"
      using assms Inr pool chk v ok(6) by (auto simp: start_migration_def Let_def persist_def push_to_peers_def note_event_def)
    show ?thesis unfolding Inr sum.case
      by (rule conjI [OF res(1)], rule exI [of _ v], rule exI [of _ pool], intro conjI v pool disjI2 res(2) None ok(1-4) out)
        (rule exI [of _ ps], intro conjI ps(1,3) mem)
  qed
qed

subsection \<open>Witnesses\<close>

text \<open>A destination of the nodes \<open>c\<close> and \<open>d\<close>; the volume has its legs on \<open>a\<close> (its head) and \<open>b\<close>.\<close>

definition dest_pool :: pool_config where
  "dest_pool = wit_pool\<lparr>pc_name := ''q'', pc_selector := \<lparr>sel_tier = None, sel_labels = [], sel_nodes = [''c'', ''d'']\<rparr>\<rparr>"

definition small_vol :: dist_volume where
  "small_vol = wit_vol\<lparr>v_size_bytes := 1\<rparr>"

definition dest_fed :: fed_state where
  "dest_fed = default_fed\<lparr>f_nodes := [(''a'', sized_node ''a'' 9), (''b'', sized_node ''b'' 9), (''c'', sized_node ''c'' 9), (''d'', sized_node ''d'' 9)],
     f_volumes := [(''vol'', small_vol)]\<rparr>"

lemma migration_progress_witness:
  "length (outside dest_fed dest_pool (replaced \<lparr>r_from = ''b'', r_leg = wit_leg ''c'' ''u3'', r_reason = [], r_started_at = 0\<rparr> small_vol)) < 2"
proof -
  have "next_step dest_fed dest_pool [''node''] 0 small_vol = StepMove ''b'' ''c''" by code_simp
  moreover have "distinct (map l_node (v_legs small_vol))" by (simp add: small_vol_def wit_vol_def wit_leg_def)
  moreover have "length (outside dest_fed dest_pool small_vol) = 2" by code_simp
  ultimately show ?thesis
    using migration_progress [of dest_fed dest_pool "[''node'']" 0 small_vol "''b''" "''c''"
        "\<lparr>r_from = ''b'', r_leg = wit_leg ''c'' ''u3'', r_reason = [], r_started_at = 0\<rparr>"]
    by (simp add: wit_leg_def)
qed

definition dest_env :: "unit env" where
  "dest_env = (small_env empty_answer)\<lparr>en_pools := [dest_pool], en_rungs := [''node'']\<rparr>"

definition dest_sys :: "unit sys" where
  "dest_sys = (small_sys small_vol)\<lparr>sy_fed := dest_fed\<rparr>"

lemma migration_started_witness:
  "\<exists>m. fst (start_migration dest_env ''vol'' ''q'' dest_sys) = Inr m \<and> m_to_pool m = ''q''"
proof -
  have "\<not> isl (fst (start_migration dest_env ''vol'' ''q'' dest_sys))" by code_simp
  then obtain m where m: "fst (start_migration dest_env ''vol'' ''q'' dest_sys) = Inr m"
    by (cases "fst (start_migration dest_env ''vol'' ''q'' dest_sys)") auto
  then have "start_migration dest_env ''vol'' ''q'' dest_sys = (Inr m, snd (start_migration dest_env ''vol'' ''q'' dest_sys))"
    by (metis prod.collapse)
  from migration_started [OF this] m show ?thesis by auto
qed

end
