(* ===== verification/Ops.thy ===== *)
theory Ops
  imports System
begin

section \<open>Handlers as operations\<close>

text \<open>
  A handler as a function on the instance's state that answers an error or a value. \<open>bind_op\<close> is the operator \<open>?\<close>
  of the source, \<open>call_op\<close> an engine call whose error is wrapped. What a handler keeps is shown step by step:
  \<open>keeps\<close> for a predicate every step preserves, \<open>ensures\<close> for what the answer and the state after it satisfy.
\<close>

type_synonym ('w, 'e, 'a) op = "'w sys \<Rightarrow> ('e + 'a) \<times> 'w sys"

definition bind_op :: "('w, 'e, 'a) op \<Rightarrow> ('a \<Rightarrow> ('w, 'e, 'b) op) \<Rightarrow> ('w, 'e, 'b) op" where
  "bind_op m k s = (case m s of (Inl e, s) \<Rightarrow> (Inl e, s) | (Inr a, s) \<Rightarrow> k a s)"

definition ok_op :: "'a \<Rightarrow> ('w, 'e, 'a) op" where
  "ok_op a s = (Inr a, s)"

definition err_op :: "'e \<Rightarrow> ('w, 'e, 'a) op" where
  "err_op e s = (Inl e, s)"

definition do_op :: "('w sys \<Rightarrow> 'w sys) \<Rightarrow> ('w, 'e, unit) op" where
  "do_op f s = (Inr (), f s)"

definition call_op :: "'w env \<Rightarrow> (engine_error \<Rightarrow> 'e) \<Rightarrow> ('w wire \<Rightarrow> ('w, 'a) io) \<Rightarrow> ('w, 'e, 'a) op" where
  "call_op env wrap m s = (case call env m s of (r, s) \<Rightarrow> (map_sum wrap id r, s))"

text \<open>A value that may be an error, and one that may be absent.\<close>

definition lift_op :: "'e + 'a \<Rightarrow> ('w, 'e, 'a) op" where
  "lift_op r s = (r, s)"

definition need_op :: "'e \<Rightarrow> 'a option \<Rightarrow> ('w, 'e, 'a) op" where
  "need_op e x s = (case x of None \<Rightarrow> Inl e | Some a \<Rightarrow> Inr a, s)"

definition check_op :: "bool \<Rightarrow> 'e \<Rightarrow> ('w, 'e, unit) op" where
  "check_op b e s = (if b then Inr () else Inl e, s)"

text \<open>The state read under the lock.\<close>

definition read_op :: "('w sys \<Rightarrow> ('w, 'e, 'a) op) \<Rightarrow> ('w, 'e, 'a) op" where
  "read_op k s = k s s"

text \<open>An \<open>i64\<close> wraps; milliseconds since the epoch are cast to one (\<open>backup::now_ms\<close>).\<close>

definition wrap64 :: "int \<Rightarrow> int" where
  "wrap64 n = (n + 2 ^ 63) mod 2 ^ 64 - 2 ^ 63"

definition to_ms :: "time \<Rightarrow> int" where
  "to_ms t = wrap64 (int t div 1000000)"

abbreviation now_ms :: "'w env \<Rightarrow> 'w sys \<Rightarrow> int" where
  "now_ms env s \<equiv> to_ms (now env s)"

subsection \<open>Steps that keep a predicate\<close>

definition keeps :: "('w sys \<Rightarrow> bool) \<Rightarrow> ('w, 'e, 'a) op \<Rightarrow> bool" where
  "keeps P m \<longleftrightarrow> (\<forall>s. P s \<longrightarrow> P (snd (m s)))"

lemma keepsD: "keeps P m \<Longrightarrow> P s \<Longrightarrow> m s = (r, s') \<Longrightarrow> P s'"
  by (metis keeps_def snd_conv)

lemma keepsI: "(\<And>s r s'. P s \<Longrightarrow> m s = (r, s') \<Longrightarrow> P s') \<Longrightarrow> keeps P m"
  by (metis keeps_def prod.collapse)

named_theorems keeps_rules

lemma keeps_simple [keeps_rules]:
  "keeps P (ok_op x)" "keeps P (err_op e)" "keeps P (lift_op r)" "keeps P (need_op e y)" "keeps P (check_op b e)"
  by (simp_all add: keeps_def ok_op_def err_op_def lift_op_def need_op_def check_op_def)

lemma keeps_bind [keeps_rules]: "keeps P m \<Longrightarrow> (\<And>a. keeps P (k a)) \<Longrightarrow> keeps P (bind_op m k)"
  by (fastforce simp: keeps_def bind_op_def split: prod.split sum.split)

lemma keeps_read [keeps_rules]: "(\<And>s. keeps P (k s)) \<Longrightarrow> keeps P (read_op k)"
  by (simp add: keeps_def read_op_def)

lemma keeps_do: "(\<And>s. P s \<Longrightarrow> P (f s)) \<Longrightarrow> keeps P (do_op f)"
  by (simp add: keeps_def do_op_def)

subsection \<open>What a handler ensures\<close>

definition ensures :: "('w sys \<Rightarrow> bool) \<Rightarrow> ('w, 'e, 'a) op \<Rightarrow> ('e + 'a \<Rightarrow> 'w sys \<Rightarrow> bool) \<Rightarrow> bool" where
  "ensures P m Q \<longleftrightarrow> (\<forall>s r s'. P s \<longrightarrow> m s = (r, s') \<longrightarrow> Q r s')"

lemma ensuresD: "ensures P m Q \<Longrightarrow> P s \<Longrightarrow> m s = (r, s') \<Longrightarrow> Q r s'"
  by (simp add: ensures_def)

lemma ensuresI: "(\<And>s r s'. P s \<Longrightarrow> m s = (r, s') \<Longrightarrow> Q r s') \<Longrightarrow> ensures P m Q"
  by (simp add: ensures_def)

lemma ensures_keeps: "keeps P m \<Longrightarrow> (\<And>r s. P s \<Longrightarrow> Q r s) \<Longrightarrow> ensures P m Q"
  by (metis ensures_def keepsD)

lemma ensures_mono: "ensures P m Q \<Longrightarrow> (\<And>r s. Q r s \<Longrightarrow> R r s) \<Longrightarrow> ensures P m R"
  by (auto simp: ensures_def)

lemma bind_cases:
  assumes "bind_op m k s = (r, s')"
  obtains e where "m s = (Inl e, s')" "r = Inl e" | a s1 where "m s = (Inr a, s1)" "k a s1 = (r, s')"
  using assms by (auto simp: bind_op_def split: prod.splits sum.splits)

lemma ensures_bind:
  assumes "keeps P m" and "\<And>e s. P s \<Longrightarrow> Q (Inl e) s" and "\<And>v. ensures P (k v) Q"
  shows "ensures P (bind_op m k) Q"
proof (rule ensuresI)
  fix s r s'
  assume P: "P s" and e: "bind_op m k s = (r, s')"
  from e show "Q r s'"
  proof (cases rule: bind_cases)
    case (1 x)
    with assms(2) keepsD [OF assms(1) P] show ?thesis by simp
  next
    case (2 v s1)
    with ensuresD [OF assms(3)] keepsD [OF assms(1) P] show ?thesis by blast
  qed
qed

lemma ensures_then:
  assumes "ensures P m (\<lambda>_. Q)" and "\<And>v. keeps Q (k v)"
  shows "ensures P (bind_op m k) (\<lambda>_. Q)"
proof (rule ensuresI)
  fix s r s'
  assume P: "P s" and e: "bind_op m k s = (r, s')"
  from e show "Q s'"
  proof (cases rule: bind_cases)
    case (1 x)
    with ensuresD [OF assms(1) P] show ?thesis by blast
  next
    case (2 v s1)
    with ensuresD [OF assms(1) P] keepsD [OF assms(2)] show ?thesis by blast
  qed
qed

end
