(* ===== verification/VmMigrate.thy ===== *)
theory VmMigrate
  imports Replace Ops
begin

section \<open>Live migration of a node volume\<close>

text \<open>
  Models \<open>src/vmmigrate.rs\<close> and the handlers of \<open>src/api/vmmigrations.rs\<close>: a disk on node S is
  mirrored by S's engine to a fresh volume on node T, cut over, completed or aborted. Operations on a record
  are operations of \<open>Ops\<close>. The messages a record keeps
  of errors are texts; how a note prints is the parameter \<open>show\<close>. The texts of \<open>apply_reading\<close> are
  spelled out. The id a start makes up (clock and counter) and serde's reading of a slab are parameters.
\<close>

subsection \<open>A named place on the target\<close>

datatype place_lookup = PlaceFound string u64 | PlaceMissing | PlaceNoSlab string

definition find_raid_set :: "json list \<Rightarrow> string \<Rightarrow> place_lookup" where
  "find_raid_set arrays name =
     (case find (\<lambda>a. get_str ''id'' a = Some name \<or> is_some_and (get_str ''name'' a) (\<lambda>n. n \<noteq> [] \<and> n = name)) arrays of
        None \<Rightarrow> PlaceMissing
      | Some a \<Rightarrow>
          (let i = unwrap_or (get_str ''id'' a) name in
           case filter_opt is_object (jget ''slab'' a) of
             None \<Rightarrow> PlaceNoSlab i
           | Some s \<Rightarrow> PlaceFound i (unwrap_or (get_u64 ''free_bytes'' s) 0)))"

definition find_slab :: "slab list \<Rightarrow> string \<Rightarrow> place_lookup" where
  "find_slab slabs name =
     (case find (\<lambda>s. sb_id s = name) slabs of
        Some s \<Rightarrow> PlaceFound (sb_id s) (sb_free_bytes s)
      | None \<Rightarrow> PlaceMissing)"

definition find_drive :: "slab list \<Rightarrow> string \<Rightarrow> place_lookup" where
  "find_drive slabs name =
     (let on = filter (\<lambda>s. is_some_and (sb_drive s) (\<lambda>d. list_ex (\<lambda>x. x \<noteq> [] \<and> x = name) [dr_serial d, dr_wwn d, dr_path d])) slabs
      in case Option.bind (case on of [] \<Rightarrow> None | s # _ \<Rightarrow> Some s) sb_drive of
           None \<Rightarrow> PlaceMissing
         | Some d \<Rightarrow> PlaceFound (drive_describe d) (sum_list (map sb_free_bytes on)))"

datatype place_refusal = NoSuchPlace | NoRoomThere | NotYetThere

definition check_placement :: "string \<Rightarrow> string \<Rightarrow> u64 \<Rightarrow> place_lookup \<Rightarrow> place_refusal + target_placement" where
  "check_placement kind name sz lookup =
     (case lookup of
        PlaceMissing \<Rightarrow> Inl NoSuchPlace
      | PlaceNoSlab _ \<Rightarrow> Inl NoRoomThere
      | PlaceFound i free \<Rightarrow>
          if free < sz then Inl NoRoomThere
          else if kind \<noteq> ''array'' then Inl NotYetThere
          else Inr \<lparr>tp_kind = kind, tp_name = name, tp_id = i\<rparr>)"

subsection \<open>Readings of the mirror\<close>

record mirror_reading =
  mi_target :: string
  mi_state :: string
  mi_bytes_total :: u64
  mi_bytes_remaining :: u64
  mi_message :: "string option"

definition mirror_of :: "json \<Rightarrow> mirror_reading option" where
  "mirror_of v =
     (let m = unwrap_or (filter_opt is_object (jget ''mirror'' v)) v in
      Option.bind (get_str ''target'' m) (\<lambda>t. Option.bind (get_str ''state'' m) (\<lambda>st.
        Some \<lparr>mi_target = t, mi_state = st, mi_bytes_total = unwrap_or (get_u64 ''bytes_total'' m) 0,
              mi_bytes_remaining = unwrap_or (get_u64 ''bytes_remaining'' m) 0, mi_message = get_str ''message'' m\<rparr>)))"

definition failed_with :: "string \<Rightarrow> vm_migration \<Rightarrow> vm_migration" where
  "failed_with msg m = m\<lparr>vm_state := MigFailed, vm_message := Some msg\<rparr>"

definition fold_reading :: "mirror_reading option \<Rightarrow> vm_migration \<Rightarrow> vm_migration" where
  "fold_reading reading m =
     (case reading of
        None \<Rightarrow> failed_with (vm_source_node m @ '' holds no mirror of '' @ vm_source_name m @ '' any more'') m
      | Some r \<Rightarrow>
          if Some (mi_target r) \<noteq> vm_mirror_target m
          then failed_with (vm_source_node m @ '' mirrors '' @ vm_source_name m @ '' to another target ('' @ mi_target r @ '')'') m
          else
            (let m = m\<lparr>vm_bytes_total := mi_bytes_total r, vm_bytes_remaining := mi_bytes_remaining r\<rparr> in
             if mi_state r = ''synced'' then m\<lparr>vm_state := Synced, vm_message := None\<rparr>
             else if mi_state r = ''copying'' then m\<lparr>vm_state := Copying, vm_message := None\<rparr>
             else failed_with (unwrap_or (mi_message r) (''mirror '' @ mi_state r)) m))"

definition reads_mirror :: "vm_migration \<Rightarrow> bool" where
  "reads_mirror m \<longleftrightarrow> (vm_state m = Copying \<or> vm_state m = Synced) \<and> \<not> vm_aborting m"

definition apply_reading :: "vm_migration \<Rightarrow> mirror_reading option \<Rightarrow> vm_migration_state option \<times> vm_migration" where
  "apply_reading m reading =
     (if \<not> reads_mirror m then (None, m)
      else (let m' = fold_reading reading m in (if vm_state m' \<noteq> vm_state m then Some (vm_state m') else None, m')))"

subsection \<open>Steps and errors\<close>

datatype vm_refusal =
    IsAborting | NotSynced vm_migration_state | NotSyncedYet vm_migration_state u64 u64 | NotExact | NotCutOver vm_migration_state
  | IsCompleted | NotFailed vm_migration_state | MirrorsElsewhere string

datatype vm_error = VmUnknown string | VmNode string | VmEngine engine_error | VmNoId | VmRefused vm_refusal

datatype vm_note = ErrorNote vm_error | AbortNote vm_error | ServedNote vm_error | RetireNote engine_error | InexactNote "json option"

type_synonym ('w, 'a) vm_op = "('w, vm_error, 'a) op"

abbreviation vcall :: "'w env \<Rightarrow> ('w wire \<Rightarrow> ('w, 'a) io) \<Rightarrow> ('w, 'a) vm_op" where
  "vcall env m \<equiv> call_op env VmEngine m"

definition vm_key :: "string \<Rightarrow> string" where
  "vm_key i = ''vmmig:'' @ i"

abbreviation migration_of :: "string \<Rightarrow> 'w sys \<Rightarrow> vm_migration option" where
  "migration_of i s \<equiv> bt_get (f_vm_migrations (sy_fed s)) i"

definition vm_event :: "'w env \<Rightarrow> vm_migration \<Rightarrow> severity \<Rightarrow> 'w sys \<Rightarrow> 'w sys" where
  "vm_event env m sev s = note_event env ''vm-migration'' sev (vm_source_node m @ ''/'' @ vm_source_name m) s"

text \<open>\<open>update\<close>: the record changed and stamped; the value handed back is the one before the stamp.\<close>

definition set_migrations :: "(string, vm_migration) btree \<Rightarrow> fed_state \<Rightarrow> fed_state" where
  "set_migrations ms fed = fed\<lparr>f_vm_migrations := ms\<rparr>"

definition vm_update :: "'w env \<Rightarrow> string \<Rightarrow> (vm_migration \<Rightarrow> vm_migration) \<Rightarrow> 'w sys \<Rightarrow> vm_migration option \<times> 'w sys" where
  "vm_update env i f s =
     (case migration_of i s of
        None \<Rightarrow> (None, s)
      | Some m \<Rightarrow>
          (Some (f m), publish_state env (with_fed (\<lambda>fed. bump (set_migrations
             (bt_modify i (\<lambda>m. (f m)\<lparr>vm_updated_at_ms := now_ms env s\<rparr>) (f_vm_migrations fed)) fed)) s)))"

abbreviation vm_set :: "'w env \<Rightarrow> string \<Rightarrow> (vm_migration \<Rightarrow> vm_migration) \<Rightarrow> ('w, unit) vm_op" where
  "vm_set env i f \<equiv> do_op (\<lambda>s. snd (vm_update env i f s))"

text \<open>An update that must find its record.\<close>

definition vm_change :: "'w env \<Rightarrow> string \<Rightarrow> (vm_migration \<Rightarrow> vm_migration) \<Rightarrow> ('w, vm_migration) vm_op" where
  "vm_change env i f s =
     (case vm_update env i f s of (Some m, s) \<Rightarrow> (Inr m, s) | (None, s) \<Rightarrow> (Inl (VmUnknown i), s))"

definition vm_get :: "string \<Rightarrow> ('w, vm_migration) vm_op" where
  "vm_get i s = (case migration_of i s of Some m \<Rightarrow> (Inr m, s) | None \<Rightarrow> (Inl (VmUnknown i), s))"

definition vm_engine :: "'w env \<Rightarrow> string \<Rightarrow> ('w, engine) vm_op" where
  "vm_engine env n s = (case healthy_engine env (sy_fed s) n of Some e \<Rightarrow> (Inr e, s) | None \<Rightarrow> (Inl (VmNode n), s))"

definition read_mirror :: "'w env \<Rightarrow> vm_migration \<Rightarrow> ('w, mirror_reading option) vm_op" where
  "read_mirror env m =
     bind_op (vm_engine env (vm_source_node m)) (\<lambda>e.
     bind_op (vcall env (\<lambda>wr. get_any_volume wr e (vm_source_volume_id m))) (\<lambda>v. ok_op (mirror_of v)))"

definition live :: "'w env \<Rightarrow> vm_migration \<Rightarrow> 'w sys \<Rightarrow> vm_migration \<times> 'w sys" where
  "live env m s =
     (if reads_mirror m then
        (case read_mirror env m s of
           (Inl _, s) \<Rightarrow> (m, s)
         | (Inr r, s) \<Rightarrow> (snd (apply_reading m r), s))
      else (m, s))"

subsection \<open>Starting\<close>

definition make_target :: "'w env \<Rightarrow> string \<Rightarrow> vm_migration \<Rightarrow> engine \<Rightarrow> ('w, unit) vm_op" where
  "make_target env i m t =
     (if vm_target_volume_id m = None then
        bind_op (vcall env (\<lambda>wr. case filter_opt (\<lambda>p. tp_kind p = ''array'') (vm_placement m) of
            Some p \<Rightarrow> create_pinned_volume wr t (vm_target_name m) (vm_size_bytes m) (tp_id p)
          | None \<Rightarrow> create_volume wr t (vm_target_name m) (vm_size_bytes m) None)) (\<lambda>v.
        case get_str ''id'' v of
          None \<Rightarrow> err_op VmNoId
        | Some vid \<Rightarrow> vm_set env i (\<lambda>r. r\<lparr>vm_target_volume_id := Some vid\<rparr>))
      else ok_op ())"

definition find_target :: "'w env \<Rightarrow> string \<Rightarrow> vm_migration \<Rightarrow> engine \<Rightarrow> ('w, string) vm_op" where
  "find_target env i m t =
     (case vm_target_local_id m of
        Some l \<Rightarrow> ok_op l
      | None \<Rightarrow>
          bind_op (vcall env (\<lambda>wr. local_volume_id wr t (vm_target_name m))) (\<lambda>l.
          bind_op (vm_set env i (\<lambda>r. r\<lparr>vm_target_local_id := Some l\<rparr>)) (\<lambda>_. ok_op l)))"

definition serve_target :: "'w env \<Rightarrow> string \<Rightarrow> vm_migration \<Rightarrow> engine \<Rightarrow> string \<Rightarrow> ('w, attached_leg) vm_op" where
  "serve_target env i m t loc =
     (case vm_target_attach m of
        Some a \<Rightarrow> ok_op a
      | None \<Rightarrow>
          bind_op (vcall env (\<lambda>wr. attach_for_host wr t loc (host_nqn_for (en_host_nqn env) (vm_source_node m)) False)) (\<lambda>(a, _).
          bind_op (vm_set env i (\<lambda>r. r\<lparr>vm_target_attach := Some a\<rparr>)) (\<lambda>_. ok_op a)))"

definition mirror_source :: "'w env \<Rightarrow> vm_migration \<Rightarrow> engine \<Rightarrow> string \<Rightarrow> ('w, mirror_reading) vm_op" where
  "mirror_source env m src uri s =
     (case call env (\<lambda>wr. get_any_volume wr src (vm_source_volume_id m)) s of
        (cur, s) \<Rightarrow>
          (let current = (case cur of Inl _ \<Rightarrow> None | Inr v \<Rightarrow> mirror_of v) in
           case filter_opt (\<lambda>r. mi_target r = uri \<and> mi_state r \<noteq> ''failed'') current of
             Some r \<Rightarrow> (Inr r, s)
           | None \<Rightarrow>
               bind_op (vcall env (\<lambda>wr. start_mirror wr src (vm_source_volume_id m) uri)) (\<lambda>v.
                 ok_op (unwrap_or (mirror_of v)
                   \<lparr>mi_target = uri, mi_state = ''copying'', mi_bytes_total = vm_size_bytes m,
                    mi_bytes_remaining = vm_size_bytes m, mi_message = None\<rparr>)) s))"

definition record_mirror :: "string \<Rightarrow> mirror_reading \<Rightarrow> vm_migration \<Rightarrow> vm_migration" where
  "record_mirror uri r m =
     snd (apply_reading (m\<lparr>vm_mirror_target := Some uri, vm_state := Copying, vm_message := None\<rparr>) (Some r))"

definition record_copying :: "'w env \<Rightarrow> string \<Rightarrow> string \<Rightarrow> mirror_reading \<Rightarrow> ('w, unit) vm_op" where
  "record_copying env i uri r s =
     (case vm_update env i (record_mirror uri r) s of
        (None, s) \<Rightarrow> (Inr (), s)
      | (Some m, s) \<Rightarrow> (Inr (), vm_event env m Info s))"

definition advance_steps :: "'w env \<Rightarrow> string \<Rightarrow> vm_migration \<Rightarrow> ('w, unit) vm_op" where
  "advance_steps env i m =
     bind_op (vm_engine env (vm_target_node m)) (\<lambda>t.
     bind_op (make_target env i m t) (\<lambda>_.
     bind_op (find_target env i m t) (\<lambda>loc.
     bind_op (serve_target env i m t loc) (\<lambda>a.
     bind_op (vm_engine env (vm_source_node m)) (\<lambda>src.
     bind_op (mirror_source env m src (drive_uri a)) (record_copying env i (drive_uri a)))))))"

definition advance :: "'w env \<Rightarrow> string \<Rightarrow> ('w, unit) vm_op" where
  "advance env i =
     bind_op (vm_get i) (\<lambda>m. if vm_state m \<noteq> Starting \<or> vm_aborting m then ok_op () else advance_steps env i m)"

text \<open>\<open>fail\<close> records a failed step, and reports it when that changes the record.\<close>

definition fail :: "'w env \<Rightarrow> (vm_note \<Rightarrow> string) \<Rightarrow> string \<Rightarrow> vm_error \<Rightarrow> 'w sys \<Rightarrow> 'w sys" where
  "fail env show i e s =
     (let msg = show (ErrorNote e);
          changed = is_some_and (migration_of i s) (\<lambda>m. vm_state m \<noteq> MigFailed \<or> vm_message m \<noteq> Some msg)
      in case vm_update env i (failed_with msg) s of
           (None, s) \<Rightarrow> s
         | (Some m, s) \<Rightarrow> if changed then vm_event env m Error s else s)"

subsection \<open>Progress, switch-over and completion\<close>

definition record_reading :: "'w env \<Rightarrow> string \<Rightarrow> vm_migration \<Rightarrow> mirror_reading option \<Rightarrow> ('w, unit) vm_op" where
  "record_reading env i m r s =
     (case apply_reading m r of
        (changed, next) \<Rightarrow>
          if next = m then (Inr (), s)
          else
            (case vm_update env i (\<lambda>x. x\<lparr>vm_state := vm_state next, vm_bytes_total := vm_bytes_total next,
                vm_bytes_remaining := vm_bytes_remaining next, vm_message := vm_message next\<rparr>) s of
               (Some m', s) \<Rightarrow>
                 (Inr (), (case changed of
                    None \<Rightarrow> s
                  | Some st \<Rightarrow> vm_event env m' (if st = MigFailed then Error else Info) s))
             | (None, s) \<Rightarrow> (Inr (), s)))"

definition refresh_migration :: "'w env \<Rightarrow> string \<Rightarrow> ('w, unit) vm_op" where
  "refresh_migration env i = bind_op (vm_get i) (\<lambda>m. bind_op (read_mirror env m) (record_reading env i m))"

definition withdraw :: "'w env \<Rightarrow> vm_migration \<Rightarrow> ('w, unit) vm_op" where
  "withdraw env m =
     (case (vm_target_attach m, vm_target_local_id m) of
        (Some a, Some loc) \<Rightarrow>
          bind_op (vm_engine env (vm_target_node m)) (\<lambda>t.
          bind_op (vcall env (\<lambda>wr. withdraw_host wr t loc
              (unwrap_or (a_host_nqn a) (host_nqn_for (en_host_nqn env) (vm_source_node m))))) (\<lambda>_.
          vm_set env (vm_id m) (\<lambda>r. r\<lparr>vm_target_attach := None\<rparr>)))
      | _ \<Rightarrow> ok_op ())"

text \<open>The mirror stopped after every write landed on a flushed target.\<close>

definition stopped_exact :: "json option \<Rightarrow> bool" where
  "stopped_exact v = is_some_and v (\<lambda>v. get_str ''state'' v = Some ''synced'' \<and> Option.bind (jget ''flushed'' v) as_bool = Some True)"

definition cut_over_record :: "vm_migration \<Rightarrow> vm_migration" where
  "cut_over_record r = r\<lparr>vm_state := CutOver, vm_bytes_remaining := 0, vm_message := None\<rparr>"

definition not_exact :: "'w env \<Rightarrow> (vm_note \<Rightarrow> string) \<Rightarrow> string \<Rightarrow> json option \<Rightarrow> ('w, vm_migration) vm_op" where
  "not_exact env show i stopped s =
     (case vm_update env i (failed_with (show (InexactNote stopped))) s of
        (None, s) \<Rightarrow> (Inl (VmRefused NotExact), s)
      | (Some r, s) \<Rightarrow> (Inl (VmRefused NotExact), vm_event env r Error s))"

text \<open>The switch-over stands even when ending T's serve fails: the reconciler ends it later.\<close>

definition end_serve :: "'w env \<Rightarrow> (vm_note \<Rightarrow> string) \<Rightarrow> string \<Rightarrow> vm_migration \<Rightarrow> ('w, vm_migration) vm_op" where
  "end_serve env show i r s =
     (case withdraw env r s of
        (Inl e, s) \<Rightarrow> vm_get i (snd (vm_update env i (\<lambda>r. r\<lparr>vm_message := Some (show (ServedNote e))\<rparr>) s))
      | (Inr _, s) \<Rightarrow> vm_get i s)"

definition cut_over :: "'w env \<Rightarrow> (vm_note \<Rightarrow> string) \<Rightarrow> string \<Rightarrow> ('w, vm_migration) vm_op" where
  "cut_over env show i = bind_op (vm_change env i cut_over_record) (\<lambda>r s. end_serve env show i r (vm_event env r Info s))"

definition cutover_steps :: "'w env \<Rightarrow> (vm_note \<Rightarrow> string) \<Rightarrow> string \<Rightarrow> vm_migration \<Rightarrow> engine \<Rightarrow> ('w, vm_migration) vm_op" where
  "cutover_steps env show i m src s =
     (case live env m s of
        (cur, s) \<Rightarrow>
          if vm_state cur \<noteq> Synced
          then (Inl (VmRefused (NotSyncedYet (vm_state cur) (vm_bytes_remaining cur) (vm_bytes_total cur))), s)
          else
            bind_op (vcall env (\<lambda>wr. stop_mirror wr src (vm_source_volume_id m))) (\<lambda>stopped.
              if \<not> stopped_exact stopped then not_exact env show i stopped else cut_over env show i) s)"

definition cutover :: "'w env \<Rightarrow> (vm_note \<Rightarrow> string) \<Rightarrow> string \<Rightarrow> ('w, vm_migration) vm_op" where
  "cutover env show i =
     bind_op (vm_get i) (\<lambda>m.
     if vm_aborting m then err_op (VmRefused IsAborting)
     else if vm_state m = CutOver \<or> vm_state m = Completed then (\<lambda>s. vm_get i (snd (withdraw env m s)))
     else if vm_state m \<noteq> Copying \<and> vm_state m \<noteq> Synced then err_op (VmRefused (NotSynced (vm_state m)))
     else bind_op (vm_engine env (vm_source_node m)) (cutover_steps env show i m))"

definition complete_record :: "vm_migration \<Rightarrow> vm_migration" where
  "complete_record r = r\<lparr>vm_state := Completed, vm_message := None\<rparr>"

text \<open>The source is gone: T stops serving it, and the record ends.\<close>

definition retire_source :: "'w env \<Rightarrow> (vm_note \<Rightarrow> string) \<Rightarrow> string \<Rightarrow> vm_migration \<Rightarrow> engine \<Rightarrow> ('w, vm_migration) vm_op" where
  "retire_source env show i m src s =
     (case call env (\<lambda>wr. delete_any_volume wr src (vm_source_volume_id m)) s of
        (Inl e, s) \<Rightarrow>
          (let msg = show (RetireNote e) in
           (Inl (VmEngine (HttpStatus (''/api/v1/volumes/'' @ vm_source_volume_id m) (unwrap_or (status_of e) 502) msg)),
            snd (vm_update env i (\<lambda>r. r\<lparr>vm_message := Some msg\<rparr>) s)))
      | (Inr _, s) \<Rightarrow>
          bind_op (vm_change env i complete_record) (\<lambda>r s. (Inr r, vm_event env r Info s)) (snd (withdraw env m s)))"

definition complete :: "'w env \<Rightarrow> (vm_note \<Rightarrow> string) \<Rightarrow> string \<Rightarrow> ('w, vm_migration) vm_op" where
  "complete env show i =
     bind_op (vm_get i) (\<lambda>m.
     if vm_state m = Completed then ok_op m
     else if vm_state m \<noteq> CutOver then err_op (VmRefused (NotCutOver (vm_state m)))
     else if vm_aborting m then err_op (VmRefused IsAborting)
     else bind_op (vm_engine env (vm_source_node m)) (retire_source env show i m))"

subsection \<open>Abort and retry\<close>

definition our_target :: "vm_migration \<Rightarrow> string option" where
  "our_target m = (case vm_mirror_target m of Some t \<Rightarrow> Some t | None \<Rightarrow> map_option drive_uri (vm_target_attach m))"

definition undo_target :: "'w env \<Rightarrow> vm_migration \<Rightarrow> ('w, unit) vm_op" where
  "undo_target env m =
     (if vm_target_volume_id m = None \<and> vm_target_local_id m = None then ok_op ()
      else
        bind_op (vm_engine env (vm_target_node m)) (\<lambda>t.
        bind_op (case (vm_target_attach m, vm_target_local_id m) of
            (Some a, Some loc) \<Rightarrow> vcall env (\<lambda>wr. withdraw_host wr t loc
              (unwrap_or (a_host_nqn a) (host_nqn_for (en_host_nqn env) (vm_source_node m))))
          | _ \<Rightarrow> ok_op ()) (\<lambda>_.
        bind_op (case vm_target_volume_id m of Some v1 \<Rightarrow> vcall env (\<lambda>wr. delete_volume wr t v1) | None \<Rightarrow> ok_op ()) (\<lambda>_.
          case vm_target_local_id m of Some loc \<Rightarrow> vcall env (\<lambda>wr. delete_any_volume wr t loc) | None \<Rightarrow> ok_op ()))))"

definition stop_ours :: "'w env \<Rightarrow> vm_migration \<Rightarrow> ('w, unit) vm_op" where
  "stop_ours env m =
     bind_op (vm_engine env (vm_source_node m)) (\<lambda>src s.
       case call env (\<lambda>wr. get_any_volume wr src (vm_source_volume_id m)) s of
         (cur, s) \<Rightarrow>
           (case (case cur of Inl _ \<Rightarrow> None | Inr v \<Rightarrow> mirror_of v, our_target m) of
              (Some r, Some ours) \<Rightarrow>
                if mi_target r = ours
                then bind_op (vcall env (\<lambda>wr. stop_mirror wr src (vm_source_volume_id m))) (\<lambda>_. ok_op ()) s
                else (Inr (), s)
            | _ \<Rightarrow> (Inr (), s)))"

definition abort_steps :: "'w env \<Rightarrow> vm_migration \<Rightarrow> ('w, unit) vm_op" where
  "abort_steps env m s =
     bind_op (if vm_state m \<noteq> CutOver \<and> healthy_node (sy_fed s) (vm_source_node m) then stop_ours env m else ok_op ())
       (\<lambda>_. undo_target env m) s"

definition aborted_record :: "vm_migration \<Rightarrow> vm_migration" where
  "aborted_record r = r\<lparr>vm_state := Aborted, vm_aborting := False, vm_message := None, vm_target_attach := None\<rparr>"

definition mark_aborting :: "'w env \<Rightarrow> string \<Rightarrow> vm_migration \<Rightarrow> 'w sys \<Rightarrow> 'w sys" where
  "mark_aborting env i m s =
     (if vm_aborting m then s else vm_event env m Warning (snd (vm_update env i (\<lambda>r. r\<lparr>vm_aborting := True\<rparr>) s)))"

definition finish_abort :: "'w env \<Rightarrow> (vm_note \<Rightarrow> string) \<Rightarrow> string \<Rightarrow> vm_migration \<Rightarrow> ('w, vm_migration) vm_op" where
  "finish_abort env show i m s =
     (case abort_steps env m s of
        (Inl e, s) \<Rightarrow> (Inl e, snd (vm_update env i (\<lambda>r. r\<lparr>vm_message := Some (show (AbortNote e))\<rparr>) s))
      | (Inr _, s) \<Rightarrow> bind_op (vm_change env i aborted_record) (\<lambda>r s. (Inr r, vm_event env r Info s)) s)"

definition abort :: "'w env \<Rightarrow> (vm_note \<Rightarrow> string) \<Rightarrow> string \<Rightarrow> ('w, vm_migration) vm_op" where
  "abort env show i =
     bind_op (vm_get i) (\<lambda>m.
     if vm_state m = Aborted then ok_op m
     else if vm_state m = Completed then err_op (VmRefused IsCompleted)
     else (\<lambda>s. finish_abort env show i m (mark_aborting env i m s)))"

definition restart_record :: "vm_migration \<Rightarrow> vm_migration" where
  "restart_record r = r\<lparr>vm_state := Starting, vm_message := None, vm_mirror_target := None\<rparr>"

definition forget_mirror :: "'w env \<Rightarrow> vm_migration \<Rightarrow> ('w, unit) vm_op" where
  "forget_mirror env m =
     bind_op (vm_engine env (vm_source_node m)) (\<lambda>src.
     bind_op (vcall env (\<lambda>wr. get_any_volume wr src (vm_source_volume_id m))) (\<lambda>v.
       case mirror_of v of
         None \<Rightarrow> ok_op ()
       | Some r \<Rightarrow>
           if Some (mi_target r) = vm_mirror_target m \<or> mi_state r = ''failed''
           then bind_op (vcall env (\<lambda>wr. stop_mirror wr src (vm_source_volume_id m))) (\<lambda>_. ok_op ())
           else err_op (VmRefused (MirrorsElsewhere (mi_target r)))))"

definition retry :: "'w env \<Rightarrow> (vm_note \<Rightarrow> string) \<Rightarrow> string \<Rightarrow> ('w, vm_migration) vm_op" where
  "retry env show i =
     bind_op (vm_get i) (\<lambda>m.
     if vm_aborting m then err_op (VmRefused IsAborting)
     else if vm_state m \<noteq> MigFailed then err_op (VmRefused (NotFailed (vm_state m)))
     else
       bind_op (forget_mirror env m) (\<lambda>_.
       bind_op (vm_set env i restart_record) (\<lambda>_ s.
         case advance env i s of
           (Inl e, s) \<Rightarrow> (Inl e, fail env show i e s)
         | (Inr _, s) \<Rightarrow> vm_get i s)))"

subsection \<open>The reconciler's part\<close>

definition KEEP_TERMINAL_MS :: int where
  "KEEP_TERMINAL_MS = 86400000"

definition forget_record :: "'w env \<Rightarrow> string \<Rightarrow> 'w sys \<Rightarrow> 'w sys" where
  "forget_record env i s =
     publish_state env (with_fed (\<lambda>fed. bump (set_migrations (bt_remove i (f_vm_migrations fed)) fed)) s)"

definition drop_due :: "int \<Rightarrow> vm_migration \<Rightarrow> bool" where
  "drop_due t m \<longleftrightarrow> terminal (vm_state m) \<and> vm_target_attach m = None \<and> t - vm_updated_at_ms m > KEEP_TERMINAL_MS"

text \<open>The step a record read at the start of the pass gets, with its claim held.\<close>

definition pass_step :: "'w env \<Rightarrow> (vm_note \<Rightarrow> string) \<Rightarrow> vm_migration \<Rightarrow> 'w sys \<Rightarrow> 'w sys" where
  "pass_step env show m s =
     (if vm_aborting m then snd (abort env show (vm_id m) s)
      else if vm_state m = Starting then
        (case advance env (vm_id m) s of
           (Inl e, s) \<Rightarrow> fail env show (vm_id m) e s
         | (Inr _, s) \<Rightarrow> s)
      else if (vm_state m = Copying \<or> vm_state m = Synced) \<and> healthy_node (sy_fed s) (vm_source_node m)
      then snd (refresh_migration env (vm_id m) s)
      else if (vm_state m = CutOver \<or> vm_state m = Completed) \<and> vm_target_attach m \<noteq> None \<and> healthy_node (sy_fed s) (vm_target_node m)
      then snd (withdraw env m s)
      else s)"

definition pass_one :: "'w env \<Rightarrow> (vm_note \<Rightarrow> string) \<Rightarrow> int \<Rightarrow> 'w sys \<Rightarrow> vm_migration \<Rightarrow> 'w sys" where
  "pass_one env show t s m =
     (if drop_due t m then forget_record env (vm_id m) s
      else (case claim (vm_key (vm_id m)) s of
          (False, s) \<Rightarrow> s
        | (True, s) \<Rightarrow> release (vm_key (vm_id m)) (pass_step env show m s)))"

definition vm_run :: "'w env \<Rightarrow> (vm_note \<Rightarrow> string) \<Rightarrow> 'w sys \<Rightarrow> 'w sys" where
  "vm_run env show s =
     (if \<not> en_active env (sy_world s) then s
      else foldl (pass_one env show (now_ms env s)) s (bt_values (f_vm_migrations (sy_fed s))))"

subsection \<open>The API's operations\<close>

datatype vm_answer =
    VmNotFound string | VmConflict vm_error | VmUpstream vm_error | StepRunning | SameNode | NoSuchNode string | BadPlacement
  | PlaceRefused place_refusal | NoVolumeThere | AlreadyMirrored string | NameTaken | InMigration string vm_migration_state

text \<open>A refusal or an engine's 409 is a conflict, anything else the engine's error.\<close>

definition answer_of :: "vm_error \<Rightarrow> vm_answer" where
  "answer_of e =
     (case e of
        VmRefused _ \<Rightarrow> VmConflict e
      | VmUnknown i \<Rightarrow> VmNotFound i
      | VmEngine x \<Rightarrow> if status_of x = Some 409 then VmConflict e else VmUpstream e
      | _ \<Rightarrow> VmUpstream e)"

definition claimed :: "string \<Rightarrow> ('w, 'a) vm_op \<Rightarrow> 'w sys \<Rightarrow> (vm_answer + 'a) \<times> 'w sys" where
  "claimed i f s =
     (if migration_of i s = None then (Inl (VmNotFound i), s)
      else (case claim (vm_key i) s of
          (False, s) \<Rightarrow> (Inl StepRunning, s)
        | (True, s) \<Rightarrow> (case f s of (r, s) \<Rightarrow> (map_sum answer_of id r, release (vm_key i) s))))"

text \<open>A named place: exactly one of a RAID set, a slab or a drive, not empty.\<close>

definition one_place :: "string option \<Rightarrow> string option \<Rightarrow> string option \<Rightarrow> (string \<times> string) option" where
  "one_place array slab drive =
     (case List.map_filter (\<lambda>(k, v). map_option (Pair k) (filter_opt (\<lambda>v. v \<noteq> []) v))
          [(''array'', array), (''slab'', slab), (''drive'', drive)] of
        [x] \<Rightarrow> Some x
      | _ \<Rightarrow> None)"

definition resolve_placement ::
  "'w env \<Rightarrow> (json \<Rightarrow> slab option) \<Rightarrow> engine \<Rightarrow> string option \<times> string option \<times> string option \<Rightarrow> u64 \<Rightarrow> 'w sys \<Rightarrow>
     (vm_answer + target_placement) \<times> 'w sys" where
  "resolve_placement env slab_of t body sz s =
     (case body of (array, slab, drive) \<Rightarrow>
        (case one_place array slab drive of
           None \<Rightarrow> (Inl BadPlacement, s)
         | Some (kind, name) \<Rightarrow>
             (case call env (\<lambda>wr. get_items wr t (if kind = ''array'' then ''/api/v1/arrays'' else ''/api/v1/slabs'')) s of
                (Inl e, s) \<Rightarrow> (Inl (VmUpstream (VmEngine e)), s)
              | (Inr items, s) \<Rightarrow>
                  (let lookup = (if kind = ''array'' then find_raid_set items name
                                 else if kind = ''slab'' then find_slab (List.map_filter slab_of items) name
                                 else find_drive (List.map_filter slab_of items) name)
                   in (map_sum PlaceRefused id (check_placement kind name sz lookup), s)))))"

record vm_request =
  vq_node :: string
  vq_volume :: string
  vq_to :: string
  vq_name :: "string option"
  vq_placement :: "(string option \<times> string option \<times> string option) option"

definition new_migration :: "string \<Rightarrow> vm_request \<Rightarrow> string \<Rightarrow> string \<Rightarrow> u64 \<Rightarrow> target_placement option \<Rightarrow> int \<Rightarrow> vm_migration" where
  "new_migration i q sid sname sz p t =
     \<lparr>vm_id = i, vm_source_node = vq_node q, vm_source_volume_id = sid, vm_source_name = sname, vm_size_bytes = sz,
      vm_target_node = vq_to q, vm_target_name = unwrap_or (vq_name q) sname, vm_target_volume_id = None,
      vm_target_local_id = None, vm_target_attach = None, vm_placement = p, vm_mirror_target = None, vm_state = Starting,
      vm_bytes_total = 0, vm_bytes_remaining = 0, vm_message = None, vm_aborting = False, vm_started_at_ms = t, vm_updated_at_ms = t\<rparr>"

text \<open>What is checked before anything is recorded: the volume on S, the name and the place on T.\<close>

type_synonym start_facts = "string \<times> string \<times> u64 \<times> target_placement option"

definition check_target ::
  "'w env \<Rightarrow> (json \<Rightarrow> slab option) \<Rightarrow> vm_request \<Rightarrow> engine \<Rightarrow> string \<Rightarrow> string \<Rightarrow> u64 \<Rightarrow> 'w sys \<Rightarrow> (vm_answer + start_facts) \<times> 'w sys" where
  "check_target env slab_of q dst sid sname sz s =
     (case call env (\<lambda>wr. local_volume_id wr dst (unwrap_or (vq_name q) sname)) s of
        (Inr _, s) \<Rightarrow> (Inl NameTaken, s)
      | (Inl e, s) \<Rightarrow>
          if \<not> is_not_found e then (Inl (VmUpstream (VmEngine e)), s)
          else (case vq_placement q of
              None \<Rightarrow> (Inr (sid, sname, sz, None), s)
            | Some body \<Rightarrow>
                (case resolve_placement env slab_of dst body sz s of
                   (Inl e, s) \<Rightarrow> (Inl e, s)
                 | (Inr p, s) \<Rightarrow> (Inr (sid, sname, sz, Some p), s))))"

definition check_source ::
  "'w env \<Rightarrow> (json \<Rightarrow> slab option) \<Rightarrow> vm_request \<Rightarrow> engine \<Rightarrow> engine \<Rightarrow> 'w sys \<Rightarrow> (vm_answer + start_facts) \<times> 'w sys" where
  "check_source env slab_of q src dst s =
     (case call env (\<lambda>wr. get_any_volume wr src (vq_volume q)) s of
        (Inl e, s) \<Rightarrow> (Inl (if status_of e = Some 404 then NoVolumeThere else VmUpstream (VmEngine e)), s)
      | (Inr v, s) \<Rightarrow>
          (case (get_str ''id'' v, get_str ''name'' v, get_u64 ''virtual_size_bytes'' v) of
             (Some sid, Some sname, Some sz) \<Rightarrow>
               (case mirror_of v of
                  Some m \<Rightarrow> (Inl (AlreadyMirrored (mi_target m)), s)
                | None \<Rightarrow> check_target env slab_of q dst sid sname sz s)
           | _ \<Rightarrow> (Inl (VmUpstream VmNoId), s)))"

definition start_checks ::
  "'w env \<Rightarrow> (json \<Rightarrow> slab option) \<Rightarrow> vm_request \<Rightarrow> 'w sys \<Rightarrow> (vm_answer + start_facts) \<times> 'w sys" where
  "start_checks env slab_of q s =
     (if vq_to q = vq_node q then (Inl SameNode, s)
      else if bt_get (f_nodes (sy_fed s)) (vq_node q) = None then (Inl (NoSuchNode (vq_node q)), s)
      else if bt_get (f_nodes (sy_fed s)) (vq_to q) = None then (Inl (NoSuchNode (vq_to q)), s)
      else (case healthy_engine env (sy_fed s) (vq_node q) of
          None \<Rightarrow> (Inl (VmConflict (VmNode (vq_node q))), s)
        | Some src \<Rightarrow>
            (case healthy_engine env (sy_fed s) (vq_to q) of
               None \<Rightarrow> (Inl (VmConflict (VmNode (vq_to q))), s)
             | Some dst \<Rightarrow> check_source env slab_of q src dst s)))"

definition open_for :: "fed_state \<Rightarrow> string \<Rightarrow> string \<Rightarrow> vm_migration option" where
  "open_for fed node sid =
     find (\<lambda>m. vm_source_node m = node \<and> vm_source_volume_id m = sid \<and> \<not> terminal (vm_state m)) (bt_values (f_vm_migrations fed))"

text \<open>The record is made under the write lock, which also refuses a second open migration of the volume.\<close>

definition start_record ::
  "'w env \<Rightarrow> (json \<Rightarrow> slab option) \<Rightarrow> string \<Rightarrow> vm_request \<Rightarrow> 'w sys \<Rightarrow> (vm_answer + unit) \<times> 'w sys" where
  "start_record env slab_of i q s =
     (case start_checks env slab_of q s of
        (Inl e, s) \<Rightarrow> (Inl e, s)
      | (Inr (sid, sname, sz, p), s) \<Rightarrow>
          (case open_for (sy_fed s) (vq_node q) sid of
             Some m \<Rightarrow> (Inl (InMigration (vm_id m) (vm_state m)), s)
           | None \<Rightarrow>
               (Inr (), with_fed (\<lambda>fed. bump (set_migrations (bt_insert i (new_migration i q sid sname sz p (now_ms env s))
                  (f_vm_migrations fed)) fed)) s)))"

definition undo_start :: "'w env \<Rightarrow> string \<Rightarrow> 'w sys \<Rightarrow> 'w sys" where
  "undo_start env i s =
     (let s = (case migration_of i s of None \<Rightarrow> s | Some m \<Rightarrow> snd (undo_target env m s))
      in with_fed (\<lambda>fed. bump (set_migrations (bt_remove i (f_vm_migrations fed)) fed)) s)"

definition vm_start ::
  "'w env \<Rightarrow> (json \<Rightarrow> slab option) \<Rightarrow> string \<Rightarrow> vm_request \<Rightarrow> 'w sys \<Rightarrow> (vm_answer + vm_migration option) \<times> 'w sys" where
  "vm_start env slab_of i q s =
     (case start_record env slab_of i q s of
        (Inl e, s) \<Rightarrow> (Inl e, s)
      | (Inr _, s) \<Rightarrow>
          (case advance env i (persist env (snd (claim (vm_key i) s))) of
             (Inl e, s) \<Rightarrow> (Inl (answer_of e), publish_state env (release (vm_key i) (undo_start env i s)))
           | (Inr _, s) \<Rightarrow> (let s = release (vm_key i) s in (Inr (migration_of i s), s))))"

end
