(* ===== verification/VmLife.thy ===== *)
theory VmLife
  imports VmMigrate
begin

section \<open>The life of a node-volume migration\<close>

text \<open>
  What the operations of \<open>VmMigrate\<close> keep. The contract between tasks is rely and guarantee: \<open>rely\<close> says that the
  other tasks move records only along their paths and leave a record whose claim is held alone; every operation
  is shown to do the same (\<open>moves\<close>), step by step with \<open>keeps\<close> and \<open>ensures\<close>, so runs of them keep each
  record's identity and path and at most one open migration of a volume.
\<close>

subsection \<open>The life of a migration\<close>

inductive vm_next :: "vm_migration_state \<Rightarrow> vm_migration_state \<Rightarrow> bool" where
  copies: "vm_next Starting Copying"
| already_synced: "vm_next Starting Synced"
| syncs: "vm_next Copying Synced"
| copies_again: "vm_next Synced Copying"
| fails: "st \<in> {Starting, Copying, Synced} \<Longrightarrow> vm_next st MigFailed"
| cuts_over: "st \<in> {Copying, Synced} \<Longrightarrow> vm_next st CutOver"
| retires: "vm_next CutOver Completed"
| aborts: "st \<notin> {Completed, Aborted} \<Longrightarrow> vm_next st Aborted"
| retries: "vm_next MigFailed Starting"

inductive_cases vm_next_from_cut_over: "vm_next CutOver st"
inductive_cases vm_next_from_completed: "vm_next Completed st"
inductive_cases vm_next_from_aborted: "vm_next Aborted st"

abbreviation vm_path :: "vm_migration_state \<Rightarrow> vm_migration_state \<Rightarrow> bool" where
  "vm_path \<equiv> vm_next\<^sup>*\<^sup>*"

lemma vm_path_next [intro]: "vm_next a b \<Longrightarrow> vm_path a b"
  by blast

lemma vm_path_terminal: "vm_path a b \<Longrightarrow> terminal a \<Longrightarrow> b = a"
  by (induction rule: converse_rtranclp_induct)
    (auto simp: terminal_def elim: vm_next_from_completed vm_next_from_aborted)

lemma vm_path_cut_over: "vm_path CutOver b \<Longrightarrow> b \<in> {CutOver, Completed, Aborted}"
  by (induction rule: rtranclp_induct)
    (auto elim: vm_next_from_cut_over vm_next_from_completed vm_next_from_aborted)

text \<open>What identifies a migration, and where each one is.\<close>

definition identity :: "vm_migration \<Rightarrow> string \<times> string \<times> string \<times> string \<times> string" where
  "identity m = (vm_id m, vm_source_node m, vm_source_volume_id m, vm_target_node m, vm_target_name m)"

type_synonym stages = "string \<Rightarrow> ((string \<times> string \<times> string \<times> string \<times> string) \<times> vm_migration_state \<times> bool) option"

definition stage :: "'w sys \<Rightarrow> stages" where
  "stage s i = map_option (\<lambda>m. (identity m, vm_state m, vm_aborting m)) (migration_of i s)"

text \<open>Every migration on record later was on record before, is the same migration and followed the paths of \<open>vm_next\<close>.\<close>

definition evolves :: "stages \<Rightarrow> stages \<Rightarrow> bool" where
  "evolves a b \<longleftrightarrow> (\<forall>i x st ab. b i = Some (x, st, ab) \<longrightarrow> (\<exists>st0 ab0. a i = Some (x, st0, ab0) \<and> vm_path st0 st))"

lemma evolves_refl [simp, intro]: "evolves a a"
  by (auto simp: evolves_def)

lemma evolves_trans: "evolves a b \<Longrightarrow> evolves b c \<Longrightarrow> evolves a c"
  unfolding evolves_def by (meson rtranclp_trans)

lemma evolves_same: "evolves a b \<Longrightarrow> b = c \<Longrightarrow> evolves a c"
  by simp

definition held :: "string \<Rightarrow> 'w sys \<Rightarrow> bool" where
  "held i s \<longleftrightarrow> vm_key i \<in> set (sy_claims s)"

text \<open>What an operation relies on: the other tasks only move records along their paths or drop them, and leave
  a record whose claim is held, and its claim, alone.\<close>

definition rely :: "'w env \<Rightarrow> bool" where
  "rely env \<longleftrightarrow> (\<forall>s. evolves (stage s) (stage (en_others env s)) \<and>
     (\<forall>i. held i s \<longrightarrow> held i (en_others env s) \<and> stage (en_others env s) i = stage s i))"

definition owned :: "string \<Rightarrow> ((string \<times> string \<times> string \<times> string \<times> string) \<times> vm_migration_state \<times> bool) option \<Rightarrow> stages \<Rightarrow> 'w sys \<Rightarrow> bool" where
  "owned i x a s \<longleftrightarrow> held i s \<and> stage s i = x \<and> evolves a (stage s)"

definition moved :: "string \<Rightarrow> stages \<Rightarrow> 'w sys \<Rightarrow> bool" where
  "moved i a s \<longleftrightarrow> held i s \<and> evolves a (stage s)"

lemma owned_moved [simp, intro]: "owned i x a s \<Longrightarrow> moved i a s"
  by (simp add: owned_def moved_def)

subsubsection \<open>Steps that leave the owner's stage\<close>

lemma stage_frame [simp]:
  "stage (note_event env k sev n s) = stage s" "stage (persist env s) = stage s" "stage (push_to_peers env s) = stage s"
  "stage (release n s) = stage s" "stage (s\<lparr>sy_claims := c\<rparr>) = stage s" "stage (s\<lparr>sy_world := w\<rparr>) = stage s"
  by (auto simp: stage_def)

lemma stage_event [simp]: "stage (vm_event env m sev s) = stage s"
  by (simp add: vm_event_def)

lemma held_frame [simp]:
  "held i (note_event env k sev n s) = held i s" "held i (persist env s) = held i s" "held i (push_to_peers env s) = held i s"
  "held i (with_fed f s) = held i s" "held i (s\<lparr>sy_world := w\<rparr>) = held i s" "held i (vm_event env m sev s) = held i s"
  by (simp_all add: held_def vm_event_def)

lemma owned_event [simp]: "owned i x a (vm_event env m sev s) = owned i x a s" "moved i a (vm_event env m sev s) = moved i a s"
  by (simp_all add: owned_def moved_def)

lemma call_owned: "rely env \<Longrightarrow> owned i x a s \<Longrightarrow> call env m s = (r, s') \<Longrightarrow> owned i x a s'"
  by (auto simp: call_def rely_def owned_def split: prod.splits)
    (metis held_frame(5) stage_frame(6) evolves_trans)+

lemma vm_update_migration:
  "migration_of j (snd (vm_update env i f s)) =
     (if j = i then map_option (\<lambda>m. (f m)\<lparr>vm_updated_at_ms := now_ms env s\<rparr>) (migration_of j s) else migration_of j s)"
  by (cases "migration_of i s") (auto simp: vm_update_def bump_def set_migrations_def persist_def push_to_peers_def)

lemma vm_update_held [simp]: "held i (snd (vm_update env j f s)) = held i s"
  by (simp add: vm_update_def split: option.split)

lemma vm_update_stage_at:
  "stage (snd (vm_update env i f s)) = (stage s)(i := map_option (\<lambda>m. (identity (f m), vm_state (f m), vm_aborting (f m))) (migration_of i s))"
  by (rule ext) (simp add: stage_def vm_update_migration option.map_comp comp_def identity_def)

lemma vm_update_stage:
  assumes "\<And>m. identity (f m) = identity m" and "\<And>m. vm_state (f m) = vm_state m" and "\<And>m. vm_aborting (f m) = vm_aborting m"
  shows "stage (snd (vm_update env i f s)) = stage s"
  by (rule ext) (simp add: vm_update_stage_at assms stage_def)

lemma vm_update_moved:
  assumes "owned i x a s" and "\<And>m. x = Some (identity m, vm_state m, vm_aborting m) \<Longrightarrow> identity (f m) = identity m \<and> vm_path (vm_state m) (vm_state (f m))"
  shows "moved i a (snd (vm_update env i f s))"
proof -
  have "evolves (stage s) (stage (snd (vm_update env i f s)))"
    using assms by (cases "migration_of i s") (auto simp: evolves_def vm_update_stage_at owned_def stage_def)
  with assms(1) show ?thesis by (auto simp: owned_def moved_def intro: evolves_trans)
qed

text \<open>Steps that keep what the owner knows.\<close>

lemma vm_get_state [simp]: "snd (vm_get i s) = s"
  by (simp add: vm_get_def split: option.split)

lemma keeps_get [keeps_rules]: "keeps P (vm_get i)" "keeps P (vm_engine env n)"
  by (simp_all add: keeps_def vm_engine_def split: option.split)

lemma keeps_call [keeps_rules]: "rely env \<Longrightarrow> keeps (owned i x a) (vcall env m)"
  by (auto simp: keeps_def call_op_def split: prod.split intro: call_owned)

lemma keeps_set [keeps_rules]:
  "(\<And>m. identity (f m) = identity m \<and> vm_state (f m) = vm_state m \<and> vm_aborting (f m) = vm_aborting m) \<Longrightarrow>
     keeps (owned i x a) (vm_set env j f)"
  by (simp add: keeps_def do_op_def owned_def vm_update_stage)

lemma make_target_keeps [keeps_rules]: "rely env \<Longrightarrow> keeps (owned i x a) (make_target env j m t)"
  unfolding make_target_def by (auto intro!: keeps_rules simp: identity_def split: option.split)

lemma find_target_keeps [keeps_rules]: "rely env \<Longrightarrow> keeps (owned i x a) (find_target env j m t)"
  unfolding find_target_def by (auto intro!: keeps_rules simp: identity_def split: option.split)

lemma serve_target_keeps [keeps_rules]: "rely env \<Longrightarrow> keeps (owned i x a) (serve_target env j m t l)"
  unfolding serve_target_def by (auto intro!: keeps_rules simp: identity_def split: option.split prod.split)

lemma read_mirror_keeps [keeps_rules]: "rely env \<Longrightarrow> keeps (owned i x a) (read_mirror env m)"
  unfolding read_mirror_def by (intro keeps_rules)

lemma withdraw_keeps [keeps_rules]: "rely env \<Longrightarrow> keeps (owned i x a) (withdraw env m)"
  unfolding withdraw_def by (auto intro!: keeps_rules simp: identity_def split: option.split)

lemma undo_target_keeps [keeps_rules]: "rely env \<Longrightarrow> keeps (owned i x a) (undo_target env m)"
  unfolding undo_target_def by (auto intro!: keeps_rules split: option.split)

lemma forget_mirror_keeps [keeps_rules]: "rely env \<Longrightarrow> keeps (owned i x a) (forget_mirror env m)"
  unfolding forget_mirror_def by (auto intro!: keeps_rules split: option.split)

lemma live_owned: assumes q: "rely env" and o: "owned i x a s" and l: "live env m s = (m', s')" shows "owned i x a s'"
proof (cases "reads_mirror m")
  case True
  obtain r s1 where r: "read_mirror env m s = (r, s1)" by fastforce
  with l True have "s' = s1" by (cases r) (auto simp: live_def)
  with keepsD [OF read_mirror_keeps [OF q] o r] show ?thesis by simp
qed (use o l in \<open>simp add: live_def\<close>)

lemma mirror_source_keeps [keeps_rules]: assumes q: "rely env" shows "keeps (owned i x a) (mirror_source env m src uri)"
proof (rule keepsI)
  fix s r s'
  assume o: "owned i x a s" and e: "mirror_source env m src uri s = (r, s')"
  obtain r1 s1 where c: "call env (\<lambda>wr. get_any_volume wr src (vm_source_volume_id m)) s = (r1, s1)" by fastforce
  note o1 = call_owned [OF q o c]
  have k: "keeps (owned i x a) (bind_op (vcall env (\<lambda>wr. start_mirror wr src (vm_source_volume_id m) uri)) (\<lambda>v. ok_op (h v)))" for h :: "json \<Rightarrow> mirror_reading"
    by (intro keeps_rules q)
  show "owned i x a s'"
    using e o1 keepsD [OF k o1] unfolding mirror_source_def c prod.case Let_def by (auto split: option.splits)
qed

lemma stop_ours_keeps [keeps_rules]: assumes q: "rely env" shows "keeps (owned i x a) (stop_ours env m)"
  unfolding stop_ours_def
proof (intro keeps_rules keepsI)
  fix src s r s'
  assume o: "owned i x a s"
    and e: "(case call env (\<lambda>wr. get_any_volume wr src (vm_source_volume_id m)) s of
         (cur, s) \<Rightarrow>
           (case (case cur of Inl _ \<Rightarrow> None | Inr v \<Rightarrow> mirror_of v, our_target m) of
              (Some r, Some ours) \<Rightarrow>
                if mi_target r = ours
                then bind_op (vcall env (\<lambda>wr. stop_mirror wr src (vm_source_volume_id m))) (\<lambda>_. ok_op ()) s
                else (Inr (), s)
            | _ \<Rightarrow> (Inr (), s))) = (r, s')"
  obtain r1 s1 where c: "call env (\<lambda>wr. get_any_volume wr src (vm_source_volume_id m)) s = (r1, s1)" by fastforce
  note o1 = call_owned [OF q o c]
  have k: "keeps (owned i x a) (bind_op (vcall env (\<lambda>wr. stop_mirror wr src (vm_source_volume_id m))) (\<lambda>_. ok_op ()))"
    by (intro keeps_rules q)
  show "owned i x a s'"
    using e o1 keepsD [OF k o1] unfolding c prod.case by (auto split: option.splits if_splits)
qed

lemma abort_steps_keeps [keeps_rules]: assumes q: "rely env" shows "keeps (owned i x a) (abort_steps env m)"
proof -
  have "keeps (owned i x a) (bind_op (stop_ours env m) (\<lambda>_. undo_target env m))"
    "keeps (owned i x a) (bind_op (ok_op ()) (\<lambda>_. undo_target env m))" by (intro keeps_rules q)+
  then show ?thesis by (simp add: keeps_def abort_steps_def)
qed

subsubsection \<open>Operations move the owner's record along its path\<close>

lemma ensures_get:
  assumes "\<And>s. P s \<Longrightarrow> migration_of i s = None \<Longrightarrow> Q (Inl (VmUnknown i)) s"
    and "\<And>m s. P s \<Longrightarrow> migration_of i s = Some m \<Longrightarrow> ensures P (k m) Q"
  shows "ensures P (bind_op (vm_get i) k) Q"
  using assms unfolding ensures_def by (auto simp: bind_op_def vm_get_def split: option.splits)

lemma owned_at: "owned i x a s \<Longrightarrow> migration_of i s = Some m \<Longrightarrow> x = Some (identity m, vm_state m, vm_aborting m)"
  by (auto simp: owned_def stage_def)

lemma update_event_moved:
  assumes "owned i x a s" and "vm_update env i f s = (u, s1)"
    and "\<And>m. x = Some (identity m, vm_state m, vm_aborting m) \<Longrightarrow> identity (f m) = identity m \<and> vm_path (vm_state m) (vm_state (f m))"
  shows "moved i a s1"
  using vm_update_moved [OF assms(1,3), of env] assms(2) by simp

lemma fold_reading_state:
  "identity (fold_reading r m) = identity m \<and> vm_state (fold_reading r m) \<in> {Copying, Synced, MigFailed} \<and>
     vm_aborting (fold_reading r m) = vm_aborting m"
  by (auto simp: fold_reading_def failed_with_def identity_def Let_def split: option.split)

lemma record_mirror_path:
  "identity (record_mirror uri r m) = identity m \<and> vm_state (record_mirror uri r m) \<in> {Copying, Synced, MigFailed}"
  using fold_reading_state [of "Some r" "m\<lparr>vm_mirror_target := Some uri, vm_state := Copying, vm_message := None\<rparr>"]
  by (auto simp: record_mirror_def apply_reading_def identity_def Let_def)

lemma vm_next_starting [simp]: "st \<in> {Copying, Synced, MigFailed} \<Longrightarrow> vm_path Starting st"
  by (auto intro: vm_next.intros)

lemma record_copying_moves:
  assumes "x = Some (identity m0, Starting, ab)"
  shows "ensures (owned i x a) (record_copying env i uri r) (\<lambda>r s. moved i a s \<and> \<not> isl r)"
  unfolding ensures_def
proof (intro allI impI)
  fix s r1 and s1 :: "'a sys"
  assume o: "owned i x a s" and e: "record_copying env i uri r s = (r1, s1)"
  obtain u s2 where u: "vm_update env i (record_mirror uri r) s = (u, s2)" by fastforce
  have "moved i a s2" using assms record_mirror_path [of uri r] by (intro update_event_moved [OF o u]) auto
  with e u show "moved i a s1 \<and> \<not> isl r1" by (auto simp: record_copying_def split: option.splits)
qed

abbreviation starting :: "((string \<times> string \<times> string \<times> string \<times> string) \<times> vm_migration_state \<times> bool) option \<Rightarrow> bool" where
  "starting x \<equiv> \<forall>y st ab. x = Some (y, st, ab) \<longrightarrow> st = Starting"

text \<open>A failed step of a start leaves the record where it was.\<close>

lemma advance_ensures:
  assumes q: "rely env"
  shows "ensures (owned i x a) (advance env i) (\<lambda>r s. moved i a s \<and> (isl r \<longrightarrow> owned i x a s \<and> starting x))"
  unfolding advance_def
proof (rule ensures_get, goal_cases)
  case (1 s)
  then show ?case by (auto simp: owned_def stage_def)
next
  case (2 m s)
  note x = owned_at [OF 2]
  show ?case
  proof (cases "vm_state m \<noteq> Starting \<or> vm_aborting m")
    case True
    then show ?thesis by (auto simp: ensures_def ok_op_def)
  next
    case False
    with x have st: "x = Some (identity m, Starting, vm_aborting m)" by simp
    have "ensures (owned i x a) (advance_steps env i m) (\<lambda>r s. moved i a s \<and> (isl r \<longrightarrow> owned i x a s \<and> starting x))"
      unfolding advance_steps_def
      by (intro ensures_bind keeps_rules q ensures_mono [OF record_copying_moves [OF st]]) (simp_all add: st)
    with False show ?thesis by simp
  qed
qed

lemma fail_moved:
  assumes "owned i x a s" and "starting x"
  shows "moved i a (fail env show i e s)"
proof -
  obtain u s1 where u: "vm_update env i (failed_with (show (ErrorNote e))) s = (u, s1)" by fastforce
  have "moved i a s1"
    using assms(2) by (intro update_event_moved [OF assms(1) u]) (auto simp: failed_with_def identity_def)
  with u show ?thesis by (auto simp: fail_def Let_def split: option.split)
qed

abbreviation moves :: "string \<Rightarrow> ((string \<times> string \<times> string \<times> string \<times> string) \<times> vm_migration_state \<times> bool) option \<Rightarrow> stages \<Rightarrow> ('w, 'a) vm_op \<Rightarrow> bool" where
  "moves i x a m \<equiv> ensures (owned i x a) m (\<lambda>_. moved i a)"

lemma advance_or_fail:
  assumes q: "rely env" and o: "owned i x a s"
  shows "moved i a (case advance env i s of (Inl e, s) \<Rightarrow> fail env show i e s | (Inr _, s) \<Rightarrow> s)"
proof -
  obtain r s1 where r: "advance env i s = (r, s1)" by fastforce
  note A = ensuresD [OF advance_ensures [OF q] o r]
  show ?thesis
  proof (cases r)
    case (Inl e)
    with A have "owned i x a s1" "starting x" by auto
    from fail_moved [OF this] Inl r show ?thesis by simp
  qed (use A r in simp)
qed

lemmas vm_steps [simp] = vm_next.intros [THEN vm_path_next]

lemma apply_reading_path:
  assumes "apply_reading m r = (c, m')"
  shows "vm_path (vm_state m) (vm_state m')"
proof (cases "reads_mirror m")
  case True
  with assms have "m' = fold_reading r m" by (auto simp: apply_reading_def Let_def split: if_splits)
  with fold_reading_state [of r m] True show ?thesis by (auto simp: reads_mirror_def)
qed (use assms in \<open>auto simp: apply_reading_def\<close>)

text \<open>Updates of the owner's record, and steps after it moved.\<close>

lemma update_moves:
  assumes "\<And>m. x = Some (identity m, vm_state m, vm_aborting m) \<Longrightarrow> identity (f m) = identity m \<and> vm_path (vm_state m) (vm_state (f m))"
  shows "moves i x a (vm_change env i f)" "moves i x a (vm_set env i f)"
proof -
  have u: "moved i a s1" if "owned i x a s" "vm_update env i f s = (u, s1)" for s s1 u
    using update_event_moved [OF that assms] by simp
  show "moves i x a (vm_set env i f)"
    unfolding ensures_def do_op_def by (metis u prod.collapse prod.inject)
  show "moves i x a (vm_change env i f)"
    unfolding ensures_def
  proof (intro allI impI)
    fix s r s'
    assume o: "owned i x a s" and e: "vm_change env i f s = (r, s')"
    obtain v s1 where v: "vm_update env i f s = (v, s1)" by fastforce
    with e have "s' = s1" by (auto simp: vm_change_def split: option.splits)
    with u [OF o v] show "moved i a s'" by simp
  qed
qed

lemma keeps_moved: "(\<And>x. keeps (owned i x a) m) \<Longrightarrow> keeps (moved i a) m"
  by (auto simp: keeps_def owned_def moved_def)

lemma keeps_noted [keeps_rules]: "keeps (moved i a) (\<lambda>s. (r, vm_event env m sev s))"
  by (simp add: keeps_def)

lemma record_reading_moves:
  assumes x: "x = Some (identity m, vm_state m, vm_aborting m)"
  shows "moves i x a (record_reading env i m r)"
  unfolding ensures_def
proof (intro allI impI)
  fix s v s'
  assume o: "owned i x a s" and e: "record_reading env i m r s = (v, s')"
  obtain c m1 where ar: "apply_reading m r = (c, m1)" by fastforce
  obtain u s1 where u: "vm_update env i (\<lambda>y. y\<lparr>vm_state := vm_state m1, vm_bytes_total := vm_bytes_total m1,
            vm_bytes_remaining := vm_bytes_remaining m1, vm_message := vm_message m1\<rparr>) s = (u, s1)" by fastforce
  have "moved i a s1" using apply_reading_path [OF ar] x by (intro update_event_moved [OF o u]) (simp add: identity_def)
  with o e u show "moved i a s'"
    unfolding record_reading_def ar prod.case by (auto split: if_splits option.splits)
qed

lemma refresh_moves: assumes q: "rely env" shows "moves i x a (refresh_migration env i)"
  unfolding refresh_migration_def
  by (rule ensures_get) (auto intro!: ensures_bind keeps_rules q record_reading_moves dest: owned_at)

text \<open>Switch-over.\<close>

lemma moves_keeps: "keeps (owned i x a) m \<Longrightarrow> moves i x a m"
  by (rule ensures_keeps) auto

lemma keeps_message: "snd (vm_update env i (\<lambda>r. r\<lparr>vm_message := msg\<rparr>) s) = s1 \<Longrightarrow> owned j x a s \<Longrightarrow> owned j x a s1"
  using keeps_set [of "\<lambda>r. r\<lparr>vm_message := msg\<rparr>" j x a env i] by (auto simp: keeps_def do_op_def identity_def)

lemma end_serve_keeps [keeps_rules]: assumes q: "rely env" shows "keeps (moved i a) (end_serve env show i m)"
proof (intro keeps_moved keepsI)
  fix x s r s'
  assume o: "owned i x a s" and e: "end_serve env show i m s = (r, s')"
  obtain r1 s1 where w: "withdraw env m s = (r1, s1)" by fastforce
  note o1 = keepsD [OF withdraw_keeps [OF q] o w]
  have g: "vm_get i s2 = (r, s') \<Longrightarrow> s' = s2" for s2 by (auto simp: vm_get_def split: option.splits)
  show "owned i x a s'"
  proof (cases r1)
    case (Inl y)
    with e w g have "snd (vm_update env i (\<lambda>r. r\<lparr>vm_message := Some (show (ServedNote y))\<rparr>) s1) = s'"
      by (auto simp: end_serve_def)
    with keeps_message o1 show ?thesis by blast
  qed (use e w g o1 in \<open>auto simp: end_serve_def\<close>)
qed

lemma cut_over_moves:
  assumes q: "rely env" and x: "x = Some (y, st, ab)" "st \<in> {Copying, Synced}"
  shows "moves i x a (cut_over env show i)"
  unfolding cut_over_def
proof (rule ensures_then)
  show "moves i x a (vm_change env i cut_over_record)"
    using x by (intro update_moves) (auto simp: cut_over_record_def identity_def)
  show "keeps (moved i a) (\<lambda>s. end_serve env show i r (vm_event env r Info s))" for r
    using end_serve_keeps [OF q, of i a "show" r] by (simp add: keeps_def)
qed

lemma not_exact_moves:
  assumes x: "x = Some (y, st, ab)" "st \<in> {Copying, Synced}"
  shows "moves i x a (not_exact env show i v)"
  unfolding ensures_def
proof (intro allI impI)
  fix s r s'
  assume o: "owned i x a s" and e: "not_exact env show i v s = (r, s')"
  obtain u s1 where u: "vm_update env i (failed_with (show (InexactNote v))) s = (u, s1)" by fastforce
  have "moved i a s1" using x by (intro update_event_moved [OF o u]) (auto simp: failed_with_def identity_def)
  with e u show "moved i a s'" by (auto simp: not_exact_def split: option.splits)
qed

lemma cutover_steps_moves:
  assumes q: "rely env" and x: "x = Some (y, st, ab)" "st \<in> {Copying, Synced}"
  shows "moves i x a (cutover_steps env show i m src)"
  unfolding ensures_def
proof (intro allI impI)
  fix s r s'
  assume o: "owned i x a s" and e: "cutover_steps env show i m src s = (r, s')"
  obtain cur s1 where l: "live env m s = (cur, s1)" by fastforce
  note o1 = live_owned [OF q o l]
  have "moves i x a (bind_op (vcall env (\<lambda>wr. stop_mirror wr src (vm_source_volume_id m))) (\<lambda>stopped.
      if \<not> stopped_exact stopped then not_exact env show i stopped else cut_over env show i))"
    using not_exact_moves [OF x] cut_over_moves [OF q x] by (intro ensures_bind keeps_rules q) auto
  from ensuresD [OF this o1] e l o1 show "moved i a s'" by (auto simp: cutover_steps_def split: if_splits)
qed

lemma cutover_moves: assumes q: "rely env" shows "moves i x a (cutover env show i)"
  unfolding cutover_def
proof (rule ensures_get, goal_cases)
  case (2 m s)
  note x = owned_at [OF 2]
  have w: "moves i x a (\<lambda>s. vm_get i (snd (withdraw env m s)))"
    using withdraw_keeps [OF q, of i x a m] by (intro moves_keeps) (simp add: keeps_def)
  have "moves i x a (bind_op (vm_engine env (vm_source_node m)) (cutover_steps env show i m))"
    if "vm_state m \<in> {Copying, Synced}"
    using cutover_steps_moves [OF q x that] by (intro ensures_bind keeps_rules) auto
  with w show ?case by (auto intro: moves_keeps keeps_rules)
qed auto

text \<open>Completion.\<close>

lemma retire_source_moves:
  assumes q: "rely env" and x: "x = Some (y, CutOver, ab)"
  shows "moves i x a (retire_source env show i m src)"
  unfolding ensures_def
proof (intro allI impI)
  fix s r s'
  assume o: "owned i x a s" and e: "retire_source env show i m src s = (r, s')"
  obtain r1 s1 where c: "call env (\<lambda>wr. delete_any_volume wr src (vm_source_volume_id m)) s = (r1, s1)" by fastforce
  note o1 = call_owned [OF q o c]
  obtain r2 s2 where w: "withdraw env m s1 = (r2, s2)" by fastforce
  note o2 = keepsD [OF withdraw_keeps [OF q] o1 w]
  have mv: "moves i x a (bind_op (vm_change env i complete_record) (\<lambda>r s. (Inr r, vm_event env r Info s)))"
    using x by (intro ensures_then update_moves keeps_rules) (auto simp: complete_record_def identity_def)
  show "moved i a s'"
  proof (cases r1)
    case (Inl z)
    with e c have "snd (vm_update env i (\<lambda>r. r\<lparr>vm_message := Some (show (RetireNote z))\<rparr>) s1) = s'"
      by (auto simp: retire_source_def Let_def)
    with keeps_message o1 show ?thesis by blast
  next
    case (Inr u)
    with e c w have "bind_op (vm_change env i complete_record) (\<lambda>r s. (Inr r, vm_event env r Info s)) s2 = (r, s')"
      by (simp add: retire_source_def)
    from ensuresD [OF mv o2 this] show ?thesis .
  qed
qed

lemma complete_moves: assumes q: "rely env" shows "moves i x a (complete env show i)"
  unfolding complete_def
proof (rule ensures_get, goal_cases)
  case (2 m s)
  note x = owned_at [OF 2]
  have "moves i x a (bind_op (vm_engine env (vm_source_node m)) (retire_source env show i m))" if "vm_state m = CutOver"
    using retire_source_moves [OF q] x that by (intro ensures_bind keeps_rules) auto
  then show ?case by (auto intro: moves_keeps keeps_rules)
qed auto

text \<open>Abort and retry.\<close>

lemma finish_abort_moves:
  assumes q: "rely env" and x: "\<And>y st ab. x = Some (y, st, ab) \<Longrightarrow> st \<notin> {Completed, Aborted}"
  shows "moves i x a (finish_abort env show i m)"
  unfolding ensures_def
proof (intro allI impI)
  fix s r s'
  assume o: "owned i x a s" and e: "finish_abort env show i m s = (r, s')"
  obtain r1 s1 where c: "abort_steps env m s = (r1, s1)" by fastforce
  note o1 = keepsD [OF abort_steps_keeps [OF q] o c]
  have mv: "moves i x a (bind_op (vm_change env i aborted_record) (\<lambda>r s. (Inr r, vm_event env r Info s)))"
    using x by (intro ensures_then update_moves keeps_rules) (auto simp: aborted_record_def identity_def)
  show "moved i a s'"
  proof (cases r1)
    case (Inl z)
    with e c have "snd (vm_update env i (\<lambda>r. r\<lparr>vm_message := Some (show (AbortNote z))\<rparr>) s1) = s'"
      by (auto simp: finish_abort_def Let_def)
    with keeps_message o1 show ?thesis by blast
  next
    case (Inr u)
    with e c have "bind_op (vm_change env i aborted_record) (\<lambda>r s. (Inr r, vm_event env r Info s)) s1 = (r, s')"
      by (simp add: finish_abort_def)
    from ensuresD [OF mv o1 this] show ?thesis .
  qed
qed

lemma abort_moves: assumes q: "rely env" shows "moves i x a (abort env show i)"
  unfolding abort_def
proof (rule ensures_get, goal_cases)
  case (2 m s)
  note x = owned_at [OF 2]
  have "moves i x a (\<lambda>s. finish_abort env show i m (mark_aborting env i m s))" if st: "vm_state m \<notin> {Completed, Aborted}"
    unfolding ensures_def
  proof (intro allI impI)
    fix s r s'
    assume o: "owned i x a s" and e: "finish_abort env show i m (mark_aborting env i m s) = (r, s')"
    let ?x = "Some (identity m, vm_state m, True)"
    have "owned i ?x a (mark_aborting env i m s)"
    proof (cases "vm_aborting m")
      case True
      with o x show ?thesis by (simp add: mark_aborting_def)
    next
      case False
      let ?s = "snd (vm_update env i (\<lambda>r. r\<lparr>vm_aborting := True\<rparr>) s)"
      obtain u where u: "vm_update env i (\<lambda>r. r\<lparr>vm_aborting := True\<rparr>) s = (u, ?s)" by (metis prod.collapse)
      have "moved i a ?s" by (intro update_event_moved [OF o u]) (simp add: identity_def)
      moreover obtain m1 where "migration_of i s = Some m1" "identity m1 = identity m" "vm_state m1 = vm_state m"
        using o x by (auto simp: owned_def stage_def)
      ultimately show ?thesis using False
        by (simp add: mark_aborting_def owned_def moved_def vm_update_stage_at identity_def)
    qed
    from ensuresD [OF finish_abort_moves [OF q] this e] st show "moved i a s'" by simp
  qed
  then show ?case by (auto intro: moves_keeps keeps_rules)
qed auto

lemma retry_moves: assumes q: "rely env" shows "moves i x a (retry env show i)"
  unfolding retry_def
proof (rule ensures_get, goal_cases)
  case (2 m s)
  note x = owned_at [OF 2]
  have step: "moves i x a (bind_op (vm_set env i restart_record) (\<lambda>_ s. case advance env i s of
      (Inl e, s) \<Rightarrow> (Inl e, fail env show i e s) | (Inr _, s) \<Rightarrow> vm_get i s))" if f: "vm_state m = MigFailed"
    unfolding ensures_def
  proof (intro allI impI)
    fix s r s'
    assume o: "owned i x a s" and e: "bind_op (vm_set env i restart_record) (\<lambda>_ s. case advance env i s of
      (Inl e, s) \<Rightarrow> (Inl e, fail env show i e s) | (Inr _, s) \<Rightarrow> vm_get i s) s = (r, s')"
    let ?s = "snd (vm_update env i restart_record s)"
    obtain u where u: "vm_update env i restart_record s = (u, ?s)" by (metis prod.collapse)
    have "moved i a ?s" using x f
      by (intro update_event_moved [OF o u]) (simp add: restart_record_def identity_def)
    then have "owned i (stage ?s i) a ?s" by (simp add: moved_def owned_def)
    from advance_or_fail [OF q this] e show "moved i a s'"
      by (auto simp: bind_op_def do_op_def split: prod.splits sum.splits) (metis snd_conv vm_get_state)+
  qed
  have "moves i x a (bind_op (forget_mirror env m) (\<lambda>_. bind_op (vm_set env i restart_record) (\<lambda>_ s. case advance env i s of
      (Inl e, s) \<Rightarrow> (Inl e, fail env show i e s) | (Inr _, s) \<Rightarrow> vm_get i s)))" if "vm_state m = MigFailed"
    by (rule ensures_bind [OF forget_mirror_keeps [OF q] _ step [OF that]]) auto
  then show ?case by (auto intro: moves_keeps keeps_rules)
qed auto

text \<open>The reconciler's step for a claimed record.\<close>

lemma pass_step_moves:
  assumes q: "rely env" and o: "owned (vm_id m) x a s"
  shows "moved (vm_id m) a (pass_step env show m s)"
proof -
  have "moved (vm_id m) a (snd (abort env show (vm_id m) s))"
    "moved (vm_id m) a (snd (refresh_migration env (vm_id m) s))"
    using ensuresD [OF abort_moves [OF q] o prod.collapse [symmetric]]
      ensuresD [OF refresh_moves [OF q] o prod.collapse [symmetric]] by auto
  moreover have "moved (vm_id m) a (snd (withdraw env m s))"
    using withdraw_keeps [OF q, of "vm_id m" x a m] o by (auto simp: keeps_def)
  moreover note advance_or_fail [OF q o, of "show"]
  ultimately show ?thesis using o by (simp add: pass_step_def owned_moved)
qed

lemma migration_forget: "migration_of j (forget_record env i s) = (if j = i then None else migration_of j s)"
  by (simp add: forget_record_def bump_def set_migrations_def persist_def push_to_peers_def)

lemma owned_self: "held i s \<Longrightarrow> owned i (stage s i) (stage s) s"
  by (simp add: owned_def)

lemma claim_held: "claim (vm_key i) s = (True, s1) \<Longrightarrow> held i s1 \<and> stage s1 = stage s"
  by (auto simp: claim_def held_def split: if_splits)

lemma claim_refused: "claim k s = (False, s1) \<Longrightarrow> s1 = s"
  by (auto simp: claim_def split: if_splits)

lemma pass_one_evolves: assumes q: "rely env" shows "evolves (stage s) (stage (pass_one env show t s m))"
proof (cases "drop_due t m")
  case True
  then show ?thesis by (auto simp: pass_one_def evolves_def stage_def migration_forget split: if_splits)
next
  case False
  obtain b s1 where c: "claim (vm_key (vm_id m)) s = (b, s1)" by fastforce
  show ?thesis
  proof (cases b)
    case True
    from claim_held c True have h: "held (vm_id m) s1" "stage s1 = stage s" by auto
    from pass_step_moves [OF q owned_self [OF h(1)]] False c True h(2) show ?thesis
      by (simp add: pass_one_def moved_def)
  qed (use False c claim_refused in \<open>auto simp: pass_one_def\<close>)
qed

lemma vm_run_evolves: assumes q: "rely env" shows "evolves (stage s) (stage (vm_run env show s))"
proof -
  have "evolves (stage s) (stage (foldl (pass_one env show t) s ms))" for t ms
    by (induction ms arbitrary: s) (auto intro: evolves_trans pass_one_evolves [OF q])
  then show ?thesis by (simp add: vm_run_def)
qed

lemma claimed_evolves:
  assumes "\<And>x a. moves i x a f"
  shows "evolves (stage s) (stage (snd (claimed i f s)))"
proof -
  obtain b s1 where c: "claim (vm_key i) s = (b, s1)" by fastforce
  obtain r s2 where f: "f s1 = (r, s2)" by fastforce
  show ?thesis
  proof (cases b)
    case True
    from claim_held c True have h: "held i s1" "stage s1 = stage s" by auto
    from ensuresD [OF assms owned_self [OF h(1)] f] c True f h(2) show ?thesis
      by (simp add: claimed_def moved_def)
  qed (use c claim_refused in \<open>auto simp: claimed_def\<close>)
qed

text \<open>Starting.\<close>

lemma call_evolves: "rely env \<Longrightarrow> evolves a (stage s) \<Longrightarrow> call env m s = (r, s') \<Longrightarrow> evolves a (stage s')"
  by (auto simp: call_def rely_def split: prod.splits) (metis stage_frame(6) evolves_trans)

lemma resolve_placement_evolves:
  "rely env \<Longrightarrow> evolves a (stage s) \<Longrightarrow> resolve_placement env sl t body z s = (r, s') \<Longrightarrow> evolves a (stage s')"
  by (auto simp: resolve_placement_def Let_def split: prod.splits option.splits sum.splits dest: call_evolves)

lemma check_target_evolves:
  assumes q: "rely env" and a: "evolves a (stage s)" and e: "check_target env sl rq dst sid sn sz s = (r, s')"
  shows "evolves a (stage s')"
proof -
  obtain r1 s1 where c: "call env (\<lambda>wr. local_volume_id wr dst (unwrap_or (vq_name rq) sn)) s = (r1, s1)" by fastforce
  note a1 = call_evolves [OF q a c]
  have "vq_placement rq = Some body \<Longrightarrow> evolves a (stage (snd (resolve_placement env sl dst body sz s1)))" for body
    using resolve_placement_evolves [OF q a1] by (metis prod.collapse)
  with e a1 show ?thesis
    unfolding check_target_def c prod.case by (auto split: sum.splits if_splits option.splits prod.splits)
qed

lemma check_source_evolves:
  assumes q: "rely env" and a: "evolves a (stage s)" and e: "check_source env sl rq src dst s = (r, s')"
  shows "evolves a (stage s')"
proof -
  obtain r1 s1 where c: "call env (\<lambda>wr. get_any_volume wr src (vq_volume rq)) s = (r1, s1)" by fastforce
  note a1 = call_evolves [OF q a c]
  with e check_target_evolves [OF q a1] show ?thesis
    unfolding check_source_def c prod.case by (auto split: sum.splits option.splits)
qed

lemma start_checks_evolves:
  assumes q: "rely env" and e: "start_checks env sl rq s = (r, s')"
  shows "evolves (stage s) (stage s')"
  using e check_source_evolves [OF q evolves_refl] by (auto simp: start_checks_def split: if_splits option.splits)

definition one_open :: "stages \<Rightarrow> bool" where
  "one_open \<sigma> \<longleftrightarrow> (\<forall>i j x y st st' ab ab'. \<sigma> i = Some (x, st, ab) \<longrightarrow> \<sigma> j = Some (y, st', ab') \<longrightarrow>
     \<not> terminal st \<longrightarrow> \<not> terminal st' \<longrightarrow> fst (snd x) = fst (snd y) \<longrightarrow> fst (snd (snd x)) = fst (snd (snd y)) \<longrightarrow> i = j)"

lemma one_open_evolves:
  assumes "evolves a b" and "one_open a"
  shows "one_open b"
  unfolding one_open_def
proof (intro allI impI)
  fix i j x y st st' ab ab'
  assume b: "b i = Some (x, st, ab)" "b j = Some (y, st', ab')" and t: "\<not> terminal st" "\<not> terminal st'"
    and same: "fst (snd x) = fst (snd y)" "fst (snd (snd x)) = fst (snd (snd y))"
  from assms(1) b obtain s0 a0 s1 a1 where a: "a i = Some (x, s0, a0)" "vm_path s0 st" "a j = Some (y, s1, a1)" "vm_path s1 st'"
    unfolding evolves_def by meson
  with t have "\<not> terminal s0" "\<not> terminal s1" using vm_path_terminal by blast+
  with assms(2) a(1,3) same show "i = j" unfolding one_open_def by blast
qed

text \<open>The record a start makes.\<close>

lemma open_for_None:
  assumes "open_for (sy_fed s) n v = None" and "stage s j = Some (y, st, ab)" and "fst (snd y) = n" and "fst (snd (snd y)) = v"
  shows "terminal st"
proof -
  from assms(2) obtain m where m: "migration_of j s = Some m" "y = identity m" "st = vm_state m" by (auto simp: stage_def)
  from map_of_SomeD [OF m(1)] have "m \<in> set (bt_values (f_vm_migrations (sy_fed s)))" by force
  with assms m show ?thesis by (auto simp: open_for_def find_None_iff identity_def)
qed

lemma start_record_stage:
  assumes "start_record env sl i rq s = (Inr (), s')"
  obtains s1 sid sn sz p where "start_checks env sl rq s = (Inr (sid, sn, sz, p), s1)" and
    "stage s' = (stage s1)(i := Some ((i, vq_node rq, sid, vq_to rq, unwrap_or (vq_name rq) sn), Starting, False))"
    "open_for (sy_fed s1) (vq_node rq) sid = None"
proof -
  obtain r1 s1 where c: "start_checks env sl rq s = (r1, s1)" by fastforce
  with assms obtain sid sn sz p where r: "r1 = Inr (sid, sn, sz, p)" "open_for (sy_fed s1) (vq_node rq) sid = None"
    by (auto simp: start_record_def split: sum.splits option.splits)
  have "stage s' = (stage s1)(i := Some ((i, vq_node rq, sid, vq_to rq, unwrap_or (vq_name rq) sn), Starting, False))"
    using assms c r by (intro ext) (auto simp: start_record_def stage_def bump_def set_migrations_def new_migration_def identity_def)
  with that c r show ?thesis by blast
qed

lemma start_record_Inl: "start_record env sl i rq s = (Inl e, s') \<Longrightarrow> \<exists>r. start_checks env sl rq s = (r, s')"
  by (auto simp: start_record_def split: prod.splits sum.splits option.splits)

lemma evolves_drop: "evolves a b \<Longrightarrow> evolves (a(i := None)) (b(i := None))"
  by (auto simp: evolves_def)

lemma evolves_fresh: "evolves a b \<Longrightarrow> a i = None \<Longrightarrow> b i = None"
  unfolding evolves_def by (metis not_Some_eq prod_cases5 prod.exhaust)

lemma evolves_restrict: "evolves a (b(i := None)) \<Longrightarrow> i \<notin> U \<Longrightarrow> evolves a (b |` U)"
  unfolding evolves_def restrict_map_def by (metis fun_upd_other option.distinct(1))

lemma stage_remove: "stage (with_fed (\<lambda>fed. bump (set_migrations (bt_remove i (f_vm_migrations fed)) fed)) s) = (stage s)(i := None)"
  by (rule ext) (simp add: stage_def bump_def set_migrations_def)

text \<open>A start leaves the other records to their paths; what it records is open and of a volume without an open
  migration.\<close>

lemma vm_start_stage:
  assumes q: "rely env" and fresh: "stage s i = None"
  shows "evolves (stage s) ((stage (snd (vm_start env sl i rq s)))(i := None))"
    and "one_open (stage s) \<Longrightarrow> one_open (stage (snd (vm_start env sl i rq s)))"
proof -
  obtain r s1 where r: "start_record env sl i rq s = (r, s1)" by fastforce
  let ?t = "snd (vm_start env sl i rq s)"
  have fr: "b i = None" if "evolves (stage s) b" for b using evolves_fresh [OF that, of i] fresh by simp
  have "evolves (stage s) ((stage ?t)(i := None)) \<and> (one_open (stage s) \<longrightarrow> one_open (stage ?t))"
  proof (cases r)
    case (Inl e)
    with r have "evolves (stage s) (stage s1)" using start_record_Inl start_checks_evolves [OF q] by blast
    moreover have "?t = s1" using r Inl by (simp add: vm_start_def)
    ultimately show ?thesis using one_open_evolves fr by (metis fun_upd_idem)
  next
    case (Inr u)
    with r have r': "start_record env sl i rq s = (Inr (), s1)" by simp
    obtain s0 sid sn sz p where c: "start_checks env sl rq s = (Inr (sid, sn, sz, p), s0)"
      and s1: "stage s1 = (stage s0)(i := Some ((i, vq_node rq, sid, vq_to rq, unwrap_or (vq_name rq) sn), Starting, False))"
      and no: "open_for (sy_fed s0) (vq_node rq) sid = None" by (rule start_record_stage [OF r'])
    note e0 = start_checks_evolves [OF q c]
    have oo: "one_open (stage s1)" if "one_open (stage s)"
      using one_open_evolves [OF e0 that] open_for_None [OF no] unfolding s1 one_open_def
      by (auto simp: fun_upd_apply split: if_splits)
    let ?s2 = "persist env (snd (claim (vm_key i) s1))"
    have h: "held i ?s2" "stage ?s2 = stage s1" by (auto simp: claim_def held_def)
    obtain v s3 where a: "advance env i ?s2 = (v, s3)" by fastforce
    have m: "moved i (stage s1) s3" using ensuresD [OF advance_ensures [OF q] owned_self [OF h(1)] a] h(2) by simp
    show ?thesis
    proof (cases v)
      case (Inr w)
      then have "stage ?t = stage s3" using r' a by (simp add: vm_start_def Let_def)
      with m oo one_open_evolves evolves_trans [OF e0] evolves_drop [of "stage s1" "stage s3" i] s1
        fr [OF e0] show ?thesis by (auto simp: moved_def fun_upd_idem)
    next
      case (Inl e)
      let ?u = "case migration_of i s3 of None \<Rightarrow> s3 | Some m \<Rightarrow> snd (undo_target env m s3)"
      have "moved i (stage s1) ?u"
        using m keeps_moved [OF undo_target_keeps [OF q]] by (auto simp: keeps_def split: option.split)
      moreover have "stage ?t = (stage ?u)(i := None)"
        using r' a Inl by (simp add: vm_start_def undo_start_def Let_def stage_remove)
      ultimately have ev: "evolves (stage s) (stage ?t)"
        using evolves_trans [OF e0] evolves_drop [of "stage s1" "stage ?u" i] s1 fr [OF e0]
        by (auto simp: moved_def fun_upd_idem)
      with one_open_evolves fr [OF ev] show ?thesis by (auto simp: fun_upd_idem)
    qed
  qed
  then show "evolves (stage s) ((stage ?t)(i := None))" "one_open (stage s) \<Longrightarrow> one_open (stage ?t)" by auto
qed

subsection \<open>Runs\<close>

text \<open>What the instance does with its migrations; an id is used once.\<close>

inductive vm_does :: "'w env \<Rightarrow> (vm_note \<Rightarrow> string) \<Rightarrow> (json \<Rightarrow> slab option) \<Rightarrow> string set \<times> 'w sys \<Rightarrow> string set \<times> 'w sys \<Rightarrow> bool"
  for env "show" sl where
  start: "i \<notin> U \<Longrightarrow> vm_does env show sl (U, s) (insert i U, snd (vm_start env sl i rq s))"
| switch: "vm_does env show sl (U, s) (U, snd (claimed i (cutover env show i) s))"
| finish: "vm_does env show sl (U, s) (U, snd (claimed i (complete env show i) s))"
| give_up: "vm_does env show sl (U, s) (U, snd (claimed i (abort env show i) s))"
| again: "vm_does env show sl (U, s) (U, snd (claimed i (retry env show i) s))"
| pass: "vm_does env show sl (U, s) (U, vm_run env show s)"
| rest: "vm_does env show sl (U, s) (U, en_others env s)"

lemma vm_does_stage:
  assumes q: "rely env" and st: "vm_does env show sl (U, s) (V, t)" and dom: "dom (stage s) \<subseteq> U"
  shows "U \<subseteq> V \<and> dom (stage t) \<subseteq> V \<and> evolves (stage s) (stage t |` U) \<and> (one_open (stage s) \<longrightarrow> one_open (stage t))"
proof -
  have same: "V = U \<Longrightarrow> evolves (stage s) (stage t) \<Longrightarrow> ?thesis"
  proof (intro conjI impI)
    assume V: "V = U" and e: "evolves (stage s) (stage t)"
    from e dom show "dom (stage t) \<subseteq> V" unfolding V using evolves_fresh [OF e] by (meson domIff subset_iff)
    from e show "evolves (stage s) (stage t |` U)" by (auto simp: evolves_def restrict_map_def split: if_splits)
  qed (auto intro: one_open_evolves)
  from st show ?thesis
  proof (cases rule: vm_does.cases)
    case (start i rq)
    from start(2,3) dom have fresh: "stage s i = None" by auto
    note S = vm_start_stage [OF q fresh, of sl rq, folded start(2)]
    have "stage t j = None" if "j \<notin> insert i U" for j
    proof -
      from dom that have "stage s j = None" by (metis domIff insertCI subsetD)
      with evolves_fresh [OF S(1), of j] that show ?thesis by simp
    qed
    then have "dom (stage t) \<subseteq> V" using start by (metis domIff subsetI)
    moreover have "evolves (stage s) (stage t |` U)"
      using evolves_restrict [OF S(1) start(3)] .
    ultimately show ?thesis using start S(2) by auto
  qed (use same claimed_evolves [OF cutover_moves [OF q]] claimed_evolves [OF complete_moves [OF q]]
      claimed_evolves [OF abort_moves [OF q]] claimed_evolves [OF retry_moves [OF q]] vm_run_evolves [OF q] rely_def [THEN iffD1, OF q]
      in simp_all)
qed

lemma vm_runs_stage:
  assumes q: "rely env" and st: "(vm_does env show sl)\<^sup>*\<^sup>* (U, s) (V, t)" and dom: "dom (stage s) \<subseteq> U"
  shows "U \<subseteq> V \<and> dom (stage t) \<subseteq> V \<and> evolves (stage s) (stage t |` U) \<and> (one_open (stage s) \<longrightarrow> one_open (stage t))"
  using st
proof (induction rule: rtranclp_induct2)
  case refl
  with dom show ?case by (auto simp: evolves_def restrict_map_def split: if_splits)
next
  case (step W x V t)
  have "evolves (stage x |` U) (stage t |` W |` U)"
    using vm_does_stage [OF q step(2)] step(3) by (fastforce simp: evolves_def restrict_map_def split: if_splits)
  moreover have "stage t |` W |` U = stage t |` U" using step(3) by (simp add: restrict_restrict Int_absorb1)
  ultimately show ?case using vm_does_stage [OF q step(2)] step(3) by (auto intro: evolves_trans)
qed

subsection \<open>Properties\<close>

text \<open>Property C25. Over any run of starts, switch-overs, completions, aborts, retries and reconciler passes, a
  migration keeps its identity and follows the paths of its states: a completed or aborted one stays so, and one
  that cut over never copies again.\<close>

theorem vm_lifecycle:
  assumes "rely env" and "(vm_does env show sl)\<^sup>*\<^sup>* (U, s) (V, t)" and "dom (stage s) \<subseteq> U"
    and "migration_of i s = Some m" and "migration_of i t = Some m'"
  shows "identity m' = identity m \<and> vm_path (vm_state m) (vm_state m') \<and>
    (terminal (vm_state m) \<longrightarrow> vm_state m' = vm_state m) \<and>
    (vm_state m = CutOver \<longrightarrow> vm_state m' \<in> {CutOver, Completed, Aborted})"
proof -
  have "i \<in> dom (stage s)" using assms(4) by (simp add: stage_def dom_def)
  with assms(3) have "i \<in> U" by blast
  then have t: "(stage t |` U) i = Some (identity m', vm_state m', vm_aborting m')" using assms(5) by (simp add: stage_def)
  have "evolves (stage s) (stage t |` U)" using vm_runs_stage [OF assms(1-3)] by blast
  with t obtain st ab where "stage s i = Some (identity m', st, ab)" "vm_path st (vm_state m')" unfolding evolves_def by blast
  with assms(4) have "identity m' = identity m \<and> vm_path (vm_state m) (vm_state m')" by (auto simp: stage_def)
  with vm_path_terminal vm_path_cut_over show ?thesis by metis
qed

text \<open>At most one open migration of a source volume is ever on record.\<close>

theorem vm_one_open:
  assumes "rely env" and "(vm_does env show sl)\<^sup>*\<^sup>* (U, s) (V, t)" and "dom (stage s) \<subseteq> U" and "one_open (stage s)"
    and "migration_of i t = Some m" and "migration_of j t = Some m'" and "\<not> terminal (vm_state m)" and "\<not> terminal (vm_state m')"
    and "vm_source_node m' = vm_source_node m" and "vm_source_volume_id m' = vm_source_volume_id m"
  shows "i = j"
proof -
  from vm_runs_stage [OF assms(1-3)] assms(4) have o: "one_open (stage t)" by blast
  have "stage t i = Some (identity m, vm_state m, vm_aborting m)" "stage t j = Some (identity m', vm_state m', vm_aborting m')"
    using assms(5,6) by (simp_all add: stage_def)
  with o assms(7-10) show ?thesis unfolding one_open_def identity_def by (metis fst_conv snd_conv)
qed

text \<open>What a reading of the mirror says before a switch-over: synced to our target, or unreadable with the record synced.\<close>

definition read_synced :: "'w env \<Rightarrow> vm_migration \<Rightarrow> 'w sys \<Rightarrow> 'w sys \<Rightarrow> bool" where
  "read_synced env m s s1 \<longleftrightarrow>
     (case read_mirror env m s of
        (Inl _, s') \<Rightarrow> s' = s1 \<and> vm_state m = Synced
      | (Inr r, s') \<Rightarrow> s' = s1 \<and> is_some_and r (\<lambda>r. Some (mi_target r) = vm_mirror_target m \<and> mi_state r = ''synced''))"

lemma live_synced:
  assumes "live env m s = (cur, s1)" and "reads_mirror m" and "vm_state cur = Synced"
  shows "read_synced env m s s1"
  using assms by (auto simp: live_def read_synced_def apply_reading_def fold_reading_def failed_with_def Let_def
      split: prod.splits sum.splits option.splits if_splits)

lemma cutover_body:
  assumes "cutover env show i s = (r, s')" and "migration_of i s = Some m"
  shows "s' = s \<or> s' = snd (withdraw env m s) \<or>
    (reads_mirror m \<and> (\<exists>src. healthy_engine env (sy_fed s) (vm_source_node m) = Some src \<and> cutover_steps env show i m src s = (r, s')))"
proof -
  have c: "cutover env show i s = (if vm_aborting m then err_op (VmRefused IsAborting) s
     else if vm_state m = CutOver \<or> vm_state m = Completed then vm_get i (snd (withdraw env m s))
     else if vm_state m \<noteq> Copying \<and> vm_state m \<noteq> Synced then err_op (VmRefused (NotSynced (vm_state m))) s
     else bind_op (vm_engine env (vm_source_node m)) (cutover_steps env show i m) s)"
    using assms(2) by (simp add: cutover_def bind_op_def vm_get_def)
  have g: "vm_get i t = (r, s') \<Longrightarrow> s' = t" for t by (metis snd_conv vm_get_state)
  show ?thesis
    using assms(1) g unfolding c
    by (auto simp: err_op_def reads_mirror_def bind_op_def vm_engine_def split: if_splits option.splits)
qed

lemma cutover_steps_exact:
  assumes q: "rely env" and o: "owned i x a s" and e: "cutover_steps env show i m src s = (r, s')" and "reads_mirror m"
  shows "owned i x a s' \<or> (\<forall>m'. migration_of i s' = Some m' \<longrightarrow> vm_state m' = MigFailed) \<or>
    (\<exists>s1 s2 v. read_synced env m s s1 \<and> call env (\<lambda>wr. stop_mirror wr src (vm_source_volume_id m)) s1 = (Inr v, s2) \<and> stopped_exact v)"
proof -
  obtain cur s1 where l: "live env m s = (cur, s1)" by fastforce
  obtain c s2 where c: "call env (\<lambda>wr. stop_mirror wr src (vm_source_volume_id m)) s1 = (c, s2)" by fastforce
  note o1 = live_owned [OF q o l] and o2 = call_owned [OF q live_owned [OF q o l] c]
  show ?thesis
  proof (cases "vm_state cur = Synced")
    case False
    with e l o1 show ?thesis by (auto simp: cutover_steps_def)
  next
    case True
    note sy = live_synced [OF l assms(4) True]
    show ?thesis
    proof (cases c)
      case (Inl z)
      with e l c True o2 show ?thesis by (auto simp: cutover_steps_def bind_op_def call_op_def)
    next
      case (Inr v)
      show ?thesis
      proof (cases "stopped_exact v")
        case True
        with sy c Inr show ?thesis by blast
      next
        case False
        with e l c \<open>vm_state cur = Synced\<close> Inr have n: "not_exact env show i v s2 = (r, s')"
          by (auto simp: cutover_steps_def bind_op_def call_op_def)
        obtain u s3 where u: "vm_update env i (failed_with (show (InexactNote v))) s2 = (u, s3)" by fastforce
        have "migration_of i s' = migration_of i s3" using n u by (auto simp: not_exact_def vm_event_def split: option.splits)
        with vm_update_migration [where j = i and i = i and env = env and f = "failed_with (show (InexactNote v))" and s = s2] u show ?thesis
          by (auto simp: failed_with_def)
      qed
    qed
  qed
qed

text \<open>Property C24. A cutover that holds the migration's claim, while the other tasks leave a claimed record alone, sets the record
  to cut over only after these two answers of the source's engine, in this order: the mirror, read just before, was
  synced to the migration's own target, or it could not be read while the record already said synced; then the engine
  stopped the mirror and said that it was synced and flushed. A mirror read in another state, or to another target,
  is never cut over.\<close>

theorem cutover_exact:
  assumes "rely env" and "held i s" and "cutover env show i s = (r, s')"
    and "migration_of i s = Some m" and "vm_state m \<noteq> CutOver" and "migration_of i s' = Some m'" and "vm_state m' = CutOver"
  shows "\<exists>src s1 s2 v. healthy_engine env (sy_fed s) (vm_source_node m) = Some src \<and> read_synced env m s s1 \<and>
    call env (\<lambda>wr. stop_mirror wr src (vm_source_volume_id m)) s1 = (Inr (Some v), s2) \<and>
    get_str ''state'' v = Some ''synced'' \<and> Option.bind (jget ''flushed'' v) as_bool = Some True"
proof -
  note own = owned_self [OF assms(2)]
  have kept: "owned i (stage s i) (stage s) s' \<Longrightarrow> False" using assms(4-7) by (auto simp: owned_def stage_def)
  have "owned i (stage s i) (stage s) (snd (withdraw env m s))"
    using withdraw_keeps [OF assms(1)] own by (auto simp: keeps_def)
  with kept own cutover_body [OF assms(3,4)] obtain src where src: "healthy_engine env (sy_fed s) (vm_source_node m) = Some src"
      "cutover_steps env show i m src s = (r, s')" "reads_mirror m" by blast
  from cutover_steps_exact [OF assms(1) own src(2,3)] kept assms(6,7) src(1) show ?thesis by (fastforce simp: stopped_exact_def is_some_and_iff)
qed

text \<open>A start looks only at the source volume's open migrations: one towards a node and name another open
  migration is already making is recorded too, so both lead to the one volume of that name on the target.\<close>

theorem start_ignores_target:
  assumes "start_checks env sl rq s = (Inr (sid, sname, sz, p), s1)" and "open_for (sy_fed s1) (vq_node rq) sid = None"
    and "migration_of j s1 = Some m" and "j \<noteq> i" and "\<not> terminal (vm_state m)"
    and "vm_target_node m = vq_to rq" and "vm_target_name m = unwrap_or (vq_name rq) sname"
  shows "\<exists>s2 m'. start_record env sl i rq s = (Inr (), s2) \<and> migration_of i s2 = Some m' \<and> migration_of j s2 = Some m \<and>
    \<not> terminal (vm_state m') \<and> vm_target_node m' = vm_target_node m \<and> vm_target_name m' = vm_target_name m"
  using assms by (simp add: start_record_def bump_def set_migrations_def new_migration_def terminal_def)

subsection \<open>Witnesses\<close>

text \<open>A migration of a disk of \<open>a\<close> to \<open>b\<close>, by its state.\<close>

definition wit_migration :: "vm_migration_state \<Rightarrow> vm_migration" where
  "wit_migration st = (new_migration ''m1'' \<lparr>vq_node = ''a'', vq_volume = ''disk'', vq_to = ''b'', vq_name = None, vq_placement = None\<rparr>
     ''sv'' ''disk'' 5 None 0)\<lparr>vm_state := st, vm_mirror_target := Some ''t''\<rparr>"

definition mig_sys :: "vm_migration_state \<Rightarrow> unit sys" where
  "mig_sys st = (small_sys wit_vol)\<lparr>sy_fed := sy_fed (small_sys wit_vol)\<lparr>f_vm_migrations := [(''m1'', wit_migration st)]\<rparr>\<rparr>"

lemma small_rely: "rely (small_env r)"
  by (simp add: rely_def small_env_def)

lemma mig_dom: "dom (stage (mig_sys st)) \<subseteq> {''m1''}"
  by (auto simp: stage_def mig_sys_def split: if_splits)

lemma vm_lifecycle_witness:
  "\<exists>m'. migration_of ''m1'' (snd (claimed ''m1'' (complete (small_env empty_answer) (\<lambda>_. []) ''m1'') (mig_sys CutOver))) = Some m' \<and>
     identity m' = identity (wit_migration CutOver) \<and> vm_state m' \<in> {CutOver, Completed, Aborted} \<and> vm_state m' = Completed"
proof -
  let ?t = "snd (claimed ''m1'' (complete (small_env empty_answer) (\<lambda>_. []) ''m1'') (mig_sys CutOver))"
  have "map_option vm_state (migration_of ''m1'' ?t) = Some Completed" by code_simp
  then obtain m' where m: "migration_of ''m1'' ?t = Some m'" "vm_state m' = Completed" by auto
  have "(vm_does (small_env empty_answer) (\<lambda>_. []) (\<lambda>_. None))\<^sup>*\<^sup>* ({''m1''}, mig_sys CutOver) ({''m1''}, ?t)"
    by (rule r_into_rtranclp, rule vm_does.finish)
  from vm_lifecycle [OF small_rely this mig_dom _ m(1), of "wit_migration CutOver"] m show ?thesis
    by (auto simp: mig_sys_def wit_migration_def)
qed

lemma vm_one_open_witness:
  "\<exists>m. migration_of ''m1'' (vm_run (small_env empty_answer) (\<lambda>_. []) (mig_sys Starting)) = Some m \<and> \<not> terminal (vm_state m) \<and>
     (\<forall>j. migration_of j (vm_run (small_env empty_answer) (\<lambda>_. []) (mig_sys Starting)) = Some m \<longrightarrow> ''m1'' = j)"
proof -
  let ?t = "vm_run (small_env empty_answer) (\<lambda>_. []) (mig_sys Starting)"
  have "map_option (\<lambda>m. terminal (vm_state m)) (migration_of ''m1'' ?t) = Some False" by code_simp
  then obtain m where m: "migration_of ''m1'' ?t = Some m" "\<not> terminal (vm_state m)" by auto
  have r: "(vm_does (small_env empty_answer) (\<lambda>_. []) (\<lambda>_. None))\<^sup>*\<^sup>* ({''m1''}, mig_sys Starting) ({''m1''}, ?t)"
    by (rule r_into_rtranclp, rule vm_does.pass)
  have oo: "one_open (stage (mig_sys Starting))" by (auto simp: one_open_def stage_def mig_sys_def split: if_splits)
  have "''m1'' = j" if "migration_of j ?t = Some m" for j
    by (rule vm_one_open [OF small_rely r mig_dom oo m(1) that m(2,2) refl refl])
  with m show ?thesis by blast
qed

definition stopped_answer :: response where
  "stopped_answer = \<lparr>rs_status = 200, rs_status_text = ''200 OK'', rs_json = Some (JObj
     [(''target'', JStr ''t''), (''state'', JStr ''synced''), (''flushed'', JBool True)])\<rparr>"

lemma cutover_exact_witness:
  "\<exists>s1 s2 v. read_synced (small_env stopped_answer) (wit_migration Copying) (snd (claim (vm_key ''m1'') (mig_sys Copying))) s1 \<and>
     call (small_env stopped_answer) (\<lambda>wr. stop_mirror wr (engine_for (small_env stopped_answer) (small_node ''a'')) ''sv'') s1 = (Inr (Some v), s2) \<and>
     get_str ''state'' v = Some ''synced''"
proof -
  let ?s = "snd (claim (vm_key ''m1'') (mig_sys Copying))"
  let ?t = "snd (cutover (small_env stopped_answer) (\<lambda>_. []) ''m1'' ?s)"
  have "map_option vm_state (migration_of ''m1'' ?t) = Some CutOver" by code_simp
  then obtain m' where m: "migration_of ''m1'' ?t = Some m'" "vm_state m' = CutOver" by auto
  have h: "held ''m1'' ?s" by (simp add: claim_def held_def)
  have s: "migration_of ''m1'' ?s = Some (wit_migration Copying)" by (simp add: claim_def mig_sys_def)
  have ne: "vm_state (wit_migration Copying) \<noteq> CutOver" and sn: "vm_source_node (wit_migration Copying) = ''a''"
    and sv: "vm_source_volume_id (wit_migration Copying) = ''sv''" by (simp_all add: wit_migration_def new_migration_def)
  have e: "healthy_engine (small_env stopped_answer) (sy_fed ?s) ''a'' = Some (engine_for (small_env stopped_answer) (small_node ''a''))"
    by (simp add: claim_def mig_sys_def small_sys_def healthy_engine_def small_node_def filter_opt_def)
  from cutover_exact [OF small_rely h prod.collapse [symmetric] s ne m] show ?thesis
    unfolding sn sv e by blast
qed

text \<open>Node \<open>b\<close> lists no volume, node \<open>a\<close> answers its disk \<open>other\<close>.\<close>

definition two_env :: "unit env" where
  "two_env = (small_env empty_answer)\<lparr>en_wire := \<lparr>wi_send = (\<lambda>q w. (Inr
       (if rq_url q = ''http://b/api/v1/volumes'' then empty_answer
        else \<lparr>rs_status = 200, rs_status_text = ''200 OK'', rs_json = Some (JObj
          [(''id'', JStr ''ov''), (''name'', JStr ''other''), (''virtual_size_bytes'', JInt 5)])\<rparr>), w)), wi_volume = (\<lambda>_. None)\<rparr>\<rparr>"

definition wit_request :: vm_request where
  "wit_request = \<lparr>vq_node = ''a'', vq_volume = ''other'', vq_to = ''b'', vq_name = Some ''disk'', vq_placement = None\<rparr>"

lemma start_ignores_target_witness:
  "\<exists>s2 m'. start_record two_env (\<lambda>_. None) ''m2'' wit_request (mig_sys Starting) = (Inr (), s2) \<and> migration_of ''m2'' s2 = Some m' \<and>
     migration_of ''m1'' s2 = Some (wit_migration Starting) \<and> vm_target_name m' = ''disk''"
proof -
  let ?c = "start_checks two_env (\<lambda>_. None) wit_request (mig_sys Starting)"
  have c: "fst ?c = Inr (''ov'', ''other'', 5, None)" by code_simp
  then have c': "?c = (Inr (''ov'', ''other'', 5, None), snd ?c)" by (metis prod.collapse)
  have op: "open_for (sy_fed (snd ?c)) (vq_node wit_request) ''ov'' = None" by code_simp
  have m: "migration_of ''m1'' (snd ?c) = Some (wit_migration Starting)" by code_simp
  show ?thesis
    using start_ignores_target [OF c' op m, of "''m2''"] by (auto simp: wit_migration_def new_migration_def wit_request_def terminal_def)
qed

end
