(* ===== verification/Snapshots.thy ===== *)
theory Snapshots
  imports Export Ops
begin

section \<open>Snapshots, group snapshots and clones\<close>

text \<open>
  Models \<open>src/api/snapshots.rs\<close>: what the CSI controller asks for. Every handler runs on the node that holds the
  volume's data (\<open>data_at_of\<close>). Answers are records; the texts of errors are left out, their kinds are
  \<open>api_error\<close>.
\<close>

datatype api_error = ApiNotFound | ApiBadRequest | ApiConflict | ApiNotImplemented | ApiUpstream

definition ends_with :: "string \<Rightarrow> string \<Rightarrow> bool" where
  "ends_with x name \<longleftrightarrow> length x \<le> length name \<and> drop (length name - length x) name = x"

definition as_i64 :: "json \<Rightarrow> int option" where
  "as_i64 v = (case v of JInt n \<Rightarrow> if - (2 ^ 63) \<le> n \<and> n < 2 ^ 63 then Some n else None | _ \<Rightarrow> None)"

abbreviation get_bool :: "string \<Rightarrow> json \<Rightarrow> bool option" where
  "get_bool k v \<equiv> Option.bind (jget k v) as_bool"

abbreviation get_i64 :: "string \<Rightarrow> json \<Rightarrow> int option" where
  "get_i64 k v \<equiv> Option.bind (jget k v) as_i64"

text \<open>Volumes and snapshots share one namespace.\<close>

definition name_free :: "fed_state \<Rightarrow> string \<Rightarrow> api_error + unit" where
  "name_free fed name =
     (if name = [] then Inl ApiBadRequest
      else if ends_with MIRROR_SUFFIX name then Inl ApiBadRequest
      else if bt_get (f_volumes fed) name \<noteq> None then Inl ApiConflict
      else if bt_get (f_snapshots fed) name \<noteq> None then Inl ApiConflict
      else if is_some_and (bt_get (f_backups fed) name) b_source_deleted then Inl ApiConflict
      else Inr ())"

abbreviation data_place :: "'w env \<Rightarrow> fed_state \<Rightarrow> dist_volume \<Rightarrow> api_error + data_at" where
  "data_place env fed vol \<equiv> map_sum (\<lambda>_. ApiConflict) id (data_at_of env fed vol)"

abbreviation api_call :: "'w env \<Rightarrow> ('w wire \<Rightarrow> ('w, 'a) io) \<Rightarrow> ('w, api_error, 'a) op" where
  "api_call env m \<equiv> call_op env (\<lambda>_. ApiUpstream) m"

definition data_healthy :: "string \<Rightarrow> ('w, api_error, unit) op" where
  "data_healthy node = read_op (\<lambda>s. check_op (healthy_node (sy_fed s) node) ApiConflict)"

definition commit_snapshot :: "'w env \<Rightarrow> string \<Rightarrow> 'w sys \<Rightarrow> 'w sys" where
  "commit_snapshot env subject s = note_event env ''snapshot'' Info subject (persist env (push_to_peers env s))"

definition change_fed :: "(fed_state \<Rightarrow> fed_state) \<Rightarrow> 'w sys \<Rightarrow> 'w sys" where
  "change_fed f = with_fed (\<lambda>fed. bump (f fed))"

definition put_snapshot :: "snapshot \<Rightarrow> fed_state \<Rightarrow> fed_state" where
  "put_snapshot sn fed = fed\<lparr>f_snapshots := bt_insert (s_name sn) sn (f_snapshots fed)\<rparr>"

subsection \<open>Snapshots\<close>

definition snapshot_source ::
  "'w env \<Rightarrow> string \<Rightarrow> string \<Rightarrow> fed_state \<Rightarrow> api_error + (snapshot + data_at)" where
  "snapshot_source env name vol_id fed =
     (case bt_get (f_snapshots fed) name of
        Some x \<Rightarrow> if s_source_volume_id x = vol_id then Inr (Inl x) else Inl ApiConflict
      | None \<Rightarrow>
          (case name_free fed name of
             Inl e \<Rightarrow> Inl e
           | Inr _ \<Rightarrow>
               (case bt_get (f_volumes fed) vol_id of
                  None \<Rightarrow> Inl ApiNotFound
                | Some vol \<Rightarrow> map_sum id Inr (data_place env fed vol))))"

definition new_snapshot :: "int \<Rightarrow> string \<Rightarrow> string \<Rightarrow> u64 \<Rightarrow> data_at \<Rightarrow> json \<Rightarrow> snapshot" where
  "new_snapshot t name vol_id sz home r =
     \<lparr>s_id = name, s_name = name, s_source_volume_id = vol_id, s_size_bytes = unwrap_or (get_u64 ''size_bytes'' r) sz,
      s_ready = unwrap_or (get_bool ''ready'' r) True, s_created_at_ms = unwrap_or (get_i64 ''created_at_ms'' r) t,
      s_group_snapshot_id = None, s_parent = dt_parent home, s_node = dt_node home, s_engine_name = name,
      s_engine_id = get_str ''id'' r\<rparr>"

definition take_from :: "'w env \<Rightarrow> string \<Rightarrow> string \<Rightarrow> data_at \<Rightarrow> ('w, api_error, snapshot) op" where
  "take_from env name vol_id home =
     bind_op (data_healthy (dt_node home)) (\<lambda>_.
     read_op (\<lambda>s0.
     bind_op (api_call env (\<lambda>wr. create_snapshot wr (dt_engine home) name (dt_engine_name home))) (\<lambda>r.
     read_op (\<lambda>s1.
       let sz = unwrap_or (map_option v_size_bytes (volume vol_id s0)) 0;
           sn = new_snapshot (now_ms env s1) name vol_id sz home r
       in bind_op (do_op (\<lambda>s. commit_snapshot env vol_id (change_fed (put_snapshot sn) s))) (\<lambda>_. ok_op sn)))))"

definition take_snapshot :: "'w env \<Rightarrow> string \<Rightarrow> string \<Rightarrow> ('w, api_error, snapshot) op" where
  "take_snapshot env name vol_id =
     read_op (\<lambda>s. bind_op (lift_op (snapshot_source env name vol_id (sy_fed s))) (\<lambda>p.
       case p of Inl x \<Rightarrow> ok_op x | Inr home \<Rightarrow> take_from env name vol_id home))"

text \<open>Where a snapshot's data is now: on the node that serves its parent.\<close>

definition snapshot_home :: "'w env \<Rightarrow> fed_state \<Rightarrow> snapshot \<Rightarrow> api_error + data_at" where
  "snapshot_home env fed sn =
     (case bt_get (f_volumes fed) (s_parent sn) of
        None \<Rightarrow> Inl ApiConflict
      | Some parent \<Rightarrow> data_place env fed parent)"

fun delete_by_name :: "'w env \<Rightarrow> data_at \<Rightarrow> string list \<Rightarrow> ('w, api_error, unit) op" where
  "delete_by_name env home [] s = (Inr (), s)"
| "delete_by_name env home (n # ns) s =
     (case call env (\<lambda>wr. local_volume_id wr (dt_engine home) n) s of
        (Inr i, s) \<Rightarrow>
          (case call env (\<lambda>wr. delete_any_volume wr (dt_engine home) i) s of
             (Inl _, s) \<Rightarrow> (Inl ApiUpstream, s)
           | (Inr _, s) \<Rightarrow> delete_by_name env home ns s)
      | (Inl e, s) \<Rightarrow> if is_not_found e then delete_by_name env home ns s else (Inl ApiUpstream, s))"

text \<open>By its \<open>/v1\<close> id while the data is where it was taken, else by name.\<close>

definition delete_data :: "'w env \<Rightarrow> data_at \<Rightarrow> string \<Rightarrow> string option \<Rightarrow> string \<Rightarrow> string list \<Rightarrow> ('w, api_error, unit) op" where
  "delete_data env home path engine_id node names =
     (case (engine_id, dt_node home = node) of
        (Some i, True) \<Rightarrow> api_call env (\<lambda>wr. delete_v1 wr (dt_engine home) (path @ i))
      | _ \<Rightarrow> delete_by_name env home names)"

definition drop_snapshots :: "string list \<Rightarrow> fed_state \<Rightarrow> fed_state" where
  "drop_snapshots names fed = fed\<lparr>f_snapshots := foldl (\<lambda>m n. bt_remove n m) (f_snapshots fed) names\<rparr>"

definition delete_snapshot :: "'w env \<Rightarrow> string \<Rightarrow> ('w, api_error, unit) op" where
  "delete_snapshot env i =
     read_op (\<lambda>s. case bt_get (f_snapshots (sy_fed s)) i of
         None \<Rightarrow> ok_op ()
       | Some sn \<Rightarrow>
           bind_op (check_op (s_group_snapshot_id sn = None) ApiConflict) (\<lambda>_.
           bind_op (lift_op (snapshot_home env (sy_fed s) sn)) (\<lambda>home.
           bind_op (data_healthy (dt_node home)) (\<lambda>_.
           bind_op (delete_data env home ''/v1/snapshots/'' (s_engine_id sn) (s_node sn) [s_engine_name sn]) (\<lambda>_.
             do_op (\<lambda>s. commit_snapshot env (s_source_volume_id sn) (change_fed (drop_snapshots [i]) s)))))))"

subsection \<open>Group snapshots\<close>

definition member_name :: "string \<Rightarrow> string \<Rightarrow> string" where
  "member_name g v = g @ ''-'' @ v"

fun group_places :: "'w env \<Rightarrow> fed_state \<Rightarrow> string \<Rightarrow> string list \<Rightarrow> api_error + data_at list" where
  "group_places env fed g [] = Inr []"
| "group_places env fed g (v # vs) =
     (case name_free fed (member_name g v) of
        Inl e \<Rightarrow> Inl e
      | Inr _ \<Rightarrow>
          (case bt_get (f_volumes fed) v of
             None \<Rightarrow> Inl ApiNotFound
           | Some vol \<Rightarrow>
               (case data_place env fed vol of
                  Inl e \<Rightarrow> Inl e
                | Inr p \<Rightarrow> map_sum id (Cons p) (group_places env fed g vs))))"

text \<open>An existing group of the name answers for the same volumes; else where each volume's data is.\<close>

definition group_source ::
  "'w env \<Rightarrow> string \<Rightarrow> string list \<Rightarrow> fed_state \<Rightarrow> api_error + (group_snapshot + data_at list)" where
  "group_source env g vs fed =
     (case bt_get (f_group_snapshots fed) g of
        Some x \<Rightarrow> if sort (map (member_name g) vs) = sort (g_members x) then Inr (Inl x) else Inl ApiConflict
      | None \<Rightarrow> map_sum id Inr (group_places env fed g vs))"

definition group_member ::
  "string \<Rightarrow> int \<Rightarrow> string \<Rightarrow> string \<times> data_at \<Rightarrow> u64 \<Rightarrow> json option \<Rightarrow> snapshot" where
  "group_member g created node vp sz en =
     (case vp of (v, p) \<Rightarrow>
        \<lparr>s_id = member_name g v, s_name = member_name g v, s_source_volume_id = v,
         s_size_bytes = unwrap_or (Option.bind en (get_u64 ''size_bytes'')) sz,
         s_ready = unwrap_or (Option.bind en (get_bool ''ready'')) True, s_created_at_ms = created,
         s_group_snapshot_id = Some g, s_parent = dt_parent p, s_node = node,
         s_engine_name = g @ ''-'' @ dt_engine_name p, s_engine_id = Option.bind en (get_str ''id'')\<rparr>)"

definition group_members ::
  "string \<Rightarrow> int \<Rightarrow> string \<Rightarrow> (string \<times> data_at) list \<Rightarrow> (string \<Rightarrow> u64) \<Rightarrow> json list \<Rightarrow> snapshot list" where
  "group_members g created node vps sz ens =
     map (\<lambda>(i, vp). group_member g created node vp (sz (fst vp)) (if i < length ens then Some (ens ! i) else None))
       (enumerate 0 vps)"

definition put_group :: "group_snapshot \<Rightarrow> snapshot list \<Rightarrow> fed_state \<Rightarrow> fed_state" where
  "put_group grp members fed =
     (let fed = foldl (\<lambda>fed m. put_snapshot m fed) fed members
      in fed\<lparr>f_group_snapshots := bt_insert (g_name grp) grp (f_group_snapshots fed)\<rparr>)"

definition new_group :: "string \<Rightarrow> snapshot list \<Rightarrow> int \<Rightarrow> string \<Rightarrow> json \<Rightarrow> group_snapshot" where
  "new_group g members created node r =
     \<lparr>g_id = g, g_name = g, g_members = map s_name members, g_ready = list_all s_ready members,
      g_created_at_ms = created, g_node = node, g_engine_id = get_str ''id'' r\<rparr>"

definition take_group :: "'w env \<Rightarrow> string \<Rightarrow> (string \<times> data_at) list \<Rightarrow> string \<Rightarrow> engine \<Rightarrow> ('w, api_error, group_snapshot) op" where
  "take_group env g vps node eng =
     bind_op (api_call env (\<lambda>wr. create_group_snapshot wr eng g (map (dt_engine_name \<circ> snd) vps))) (\<lambda>r.
     read_op (\<lambda>s1.
       let created = unwrap_or (get_i64 ''created_at_ms'' r) (now_ms env s1);
           members = group_members g created node vps
             (\<lambda>v. unwrap_or (map_option v_size_bytes (volume v s1)) 0) (get_array ''snapshots'' r);
           grp = new_group g members created node r
       in bind_op (do_op (\<lambda>s. commit_snapshot env g (change_fed (put_group grp members) s))) (\<lambda>_. ok_op grp)))"

definition create_group :: "'w env \<Rightarrow> string \<Rightarrow> string list \<Rightarrow> ('w, api_error, group_snapshot) op" where
  "create_group env g vs =
     bind_op (check_op (vs \<noteq> [] \<and> distinct vs) ApiBadRequest) (\<lambda>_.
     read_op (\<lambda>s. bind_op (lift_op (group_source env g vs (sy_fed s))) (\<lambda>p.
       case p of
         Inl x \<Rightarrow> ok_op x
       | Inr places \<Rightarrow>
           (let p0 = hd places in
            bind_op (check_op (list_all (\<lambda>p. dt_node p = dt_node p0) places) ApiConflict) (\<lambda>_.
            bind_op (data_healthy (dt_node p0)) (\<lambda>_. take_group env g (zip vs places) (dt_node p0) (dt_engine p0)))))))"

definition drop_group :: "group_snapshot \<Rightarrow> string \<Rightarrow> fed_state \<Rightarrow> fed_state" where
  "drop_group grp i fed =
     (let fed = drop_snapshots (g_members grp) fed in fed\<lparr>f_group_snapshots := bt_remove i (f_group_snapshots fed)\<rparr>)"

definition delete_group :: "'w env \<Rightarrow> string \<Rightarrow> ('w, api_error, unit) op" where
  "delete_group env i =
     read_op (\<lambda>s. case bt_get (f_group_snapshots (sy_fed s)) i of
         None \<Rightarrow> ok_op ()
       | Some grp \<Rightarrow>
           (let members = List.map_filter (bt_get (f_snapshots (sy_fed s))) (g_members grp) in
            bind_op (case members of
                [] \<Rightarrow> ok_op ()
              | m # _ \<Rightarrow>
                  bind_op (lift_op (snapshot_home env (sy_fed s) m)) (\<lambda>home.
                  bind_op (data_healthy (dt_node home)) (\<lambda>_.
                    delete_data env home ''/v1/group-snapshots/'' (g_engine_id grp) (g_node grp) (map s_engine_name members))))
              (\<lambda>_. do_op (\<lambda>s. commit_snapshot env i (change_fed (drop_group grp i) s)))))"

subsection \<open>Clones\<close>

text \<open>The volume, the engine volume to clone (a snapshot's, else the served one) and the least size.\<close>

definition clone_source :: "fed_state \<Rightarrow> volume_source \<Rightarrow> api_error + (dist_volume \<times> string option \<times> u64)" where
  "clone_source fed source =
     (case source of
        FromVolume i \<Rightarrow>
          (case bt_get (f_volumes fed) i of
             None \<Rightarrow> Inl ApiNotFound
           | Some v \<Rightarrow> Inr (v, None, v_size_bytes v))
      | FromSnapshot i \<Rightarrow>
          (case bt_get (f_snapshots fed) i of
             None \<Rightarrow> Inl ApiNotFound
           | Some sn \<Rightarrow>
               (case bt_get (f_volumes fed) (s_parent sn) of
                  None \<Rightarrow> Inl ApiConflict
                | Some v \<Rightarrow> Inr (v, Some (s_engine_name sn), s_size_bytes sn))))"

definition check_clone ::
  "'w env \<Rightarrow> string \<Rightarrow> u64 \<Rightarrow> volume_source \<Rightarrow> fed_state \<Rightarrow> api_error + (data_at \<times> dist_volume \<times> string)" where
  "check_clone env name sz source fed =
     (case name_free fed name of
        Inl e \<Rightarrow> Inl e
      | Inr _ \<Rightarrow>
          (case clone_source fed source of
             Inl e \<Rightarrow> Inl e
           | Inr (vol, engine_name, least_size) \<Rightarrow>
               if sz < least_size then Inl ApiBadRequest
               else (case data_place env fed vol of
                   Inl e \<Rightarrow> Inl e
                 | Inr home \<Rightarrow>
                     (case bt_get (f_volumes fed) (dt_parent home) of
                        None \<Rightarrow> Inl ApiConflict
                      | Some parent \<Rightarrow> Inr (home, parent, unwrap_or engine_name (dt_engine_name home))))))"

definition cloned_volume ::
  "time \<Rightarrow> string \<Rightarrow> u64 \<Rightarrow> volume_source \<Rightarrow> host_serve list \<Rightarrow> data_at \<Rightarrow> dist_volume \<Rightarrow> string \<Rightarrow> string \<Rightarrow> json \<Rightarrow> dist_volume" where
  "cloned_volume t name sz source hosts home parent vid master r =
     parent\<lparr>v_name := name, v_size_bytes := sz, v_legs := [], v_assembly := Clone, v_head := None, v_array_id := None,
       v_created_at := t, v_replacing := None, v_next_releg_after := None, v_next_assemble_after := None,
       v_export := default_export\<lparr>x_node := Some (dt_node home), x_volume_id := Some vid,
         x_master_node := or_else (master_node_of r) (Some master), x_hosts := hosts, x_per_host := (hosts \<noteq> [])\<rparr>,
       v_epoch := first_epoch, v_fenced := False, v_rate_pending := False, v_dual_attach := None, v_migration := None,
       v_clone_of := Some \<lparr>co_source = source, co_parent = v_name parent\<rparr>, v_expanding := None\<rparr>"

definition clone_volume ::
  "'w env \<Rightarrow> string \<Rightarrow> u64 \<Rightarrow> volume_source \<Rightarrow> host_serve list \<Rightarrow> ('w, api_error, unit) op" where
  "clone_volume env name sz source hosts =
     read_op (\<lambda>s. bind_op (lift_op (check_clone env name sz source (sy_fed s))) (\<lambda>(home, parent, engine_name).
       bind_op (data_healthy (dt_node home)) (\<lambda>_.
       bind_op (need_op ApiConflict (dt_master_node home)) (\<lambda>master.
       bind_op (api_call env (\<lambda>wr. create_clone wr (dt_engine home) name sz master engine_name)) (\<lambda>r.
       bind_op (need_op ApiUpstream (get_str ''id'' r)) (\<lambda>vid.
       read_op (\<lambda>s1.
         bind_op (do_op (\<lambda>s. commit_snapshot env name (change_fed
           (put_volume name (cloned_volume (now env s1) name sz source hosts home parent vid master r)) s))) (\<lambda>_.
         do_op (\<lambda>s. snd (publish env name s))))))))))"

subsection \<open>The records that must agree\<close>

type_synonym snap_map = "(string \<Rightarrow> (string \<times> clone_of option) option) \<times> (string \<Rightarrow> snapshot option) \<times> (string \<Rightarrow> group_snapshot option)"

definition snap_view :: "fed_state \<Rightarrow> snap_map" where
  "snap_view fed = ((\<lambda>n. map_option (\<lambda>v. (v_name v, v_clone_of v)) (bt_get (f_volumes fed) n)),
     bt_get (f_snapshots fed), bt_get (f_group_snapshots fed))"

text \<open>Volumes and snapshots have different names; a snapshot's parent is on record and no clone, as is a clone's; a
  group and its members name each other.\<close>

definition snaps_ok :: "snap_map \<Rightarrow> bool" where
  "snaps_ok V \<longleftrightarrow> (case V of (vol, sn, gr) \<Rightarrow>
     (\<forall>n x. vol n = Some x \<longrightarrow> fst x = n \<and> sn n = None \<and> (\<forall>c. snd x = Some c \<longrightarrow> vol (co_parent c) = Some (co_parent c, None))) \<and>
     (\<forall>n x. sn n = Some x \<longrightarrow> s_name x = n \<and> vol (s_parent x) = Some (s_parent x, None) \<and>
        (\<forall>g. s_group_snapshot_id x = Some g \<longrightarrow> (\<exists>G. gr g = Some G \<and> n \<in> set (g_members G)))) \<and>
     (\<forall>g G. gr g = Some G \<longrightarrow> g_name G = g \<and> (\<forall>m \<in> set (g_members G). \<exists>x. sn m = Some x \<and> s_group_snapshot_id x = Some g)))"

abbreviation sview :: "'w sys \<Rightarrow> snap_map" where
  "sview s \<equiv> snap_view (sy_fed s)"

abbreviation at_view :: "snap_map \<Rightarrow> 'w sys \<Rightarrow> bool" where
  "at_view V s \<equiv> sview s = V"

lemma call_view: "quiet env sview \<Longrightarrow> keeps (at_view V) (call_op env f m)"
  by (auto simp: keeps_def call_op_def dest: call_quiet_eq split: prod.splits)

lemma view_bump [simp]: "snap_view (bump fed) = snap_view fed"
  by (simp add: snap_view_def bump_def)

lemma view_on_volume:
  "(\<And>v. v_name (f v) = v_name v \<and> v_clone_of (f v) = v_clone_of v) \<Longrightarrow> snap_view (on_volume name f fed) = snap_view fed"
  by (auto simp: snap_view_def on_volume_def option.map_comp comp_def intro!: ext option.map_cong0)

lemma commit_view [simp]: "sview (commit_snapshot env n s) = sview s"
  by (simp add: commit_snapshot_def)

lemma change_view [simp]: "sview (change_fed f s) = snap_view (f (sy_fed s))"
  by (simp add: change_fed_def)

lemma record_leg_names [simp]: "v_name (record_leg_export r v) = v_name v" "v_clone_of (record_leg_export r v) = v_clone_of v"
  by (auto simp: record_leg_export_def split: sum.split option.split)

lemma publish_view: assumes q: "quiet env sview" shows "sview (snd (publish env name s)) = sview s"
proof -
  have "sview (snd (publish_inner env name s)) = sview s"
  proof (cases "publish_ready env name (sy_fed s)")
    case (Inl e)
    then show ?thesis
      by (cases e; cases "fst e") (auto simp: publish_inner_def record_unreachable_def view_on_volume split: option.split)
  next
    case (Inr x)
    obtain vol srv where x: "x = (vol, srv)" by fastforce
    let ?ph = "x_per_host (v_export vol) \<or> x_hosts (v_export vol) \<noteq> []"
    obtain a1 s1 where a1: "attach_served env name vol srv ?ph s = (a1, s1)" by fastforce
    obtain a2 lid p s2 where a2: "serve_named env name vol srv (sa_volume_id srv \<noteq> None) a1 s1 = (a2, lid, p, s2)"
      by (metis prod_cases4)
    have "sview s2 = sview s" using attach_served_quiet [OF q, of name vol srv ?ph s]
      serve_named_quiet [OF q, of name vol srv "sa_volume_id srv \<noteq> None" a1 s1] by (simp add: a1 a2 del: not_None_eq)
    then show ?thesis
      by (auto simp: publish_inner_def Inr x Let_def a1 a2 view_on_volume simp del: not_None_eq split: option.split)
  qed
  then show ?thesis by (cases "publish_inner env name s") (auto simp: publish_def split: sum.split)
qed

lemma publish_keeps_view: "quiet env sview \<Longrightarrow> keeps (at_view V) (do_op (\<lambda>s. snd (publish env name s)))"
  by (simp add: keeps_def do_op_def publish_view)

lemma data_healthy_keeps [keeps_rules]: "keeps P (data_healthy n)"
  unfolding data_healthy_def by (intro keeps_rules)

lemma delete_by_name_keeps: "quiet env sview \<Longrightarrow> keeps (at_view V) (delete_by_name env home ns)"
proof (induction ns)
  case (Cons n ns)
  show ?case
  proof (rule keepsI)
    fix s r s'
    assume v: "at_view V s" and e: "delete_by_name env home (n # ns) s = (r, s')"
    obtain r1 s1 where c: "call env (\<lambda>wr. local_volume_id wr (dt_engine home) n) s = (r1, s1)" by fastforce
    have v1: "at_view V s1" using call_quiet_eq [OF Cons.prems c] v by simp
    have rest: "delete_by_name env home ns s2 = (r, s') \<Longrightarrow> at_view V s2 \<Longrightarrow> at_view V s'" for s2
      using keepsD [OF Cons.IH [OF Cons.prems]] by blast
    show "at_view V s'"
    proof (cases r1)
      case (Inl x)
      with e v1 rest show ?thesis by (auto simp: c split: if_splits)
    next
      case (Inr i)
      obtain r2 s2 where d: "call env (\<lambda>wr. delete_any_volume wr (dt_engine home) i) s1 = (r2, s2)" by fastforce
      have "at_view V s2" using call_quiet_eq [OF Cons.prems d] v1 by simp
      with e rest Inr show ?thesis by (auto simp: c d split: sum.splits)
    qed
  qed
qed (simp add: keeps_def)

lemma delete_data_keeps: "quiet env sview \<Longrightarrow> keeps (at_view V) (delete_data env home p e n ns)"
  by (auto simp: delete_data_def intro: call_view delete_by_name_keeps split: option.split bool.split)

lemmas view_rules = keeps_rules call_view delete_data_keeps publish_keeps_view

subsection \<open>What each change of the records keeps\<close>

lemma snaps_okI:
  assumes "\<And>n x. vol n = Some x \<Longrightarrow> fst x = n \<and> sn n = None \<and> (\<forall>c. snd x = Some c \<longrightarrow> vol (co_parent c) = Some (co_parent c, None))"
    and "\<And>n x. sn n = Some x \<Longrightarrow> s_name x = n \<and> vol (s_parent x) = Some (s_parent x, None) \<and>
      (\<forall>g. s_group_snapshot_id x = Some g \<longrightarrow> (\<exists>G. gr g = Some G \<and> n \<in> set (g_members G)))"
    and "\<And>g G m. gr g = Some G \<Longrightarrow> g_name G = g \<and> (m \<in> set (g_members G) \<longrightarrow> (\<exists>x. sn m = Some x \<and> s_group_snapshot_id x = Some g))"
  shows "snaps_ok (vol, sn, gr)"
  unfolding snaps_ok_def prod.case using assms by blast

lemma snaps_okD:
  assumes "snaps_ok (vol, sn, gr)"
  shows "vol n = Some y \<Longrightarrow> fst y = n \<and> sn n = None \<and> (\<forall>c. snd y = Some c \<longrightarrow> vol (co_parent c) = Some (co_parent c, None))"
    and "sn n = Some x \<Longrightarrow> s_name x = n \<and> vol (s_parent x) = Some (s_parent x, None) \<and>
      (\<forall>g. s_group_snapshot_id x = Some g \<longrightarrow> (\<exists>G. gr g = Some G \<and> n \<in> set (g_members G)))"
    and "gr g = Some G \<Longrightarrow> g_name G = g \<and> (m \<in> set (g_members G) \<longrightarrow> (\<exists>x. sn m = Some x \<and> s_group_snapshot_id x = Some g))"
  using assms unfolding snaps_ok_def prod.case by blast+

lemma add_snapshot_ok:
  assumes "snaps_ok (vol, sn, gr)" and "vol (s_name x) = None" and "sn (s_name x) = None"
    and "vol (s_parent x) = Some (s_parent x, None)" and "s_group_snapshot_id x = None"
  shows "snaps_ok (vol, sn(s_name x \<mapsto> x), gr)"
proof (rule snaps_okI, goal_cases)
  case (1 n y)
  with snaps_okD(1) [OF assms(1) 1] assms(2) show ?case by auto
next
  case (2 n y)
  with snaps_okD(2) [OF assms(1), of n y] assms(4,5) show ?case by (auto split: if_splits)
next
  case (3 g G m)
  with snaps_okD(3) [OF assms(1), of g G m] assms(3) show ?case by auto
qed

lemma remove_snapshot_ok:
  assumes "snaps_ok (vol, sn, gr)" and "\<And>x. sn i = Some x \<Longrightarrow> s_group_snapshot_id x = None"
  shows "snaps_ok (vol, sn(i := None), gr)"
proof (rule snaps_okI, goal_cases)
  case (1 n y)
  with snaps_okD(1) [OF assms(1) 1] show ?case by auto
next
  case (2 n y)
  with snaps_okD(2) [OF assms(1), of n y] show ?case by (auto split: if_splits)
next
  case (3 g G m)
  with snaps_okD(3) [OF assms(1), of g G m] assms(2) show ?case by auto
qed

lemma add_volume_ok:
  assumes "snaps_ok (vol, sn, gr)" and "vol n = None" and "sn n = None"
    and "\<And>p. c = Some p \<Longrightarrow> vol (co_parent p) = Some (co_parent p, None)"
  shows "snaps_ok (vol(n \<mapsto> (n, c)), sn, gr)"
proof (rule snaps_okI, goal_cases)
  case (1 m y)
  have "co_parent p \<noteq> n" if "c = Some p" for p using assms(2) assms(4) [OF that] by auto
  moreover have "vol m = Some y \<Longrightarrow> snd y = Some p \<Longrightarrow> co_parent p \<noteq> n" for p
    using snaps_okD(1) [OF assms(1), of m y] assms(2) by auto
  ultimately show ?case using 1 snaps_okD(1) [OF assms(1), of m y] assms(3,4) by (auto split: if_splits)
next
  case (2 m y)
  with snaps_okD(2) [OF assms(1) 2] assms(2) show ?case by auto
next
  case (3 g G m)
  with snaps_okD(3) [OF assms(1) 3] show ?case by blast
qed

lemma remove_group_ok:
  assumes "snaps_ok (vol, sn, gr)" and "gr g = Some G"
  shows "snaps_ok (vol, sn |` (- set (g_members G)), gr(g := None))"
proof (rule snaps_okI, goal_cases)
  case (1 n y)
  with snaps_okD(1) [OF assms(1) 1] show ?case by (auto simp: restrict_map_def)
next
  case (2 n y)
  then have n: "sn n = Some y" "n \<notin> set (g_members G)" by (auto simp: restrict_map_def split: if_splits)
  with snaps_okD(2) [OF assms(1) n(1)] assms(2) show ?case by auto
next
  case (3 h H m)
  then have h: "gr h = Some H" "h \<noteq> g" by (auto split: if_splits)
  show ?case
  proof (intro conjI impI)
    show "g_name H = h" using snaps_okD(3) [OF assms(1) h(1)] by blast
    assume "m \<in> set (g_members H)"
    with snaps_okD(3) [OF assms(1) h(1), of m] obtain x where x: "sn m = Some x" "s_group_snapshot_id x = Some h" by blast
    have "m \<notin> set (g_members G)" using snaps_okD(3) [OF assms(1,2), of m] x h(2) by auto
    with x show "\<exists>x. (sn |` (- set (g_members G))) m = Some x \<and> s_group_snapshot_id x = Some h" by simp
  qed
qed

lemma add_group_ok:
  assumes ok: "snaps_ok (vol, sn, gr)" and "gr g = None" and d: "distinct (map s_name xs)"
    and free: "\<And>x. x \<in> set xs \<Longrightarrow> vol (s_name x) = None \<and> sn (s_name x) = None \<and>
      vol (s_parent x) = Some (s_parent x, None) \<and> s_group_snapshot_id x = Some g"
    and G: "g_name G = g" "g_members G = map s_name xs"
  shows "snaps_ok (vol, sn ++ map_of (map (\<lambda>x. (s_name x, x)) xs), gr(g \<mapsto> G))"
proof -
  let ?new = "map_of (map (\<lambda>x. (s_name x, x)) xs)"
  have new: "?new n = Some x \<longleftrightarrow> x \<in> set xs \<and> s_name x = n" for n x
    using d by (subst map_of_eq_Some_iff) (auto simp: comp_def)
  have none: "?new n = None \<longleftrightarrow> n \<notin> s_name ` set xs" for n
    by (auto simp: map_of_eq_None_iff image_iff)
  have get: "(sn ++ ?new) n = Some x \<longleftrightarrow> x \<in> set xs \<and> s_name x = n \<or> n \<notin> s_name ` set xs \<and> sn n = Some x" for n x
    by (auto simp: map_add_Some_iff new none)
  have old: "sn m = Some x \<Longrightarrow> m \<notin> s_name ` set xs" for m x using free by fastforce
  show ?thesis
  proof (rule snaps_okI, goal_cases)
    case (1 n y)
    have "n \<notin> s_name ` set xs" using 1 free by fastforce
    with snaps_okD(1) [OF ok 1] none show ?case by (simp add: map_add_None)
  next
    case (2 n y)
    then consider "y \<in> set xs" "s_name y = n" | "sn n = Some y" unfolding get by blast
    then show ?case
    proof cases
      case 1
      with free [OF 1(1)] G show ?thesis by auto
    next
      case 2
      from snaps_okD(2) [OF ok 2] assms(2) show ?thesis by auto
    qed
  next
    case (3 h H m)
    show ?case
    proof (cases "h = g")
      case True
      with 3 have "H = G" by simp
      have "\<exists>x. (sn ++ ?new) m = Some x \<and> s_group_snapshot_id x = Some g" if "x \<in> set xs" "s_name x = m" for x
      proof -
        have "(sn ++ ?new) m = Some x" unfolding get using that by blast
        moreover have "s_group_snapshot_id x = Some g" using free [OF that(1)] by (elim conjE)
        ultimately show ?thesis by (intro exI conjI)
      qed
      with \<open>H = G\<close> True G show ?thesis by auto
    next
      case False
      with 3 have h: "gr h = Some H" by simp
      have "(sn ++ ?new) m = Some x" if "sn m = Some x" for x unfolding get using that old [OF that] by blast
      with snaps_okD(3) [OF ok h, of m] show ?thesis by blast
    qed
  qed
qed

subsection \<open>Every handler keeps the records agreeing\<close>

lemma map_sum_Inr_iff [simp]: "map_sum f g x = Inr y \<longleftrightarrow> (\<exists>z. x = Inr z \<and> g z = y)"
  by (cases x) auto

lemma name_freeD:
  "name_free fed n = Inr u \<Longrightarrow> bt_get (f_volumes fed) n = None \<and> bt_get (f_snapshots fed) n = None"
  by (auto simp: name_free_def split: if_splits)

lemma home_parent:
  assumes "data_at_of env fed vol = Inr home" and "bt_get (f_volumes fed) k = Some vol" and "snaps_ok (snap_view fed)"
  shows "\<exists>p. bt_get (f_volumes fed) (dt_parent home) = Some p \<and> v_name p = dt_parent home \<and> v_clone_of p = None"
proof -
  from assms(1) obtain parent where p: "parent_of fed vol = Some parent" "v_clone_of parent = None" "dt_parent home = v_name parent"
    by (auto simp: data_at_of_def split: option.splits if_splits sum.splits)
  then obtain j where j: "bt_get (f_volumes fed) j = Some parent"
    using assms(2) by (auto simp: parent_of_def split: option.splits)
  with assms(3) have "v_name parent = j"
    using snaps_okD(1) [of "\<lambda>n. map_option (\<lambda>v. (v_name v, v_clone_of v)) (bt_get (f_volumes fed) n)" _ _ j "(v_name parent, v_clone_of parent)"]
    by (simp add: snap_view_def)
  with j p show ?thesis by simp
qed

lemma put_snapshot_view:
  "snap_view (put_snapshot x fed) = (case snap_view fed of (vol, sn, gr) \<Rightarrow> (vol, sn(s_name x \<mapsto> x), gr))"
  by (auto simp: snap_view_def put_snapshot_def)

lemma drop_snapshots_view:
  "snap_view (drop_snapshots names fed) = (case snap_view fed of (vol, sn, gr) \<Rightarrow> (vol, sn |` (- set names), gr))"
proof -
  have "bt_get (foldl (\<lambda>m n. bt_remove n m) ms names) = bt_get ms |` (- set names)" for ms :: "(string, snapshot) btree"
    by (induction names arbitrary: ms) (auto simp: fun_eq_iff restrict_map_def)
  then show ?thesis by (simp add: snap_view_def drop_snapshots_def)
qed

lemma put_group_view:
  "snap_view (put_group G xs fed) = (case snap_view fed of (vol, sn, gr) \<Rightarrow>
     (vol, sn ++ map_of (rev (map (\<lambda>x. (s_name x, x)) xs)), gr(g_name G \<mapsto> G)))"
proof -
  have f: "f_volumes (foldl (\<lambda>fed m. put_snapshot m fed) fed xs) = f_volumes fed \<and>
      f_group_snapshots (foldl (\<lambda>fed m. put_snapshot m fed) fed xs) = f_group_snapshots fed \<and>
      bt_get (f_snapshots (foldl (\<lambda>fed m. put_snapshot m fed) fed xs)) = bt_get (f_snapshots fed) ++ map_of (rev (map (\<lambda>x. (s_name x, x)) xs))"
    for fed
    by (induction xs arbitrary: fed) (auto simp: put_snapshot_def fun_eq_iff map_add_def split: option.split)
  then show ?thesis by (auto simp: snap_view_def put_group_def Let_def)
qed

lemma put_volume_view:
  "snap_view (put_volume n v fed) = (case snap_view fed of (vol, sn, gr) \<Rightarrow> (vol(n \<mapsto> (v_name v, v_clone_of v)), sn, gr))"
  by (auto simp: snap_view_def put_volume_def)

text \<open>A handler whose last step changes the records, after steps that keep them.\<close>

abbreviation ok_after :: "snap_map \<Rightarrow> ('w, 'e, 'a) op \<Rightarrow> bool" where
  "ok_after V m \<equiv> ensures (at_view V) m (\<lambda>_ s. snaps_ok (sview s))"

lemma ok_after_do: "(\<And>s. sview s = V \<Longrightarrow> snaps_ok (sview (f s))) \<Longrightarrow> ok_after V (do_op f)"
  by (auto simp: ensures_def do_op_def)

lemma ok_after_keeps: "snaps_ok V \<Longrightarrow> keeps (at_view V) m \<Longrightarrow> ok_after V m"
  by (erule ensures_keeps) simp

lemma ok_after_bind: "snaps_ok V \<Longrightarrow> keeps (at_view V) m \<Longrightarrow> (\<And>a. ok_after V (k a)) \<Longrightarrow> ok_after V (bind_op m k)"
  by (erule ensures_bind) simp

lemma ok_after_then: "ok_after V m \<Longrightarrow> (\<And>V a. keeps (at_view V) (k a)) \<Longrightarrow> ok_after V (bind_op m k)"
proof (rule ensures_then)
  assume k: "\<And>V a. keeps (at_view V) (k a)"
  show "keeps (\<lambda>s. snaps_ok (sview s)) (k a)" for a
    using k [of _ a] unfolding keeps_def by metis
qed

lemma ok_after_read: "(\<And>s. sview s = V \<Longrightarrow> ok_after V (k s)) \<Longrightarrow> ok_after V (read_op k)"
  by (auto simp: ensures_def read_op_def)

lemma ok_after_lift: "snaps_ok V \<Longrightarrow> (\<And>a. r = Inr a \<Longrightarrow> ok_after V (k a)) \<Longrightarrow> ok_after V (bind_op (lift_op r) k)"
  by (cases r) (auto simp: ensures_def bind_op_def lift_op_def)

lemma ok_after_check: "snaps_ok V \<Longrightarrow> (b \<Longrightarrow> ok_after V (k ())) \<Longrightarrow> ok_after V (bind_op (check_op b e) k)"
  by (cases b) (auto simp: ensures_def bind_op_def check_op_def)

lemma take_snapshot_ok:
  assumes q: "quiet env sview" and ok: "snaps_ok V"
  shows "ok_after V (take_snapshot env name vol_id)"
  unfolding take_snapshot_def
proof (intro ok_after_read ok_after_lift ok, goal_cases)
  case (1 s p)
  show ?case
  proof (cases p)
    case (Inl x)
    then show ?thesis by (auto intro: ok_after_keeps ok keeps_rules)
  next
    case (Inr home)
    with 1(2) obtain u vol where f: "bt_get (f_snapshots (sy_fed s)) name = None" "name_free (sy_fed s) name = Inr u"
        "bt_get (f_volumes (sy_fed s)) vol_id = Some vol" "data_at_of env (sy_fed s) vol = Inr home"
      by (auto simp: snapshot_source_def split: option.splits sum.splits if_splits)
    from home_parent [OF f(4,3)] ok 1(1) obtain p where p: "bt_get (f_volumes (sy_fed s)) (dt_parent home) = Some p"
        "v_name p = dt_parent home" "v_clone_of p = None" by blast
    obtain vol sn gr where V: "V = (vol, sn, gr)" by (metis prod_cases3)
    have free: "vol name = None" "sn name = None" "vol (dt_parent home) = Some (dt_parent home, None)"
      using 1(1) f(1) name_freeD [OF f(2)] p unfolding V by (auto simp: snap_view_def)
    have "snaps_ok (vol, sn(name \<mapsto> x), gr)" if "s_name x = name" "s_parent x = dt_parent home" "s_group_snapshot_id x = None" for x
      using add_snapshot_ok [of vol sn gr x] ok free that unfolding V by simp
    then have "ok_after V (take_from env name vol_id home)"
      unfolding take_from_def Let_def
      by (intro ok_after_bind ok_after_read ok_after_then ok_after_do view_rules q ok)
        (auto simp: put_snapshot_view V new_snapshot_def)
    with Inr show ?thesis by simp
  qed
qed

lemma delete_snapshot_ok:
  assumes q: "quiet env sview" and ok: "snaps_ok V"
  shows "ok_after V (delete_snapshot env i)"
  unfolding delete_snapshot_def
proof (rule ok_after_read)
  fix s :: "'a sys"
  assume s: "sview s = V"
  obtain vol sn gr where V: "V = (vol, sn, gr)" by (metis prod_cases3)
  show "ok_after V (case bt_get (f_snapshots (sy_fed s)) i of
         None \<Rightarrow> ok_op ()
       | Some sn \<Rightarrow>
           bind_op (check_op (s_group_snapshot_id sn = None) ApiConflict) (\<lambda>_.
           bind_op (lift_op (snapshot_home env (sy_fed s) sn)) (\<lambda>home.
           bind_op (data_healthy (dt_node home)) (\<lambda>_.
           bind_op (delete_data env home ''/v1/snapshots/'' (s_engine_id sn) (s_node sn) [s_engine_name sn]) (\<lambda>_.
             do_op (\<lambda>s. commit_snapshot env (s_source_volume_id sn) (change_fed (drop_snapshots [i]) s)))))))"
  proof (cases "bt_get (f_snapshots (sy_fed s)) i")
    case None
    then show ?thesis by (simp add: ok_after_keeps ok keeps_rules)
  next
    case (Some x)
    then have "sn i = Some x" using s unfolding V by (auto simp: snap_view_def)
    moreover have "sn |` (- {i}) = sn(i := None)" by (auto simp: restrict_map_def)
    ultimately have "s_group_snapshot_id x = None \<Longrightarrow> snaps_ok (vol, sn |` (- {i}), gr)"
      using remove_snapshot_ok [of vol sn gr i] ok unfolding V by simp
    with Some show ?thesis
      by (simp only: option.case) (intro ok_after_check ok_after_bind ok_after_do view_rules q ok; simp add: drop_snapshots_view V)
  qed
qed

lemma group_placesD:
  assumes "group_places env fed g vs = Inr homes" and "snaps_ok (snap_view fed)"
  shows "length homes = length vs \<and> (\<forall>v \<in> set vs. bt_get (f_volumes fed) (member_name g v) = None \<and> bt_get (f_snapshots fed) (member_name g v) = None) \<and>
    (\<forall>h \<in> set homes. \<exists>p. bt_get (f_volumes fed) (dt_parent h) = Some p \<and> v_name p = dt_parent h \<and> v_clone_of p = None)"
  using assms(1)
proof (induction vs arbitrary: homes)
  case (Cons v vs)
  from Cons.prems obtain u vol h hs where f: "name_free fed (member_name g v) = Inr u" "bt_get (f_volumes fed) v = Some vol"
      "data_at_of env fed vol = Inr h" "group_places env fed g vs = Inr hs" "homes = h # hs"
    by (auto split: sum.splits option.splits)
  from Cons.IH [OF f(4)] home_parent [OF f(3,2) assms(2)] name_freeD [OF f(1)] f(5) show ?case by simp
qed simp

lemma take_group_ok:
  assumes q: "quiet env sview" and ok: "snaps_ok (vol, sn, gr)" and d: "distinct vs" and new: "gr g = None"
    and len: "length homes = length vs"
    and free: "\<forall>v \<in> set vs. vol (member_name g v) = None \<and> sn (member_name g v) = None"
    and par: "\<forall>h \<in> set homes. vol (dt_parent h) = Some (dt_parent h, None)"
  shows "ok_after (vol, sn, gr) (take_group env g (zip vs homes) node eng)"
proof -
  have fin: "snaps_ok (vol, sn ++ map_of (rev (map (\<lambda>x. (s_name x, x)) (group_members g created node (zip vs homes) sz ens))),
      gr(g \<mapsto> new_group g (group_members g created node (zip vs homes) sz ens) created node r))" for created sz ens r
  proof -
    let ?xs = "group_members g created node (zip vs homes) sz ens"
    have names: "map s_name ?xs = map (member_name g) vs"
      using len by (intro nth_equalityI) (simp_all add: group_members_def group_member_def split_beta nth_enumerate_eq)
    have inj: "inj (member_name g)" by (auto simp: inj_def member_name_def)
    have dn: "distinct (map s_name ?xs)" using d inj by (simp add: names distinct_map inj_on_def)
    then have r: "map_of (rev (map (\<lambda>x. (s_name x, x)) ?xs)) = map_of (map (\<lambda>x. (s_name x, x)) ?xs)"
      by (intro map_of_inject_set [THEN iffD2]) (simp_all add: comp_def flip: rev_map)
    have mem: "vol (s_name x) = None \<and> sn (s_name x) = None \<and> vol (s_parent x) = Some (s_parent x, None) \<and> s_group_snapshot_id x = Some g"
      if "x \<in> set ?xs" for x
    proof -
      from that obtain i v h en where "(i, v, h) \<in> set (enumerate 0 (zip vs homes))" "x = group_member g created node (v, h) (sz v) en"
        by (auto simp: group_members_def)
      then have "v \<in> set vs" "h \<in> set homes" by (auto simp: in_set_enumerate_eq set_zip)
      with free par \<open>x = _\<close> show ?thesis by (simp add: group_member_def)
    qed
    show ?thesis unfolding r
      by (rule add_group_ok [OF ok new dn]) (use mem in \<open>auto simp: new_group_def\<close>)
  qed
  show ?thesis
    unfolding take_group_def Let_def
    by (intro ok_after_bind ok_after_read ok_after_then ok_after_do view_rules q ok)
      (use fin in \<open>auto simp: put_group_view new_group_def\<close>)
qed

lemma create_group_ok:
  assumes q: "quiet env sview" and ok: "snaps_ok V"
  shows "ok_after V (create_group env g vs)"
  unfolding create_group_def
proof (intro ok_after_check ok_after_read ok_after_lift ok, goal_cases)
  case (1 s p)
  obtain vol sn gr where V: "V = (vol, sn, gr)" by (metis prod_cases3)
  show ?case
  proof (cases p)
    case (Inl x)
    then show ?thesis by (simp add: ok_after_keeps ok keeps_rules)
  next
    case (Inr homes)
    with 1(3) have new: "bt_get (f_group_snapshots (sy_fed s)) g = None" and p: "group_places env (sy_fed s) g vs = Inr homes"
      by (auto simp: group_source_def split: option.splits if_splits)
    have ok': "snaps_ok (snap_view (sy_fed s))" using ok 1(2) by simp
    note gp = group_placesD [OF p ok']
    have "vol (dt_parent h) = Some (dt_parent h, None)" if "h \<in> set homes" for h
      using gp that 1(2) unfolding V by (auto simp: snap_view_def)
    moreover have "\<forall>v \<in> set vs. vol (member_name g v) = None \<and> sn (member_name g v) = None" "gr g = None"
      using gp new 1(2) unfolding V by (auto simp: snap_view_def)
    ultimately have "ok_after V (take_group env g (zip vs homes) (dt_node (hd homes)) (dt_engine (hd homes)))"
      using take_group_ok [OF q ok [unfolded V]] 1(1) gp unfolding V by blast
    with Inr show ?thesis
      by (simp add: Let_def) (intro ok_after_check ok_after_bind ok view_rules q)
  qed
qed

lemma delete_group_ok:
  assumes q: "quiet env sview" and ok: "snaps_ok V"
  shows "ok_after V (delete_group env i)"
  unfolding delete_group_def
proof (rule ok_after_read)
  fix s :: "'a sys"
  assume s: "sview s = V"
  obtain vol sn gr where V: "V = (vol, sn, gr)" by (metis prod_cases3)
  show "ok_after V (case bt_get (f_group_snapshots (sy_fed s)) i of
         None \<Rightarrow> ok_op ()
       | Some grp \<Rightarrow>
           (let members = List.map_filter (bt_get (f_snapshots (sy_fed s))) (g_members grp) in
            bind_op (case members of
                [] \<Rightarrow> ok_op ()
              | m # _ \<Rightarrow>
                  bind_op (lift_op (snapshot_home env (sy_fed s) m)) (\<lambda>home.
                  bind_op (data_healthy (dt_node home)) (\<lambda>_.
                    delete_data env home ''/v1/group-snapshots/'' (g_engine_id grp) (g_node grp) (map s_engine_name members))))
              (\<lambda>_. do_op (\<lambda>s. commit_snapshot env i (change_fed (drop_group grp i) s)))))"
  proof (cases "bt_get (f_group_snapshots (sy_fed s)) i")
    case None
    then show ?thesis by (simp add: ok_after_keeps ok keeps_rules)
  next
    case (Some grp)
    then have "gr i = Some grp" using s unfolding V by (auto simp: snap_view_def)
    then have "snaps_ok (vol, sn |` (- set (g_members grp)), gr(i := None))"
      using remove_group_ok ok unfolding V by blast
    moreover have "snap_view (drop_group grp i fed) = (case snap_view fed of (vol, sn, gr) \<Rightarrow> (vol, sn |` (- set (g_members grp)), gr(i := None)))" for fed
      using drop_snapshots_view [of "g_members grp" fed]
      by (auto simp: drop_group_def Let_def snap_view_def fun_eq_iff drop_snapshots_def)
    moreover have "keeps (at_view V) (case ms of [] \<Rightarrow> ok_op ()
        | m # ms' \<Rightarrow> bind_op (lift_op (snapshot_home env (sy_fed s) m)) (\<lambda>home.
            bind_op (data_healthy (dt_node home)) (\<lambda>_. delete_data env home p e n names)))" for ms p e n names
      by (cases ms) (simp_all add: view_rules q)
    ultimately show ?thesis using Some
      by (simp only: option.case Let_def) (intro ok_after_bind ok_after_do ok; simp add: V)
  qed
qed

lemma clone_volume_ok:
  assumes q: "quiet env sview" and ok: "snaps_ok V"
  shows "ok_after V (clone_volume env name sz source hosts)"
  unfolding clone_volume_def
proof (intro ok_after_read ok_after_lift ok, goal_cases)
  case (1 s x)
  obtain home parent en where x: "x = (home, parent, en)" by (metis prod_cases3)
  with 1(2) obtain u v least e2 where f: "name_free (sy_fed s) name = Inr u" "clone_source (sy_fed s) source = Inr (v, e2, least)"
      "data_at_of env (sy_fed s) v = Inr home" "bt_get (f_volumes (sy_fed s)) (dt_parent home) = Some parent"
    by (auto simp: check_clone_def split: sum.splits if_splits option.splits)
  obtain k where k: "bt_get (f_volumes (sy_fed s)) k = Some v"
    using f(2) by (auto simp: clone_source_def split: volume_source.splits option.splits)
  have p: "v_name parent = dt_parent home \<and> v_clone_of parent = None"
    using home_parent [OF f(3) k] ok 1(1) f(4) by auto
  obtain vol sn gr where V: "V = (vol, sn, gr)" by (metis prod_cases3)
  have free: "vol name = None" "sn name = None" "vol (dt_parent home) = Some (dt_parent home, None)"
    using 1(1) name_freeD [OF f(1)] f(4) p unfolding V by (auto simp: snap_view_def)
  have "snaps_ok (vol(name \<mapsto> (name, Some \<lparr>co_source = source, co_parent = v_name parent\<rparr>)), sn, gr)"
    using add_volume_ok [of vol sn gr name "Some \<lparr>co_source = source, co_parent = v_name parent\<rparr>"] ok free p unfolding V by simp
  then have put: "snaps_ok (sview (commit_snapshot env name (change_fed
      (put_volume name (cloned_volume t name sz source hosts home parent vid master r)) s1)))" if "sview s1 = V" for s1 t vid master r
    using that by (simp add: put_volume_view V cloned_volume_def)
  have "ok_after V (bind_op (data_healthy (dt_node home)) (\<lambda>_.
       bind_op (need_op ApiConflict (dt_master_node home)) (\<lambda>master.
       bind_op (api_call env (\<lambda>wr. create_clone wr (dt_engine home) name sz master en)) (\<lambda>r.
       bind_op (need_op ApiUpstream (get_str ''id'' r)) (\<lambda>vid.
       read_op (\<lambda>s1.
         bind_op (do_op (\<lambda>s. commit_snapshot env name (change_fed
           (put_volume name (cloned_volume (now env s1) name sz source hosts home parent vid master r)) s))) (\<lambda>_.
         do_op (\<lambda>s. snd (publish env name s)))))))))"
    by (intro ok_after_bind ok_after_read ok_after_then ok_after_do view_rules q ok put)
  then show ?case by (simp add: x)
qed

subsection \<open>One step of the API\<close>

text \<open>One step of the snapshots API, whatever its parameters and outcome.\<close>

inductive snap_step :: "'w env \<Rightarrow> 'w sys \<Rightarrow> 'w sys \<Rightarrow> bool" for env where
  taken: "snap_step env s (snd (take_snapshot env name vol s))"
| deleted: "snap_step env s (snd (delete_snapshot env i s))"
| grouped: "snap_step env s (snd (create_group env g vs s))"
| ungrouped: "snap_step env s (snd (delete_group env g s))"
| cloned: "snap_step env s (snd (clone_volume env name sz source hosts s))"

inductive_cases snap_stepE: "snap_step env s s'"

lemma ok_afterD: "ok_after V m \<Longrightarrow> sview s = V \<Longrightarrow> snaps_ok (sview (snd (m s)))"
  by (cases "m s") (simp add: ensures_def)

lemma snap_step_ok:
  assumes "quiet env sview" and ok: "snaps_ok (sview s1)" and "snap_step env s1 s2"
  shows "snaps_ok (sview s2)"
proof -
  note kept = take_snapshot_ok [OF assms(1) ok, THEN ok_afterD, OF refl] delete_snapshot_ok [OF assms(1) ok, THEN ok_afterD, OF refl]
    create_group_ok [OF assms(1) ok, THEN ok_afterD, OF refl] delete_group_ok [OF assms(1) ok, THEN ok_afterD, OF refl]
    clone_volume_ok [OF assms(1) ok, THEN ok_afterD, OF refl]
  from assms(3) show ?thesis by (rule snap_stepE) (simp_all only: kept)
qed

subsection \<open>A volume deleted while its snapshot is taken\<close>

text \<open>Nothing ties a snapshot being taken to its volume: when the volume is deleted while the engine answers, the
  snapshot is recorded all the same; its parent is gone, and a delete of it is refused.\<close>

theorem snapshot_outlives_volume:
  assumes "snapshot_source env name vol_id (sy_fed s) = Inr (Inr home)" and "healthy_node (sy_fed s) (dt_node home)"
    and "call env (\<lambda>wr. create_snapshot wr (dt_engine home) name (dt_engine_name home)) s = (Inr r, s1)"
    and "volume (dt_parent home) s1 = None"
  shows "\<exists>sn s2. take_snapshot env name vol_id s = (Inr sn, s2) \<and> bt_get (f_snapshots (sy_fed s2)) name = Some sn \<and>
    s_parent sn = dt_parent home \<and> delete_snapshot env name s2 = (Inl ApiConflict, s2)"
proof -
  let ?sn = "new_snapshot (now_ms env s1) name vol_id (unwrap_or (map_option v_size_bytes (volume vol_id s)) 0) home r"
  let ?s2 = "commit_snapshot env vol_id (change_fed (put_snapshot ?sn) s1)"
  have t: "take_snapshot env name vol_id s = (Inr ?sn, ?s2)"
    using assms(1-3) by (simp add: take_snapshot_def take_from_def read_op_def bind_op_def lift_op_def data_healthy_def
        check_op_def call_op_def do_op_def ok_op_def Let_def)
  have sn: "bt_get (f_snapshots (sy_fed ?s2)) name = Some ?sn" "volume (dt_parent home) ?s2 = None"
    using assms(4) by (simp_all add: commit_snapshot_def change_fed_def put_snapshot_def bump_def new_snapshot_def)
  then have "delete_snapshot env name ?s2 = (Inl ApiConflict, ?s2)"
    by (simp add: delete_snapshot_def read_op_def bind_op_def lift_op_def check_op_def snapshot_home_def new_snapshot_def)
  with t sn show ?thesis by (auto simp: new_snapshot_def)
qed

subsection \<open>Witnesses\<close>

text \<open>A single-leg volume on \<open>a\<close>, deleted by another task during the first call.\<close>

definition single_vol :: dist_volume where
  "single_vol = wit_vol\<lparr>v_legs := [wit_leg ''a'' ''u1''], v_assembly := SingleLeg, v_head := None, v_array_id := None\<rparr>"

definition deleting_env :: "unit env" where
  "deleting_env = (small_env empty_answer)\<lparr>en_others := with_fed (\<lambda>fed. fed\<lparr>f_volumes := bt_remove ''vol'' (f_volumes fed)\<rparr>)\<rparr>"

lemma snapshot_outlives_volume_witness:
  "\<exists>sn s2. take_snapshot deleting_env ''snap'' ''vol'' (small_sys single_vol) = (Inr sn, s2) \<and>
     bt_get (f_snapshots (sy_fed s2)) ''snap'' = Some sn \<and> delete_snapshot deleting_env ''snap'' s2 = (Inl ApiConflict, s2)"
proof -
  have n: "map_sum id (map_sum id (\<lambda>h. (dt_node h, dt_parent h))) (snapshot_source deleting_env ''snap'' ''vol'' (sy_fed (small_sys single_vol))) =
      Inr (Inr (''a'', ''vol''))" by code_simp
  then obtain home where h: "snapshot_source deleting_env ''snap'' ''vol'' (sy_fed (small_sys single_vol)) = Inr (Inr home)"
      "dt_node home = ''a''" "dt_parent home = ''vol''"
    by auto
  let ?c = "call deleting_env (\<lambda>wr. create_snapshot wr (dt_engine home) ''snap'' (dt_engine_name home)) (small_sys single_vol)"
  have "healthy_node (sy_fed (small_sys single_vol)) ''a''" by code_simp
  moreover have "\<exists>r. ?c = (Inr r, snd ?c)"
    by (simp add: call_def deleting_env_def small_env_def create_snapshot_def v1_post_def post_json_def read_post_def send_def attempt_def check_refused_def empty_answer_def body_json_def io_ok_def req_def with_body_def)
  moreover have "volume ''vol'' (snd ?c) = None"
    by (simp add: call_def deleting_env_def with_fed_def split: prod.split)
  ultimately show ?thesis using snapshot_outlives_volume [OF h(1)] h(2,3) by metis
qed

end
