(* ===== verification/Backup.thy ===== *)
theory Backup
  imports Recover Snapshots
begin

section \<open>Backups\<close>

text \<open>
  Models \<open>src/backup.rs\<close> and \<open>src/api/backups.rs\<close>: a volume is snapshotted where it is served, the engine ships the
  changes to a volume on a backup node, and each ship that is done becomes a point there. Every pass takes one
  step for each backup and records it. Errors are cases; how one prints is the parameter \<open>show\<close>. \<open>BkPanic\<close> is
  the \<open>expect\<close> of \<open>step\<close>: it unwinds the task that polls, so a pass says whether it got to its end.
\<close>

datatype backup_error =
    BkVolumeGone | BkNoData | BkPanic | BkUnreachable string | BkNoNode plan_error | BkNoId
  | BkStep string engine_error | BkMoved string string | BkShip string "string option"

type_synonym ('w, 'a) bk_op = "('w, backup_error, 'a) op"

abbreviation backup_of :: "string \<Rightarrow> 'w sys \<Rightarrow> backup option" where
  "backup_of name s \<equiv> bt_get (f_backups (sy_fed s)) name"

abbreviation backup_event :: "'w env \<Rightarrow> severity \<Rightarrow> string \<Rightarrow> 'w sys \<Rightarrow> 'w sys" where
  "backup_event env sev name s \<equiv> note_event env ''backup'' sev name s"

definition backup_key :: "string \<Rightarrow> string" where
  "backup_key name = ''backup:'' @ name"

definition backup_candidates :: "'w env \<Rightarrow> fed_state \<Rightarrow> backup \<Rightarrow> candidate list" where
  "backup_candidates env fed b =
     (case b_policy b of
        None \<Rightarrow> []
      | Some p \<Rightarrow>
          (let legs = (case bt_get (f_volumes fed) (b_volume b) of None \<Rightarrow> [] | Some v \<Rightarrow> map l_node (v_legs v));
               pool = Option.bind (bp_pool p) (find_pool (en_pools env))
           in map candidate_of (filter (\<lambda>n. ns_healthy (n_status n) \<and> nc_name (n_config n) \<notin> set legs \<and>
                (case pool of None \<Rightarrow> True | Some pc \<Rightarrow> matches (pc_selector pc) (n_config n)) \<and>
                (case bp_tier p of None \<Rightarrow> True | Some t \<Rightarrow> nc_tier (n_config n) = Some t) \<and>
                (case bp_node p of None \<Rightarrow> True | Some x \<Rightarrow> nc_name (n_config n) = x)) (bt_values (f_nodes fed)))))"

text \<open>The points beyond \<open>keep\<close>, oldest first.\<close>

definition prune :: "backup_point list \<Rightarrow> u32 \<Rightarrow> backup_point list" where
  "prune points keep =
     (let sorted = sort_key pt_taken_at_ms points in take (length sorted - unat (max keep 1)) sorted)"

definition backup_update :: "'w env \<Rightarrow> string \<Rightarrow> (backup \<Rightarrow> backup) \<Rightarrow> 'w sys \<Rightarrow> 'w sys" where
  "backup_update env name f s =
     (case backup_of name s of
        None \<Rightarrow> s
      | Some _ \<Rightarrow> publish_state env (with_fed (\<lambda>fed. bump (fed\<lparr>f_backups := bt_modify name f (f_backups fed)\<rparr>)) s))"

abbreviation backup_set :: "'w env \<Rightarrow> string \<Rightarrow> (backup \<Rightarrow> backup) \<Rightarrow> ('w, 'e, unit) op" where
  "backup_set env name f \<equiv> do_op (backup_update env name f)"

definition backup_engine :: "'w env \<Rightarrow> string \<Rightarrow> ('w, engine) bk_op" where
  "backup_engine env n = read_op (\<lambda>s. need_op (BkUnreachable n) (healthy_engine env (sy_fed s) n))"

text \<open>A snapshot's \<open>/v1\<close> record when its id is known, then its engine volume by name.\<close>

definition drop_by_name :: "'w env \<Rightarrow> engine \<Rightarrow> string \<Rightarrow> ('w, engine_error, unit) op" where
  "drop_by_name env eng name s =
     (case call env (\<lambda>wr. local_volume_id wr eng name) s of
        (Inr i, s) \<Rightarrow> call env (\<lambda>wr. delete_any_volume wr eng i) s
      | (Inl e, s) \<Rightarrow> (if is_not_found e then Inr () else Inl e, s))"

definition drop_data :: "'w env \<Rightarrow> engine \<Rightarrow> string \<Rightarrow> string option \<Rightarrow> ('w, engine_error, unit) op" where
  "drop_data env eng name i =
     bind_op (case i of Some x \<Rightarrow> call_op env id (\<lambda>wr. delete_v1 wr eng (''/v1/snapshots/'' @ x)) | None \<Rightarrow> ok_op ())
       (\<lambda>_. drop_by_name env eng name)"

definition drop_ship :: "'w env \<Rightarrow> engine \<Rightarrow> ship_snapshot \<Rightarrow> ('w, engine_error, unit) op" where
  "drop_ship env eng sn = drop_data env eng (ss_engine_name sn) (ss_engine_id sn)"

text \<open>A drop whose error is ignored.\<close>

abbreviation drop_quietly :: "'w env \<Rightarrow> engine \<Rightarrow> ship_snapshot \<Rightarrow> ('w, 'e, unit) op" where
  "drop_quietly env eng sn \<equiv> do_op (\<lambda>s. snd (drop_ship env eng sn s))"

subsection \<open>The steps of one backup\<close>

definition choose_backup_node :: "'w env \<Rightarrow> string \<Rightarrow> backup \<Rightarrow> ('w, unit) bk_op" where
  "choose_backup_node env name b =
     read_op (\<lambda>s. case plan (backup_candidates env (sy_fed s) b) (en_rungs env) ''node'' 1 (b_size_bytes b) (en_io_weight env) of
         Inl e \<Rightarrow> err_op (BkNoNode e)
       | Inr picks \<Rightarrow>
           (case picks of
              [] \<Rightarrow> err_op BkPanic
            | pick # _ \<Rightarrow> do_op (\<lambda>s. backup_event env Info name (backup_update env name (\<lambda>r. r\<lparr>b_node := Some pick\<rparr>) s))))"

definition make_backup_volume :: "'w env \<Rightarrow> string \<Rightarrow> backup \<Rightarrow> string \<Rightarrow> engine \<Rightarrow> ('w, unit) bk_op" where
  "make_backup_volume env name b node eng =
     bind_op (call_op env (BkStep node) (\<lambda>wr. create_volume wr eng (backup_target_name name) (b_size_bytes b) None)) (\<lambda>v.
     bind_op (need_op BkNoId (get_str ''id'' v)) (\<lambda>i.
       backup_set env name (\<lambda>r. r\<lparr>b_target_volume_id := Some i, b_target_master := master_node_of v\<rparr>)))"

definition serve_backup_volume ::
  "'w env \<Rightarrow> string \<Rightarrow> backup \<Rightarrow> string \<Rightarrow> engine \<Rightarrow> string \<Rightarrow> string \<Rightarrow> ('w, unit) bk_op" where
  "serve_backup_volume env name b node eng target serving_node =
     bind_op (call_op env (BkStep node) (\<lambda>wr. attach_leg wr eng target (unwrap_or (b_target_master b) node) None
         (Some (host_nqn_for (en_host_nqn env) serving_node)))) (\<lambda>a.
       backup_set env name (\<lambda>r. r\<lparr>b_target_attach := Some a, b_attached_for := Some serving_node\<rparr>))"

definition grow_backup_volume :: "'w env \<Rightarrow> string \<Rightarrow> string \<Rightarrow> engine \<Rightarrow> string \<Rightarrow> u64 \<Rightarrow> ('w, unit) bk_op" where
  "grow_backup_volume env name node eng target sz =
     bind_op (call_op env (BkStep node) (\<lambda>wr. expand_v1 wr eng target sz)) (\<lambda>_.
       do_op (\<lambda>s. backup_event env Info name (backup_update env name (\<lambda>r. r\<lparr>b_size_bytes := sz\<rparr>) s)))"

text \<open>The points to drop, those whose drop failed kept.\<close>

fun drop_points :: "'w env \<Rightarrow> engine \<Rightarrow> backup_point list \<Rightarrow> 'w sys \<Rightarrow> string list \<times> 'w sys" where
  "drop_points env eng [] s = ([], s)"
| "drop_points env eng (p # ps) s =
     (case drop_data env eng (pt_name p) (pt_engine_id p) s of
        (r, s) \<Rightarrow> (case drop_points env eng ps s of (kept, s) \<Rightarrow> ((case r of Inl _ \<Rightarrow> pt_name p # kept | Inr _ \<Rightarrow> kept), s)))"

definition points_after :: "backup_point list \<Rightarrow> backup_point list \<Rightarrow> string list \<Rightarrow> backup_point list" where
  "points_after points dropped kept_failed =
     filter (\<lambda>p. pt_name p \<notin> pt_name ` set dropped \<or> pt_name p \<in> set kept_failed) points"

definition interval_ms :: "u64 \<Rightarrow> int" where
  "interval_ms n = wrap64 (wrap64 (uint n) * 1000)"

definition point_name :: "string \<Rightarrow> ship_job \<Rightarrow> string" where
  "point_name name job =
     name @ ''-bk-'' @ (let t = ss_taken_at_ms (j_snapshot job) in (if t < 0 then ''-'' else []) @ dec (nat \<bar>t\<bar>))"

definition finished_backup :: "backup_point list \<Rightarrow> ship_job \<Rightarrow> int \<Rightarrow> backup \<Rightarrow> backup" where
  "finished_backup points job next_at r =
     r\<lparr>b_points := points, b_base := Some (j_snapshot job), b_job := None, b_state := Idle, b_message := None, b_next_at_ms := next_at\<rparr>"

definition finish_backup ::
  "'w env \<Rightarrow> string \<Rightarrow> backup \<Rightarrow> ship_job \<Rightarrow> engine \<Rightarrow> engine \<Rightarrow> u32 \<Rightarrow> time \<Rightarrow> ('w, unit) bk_op" where
  "finish_backup env name b job eng serving keep t =
     bind_op (call_op env (BkStep (unwrap_or (b_node b) ''?''))
         (\<lambda>wr. create_snapshot wr eng (point_name name job) (backup_target_name name))) (\<lambda>p.
     do_op (\<lambda>s.
       let points = b_points b @ [\<lparr>pt_name = point_name name job, pt_taken_at_ms = ss_taken_at_ms (j_snapshot job), pt_engine_id = get_str ''id'' p\<rparr>];
           dropped = prune points keep;
           (kept_failed, s) = drop_points env eng dropped s;
           s = (case b_base b of None \<Rightarrow> s | Some old \<Rightarrow> snd (drop_ship env serving old s));
           interval = interval_ms (case b_policy b of None \<Rightarrow> 3600 | Some q \<Rightarrow> bp_interval_secs q)
       in backup_event env Info name (backup_update env name (finished_backup (points_after points dropped kept_failed) job
            (max (to_ms t) (wrap64 (ss_taken_at_ms (j_snapshot job) + interval)))) s)))"

definition follow_job ::
  "'w env \<Rightarrow> string \<Rightarrow> backup \<Rightarrow> ship_job \<Rightarrow> engine \<Rightarrow> data_at \<Rightarrow> u32 \<Rightarrow> time \<Rightarrow> ('w, unit) bk_op" where
  "follow_job env name b job eng at_home keep t =
     (if ss_node (j_snapshot job) \<noteq> dt_node at_home then
        bind_op (backup_set env name (\<lambda>r. r\<lparr>b_job := None, b_state := Idle, b_next_at_ms := to_ms t\<rparr>)) (\<lambda>_.
          err_op (BkMoved (ss_node (j_snapshot job)) (dt_node at_home)))
      else
        bind_op (call_op env (BkStep (dt_node at_home)) (\<lambda>wr. ship_job_of wr (dt_engine at_home) (j_id job))) (\<lambda>reading.
          let st = unwrap_or (Option.bind reading (get_str ''state'')) ''lost'' in
          if st = ''copying'' then
            backup_set env name (\<lambda>r. r\<lparr>b_job := map_option (\<lambda>jj. jj
              \<lparr>j_bytes_total := unwrap_or (Option.bind reading (get_u64 ''bytes_total'')) 0,
               j_bytes_done := unwrap_or (Option.bind reading (get_u64 ''bytes_done'')) 0\<rparr>) (b_job r)\<rparr>)
          else if st = ''done'' then finish_backup env name b job eng (dt_engine at_home) keep t
          else
            bind_op (drop_quietly env (dt_engine at_home) (j_snapshot job)) (\<lambda>_.
            bind_op (backup_set env name (\<lambda>r. r\<lparr>b_job := None\<rparr>)) (\<lambda>_.
              err_op (BkShip st (Option.bind reading (get_str ''message'')))))))"

text \<open>A ship that began, and one the engine has no route for.\<close>

definition record_ship :: "'w env \<Rightarrow> string \<Rightarrow> ship_snapshot \<Rightarrow> json \<Rightarrow> ('w, unit) bk_op" where
  "record_ship env name sn j =
     bind_op (need_op BkNoId (get_str ''id'' j)) (\<lambda>i.
       do_op (\<lambda>s. backup_event env Info name (backup_update env name (\<lambda>r. r\<lparr>b_job := Some
         \<lparr>j_id = i, j_snapshot = sn, j_bytes_total = unwrap_or (get_u64 ''bytes_total'' j) 0,
          j_bytes_done = unwrap_or (get_u64 ''bytes_done'' j) 0\<rparr>, b_state := Shipping, b_message := None\<rparr>) s)))"

definition wait_for_route :: "'w env \<Rightarrow> string \<Rightarrow> int \<Rightarrow> u64 \<Rightarrow> string \<Rightarrow> 'w sys \<Rightarrow> 'w sys" where
  "wait_for_route env name taken interval msg s =
     (let first = is_some_and (backup_of name s) (\<lambda>r. b_state r \<noteq> WaitingEngine);
          s = backup_update env name (\<lambda>r. r\<lparr>b_state := WaitingEngine, b_message := Some msg,
                b_next_at_ms := wrap64 (taken + interval_ms interval)\<rparr>) s
      in if first then backup_event env Warning name s else s)"

definition ship_name :: "string \<Rightarrow> int \<Rightarrow> string" where
  "ship_name name taken = name @ ''-ship-'' @ (if taken < 0 then ''-'' else []) @ dec (nat \<bar>taken\<bar>)"

definition ship_backup ::
  "'w env \<Rightarrow> string \<Rightarrow> backup \<Rightarrow> data_at \<Rightarrow> attached_leg \<Rightarrow> backup_policy \<Rightarrow> time \<Rightarrow> ('w, unit) bk_op" where
  "ship_backup env name b at_home att policy t =
     (let taken = to_ms t; snap = ship_name name taken in
      bind_op (call_op env (BkStep (dt_node at_home)) (\<lambda>wr. create_snapshot wr (dt_engine at_home) snap (dt_engine_name at_home))) (\<lambda>v s.
        let sn = \<lparr>ss_node = dt_node at_home, ss_engine_name = snap, ss_engine_id = get_str ''id'' v, ss_taken_at_ms = taken\<rparr>;
            bytes = (case volume name s of None \<Rightarrow> 0 | Some x \<Rightarrow> rate (en_recovery env) (v_bandwidth_class x))
        in case call env (\<lambda>wr. ship_snapshot_to wr (dt_engine at_home) snap (drive_uri att) (map_option ss_engine_name (b_base b)) bytes) s of
             (Inr j, s) \<Rightarrow> record_ship env name sn j s
           | (Inl e, s) \<Rightarrow>
               (let s = snd (drop_ship env (dt_engine at_home) sn s) in
                if is_not_found e
                then (Inr (), wait_for_route env name taken (bp_interval_secs policy)
                        (dt_node at_home @ '' cannot ship snapshots yet (stormblock#400); retried every interval'') s)
                else (Inl (BkStep (dt_node at_home) e), s))))"

definition backup_stage ::
  "'w env \<Rightarrow> string \<Rightarrow> time \<Rightarrow> backup \<Rightarrow> data_at \<Rightarrow> u64 \<Rightarrow> backup_policy \<Rightarrow> ('w, unit) bk_op" where
  "backup_stage env name t b at_home sz policy =
     (case b_node b of
        None \<Rightarrow> choose_backup_node env name b
      | Some node \<Rightarrow>
          bind_op (backup_engine env node) (\<lambda>eng.
          case b_target_volume_id b of
            None \<Rightarrow> make_backup_volume env name b node eng
          | Some target \<Rightarrow>
              (case filter_opt (\<lambda>_. b_attached_for b = Some (dt_node at_home)) (b_target_attach b) of
                 None \<Rightarrow> serve_backup_volume env name b node eng target (dt_node at_home)
               | Some att \<Rightarrow>
                   (case b_job b of
                      Some job \<Rightarrow> follow_job env name b job eng at_home (bp_keep policy) t
                    | None \<Rightarrow>
                        if b_size_bytes b < sz then grow_backup_volume env name node eng target sz
                        else if to_ms t < b_next_at_ms b then ok_op ()
                        else ship_backup env name b at_home att policy t))))"

definition backup_step :: "'w env \<Rightarrow> string \<Rightarrow> time \<Rightarrow> ('w, unit) bk_op" where
  "backup_step env name t =
     read_op (\<lambda>s. case backup_of name s of
         None \<Rightarrow> ok_op ()
       | Some b \<Rightarrow>
           (case volume name s of
              None \<Rightarrow> err_op BkVolumeGone
            | Some vol \<Rightarrow>
                (case data_at_of env (sy_fed s) vol of
                   Inl _ \<Rightarrow> err_op BkNoData
                 | Inr at_home \<Rightarrow>
                     (case b_policy b of
                        None \<Rightarrow> err_op BkPanic
                      | Some policy \<Rightarrow> backup_stage env name t b at_home (v_size_bytes vol) policy))))"

subsection \<open>A pass over the backups\<close>

definition fail_backup :: "'w env \<Rightarrow> (backup_error \<Rightarrow> string) \<Rightarrow> time \<Rightarrow> string \<Rightarrow> backup_error \<Rightarrow> 'w sys \<Rightarrow> 'w sys" where
  "fail_backup env show t name e s =
     (let interval = (case Option.bind (backup_of name s) b_policy of None \<Rightarrow> 3600 | Some p \<Rightarrow> bp_interval_secs p);
          msg = show e;
          changed = is_some_and (backup_of name s) (\<lambda>b. b_state b \<noteq> BackupFailed \<or> b_message b \<noteq> Some msg);
          s = backup_update env name (\<lambda>b. b\<lparr>b_state := BackupFailed, b_message := Some msg,
                b_next_at_ms := wrap64 (to_ms t + interval_ms interval)\<rparr>) s
      in if changed then backup_event env Error name s else s)"

text \<open>A panic leaves the pass where it is, the claim held.\<close>

fun backup_names_pass :: "'w env \<Rightarrow> (backup_error \<Rightarrow> string) \<Rightarrow> time \<Rightarrow> string list \<Rightarrow> 'w sys \<Rightarrow> bool \<times> 'w sys" where
  "backup_names_pass env show t [] s = (True, s)"
| "backup_names_pass env show t (n # ns) s =
     (case claim (backup_key n) s of
        (False, s) \<Rightarrow> backup_names_pass env show t ns s
      | (True, s) \<Rightarrow>
          (case backup_step env n t s of
             (Inl e, s) \<Rightarrow>
               if e = BkPanic then (False, s)
               else backup_names_pass env show t ns (fail_backup env show t n e (release (backup_key n) s))
           | (Inr _, s) \<Rightarrow> backup_names_pass env show t ns (release (backup_key n) s)))"

definition backup_due :: "fed_state \<Rightarrow> string list" where
  "backup_due fed = map b_volume (filter (\<lambda>b. b_policy b \<noteq> None \<and> \<not> b_source_deleted b) (bt_values (f_backups fed)))"

definition backup_run :: "'w env \<Rightarrow> (backup_error \<Rightarrow> string) \<Rightarrow> time \<Rightarrow> 'w sys \<Rightarrow> bool \<times> 'w sys" where
  "backup_run env show t s =
     (if \<not> en_active env (sy_world s) then (True, s) else backup_names_pass env show t (backup_due (sy_fed s)) s)"

subsection \<open>The API\<close>

abbreviation commit_backup :: "'w env \<Rightarrow> string \<Rightarrow> 'w sys \<Rightarrow> 'w sys" where
  "commit_backup env subject s \<equiv> backup_event env Info subject (persist env (push_to_peers env s))"

definition set_backups :: "((string, backup) btree \<Rightarrow> (string, backup) btree) \<Rightarrow> 'w sys \<Rightarrow> 'w sys" where
  "set_backups f = change_fed (\<lambda>fed. fed\<lparr>f_backups := f (f_backups fed)\<rparr>)"

definition new_backup :: "string \<Rightarrow> u64 \<Rightarrow> backup" where
  "new_backup name sz =
     \<lparr>b_volume = name, b_size_bytes = sz, b_policy = None, b_node = None, b_target_volume_id = None, b_target_master = None,
      b_target_attach = None, b_attached_for = None, b_base = None, b_job = None, b_points = [], b_state = Idle,
      b_message = None, b_next_at_ms = 0, b_source_deleted = False\<rparr>"

definition same_destination :: "backup_policy \<Rightarrow> backup_policy \<Rightarrow> bool" where
  "same_destination p q \<longleftrightarrow> bp_pool p = bp_pool q \<and> bp_tier p = bp_tier q \<and> bp_node p = bp_node q"

definition check_policy :: "'w env \<Rightarrow> backup_policy \<Rightarrow> api_error + unit" where
  "check_policy env p =
     (if bp_interval_secs p < 60 then Inl ApiBadRequest
      else if bp_keep p = 0 then Inl ApiBadRequest
      else if is_some_and (bp_pool p) (\<lambda>n. find_pool (en_pools env) n = None) then Inl ApiNotFound
      else Inr ())"

definition policy_record :: "fed_state \<Rightarrow> string \<Rightarrow> backup_policy \<Rightarrow> int \<Rightarrow> api_error + backup" where
  "policy_record fed name p t =
     (if is_some_and (bp_node p) (\<lambda>n. bt_get (f_nodes fed) n = None) then Inl ApiNotFound
      else (case bt_get (f_volumes fed) name of
          None \<Rightarrow> Inl ApiNotFound
        | Some vol \<Rightarrow>
            if v_assembly vol = Clone then Inl ApiConflict
            else
              (let b = unwrap_or (bt_get (f_backups fed) name) (new_backup name (v_size_bytes vol)) in
               if b_node b \<noteq> None \<and> is_some_and (b_policy b) (\<lambda>old. \<not> same_destination old p) then Inl ApiConflict
               else Inr (b\<lparr>b_next_at_ms := (if b_policy b = None then t else b_next_at_ms b), b_policy := Some p\<rparr>))))"

definition put_policy :: "'w env \<Rightarrow> string \<Rightarrow> backup_policy \<Rightarrow> ('w, api_error, backup) op" where
  "put_policy env name p =
     bind_op (lift_op (check_policy env p)) (\<lambda>_.
     read_op (\<lambda>s. bind_op (lift_op (policy_record (sy_fed s) name p (now_ms env s))) (\<lambda>b.
       bind_op (do_op (\<lambda>s. commit_backup env name (set_backups (bt_insert name b) s))) (\<lambda>_. ok_op b))))"

text \<open>Deleting what a backup holds: every snapshot on the serving nodes that answer, then the points and the volume.\<close>

definition api_engine :: "'w env \<Rightarrow> fed_state \<Rightarrow> string \<Rightarrow> api_error + engine" where
  "api_engine env fed n = (case healthy_engine env fed n of None \<Rightarrow> Inl ApiConflict | Some e \<Rightarrow> Inr e)"

definition ship_snapshots :: "backup \<Rightarrow> ship_snapshot list" where
  "ship_snapshots b = (case b_base b of None \<Rightarrow> [] | Some x \<Rightarrow> [x]) @ (case b_job b of None \<Rightarrow> [] | Some j \<Rightarrow> [j_snapshot j])"

definition drop_serving :: "'w env \<Rightarrow> fed_state \<Rightarrow> backup \<Rightarrow> 'w sys \<Rightarrow> 'w sys" where
  "drop_serving env fed b s =
     foldl (\<lambda>s (eng, x). snd (drop_ship env eng x s)) s
       (List.map_filter (\<lambda>x. map_option (\<lambda>e. (e, x)) (healthy_engine env fed (ss_node x))) (ship_snapshots b))"

fun drop_all_points :: "'w env \<Rightarrow> engine \<Rightarrow> backup_point list \<Rightarrow> ('w, api_error, unit) op" where
  "drop_all_points env eng [] = ok_op ()"
| "drop_all_points env eng (p # ps) =
     bind_op (\<lambda>s. case drop_data env eng (pt_name p) (pt_engine_id p) s of (r, s) \<Rightarrow> (map_sum (\<lambda>_. ApiUpstream) id r, s))
       (\<lambda>_. drop_all_points env eng ps)"

definition drop_target :: "'w env \<Rightarrow> engine \<Rightarrow> backup \<Rightarrow> ('w, api_error, unit) op" where
  "drop_target env eng b =
     (case b_target_volume_id b of
        None \<Rightarrow> ok_op ()
      | Some t \<Rightarrow>
          bind_op (case b_target_master b of
              None \<Rightarrow> ok_op ()
            | Some m \<Rightarrow> do_op (\<lambda>s. snd (call env (\<lambda>wr. detach_volume wr eng t m) s))) (\<lambda>_.
            api_call env (\<lambda>wr. delete_volume wr eng t)))"

definition purge :: "'w env \<Rightarrow> backup \<Rightarrow> ('w, api_error, unit) op" where
  "purge env b =
     read_op (\<lambda>s. bind_op (lift_op (case b_node b of None \<Rightarrow> Inr None | Some n \<Rightarrow> map_sum id Some (api_engine env (sy_fed s) n))) (\<lambda>be.
       bind_op (do_op (drop_serving env (sy_fed s) b)) (\<lambda>_.
         case be of
           None \<Rightarrow> ok_op ()
         | Some eng \<Rightarrow> bind_op (drop_all_points env eng (b_points b)) (\<lambda>_. drop_target env eng b))))"

definition stopped_backup :: "backup \<Rightarrow> backup" where
  "stopped_backup b = b\<lparr>b_policy := None, b_state := Idle, b_message := None\<rparr>"

definition stop_backup :: "'w env \<Rightarrow> string \<Rightarrow> bool \<Rightarrow> ('w, api_error, unit) op" where
  "stop_backup env name with_purge =
     read_op (\<lambda>s. case backup_of name s of
         None \<Rightarrow> ok_op ()
       | Some b \<Rightarrow>
           bind_op (do_op (set_backups (bt_modify name stopped_backup))) (\<lambda>_.
             if \<not> with_purge then do_op (commit_backup env name)
             else bind_op (purge env (stopped_backup b)) (\<lambda>_.
               do_op (\<lambda>s. commit_backup env name (set_backups (bt_remove name) s)))))"

text \<open>A new single-leg volume on the backup node, cloned from a point.\<close>

definition check_restore :: "'w env \<Rightarrow> fed_state \<Rightarrow> string \<Rightarrow> string \<Rightarrow> string \<Rightarrow> api_error + (backup \<times> string \<times> engine)" where
  "check_restore env fed from_volume point name =
     (case bt_get (f_backups fed) from_volume of
        None \<Rightarrow> Inl ApiNotFound
      | Some b \<Rightarrow>
          if \<not> list_ex (\<lambda>p. pt_name p = point) (b_points b) then Inl ApiNotFound
          else if name = [] \<or> ends_with MIRROR_SUFFIX name then Inl ApiBadRequest
          else if bt_get (f_volumes fed) name \<noteq> None \<or> bt_get (f_snapshots fed) name \<noteq> None then Inl ApiConflict
          else if is_some_and (bt_get (f_backups fed) name) b_source_deleted then Inl ApiConflict
          else (case b_node b of
              None \<Rightarrow> Inl ApiConflict
            | Some n \<Rightarrow> map_sum id (\<lambda>e. (b, n, e)) (api_engine env fed n)))"

definition restored_volume :: "time \<Rightarrow> string list \<Rightarrow> string \<Rightarrow> backup \<Rightarrow> string \<Rightarrow> string \<Rightarrow> json \<Rightarrow> string \<Rightarrow> dist_volume" where
  "restored_volume t rungs name b node vid r master =
     \<lparr>v_name = name, v_size_bytes = b_size_bytes b, v_pool = None, v_replicas = 1,
      v_rung = (case rungs of [] \<Rightarrow> ''node'' | x # _ \<Rightarrow> x),
      v_legs = [\<lparr>l_node = node, l_volume_id = Some vid, l_state = Created, l_message = None,
        l_master_node = or_else (master_node_of r) (Some master), l_export = None, l_drive_uuid = None, l_member_uuid = None, l_epoch = None\<rparr>],
      v_assembly = SingleLeg, v_head = None, v_array_id = None, v_created_at = t, v_replacing = None, v_next_releg_after = None,
      v_next_assemble_after = None, v_export = default_export, v_epoch = first_epoch, v_fenced = False,
      v_bandwidth_class = Normal, v_extent_size_bytes = None, v_rate_pending = False, v_dual_attach = None,
      v_migration = None, v_clone_of = None, v_expanding = None\<rparr>"

definition restore_point :: "'w env \<Rightarrow> string \<Rightarrow> string \<Rightarrow> string \<Rightarrow> ('w, api_error, unit) op" where
  "restore_point env from_volume point name =
     read_op (\<lambda>s. bind_op (lift_op (check_restore env (sy_fed s) from_volume point name)) (\<lambda>(b, node, eng).
       let master = unwrap_or (b_target_master b) node in
       bind_op (api_call env (\<lambda>wr. create_clone wr eng name (b_size_bytes b) master point)) (\<lambda>r.
       bind_op (need_op ApiUpstream (get_str ''id'' r)) (\<lambda>vid.
       read_op (\<lambda>s1.
         bind_op (do_op (\<lambda>s. commit_backup env name (change_fed
           (put_volume name (restored_volume (now env s1) (en_rungs env) name b node vid r master)) s))) (\<lambda>_.
         do_op (\<lambda>s. snd (publish env name s))))))))"

definition delete_point :: "'w env \<Rightarrow> string \<Rightarrow> string \<Rightarrow> ('w, api_error, unit) op" where
  "delete_point env name point =
     read_op (\<lambda>s. case Option.bind (backup_of name s) (\<lambda>b. map_option (Pair b) (find (\<lambda>p. pt_name p = point) (b_points b))) of
         None \<Rightarrow> ok_op ()
       | Some (b, p) \<Rightarrow>
           bind_op (lift_op (api_engine env (sy_fed s) (unwrap_or (b_node b) []))) (\<lambda>eng.
           bind_op (drop_all_points env eng [p]) (\<lambda>_.
             do_op (\<lambda>s. commit_backup env name (set_backups (bt_modify name
               (\<lambda>b. b\<lparr>b_points := filter (\<lambda>x. pt_name x \<noteq> point) (b_points b)\<rparr>)) s)))))"

text \<open>Before a volume is deleted: its base and a job's snapshot go, or the delete stops.\<close>

fun drop_bases :: "'w env \<Rightarrow> fed_state \<Rightarrow> ship_snapshot list \<Rightarrow> ('w, api_error, unit) op" where
  "drop_bases env fed [] = ok_op ()"
| "drop_bases env fed (x # xs) =
     bind_op (lift_op (api_engine env fed (ss_node x))) (\<lambda>eng.
     bind_op (\<lambda>s. case drop_ship env eng x s of (r, s) \<Rightarrow> (map_sum (\<lambda>_. ApiUpstream) id r, s)) (\<lambda>_.
       drop_bases env fed xs))"

definition orphaned_backup :: "backup \<Rightarrow> backup" where
  "orphaned_backup b =
     b\<lparr>b_policy := None, b_base := None, b_job := None, b_state := Idle, b_source_deleted := True,
       b_message := Some ''the volume was deleted; its points are kept until purged''\<rparr>"

definition on_volume_delete :: "'w env \<Rightarrow> string \<Rightarrow> ('w, api_error, unit) op" where
  "on_volume_delete env name =
     read_op (\<lambda>s. case backup_of name s of
         None \<Rightarrow> ok_op ()
       | Some b \<Rightarrow>
           bind_op (drop_bases env (sy_fed s) (ship_snapshots b)) (\<lambda>_.
             do_op (\<lambda>s. backup_event env Info name (set_backups (bt_modify name orphaned_backup) s))))"

subsection \<open>Points\<close>

lemma take_sorted: "sorted xs \<Longrightarrow> x \<in> set (take n xs) \<Longrightarrow> y \<in> set (drop n xs) \<Longrightarrow> x \<le> y"
  by (metis append_take_drop_id sorted_append)

lemma length_filter_or: "length (filter (\<lambda>x. P x \<or> Q x) xs) \<le> length (filter P xs) + length (filter Q xs)"
  by (induction xs) auto

text \<open>Property C32. Pruning drops the oldest points and no more than asked: at least one and up to \<open>keep\<close> of the newest
  stay, so after a ship no more than that are kept, but for those whose drop failed.\<close>

theorem prune_keeps_newest:
  assumes "distinct (map pt_name points)"
  shows "length (prune points keep) = length points - unat (max keep 1) \<and>
    set (prune points keep) \<subseteq> set points \<and>
    (\<forall>x \<in> set (prune points keep). \<forall>y \<in> set points - set (prune points keep). pt_taken_at_ms x \<le> pt_taken_at_ms y) \<and>
    length (points_after points (prune points keep) failed) \<le> unat (max keep 1) + length failed"
proof -
  let ?s = "sort_key pt_taken_at_ms points"
  let ?n = "length ?s - unat (max keep 1)"
  have d: "distinct points" using assms by (simp add: distinct_map)
  have p: "prune points keep = take ?n ?s" by (simp add: prune_def Let_def)
  have old: "\<forall>x \<in> set (take ?n ?s). \<forall>y \<in> set points - set (take ?n ?s). pt_taken_at_ms x \<le> pt_taken_at_ms y"
  proof (intro ballI)
    fix x y
    assume x: "x \<in> set (take ?n ?s)" and "y \<in> set points - set (take ?n ?s)"
    then have "y \<in> set ?s" "y \<notin> set (take ?n ?s)" by auto
    then have "y \<in> set (drop ?n ?s)" by (metis UnE append_take_drop_id set_append)
    with x show "pt_taken_at_ms x \<le> pt_taken_at_ms y"
      by (intro take_sorted [of "map pt_taken_at_ms ?s" _ ?n]) (simp_all add: take_map drop_map)
  qed
  let ?kept = "filter (\<lambda>p. pt_name p \<notin> pt_name ` set (take ?n ?s)) points"
  let ?failed = "filter (\<lambda>p. pt_name p \<in> set failed) points"
  have "length (points_after points (prune points keep) failed) \<le> length ?kept + length ?failed"
    unfolding points_after_def p by (rule length_filter_or)
  moreover have "length ?failed \<le> length failed"
  proof -
    have "length ?failed = card (pt_name ` set ?failed)"
      using assms by (metis card_image distinct_card distinct_filter distinct_map distinct_map_filter inj_on_subset length_map list.set_map)
    also have "\<dots> \<le> card (set failed)" by (intro card_mono) auto
    also have "\<dots> \<le> length failed" by (rule card_length)
    finally show ?thesis .
  qed
  moreover have "length ?kept \<le> unat (max keep 1)"
  proof -
    have "?kept = filter (\<lambda>p. p \<notin> set (take ?n ?s)) points"
      using assms set_take_subset [of ?n ?s] by (intro filter_cong refl) (auto simp: distinct_map inj_on_def)
    then have "length ?kept = card (set points - set (take ?n ?s))"
      using d by (simp add: distinct_card [symmetric] set_diff_eq)
    also have "\<dots> = length points - ?n"
      using d set_take_subset [of ?n ?s] by (subst card_Diff_subset) (simp_all add: distinct_card)
    finally show ?thesis by simp
  qed
  ultimately show ?thesis using old set_take_subset [of ?n ?s] unfolding p by auto
qed

subsection \<open>What a step leaves of the points\<close>

definition points_of :: "string \<Rightarrow> 'w sys \<Rightarrow> (backup_point list \<times> ship_snapshot option) option" where
  "points_of name s = map_option (\<lambda>b. (b_points b, b_base b)) (backup_of name s)"

abbreviation has_points :: "string \<Rightarrow> (backup_point list \<times> ship_snapshot option) option \<Rightarrow> 'w sys \<Rightarrow> bool" where
  "has_points name X s \<equiv> points_of name s = X"

lemma backup_update_points:
  "(\<And>b. b_points (f b) = b_points b \<and> b_base (f b) = b_base b) \<Longrightarrow> points_of name (backup_update env n f s) = points_of name s"
  by (auto simp: points_of_def backup_update_def bump_def option.map_comp comp_def split: option.split)

lemma points_event [simp]: "points_of name (note_event env k sev n s) = points_of name s"
  by (simp add: points_of_def)

lemma backup_update_points_other:
  "(\<And>b. b_points (f b) = b_points b \<and> b_base (f b) = b_base b) \<Longrightarrow> keeps (has_points name X) (backup_set env n f)"
  by (rule keeps_do) (simp add: backup_update_points)

lemma call_same: "quiet env (g) \<Longrightarrow> keeps (\<lambda>s. g s = X) (call_op env f m)"
  by (auto simp: keeps_def call_op_def call_quiet split: prod.split dest: call_quiet_eq)

lemma drop_by_name_same: "quiet env (g) \<Longrightarrow> g (snd (drop_by_name env eng n s)) = g s"
  by (auto simp: drop_by_name_def call_quiet dest: call_quiet_eq split: prod.split sum.split)

lemma drop_data_same: "quiet env (g) \<Longrightarrow> keeps (\<lambda>s. g s = X) (drop_data env eng n i)"
  unfolding drop_data_def
proof (rule keeps_bind)
  assume q: "quiet env (g)"
  show "keeps (\<lambda>s. g s = X) (case i of None \<Rightarrow> ok_op () | Some x \<Rightarrow> call_op env id (\<lambda>wr. delete_v1 wr eng (''/v1/snapshots/'' @ x)))"
    by (cases i) (simp_all add: keeps_simple call_same [OF q])
  show "keeps (\<lambda>s. g s = X) (drop_by_name env eng n)"
    by (simp add: keeps_def drop_by_name_same [OF q])
qed

lemma drop_ship_same: "quiet env (g) \<Longrightarrow> g (snd (drop_ship env eng x s)) = g s"
  using drop_data_same [of env g "g s"] by (simp add: drop_ship_def keeps_def)

lemma drop_points_same:
  assumes "quiet env (g)"
  shows "g (snd (drop_points env eng ps s)) = g s"
proof (induction ps arbitrary: s)
  case (Cons p ps)
  obtain r s1 where d: "drop_data env eng (pt_name p) (pt_engine_id p) s = (r, s1)" by force
  have "g s1 = g s" using keepsD [OF drop_data_same [OF assms] refl d] .
  with Cons.IH [of s1] show ?case by (auto simp: d split: prod.split)
qed simp

lemma drop_base_same:
  "quiet env (g) \<Longrightarrow> g (case x of None \<Rightarrow> s | Some old \<Rightarrow> snd (drop_ship env eng old s)) = g s"
  by (simp add: drop_ship_same split: option.split)

definition new_point :: "string \<Rightarrow> ship_job \<Rightarrow> json \<Rightarrow> backup_point" where
  "new_point name job p =
     \<lparr>pt_name = point_name name job, pt_taken_at_ms = ss_taken_at_ms (j_snapshot job), pt_engine_id = get_str ''id'' p\<rparr>"

lemma finished_points:
  assumes "points_of name (backup_update env name (finished_backup ps job n) s) \<noteq> points_of name s"
  shows "points_of name (backup_update env name (finished_backup ps job n) s) = Some (ps, Some (j_snapshot job))"
  using assms by (auto simp: points_of_def backup_update_def bump_def finished_backup_def split: option.splits)

lemma finish_backup_points:
  assumes q: "quiet env (points_of name)"
    and f: "finish_backup env name b job eng serving keep t s = (r, s')" and new: "points_of name s' \<noteq> points_of name s"
  shows "\<exists>p s1 failed. call env (\<lambda>wr. create_snapshot wr eng (point_name name job) (backup_target_name name)) s = (Inr p, s1) \<and>
    points_of name s' = Some (points_after (b_points b @ [new_point name job p]) (prune (b_points b @ [new_point name job p]) keep) failed,
      Some (j_snapshot job))"
proof -
  obtain c s1 where c: "call env (\<lambda>wr. create_snapshot wr eng (point_name name job) (backup_target_name name)) s = (c, s1)" by force
  have same: "points_of name s1 = points_of name s" using call_quiet_eq [OF q c] .
  obtain p where p: "c = Inr p"
    using f new same by (cases c) (auto simp: finish_backup_def bind_op_def call_op_def c)
  let ?ps = "b_points b @ [new_point name job p]"
  obtain failed s2 where d: "drop_points env eng (prune ?ps keep) s1 = (failed, s2)" by force
  have s2: "points_of name s2 = points_of name s" using drop_points_same [OF q, of eng "prune ?ps keep" s1] d same by simp
  let ?s3 = "case b_base b of None \<Rightarrow> s2 | Some old \<Rightarrow> snd (drop_ship env serving old s2)"
  have s3: "points_of name ?s3 = points_of name s" using drop_base_same [OF q] s2 by simp
  obtain n where "points_of name s' = points_of name (backup_update env name (finished_backup (points_after ?ps (prune ?ps keep) failed) job n) ?s3)"
    using f by (auto simp: finish_backup_def bind_op_def call_op_def c p do_op_def Let_def d new_point_def [symmetric])
  with finished_points new s3 show ?thesis using c p by metis
qed

text \<open>What following a job leaves: the points as they were, or those of a finished ship.\<close>

lemma follow_job_points:
  assumes q: "quiet env (points_of name)"
    and f: "follow_job env name b job eng home keep t s = (r, s')" and new: "points_of name s' \<noteq> points_of name s"
  shows "\<exists>reading s1 p s2 failed. call env (\<lambda>wr. ship_job_of wr (dt_engine home) (j_id job)) s = (Inr (Some reading), s1) \<and>
    get_str ''state'' reading = Some ''done'' \<and> ss_node (j_snapshot job) = dt_node home \<and>
    call env (\<lambda>wr. create_snapshot wr eng (point_name name job) (backup_target_name name)) s1 = (Inr p, s2) \<and>
    points_of name s' = Some (points_after (b_points b @ [new_point name job p]) (prune (b_points b @ [new_point name job p]) keep) failed,
      Some (j_snapshot job))"
proof -
  let ?X = "points_of name s"
  note quietly = keeps_bind backup_update_points_other keeps_simple keeps_do
  have d: "keeps (has_points name ?X) (drop_quietly env e x)" for e x
    by (rule keeps_do) (simp add: drop_ship_same [OF q])
  have moved: "ss_node (j_snapshot job) = dt_node home"
  proof (rule ccontr)
    assume "ss_node (j_snapshot job) \<noteq> dt_node home"
    then have "keeps (has_points name ?X) (follow_job env name b job eng home keep t)"
      unfolding follow_job_def by (auto intro!: keeps_bind backup_update_points_other keeps_simple)
    then show False using keepsD f new by blast
  qed
  obtain c s1 where c: "call env (\<lambda>wr. ship_job_of wr (dt_engine home) (j_id job)) s = (c, s1)" by force
  have same: "points_of name s1 = ?X" using call_quiet_eq [OF q c] .
  obtain reading where i: "c = Inr reading"
    using f new same by (cases c) (auto simp: follow_job_def bind_op_def call_op_def c moved)
  let ?st = "unwrap_or (Option.bind reading (get_str ''state'')) ''lost''"
  have dn: "?st = ''done''"
  proof (rule ccontr)
    assume n: "?st \<noteq> ''done''"
    let ?k = "\<lambda>reading. if unwrap_or (Option.bind reading (get_str ''state'')) ''lost'' = ''copying'' then
            backup_set env name (\<lambda>r. r\<lparr>b_job := map_option (\<lambda>jj. jj
              \<lparr>j_bytes_total := unwrap_or (Option.bind reading (get_u64 ''bytes_total'')) 0,
               j_bytes_done := unwrap_or (Option.bind reading (get_u64 ''bytes_done'')) 0\<rparr>) (b_job r)\<rparr>)
          else
            bind_op (drop_quietly env (dt_engine home) (j_snapshot job)) (\<lambda>_.
            bind_op (backup_set env name (\<lambda>r. r\<lparr>b_job := None\<rparr>)) (\<lambda>_.
              err_op (BkShip (unwrap_or (Option.bind reading (get_str ''state'')) ''lost'') (Option.bind reading (get_str ''message'')))))"
    have "keeps (has_points name ?X) (?k reading)"
      by (auto intro!: keeps_bind backup_update_points_other keeps_simple d)
    moreover have "?k reading s1 = (r, s')"
      using f n by (simp add: follow_job_def bind_op_def call_op_def c moved i Let_def split: if_splits)
    ultimately show False using keepsD same new by blast
  qed
  then obtain v where v: "reading = Some v" "get_str ''state'' v = Some ''done''"
    by (cases reading) (auto simp: unwrap_or_def split: option.splits)
  have "finish_backup env name b job eng (dt_engine home) keep t s1 = (r, s')"
    using f dn by (simp add: follow_job_def bind_op_def call_op_def c moved i Let_def)
  from finish_backup_points [OF q this] new same moved c i v show ?thesis by fastforce
qed

lemma ship_backup_points:
  assumes q: "quiet env (points_of name)"
  shows "keeps (has_points name X) (ship_backup env name b home att policy t)"
proof -
  have r: "keeps (has_points name X) (record_ship env name sn j)" for sn j
    unfolding record_ship_def by (intro keeps_bind keeps_simple keeps_do) (simp add: backup_update_points)
  have w: "points_of name (wait_for_route env name taken i msg s) = points_of name s" for taken i msg s
    by (simp add: wait_for_route_def Let_def backup_update_points)
  show ?thesis
    unfolding ship_backup_def Let_def
  proof (rule keeps_bind [OF call_same [OF q]], rule keepsI, goal_cases)
    case (1 v s r' s')
    obtain c s1 where c: "call env (\<lambda>wr. ship_snapshot_to wr (dt_engine home) (ship_name name (to_ms t)) (drive_uri att)
        (map_option ss_engine_name (b_base b)) (case volume name s of None \<Rightarrow> 0 | Some x \<Rightarrow> rate (en_recovery env) (v_bandwidth_class x))) s = (c, s1)"
      by force
    have s1: "points_of name s1 = X" using call_quiet_eq [OF q c] 1(1) by simp
    show ?case
    proof (cases c)
      case (Inl e)
      with 1(2) s1 show ?thesis by (auto simp: c Let_def w drop_ship_same [OF q] split: if_splits)
    next
      case (Inr j)
      with 1(2) have "record_ship env name \<lparr>ss_node = dt_node home, ss_engine_name = ship_name name (to_ms t),
          ss_engine_id = get_str ''id'' v, ss_taken_at_ms = to_ms t\<rparr> j s1 = (r', s')" by (simp add: c)
      with keepsD [OF r s1] show ?thesis .
    qed
  qed
qed

text \<open>A stage that changes the points follows a job: the backup node answers, its volume is served to the node that serves the
  data, and a job is on record.\<close>

lemma backup_stage_points:
  assumes "quiet env (points_of name)" and st: "backup_stage env name t b home sz policy s = (r, s')"
    and "points_of name s' \<noteq> points_of name s"
  obtains node eng job where "b_node b = Some node" and "healthy_engine env (sy_fed s) node = Some eng" and "b_job b = Some job"
    and "b_attached_for b = Some (dt_node home)" and "follow_job env name b job eng home (bp_keep policy) t s = (r, s')"
proof -
  let ?X = "points_of name s"
  have no: False if "keeps (has_points name ?X) m" "m s = (r, s')" for m :: "('a, unit) bk_op"
    using keepsD [OF that(1) _ that(2)] assms(3) by simp
  note quietly = keeps_bind keeps_simple keeps_read call_same [OF assms(1)] backup_update_points_other keeps_do
  obtain node where n: "b_node b = Some node"
  proof (cases "b_node b")
    case None
    have "keeps (has_points name ?X) (choose_backup_node env name b)"
      unfolding choose_backup_node_def
      by (intro keeps_read) (auto intro!: keeps_simple keeps_do simp: backup_update_points split: sum.split list.split)
    moreover have "choose_backup_node env name b s = (r, s')" using st None by (simp add: backup_stage_def)
    ultimately show ?thesis using no by blast
  qed simp
  obtain eng where e: "healthy_engine env (sy_fed s) node = Some eng"
    using st n assms(3) by (cases "healthy_engine env (sy_fed s) node")
      (auto simp: backup_stage_def bind_op_def backup_engine_def read_op_def need_op_def)
  note start = backup_stage_def bind_op_def backup_engine_def read_op_def need_op_def
  obtain target where tg: "b_target_volume_id b = Some target"
  proof (cases "b_target_volume_id b")
    case None
    have "keeps (has_points name ?X) (make_backup_volume env name b node eng)"
      unfolding make_backup_volume_def by (intro quietly) simp
    moreover have "make_backup_volume env name b node eng s = (r, s')" using st n e None by (simp add: start)
    ultimately show ?thesis using no by blast
  qed simp
  obtain att where a: "filter_opt (\<lambda>_. b_attached_for b = Some (dt_node home)) (b_target_attach b) = Some att"
  proof (cases "filter_opt (\<lambda>_. b_attached_for b = Some (dt_node home)) (b_target_attach b)")
    case None
    have "keeps (has_points name ?X) (serve_backup_volume env name b node eng target (dt_node home))"
      unfolding serve_backup_volume_def by (intro quietly) simp
    moreover have "serve_backup_volume env name b node eng target (dt_node home) s = (r, s')"
      using st n e tg None by (simp add: start)
    ultimately show ?thesis using no by blast
  qed simp
  obtain job where j: "b_job b = Some job"
  proof (cases "b_job b")
    case None
    have g: "keeps (has_points name ?X) (grow_backup_volume env name node eng target sz)"
      unfolding grow_backup_volume_def by (intro quietly) (simp add: backup_update_points)
    have "\<not> grow_backup_volume env name node eng target sz s = (r, s')" using no [OF g] by blast
    moreover have "\<not> ship_backup env name b home att policy t s = (r, s')" using no [OF ship_backup_points [OF assms(1)]] by blast
    ultimately have False using None st n e tg a assms(3) by (auto simp: start ok_op_def split: if_splits)
    then show ?thesis ..
  qed simp
  show thesis
  proof (rule that [OF n e j])
    show "b_attached_for b = Some (dt_node home)" using a by (auto simp: filter_opt_def split: option.splits if_splits)
    show "follow_job env name b job eng home (bp_keep policy) t s = (r, s')" using st n e tg a j by (simp add: start)
  qed
qed

text \<open>Property C31. A step adds a point only for a ship that is done: the record holds its job, read from the node that serves
  the volume, which is the node the shipped snapshot is on and the one the backup volume is served to; the engine says the
  job is done and the backup node has then taken the point. The points after are the old ones and the new one, less
  those pruned, and the shipped snapshot is the next base.\<close>

theorem backup_point_evidence:
  assumes "quiet env (points_of name)" and "backup_step env name t s = (r, s')" and "points_of name s' \<noteq> points_of name s"
  shows "\<exists>b policy node vol home job eng reading s1 p s2 failed.
    backup_of name s = Some b \<and> b_policy b = Some policy \<and> b_job b = Some job \<and> volume name s = Some vol \<and>
    data_at_of env (sy_fed s) vol = Inr home \<and> ss_node (j_snapshot job) = dt_node home \<and> b_attached_for b = Some (dt_node home) \<and>
    b_node b = Some node \<and> healthy_engine env (sy_fed s) node = Some eng \<and>
    call env (\<lambda>wr. ship_job_of wr (dt_engine home) (j_id job)) s = (Inr (Some reading), s1) \<and>
    get_str ''state'' reading = Some ''done'' \<and>
    call env (\<lambda>wr. create_snapshot wr eng (point_name name job) (backup_target_name name)) s1 = (Inr p, s2) \<and>
    points_of name s' = Some (points_after (b_points b @ [new_point name job p])
      (prune (b_points b @ [new_point name job p]) (bp_keep policy)) failed, Some (j_snapshot job))"
proof -
  obtain b where b: "backup_of name s = Some b"
    using assms(2,3) by (cases "backup_of name s") (auto simp: backup_step_def read_op_def ok_op_def)
  obtain vol where v: "volume name s = Some vol"
    using assms(2,3) b by (cases "volume name s") (auto simp: backup_step_def read_op_def err_op_def)
  obtain home where h: "data_at_of env (sy_fed s) vol = Inr home"
    using assms(2,3) b v by (cases "data_at_of env (sy_fed s) vol") (auto simp: backup_step_def read_op_def err_op_def)
  obtain policy where p: "b_policy b = Some policy"
    using assms(2,3) b v h by (cases "b_policy b") (auto simp: backup_step_def read_op_def err_op_def)
  have st: "backup_stage env name t b home (v_size_bytes vol) policy s = (r, s')"
    using assms(2) b v h p by (simp add: backup_step_def read_op_def)
  obtain node eng job where j: "b_node b = Some node" "healthy_engine env (sy_fed s) node = Some eng" "b_job b = Some job"
      "b_attached_for b = Some (dt_node home)" "follow_job env name b job eng home (bp_keep policy) t s = (r, s')"
    by (rule backup_stage_points [OF assms(1) st assms(3)])
  from follow_job_points [OF assms(1) j(5) assms(3)] b v h p j(1-4) show ?thesis by blast
qed

subsection \<open>A backup stopped while a pass runs\<close>

lemma data_at_cong:
  "f_volumes fed' = f_volumes fed \<Longrightarrow> f_nodes fed' = f_nodes fed \<Longrightarrow> data_at_of env fed' vol = data_at_of env fed vol"
  by (simp add: data_at_of_def parent_of_def serve_at_def serve_own_def serve_single_def serve_mirror_def engine_of_def Let_def
    cong: option.case_cong sum.case_cong assembly_state.case_cong list.case_cong if_cong)

text \<open>Property C33. Stopping the backup of a volume takes no claim. When it happens after a pass has listed the volume and before
  its turn, the step finds no policy and its \<open>expect\<close> panics: the pass ends there, the backups after it are not
  looked at, and the claim is never released, so later passes skip the volume.\<close>

theorem stop_during_pass_panics:
  assumes "backup_of name s = Some b" and "volume name s = Some vol" and "data_at_of env (sy_fed s) vol = Inr home"
    and "\<not> busy (backup_key name) s"
  shows "\<exists>s1 s2. stop_backup env name False s = (Inr (), s1) \<and>
    backup_names_pass env show t (name # ns) s1 = (False, s2) \<and> sy_fed s2 = sy_fed s1 \<and> claim (backup_key name) s2 = (False, s2)"
proof -
  let ?s1 = "commit_backup env name (set_backups (bt_modify name stopped_backup) s)"
  have b: "backup_of name ?s1 = Some (stopped_backup b)" "volume name ?s1 = Some vol"
      "data_at_of env (sy_fed ?s1) vol = Inr home" "\<not> busy (backup_key name) ?s1"
    using assms data_at_cong [of "sy_fed ?s1" "sy_fed s" env vol] by (simp_all add: set_backups_def change_fed_def busy_def bump_def)
  have "stop_backup env name False s = (Inr (), ?s1)"
    using assms(1) by (simp add: stop_backup_def read_op_def bind_op_def do_op_def)
  moreover have "claim (backup_key name) ?s1 = (True, ?s1\<lparr>sy_claims := backup_key name # sy_claims ?s1\<rparr>)"
    using b(4) by (simp add: claim_def busy_def)
  moreover have "backup_step env name t (?s1\<lparr>sy_claims := c\<rparr>) = (Inl BkPanic, ?s1\<lparr>sy_claims := c\<rparr>)" for c
    using b(1-3) by (simp add: backup_step_def read_op_def err_op_def stopped_backup_def)
  ultimately show ?thesis by (auto simp: claim_def)
qed

subsection \<open>A policy on the record of a deleted volume\<close>

text \<open>Once a delete has marked a volume's backups as kept after it, a policy set on the volume is answered as set but never
  runs, even when the volume is still there because the rest of the delete failed: no pass lists it.\<close>

lemma policy_after_failed_delete:
  assumes "backup_of name s = Some b" and "b_source_deleted b" and "put_policy env name p s = (Inr b', s')"
  shows "backup_of name s' = Some b' \<and> b_policy b' = Some p \<and> b_source_deleted b' \<and> volume name s' \<noteq> None \<and>
    (bt_ok (f_backups (sy_fed s')) \<longrightarrow> (\<forall>k x. bt_get (f_backups (sy_fed s')) k = Some x \<longrightarrow> b_volume x = k) \<longrightarrow>
      name \<notin> set (backup_due (sy_fed s')))"
proof -
  obtain b1 where b1: "policy_record (sy_fed s) name p (now_ms env s) = Inr b1"
      and b': "b' = b1" "s' = commit_backup env name (set_backups (bt_insert name b1) s)"
    using assms(3) by (auto simp: put_policy_def read_op_def bind_op_def lift_op_def do_op_def ok_op_def split: sum.splits)
  have v: "volume name s \<noteq> None" "b_policy b1 = Some p" "b_source_deleted b1"
    using b1 assms(1,2) by (auto simp: policy_record_def Let_def split: if_splits option.splits)
  have s': "backup_of name s' = Some b1" "volume name s' = volume name s"
    unfolding b' by (simp_all add: set_backups_def change_fed_def bump_def)
  have "name \<notin> set (backup_due (sy_fed s'))"
    if ok: "bt_ok (f_backups (sy_fed s'))" and k: "\<And>k x. bt_get (f_backups (sy_fed s')) k = Some x \<Longrightarrow> b_volume x = k"
    using s'(1) v(3) k by (force simp: backup_due_def bt_value_iff [OF ok])
  with v s' b' show ?thesis by auto
qed

subsection \<open>Witnesses\<close>

lemma prune_keeps_newest_witness:
  "length (prune [\<lparr>pt_name = ''c'', pt_taken_at_ms = 3, pt_engine_id = None\<rparr>, \<lparr>pt_name = ''a'', pt_taken_at_ms = 1, pt_engine_id = None\<rparr>] 1) = 1"
  using prune_keeps_newest [of "[\<lparr>pt_name = ''c'', pt_taken_at_ms = 3, pt_engine_id = None\<rparr>,
    \<lparr>pt_name = ''a'', pt_taken_at_ms = 1, pt_engine_id = None\<rparr>]" 1]
  by simp

text \<open>The volume on \<open>a\<close>, its backup volume on \<open>b\<close>, and a ship the engine says is done.\<close>

definition done_answer :: response where
  "done_answer = \<lparr>rs_status = 200, rs_status_text = ''200 OK'', rs_json = Some (JObj [(''id'', JStr ''p''), (''state'', JStr ''done'')])\<rparr>"

definition shipping_backup :: backup where
  "shipping_backup = (new_backup ''vol'' 8)
     \<lparr>b_policy := Some \<lparr>bp_pool = None, bp_tier = None, bp_node = None, bp_interval_secs = 60, bp_keep = 3\<rparr>,
      b_node := Some ''b'', b_target_volume_id := Some ''t'', b_target_attach := Some wit_att, b_attached_for := Some ''a'',
      b_job := Some \<lparr>j_id = ''j'', j_snapshot = \<lparr>ss_node = ''a'', ss_engine_name = ''s'', ss_engine_id = None, ss_taken_at_ms = 0\<rparr>,
        j_bytes_total = 8, j_bytes_done = 8\<rparr>, b_state := Shipping\<rparr>"

definition backup_sys :: "unit sys" where
  "backup_sys = (small_sys single_vol)\<lparr>sy_fed := (sy_fed (small_sys single_vol))\<lparr>f_backups := [(''vol'', shipping_backup)]\<rparr>\<rparr>"

lemma backup_sys_data: "\<exists>home. data_at_of (small_env r) (sy_fed backup_sys) single_vol = Inr home"
proof -
  have "map_sum id dt_node (data_at_of (small_env empty_answer) (sy_fed backup_sys) single_vol) = Inr ''a''" by code_simp
  moreover have "data_at_of (small_env r) (sy_fed backup_sys) single_vol = data_at_of (small_env empty_answer) (sy_fed backup_sys) single_vol"
    by code_simp
  ultimately show ?thesis by auto
qed

lemma backup_point_evidence_witness:
  "\<exists>home reading s1. data_at_of (small_env done_answer) (sy_fed backup_sys) single_vol = Inr home \<and>
     call (small_env done_answer) (\<lambda>wr. ship_job_of wr (dt_engine home) ''j'') backup_sys = (Inr (Some reading), s1) \<and>
     get_str ''state'' reading = Some ''done''"
proof -
  obtain r s' where s: "backup_step (small_env done_answer) ''vol'' 5 backup_sys = (r, s')" by force
  have "map_option fst (points_of ''vol'' (snd (backup_step (small_env done_answer) ''vol'' 5 backup_sys))) \<noteq> map_option fst (points_of ''vol'' backup_sys)"
    by code_simp
  then have "points_of ''vol'' s' \<noteq> points_of ''vol'' backup_sys" using s by auto
  from backup_point_evidence [OF small_quiet s this] show ?thesis
    by (auto simp: points_of_def backup_sys_def shipping_backup_def small_sys_def)
qed

lemma stop_during_pass_panics_witness:
  "\<exists>s1 s2. stop_backup (small_env done_answer) ''vol'' False backup_sys = (Inr (), s1) \<and>
     backup_names_pass (small_env done_answer) (\<lambda>_. []) 5 [''vol'', ''next''] s1 = (False, s2) \<and>
     claim (backup_key ''vol'') s2 = (False, s2)"
proof -
  obtain home where h: "data_at_of (small_env done_answer) (sy_fed backup_sys) single_vol = Inr home"
    using backup_sys_data by blast
  have "backup_of ''vol'' backup_sys = Some shipping_backup" "volume ''vol'' backup_sys = Some single_vol"
      "\<not> busy (backup_key ''vol'') backup_sys"
    by (simp_all add: backup_sys_def small_sys_def busy_def)
  from stop_during_pass_panics [OF this(1,2) h this(3), of "\<lambda>_. []" 5 "[''next'']"] show ?thesis by blast
qed

end
