(* ===== verification/Volumes.thy ===== *)
theory Volumes
  imports Backup Assemble Replace
begin

section \<open>Creating and deleting volumes\<close>

text \<open>
  Models the volume handlers of \<open>src/api/mod.rs\<close>: planning, creating with every check in its order, deleting, serving to
  hosts, retrying an assembly, and how nodes register. Every request is a case of the record it is read into; the
  answer's JSON is left out, and how an assembly's error prints is the parameter \<open>show\<close>.
\<close>

record plan_request =
  pr_pool :: "string option"
  pr_size_bytes :: u64
  pr_replicas :: "u32 option"
  pr_rung :: "string option"
  pr_tier :: "string option"
  pr_prefer_node :: "string option"
  pr_raid :: "raid_profile option"

record host_request =
  hq_host_nqn :: string
  hq_dhchap :: bool

record create_request =
  cv_name :: string
  cv_size_bytes :: u64
  cv_pool :: "string option"
  cv_replicas :: "u32 option"
  cv_rung :: "string option"
  cv_tier :: "string option"
  cv_bandwidth_class :: "bandwidth_class option"
  cv_prefer_node :: "string option"
  cv_hosts :: "host_request list"
  cv_extent_size_bytes :: "u64 option"
  cv_raid :: "raid_profile option"
  cv_source :: "volume_source option"
  cv_encrypted :: bool
  cv_qos_class :: "string option"

record resolved_plan =
  rp_replicas :: u32
  rp_rung :: string
  rp_candidates :: "candidate list"

subsection \<open>Planning\<close>

definition plan_replicas :: "plan_request \<Rightarrow> pool_config option \<Rightarrow> api_error + u32" where
  "plan_replicas rq pool =
     (case pr_raid rq of
        Some r \<Rightarrow> map_sum (\<lambda>_. if r = Parity1 \<or> r = Parity2 then ApiNotImplemented else ApiBadRequest) id
          (raid_replicas r (pr_replicas rq) (map_option pc_replicas pool))
      | None \<Rightarrow> Inr (max (unwrap_or (or_else (pr_replicas rq) (map_option pc_replicas pool)) 1) 1))"

definition plan_candidates :: "fed_state \<Rightarrow> pool_config option \<Rightarrow> string option \<Rightarrow> candidate list" where
  "plan_candidates fed pool tier =
     map candidate_of (filter (\<lambda>n. ns_healthy (n_status n) \<and>
       (case pool of None \<Rightarrow> True | Some p \<Rightarrow> matches (pc_selector p) (n_config n)) \<and>
       (case tier of None \<Rightarrow> True | Some t \<Rightarrow> nc_tier (n_config n) = Some t)) (bt_values (f_nodes fed)))"

definition resolve_plan :: "'w env \<Rightarrow> fed_state \<Rightarrow> plan_request \<Rightarrow> api_error + resolved_plan" where
  "resolve_plan env fed rq =
     (case (case pr_pool rq of
              None \<Rightarrow> Inr None
            | Some n \<Rightarrow> (case find_pool (en_pools env) n of None \<Rightarrow> Inl ApiNotFound | Some p \<Rightarrow> Inr (Some p))) of
        Inl e \<Rightarrow> Inl e
      | Inr pool \<Rightarrow>
          (case plan_replicas rq pool of
             Inl e \<Rightarrow> Inl e
           | Inr n \<Rightarrow>
               (let rung = unwrap_or (or_else (pr_rung rq) (map_option pc_rung pool)) ''node'' in
                if rung \<notin> set (en_rungs env) then Inl ApiBadRequest
                else Inr \<lparr>rp_replicas = n, rp_rung = rung, rp_candidates = plan_candidates fed pool (pr_tier rq)\<rparr>)))"

definition dry_run :: "'w env \<Rightarrow> fed_state \<Rightarrow> plan_request \<Rightarrow> api_error + (string list \<times> bool)" where
  "dry_run env fed rq =
     (case resolve_plan env fed rq of
        Inl e \<Rightarrow> Inl e
      | Inr rp \<Rightarrow> map_sum (\<lambda>_. ApiConflict) id (plan_preferring (rp_candidates rp) (en_rungs env) (rp_rung rp) (rp_replicas rp)
          (pr_size_bytes rq) (en_io_weight env) (pr_prefer_node rq)))"

subsection \<open>The checks before a volume is created\<close>

definition add_host :: "string \<Rightarrow> bool \<Rightarrow> host_serve list \<Rightarrow> host_serve list" where
  "add_host nqn dhchap hosts =
     (if list_ex (\<lambda>h. hs_host_nqn h = nqn) hosts
      then update_first (\<lambda>h. hs_host_nqn h = nqn) (\<lambda>h. h\<lparr>hs_dhchap := hs_dhchap h \<or> dhchap\<rparr>) hosts
      else hosts @ [default_host nqn dhchap])"

fun host_records :: "host_request list \<Rightarrow> host_serve list \<Rightarrow> api_error + host_serve list" where
  "host_records [] out = Inr out"
| "host_records (h # hs) out =
     (if \<not> valid_host_nqn (trim (hq_host_nqn h)) then Inl ApiBadRequest
      else host_records hs (add_host (trim (hq_host_nqn h)) (hq_dhchap h) out))"

definition clone_only :: "create_request \<Rightarrow> bool" where
  "clone_only rq \<longleftrightarrow>
     cv_raid rq = None \<and> cv_replicas rq = None \<and> cv_pool rq = None \<and> cv_extent_size_bytes rq = None \<and>
     cv_rung rq = None \<and> cv_tier rq = None \<and> cv_prefer_node rq = None"

definition plan_of :: "create_request \<Rightarrow> plan_request" where
  "plan_of rq =
     \<lparr>pr_pool = cv_pool rq, pr_size_bytes = cv_size_bytes rq, pr_replicas = cv_replicas rq, pr_rung = cv_rung rq,
      pr_tier = cv_tier rq, pr_prefer_node = cv_prefer_node rq, pr_raid = cv_raid rq\<rparr>"

text \<open>Whether the name is free, as \<open>create_volume\<close> asks it.\<close>

definition volume_name_free :: "fed_state \<Rightarrow> string \<Rightarrow> bool" where
  "volume_name_free fed name \<longleftrightarrow>
     bt_get (f_volumes fed) name = None \<and> bt_get (f_snapshots fed) name = None \<and>
     \<not> is_some_and (bt_get (f_backups fed) name) b_source_deleted"

definition create_plan :: "'w env \<Rightarrow> fed_state \<Rightarrow> create_request \<Rightarrow> api_error + (resolved_plan \<times> string list)" where
  "create_plan env fed rq =
     (if is_some_and (cv_extent_size_bytes rq) (\<lambda>e. \<not> valid_extent_size e) then Inl ApiBadRequest
      else if ends_with MIRROR_SUFFIX (cv_name rq) then Inl ApiBadRequest
      else if \<not> volume_name_free fed (cv_name rq) then Inl ApiConflict
      else (case resolve_plan env fed (plan_of rq) of
          Inl e \<Rightarrow> Inl e
        | Inr rp \<Rightarrow> map_sum id (\<lambda>p. (rp, fst p)) (dry_run env fed (plan_of rq))))"

subsection \<open>Creating a volume\<close>

definition created_leg :: "string \<Rightarrow> json \<Rightarrow> leg" where
  "created_leg n v =
     \<lparr>l_node = n, l_volume_id = get_str ''id'' v, l_state = Created, l_message = None, l_master_node = master_node_of v,
      l_export = None, l_drive_uuid = None, l_member_uuid = None, l_epoch = None\<rparr>"

text \<open>One leg per node, in order. A node no longer on record ends the request at once; an engine that fails ends the loop with
  the legs made so far.\<close>

fun create_legs ::
  "'w env \<Rightarrow> create_request \<Rightarrow> leg list \<Rightarrow> string list \<Rightarrow> ('w, api_error, leg list \<times> bool) op" where
  "create_legs env rq legs [] s = (Inr (legs, True), s)"
| "create_legs env rq legs (n # ns) s =
     (case registered_engine env (sy_fed s) n of
        None \<Rightarrow> (Inl ApiNotFound, s)
      | Some eng \<Rightarrow>
          (case call env (\<lambda>wr. create_volume wr eng (cv_name rq) (cv_size_bytes rq) (cv_extent_size_bytes rq)) s of
             (Inl _, s) \<Rightarrow> (Inr (legs, False), s)
           | (Inr v, s) \<Rightarrow> create_legs env rq (legs @ [created_leg n v]) ns s))"

definition roll_back_leg :: "'w env \<Rightarrow> leg \<Rightarrow> 'w sys \<Rightarrow> 'w sys" where
  "roll_back_leg env l s =
     (case (l_volume_id l, registered_engine env (sy_fed s) (l_node l)) of
        (Some i, Some eng) \<Rightarrow> snd (call env (\<lambda>wr. delete_volume wr eng i) s)
      | _ \<Rightarrow> s)"

definition roll_back :: "'w env \<Rightarrow> leg list \<Rightarrow> 'w sys \<Rightarrow> 'w sys" where
  "roll_back env legs s = foldl (\<lambda>s l. roll_back_leg env l s) s legs"

definition made_volume :: "time \<Rightarrow> create_request \<Rightarrow> host_serve list \<Rightarrow> resolved_plan \<Rightarrow> leg list \<Rightarrow> dist_volume" where
  "made_volume t rq hosts rp legs =
     \<lparr>v_name = cv_name rq, v_size_bytes = cv_size_bytes rq, v_pool = cv_pool rq, v_replicas = rp_replicas rp,
      v_rung = rp_rung rp, v_legs = legs, v_assembly = (if length legs \<le> 1 then SingleLeg else PendingEngineSupport),
      v_head = None, v_array_id = None, v_created_at = t, v_replacing = None, v_next_releg_after = None,
      v_next_assemble_after = None, v_export = default_export\<lparr>x_per_host := hosts \<noteq> [], x_hosts := hosts\<rparr>, v_epoch = 1,
      v_fenced = False, v_bandwidth_class = unwrap_or (cv_bandwidth_class rq) Normal,
      v_extent_size_bytes = cv_extent_size_bytes rq, v_rate_pending = False, v_dual_attach = None, v_migration = None,
      v_clone_of = None, v_expanding = None\<rparr>"

definition commit_volume :: "'w env \<Rightarrow> string \<Rightarrow> 'w sys \<Rightarrow> 'w sys" where
  "commit_volume env name s = persist env (note_event env ''volume'' Info name (push_to_peers env s))"

text \<open>A mirror is assembled first; what fails is an event, the legs are kept.\<close>

definition serve_new :: "'w env \<Rightarrow> string \<Rightarrow> bool \<Rightarrow> 'w sys \<Rightarrow> 'w sys" where
  "serve_new env name multi s =
     (if \<not> multi then snd (publish env name s)
      else (case assemble env name s of
          (Inr _, s) \<Rightarrow> snd (publish env name s)
        | (Inl _, s) \<Rightarrow> note_event env ''assemble'' Error name s))"

definition place_volume :: "'w env \<Rightarrow> create_request \<Rightarrow> host_serve list \<Rightarrow> resolved_plan \<Rightarrow> string list \<Rightarrow> ('w, api_error, unit) op" where
  "place_volume env rq hosts rp picks =
     bind_op (create_legs env rq [] picks) (\<lambda>(legs, ok).
       if \<not> ok then bind_op (do_op (roll_back env legs)) (\<lambda>_. err_op ApiUpstream)
       else bind_op (do_op (\<lambda>s. commit_volume env (cv_name rq)
              (change_fed (put_volume (cv_name rq) (made_volume (now env s) rq hosts rp legs)) s))) (\<lambda>_.
         do_op (serve_new env (cv_name rq) (length legs > 1))))"

definition create_dist_volume :: "'w env \<Rightarrow> create_request \<Rightarrow> ('w, api_error, unit) op" where
  "create_dist_volume env rq =
     bind_op (check_op (cv_name rq \<noteq> [] \<and> cv_size_bytes rq \<noteq> 0) ApiBadRequest) (\<lambda>_.
     bind_op (lift_op (host_records (cv_hosts rq) [])) (\<lambda>hosts.
     bind_op (check_op (\<not> cv_encrypted rq \<and> cv_qos_class rq = None) ApiNotImplemented) (\<lambda>_.
       case cv_source rq of
         Some source \<Rightarrow>
           bind_op (check_op (clone_only rq) ApiBadRequest) (\<lambda>_.
           bind_op (check_op (\<not> ends_with MIRROR_SUFFIX (cv_name rq)) ApiBadRequest) (\<lambda>_.
             clone_volume env (cv_name rq) (cv_size_bytes rq) source hosts))
       | None \<Rightarrow>
           read_op (\<lambda>s. bind_op (lift_op (create_plan env (sy_fed s) rq)) (\<lambda>(rp, picks).
             place_volume env rq hosts rp picks)))))"

subsection \<open>Deleting a volume\<close>

definition delete_checks :: "fed_state \<Rightarrow> string \<Rightarrow> api_error + dist_volume" where
  "delete_checks fed name =
     (case bt_get (f_volumes fed) name of
        None \<Rightarrow> Inl ApiNotFound
      | Some vol \<Rightarrow>
          if dependents_of fed name \<noteq> [] then Inl ApiConflict
          else if v_clone_of vol \<noteq> None \<and> \<not> healthy_node fed (unwrap_or (x_node (v_export vol)) []) then Inl ApiConflict
          else Inr vol)"

definition revoke_volume :: "'w env \<Rightarrow> dist_volume \<Rightarrow> ('w, api_error, unit) op" where
  "revoke_volume env vol s = (case revoke env vol s of (r, s) \<Rightarrow> (map_sum (\<lambda>_. ApiUpstream) id r, s))"

definition tear_down :: "'w env \<Rightarrow> string \<Rightarrow> dist_volume \<Rightarrow> 'w sys \<Rightarrow> 'w sys" where
  "tear_down env name vol s =
     (case teardown env vol s of (errs, s) \<Rightarrow> if errs \<noteq> [] then note_event env ''volume'' Warning name s else s)"

definition deleted_orphan :: "'w env \<Rightarrow> string \<Rightarrow> leg \<Rightarrow> string \<Rightarrow> 'w sys \<Rightarrow> orphan" where
  "deleted_orphan env name l i s =
     \<lparr>o_node = l_node l, o_volume_id = i, o_master_node = l_master_node l, o_of_volume = name,
      o_reason = ''volume deleted while its node was unreachable'', o_since = now env s\<rparr>"

text \<open>The orphans to record, and whether no leg is left over.\<close>

definition delete_leg :: "'w env \<Rightarrow> string \<Rightarrow> leg \<Rightarrow> 'w sys \<Rightarrow> (orphan list \<times> bool) \<times> 'w sys" where
  "delete_leg env name l s =
     (case (l_volume_id l, bt_get (f_nodes (sy_fed s)) (l_node l)) of
        (None, _) \<Rightarrow> (([], True), s)
      | (Some i, None) \<Rightarrow> (([], False), s)
      | (Some i, Some n) \<Rightarrow>
          if \<not> ns_healthy (n_status n) then (([deleted_orphan env name l i s], True), s)
          else (case call env (\<lambda>wr. delete_volume wr (engine_for env n) i) s of (r, s) \<Rightarrow> (([], \<not> isl r), s)))"

fun delete_legs :: "'w env \<Rightarrow> string \<Rightarrow> leg list \<Rightarrow> 'w sys \<Rightarrow> (orphan list \<times> bool) \<times> 'w sys" where
  "delete_legs env name [] s = (([], True), s)"
| "delete_legs env name (l # ls) s =
     (case delete_leg env name l s of
        ((os, ok), s) \<Rightarrow> (case delete_legs env name ls s of ((os', ok'), s) \<Rightarrow> ((os @ os', ok \<and> ok'), s)))"

definition forget_volume :: "string \<Rightarrow> orphan list \<Rightarrow> fed_state \<Rightarrow> fed_state" where
  "forget_volume name os fed = fed\<lparr>f_volumes := bt_remove name (f_volumes fed), f_orphans := f_orphans fed @ os\<rparr>"

definition delete_volume_legs :: "'w env \<Rightarrow> string \<Rightarrow> dist_volume \<Rightarrow> ('w, api_error, unit) op" where
  "delete_volume_legs env name vol s =
     (case delete_legs env name (all_legs vol) s of
        ((os, ok), s) \<Rightarrow>
          if \<not> ok then (Inl ApiUpstream, s)
          else (Inr (), commit_volume env name (change_fed (forget_volume name os) s)))"

definition delete_dist_volume :: "'w env \<Rightarrow> string \<Rightarrow> ('w, api_error, unit) op" where
  "delete_dist_volume env name =
     read_op (\<lambda>s. bind_op (lift_op (delete_checks (sy_fed s) name)) (\<lambda>vol.
       bind_op (on_volume_delete env name) (\<lambda>_.
       bind_op (revoke_volume env vol) (\<lambda>_.
       bind_op (do_op (tear_down env name vol)) (\<lambda>_.
         delete_volume_legs env name vol)))))"

subsection \<open>Serving to hosts, and retrying an assembly\<close>

definition export_dist_volume :: "'w env \<Rightarrow> string \<Rightarrow> host_request list \<Rightarrow> bool \<Rightarrow> ('w, api_error, export) op" where
  "export_dist_volume env name hosts recreate =
     bind_op (lift_op (host_records hosts [])) (\<lambda>new.
     read_op (\<lambda>s. bind_op (check_op (volume name s \<noteq> None) ApiNotFound) (\<lambda>_.
     bind_op (do_op (with_fed (on_volume name (\<lambda>v. v\<lparr>v_export := (v_export v)
         \<lparr>x_per_host := x_per_host (v_export v) \<or> new \<noteq> [],
          x_hosts := foldl (\<lambda>hs h. if list_ex (\<lambda>x. hs_host_nqn x = hs_host_nqn h) hs
            then update_first (\<lambda>x. hs_host_nqn x = hs_host_nqn h) (\<lambda>x. x\<lparr>hs_dhchap := hs_dhchap x \<or> hs_dhchap h\<rparr>) hs
            else hs @ [h]) (x_hosts (v_export v)) new\<rparr>\<rparr>)))) (\<lambda>_ s.
       case (if recreate then recreate_export env name s else publish env name s) of (r, s) \<Rightarrow> (map_sum (\<lambda>_. ApiConflict) id r, s)))))"

definition serve_export_host :: "'w env \<Rightarrow> string \<Rightarrow> host_request \<Rightarrow> ('w, api_error, host_serve \<times> string option) op" where
  "serve_export_host env name rq =
     read_op (\<lambda>s. bind_op (check_op (volume name s \<noteq> None) ApiNotFound) (\<lambda>_.
     bind_op (check_op (valid_host_nqn (hq_host_nqn rq)) ApiBadRequest) (\<lambda>_ s.
       case serve_host env name (hq_host_nqn rq) (hq_dhchap rq) s of (r, s) \<Rightarrow> (map_sum (\<lambda>_. ApiConflict) id r, s))))"

definition assemble_dist_volume :: "'w env \<Rightarrow> (wiring_error \<Rightarrow> string) \<Rightarrow> string \<Rightarrow> ('w, api_error, unit) op" where
  "assemble_dist_volume env show name =
     read_op (\<lambda>s. bind_op (need_op ApiNotFound (volume name s)) (\<lambda>v.
     bind_op (check_op (v_assembly v = PendingEngineSupport \<and> 2 \<le> length (v_legs v)) ApiConflict) (\<lambda>_ s.
       case assemble env name s of
         (Inl e, s) \<Rightarrow>
           if contains_str ''busy'' (show e) then (Inl ApiConflict, s) else (Inl ApiUpstream, note_event env ''assemble'' Error name s)
       | (Inr _, s) \<Rightarrow> (Inr (), snd (publish env name s)))))"

subsection \<open>Nodes that register\<close>

text \<open>A bare address takes the configured scheme and port 9090; a URL keeps its own.\<close>

definition engine_url_from :: "string \<Rightarrow> string \<Rightarrow> string" where
  "engine_url_from addr scheme =
     (if contains_str ''://'' addr then trim_end_slash addr
      else if CHR '':'' \<in> set addr then scheme @ ''://'' @ addr
      else scheme @ ''://'' @ addr @ '':9090'')"

definition announced_node :: "string \<Rightarrow> string \<Rightarrow> node" where
  "announced_node h url =
     \<lparr>n_config = \<lparr>nc_name = h, nc_engine_url = url, nc_api_token = None, nc_token_file = None, nc_ca_file = None,
        nc_labels = [], nc_tier = None\<rparr>, n_status = new_status Registered\<rparr>"

definition announced :: "string \<Rightarrow> u64 \<Rightarrow> time \<Rightarrow> node \<Rightarrow> node" where
  "announced url vols t n =
     \<lparr>n_config = (if ns_source (n_status n) = Registered then (n_config n)\<lparr>nc_engine_url := url\<rparr> else n_config n),
      n_status = (n_status n)\<lparr>ns_volumes := vols, ns_last_ok := Some t, ns_healthy := True, ns_consecutive_failures := 0\<rparr>\<rparr>"

definition register_node :: "'w env \<Rightarrow> string \<Rightarrow> string \<Rightarrow> string \<Rightarrow> u64 \<Rightarrow> 'w sys \<Rightarrow> 'w sys" where
  "register_node env scheme addr h vols s =
     (let url = engine_url_from addr scheme; fresh = (bt_get (f_nodes (sy_fed s)) h = None);
          s = with_fed (\<lambda>fed. (if fresh then bump else id) (fed\<lparr>f_nodes := bt_modify h (announced url vols (now env s))
                (if fresh then bt_insert h (announced_node h url) (f_nodes fed) else f_nodes fed)\<rparr>)) s
      in if fresh then persist env (note_event env ''register'' Info h (push_to_peers env s)) else s)"

definition deregister_node :: "'w env \<Rightarrow> string \<Rightarrow> string \<Rightarrow> 'w sys \<Rightarrow> 'w sys" where
  "deregister_node env scheme addr s =
     (let url = engine_url_from addr scheme;
          gone = filter (\<lambda>n. nc_engine_url (n_config n) = url) (bt_values (f_nodes (sy_fed s)));
          s = with_fed (\<lambda>fed. fed\<lparr>f_nodes := bt_map (\<lambda>n. if nc_engine_url (n_config n) = url
                then n\<lparr>n_status := (n_status n)\<lparr>ns_healthy := False\<rparr>\<rparr> else n) (f_nodes fed)\<rparr>) s
      in if gone = [] then s else persist env (note_event env ''register'' Warning (nc_name (n_config (last gone))) s))"

subsection \<open>What an assembly and a publish leave of the records\<close>

definition leg_cores :: "'w sys \<Rightarrow> string \<Rightarrow> leg list option" where
  "leg_cores s n = map_option (\<lambda>v. map leg_core (v_legs v)) (volume n s)"

abbreviation vols :: "'w sys \<Rightarrow> (string, dist_volume) btree" where
  "vols s \<equiv> f_volumes (sy_fed s)"

lemma core_leg_core: "core v = core v' \<Longrightarrow> map leg_core (v_legs v) = map leg_core (v_legs v')"
proof -
  assume "core v = core v'"
  then have "map (\<lambda>l. l\<lparr>l_export := None\<rparr>) (v_legs v) = map (\<lambda>l. l\<lparr>l_export := None\<rparr>) (v_legs v')"
    by (metis core_def dist_volume.select_convs(6) dist_volume.surjective dist_volume.update_convs(6))
  then have "map (leg_core \<circ> (\<lambda>l. l\<lparr>l_export := None\<rparr>)) (v_legs v) = map (leg_core \<circ> (\<lambda>l. l\<lparr>l_export := None\<rparr>)) (v_legs v')"
    by (metis map_map)
  then show ?thesis by (simp add: comp_def)
qed

lemma publish_leg_cores:
  assumes "quiet env vols"
  shows "leg_cores (snd (publish env name s)) = leg_cores s"
proof
  fix n
  have "bt_get (cores (snd (publish env name s))) n = bt_get (cores s) n" using publish_cores [OF assms, of name s] by simp
  then show "leg_cores (snd (publish env name s)) n = leg_cores s n"
    by (auto simp: leg_cores_def dest: core_leg_core split: option.splits)
      (cases "volume n (snd (publish env name s))"; cases "volume n s"; auto dest: core_leg_core)
qed

lemma export_legs_quiet:
  assumes "quiet env g"
  shows "export_legs env engines nqn ls s = (r, ls', s') \<Longrightarrow> g s' = g s"
proof (induction ls arbitrary: r ls' s s')
  case (Cons l ls)
  then show ?case
    by (auto dest: call_quiet_eq [OF assms] split: if_splits option.splits sum.splits prod.splits)
qed simp

lemma open_drives_quiet:
  assumes "quiet env g"
  shows "open_drives env head heng ls s = (r, ls', s') \<Longrightarrow> g s' = g s"
proof (induction ls arbitrary: r ls' s s')
  case (Cons l ls)
  then show ?case
    by (auto dest: call_quiet_eq [OF assms] split: if_splits option.splits sum.splits prod.splits)
qed simp

lemma reassemble_refused_quiet:
  assumes "quiet env g" and "\<And>k sev n s. g (note_event env k sev n s) = g s"
  shows "reassemble_refused env name head heng uris uuids s = (r, s') \<Longrightarrow> g s' = g s"
  by (auto simp: reassemble_refused_def assms(2) dest!: call_quiet_eq [OF assms(1)]
      split: option.splits sum.splits prod.splits list.splits array_match.splits)

lemma obtain_array_quiet:
  assumes "quiet env g" and "\<And>k sev n s. g (note_event env k sev n s) = g s"
  shows "obtain_array env name head heng uris uuids s = (r, s') \<Longrightarrow> g s' = g s"
  by (auto simp: obtain_array_def assms(2) dest!: call_quiet_eq [OF assms(1)] reassemble_refused_quiet [OF assms]
      split: if_splits option.splits sum.splits prod.splits array_match.splits)

lemma assemble_inner_quiet:
  assumes q: "quiet env g" and ev: "\<And>k sev n s. g (note_event env k sev n s) = g s"
    and "assemble_inner env engines head heng vol s = (r, vol', s')"
  shows "g s' = g s \<and> v_clone_of vol' = v_clone_of vol"
proof -
  obtain r1 legs1 s1 where e: "export_legs env engines (host_nqn_for (en_host_nqn env) head) (v_legs vol) s = (r1, legs1, s1)"
    by (metis prod_cases3)
  note g1 = export_legs_quiet [OF q e]
  obtain r2 legs2 s2 where o: "open_drives env head heng legs1 s1 = (r2, legs2, s2)" by (metis prod_cases3)
  note g2 = open_drives_quiet [OF q o]
  show ?thesis
  proof (cases r1)
    case (Inl x)
    with assms(3) g1 show ?thesis by (auto simp: assemble_inner_def e)
  next
    case r1: (Inr u)
    show ?thesis
    proof (cases r2)
      case (Inl x)
      with assms(3) g1 g2 r1 show ?thesis by (auto simp: assemble_inner_def e o)
    next
      case (Inr uuids)
      obtain r3 s3 where a: "obtain_array env (v_name vol) head heng (leg_uris legs2) uuids s2 = (r3, s3)" by fastforce
      note g3 = obtain_array_quiet [OF q ev a]
      from assms(3) g1 g2 g3 r1 Inr show ?thesis
        by (auto simp: assemble_inner_def e o a Let_def ev call_quiet [OF q] split: sum.splits option.splits)
    qed
  qed
qed

text \<open>An assembly puts back the volume it read: under its name, with the same legs, and cloned from what it was.\<close>

lemma assemble_puts:
  assumes "quiet env g" and "\<And>k sev n s. g (note_event env k sev n s) = g s"
    and "assemble env name s = (r, s')"
  shows "s' = s \<or> (\<exists>s1. s' = release name s1 \<and> sy_fed s1 = sy_fed s) \<or>
    (\<exists>vol vol' s1. volume name s = Some vol \<and> g s1 = g (s\<lparr>sy_claims := name # sy_claims s\<rparr>) \<and> v_name vol' = v_name vol \<and> v_clone_of vol' = v_clone_of vol \<and>
       map leg_core (v_legs vol') = map leg_core (v_legs vol) \<and>
       (sy_fed s' = put_volume name vol' (sy_fed s1) \<or> sy_fed s' = bump (put_volume name vol' (sy_fed s1))))"
proof (cases "claim name s")
  case (Pair b s0)
  show ?thesis
  proof (cases b)
    case False
    with Pair assms(3) show ?thesis by (auto simp: assemble_def claim_def split: if_splits)
  next
    case True
    then have s0: "s0 = s\<lparr>sy_claims := name # sy_claims s\<rparr>" using Pair by (auto simp: claim_def split: if_splits)
    obtain r1 s1 where c: "assemble_claimed env name s0 = (r1, s1)" by fastforce
    have s': "s' = release name s1" using assms(3) Pair True c by (simp add: assemble_def)
    show ?thesis
    proof (cases "sy_fed s1 = sy_fed s0")
      case True
      then show ?thesis using s' s0 by auto
    next
      case False
      then obtain vol engines heng r2 vol' s2 where v: "volume name s0 = Some vol"
        and i: "assemble_inner env engines (l_node (hd (v_legs vol))) heng vol s0 = (r2, vol', s2)"
        and p: "s1 = record_assembly env name r2 vol' s2"
        using c by (auto simp: assemble_claimed_def Let_def split: option.splits if_splits sum.splits prod.splits)
      note q = assemble_inner_quiet [OF assms(1,2) i] and copy = assemble_inner_copy [OF i]
      have "sy_fed s' = put_volume name (vol'\<lparr>v_next_assemble_after := (if isl r2 then Some (now env s2 + cooldown env) else None)\<rparr>) (sy_fed s2) \<or>
          sy_fed s' = bump (put_volume name (vol'\<lparr>v_next_assemble_after := (if isl r2 then Some (now env s2 + cooldown env) else None)\<rparr>) (sy_fed s2))"
        unfolding s' p by (cases r2) (simp_all add: record_assembly_def Let_def)
      then show ?thesis using v q copy s0
        by (intro disjI2 exI [of _ vol] exI [of _ "vol'\<lparr>v_next_assemble_after := (if isl r2 then Some (now env s2 + cooldown env) else None)\<rparr>"]
            exI [of _ s2]) auto
    qed
  qed
qed

lemma assemble_view:
  assumes "quiet env sview" and "assemble env name s = (r, s')"
  shows "sview s' = sview s"
proof -
  have "sview s' = sview s" if "volume name s = Some vol" "sview s1 = sview (s\<lparr>sy_claims := c\<rparr>)" "v_name vol' = v_name vol"
      "v_clone_of vol' = v_clone_of vol" "sy_fed s' = put_volume name vol' (sy_fed s1) \<or> sy_fed s' = bump (put_volume name vol' (sy_fed s1))"
    for vol vol' c and s1 :: "'a sys"
  proof -
    have "sview s' = (case sview s of (w, sn, gr) \<Rightarrow> (w(name \<mapsto> (v_name vol, v_clone_of vol)), sn, gr))"
      using that(2-5) by (auto simp: put_volume_view)
    also have "\<dots> = sview s" using that(1) by (auto simp: snap_view_def fun_eq_iff)
    finally show ?thesis .
  qed
  with assemble_puts [OF assms(1) _ assms(2)] show ?thesis by fastforce
qed

lemma assemble_leg_cores:
  assumes "quiet env vols" and "assemble env name s = (r, s')"
  shows "leg_cores s' = leg_cores s"
proof -
  have "leg_cores s' = leg_cores s" if "volume name s = Some vol" "vols s1 = vols (s\<lparr>sy_claims := c\<rparr>)"
      "map leg_core (v_legs vol') = map leg_core (v_legs vol)"
      "sy_fed s' = put_volume name vol' (sy_fed s1) \<or> sy_fed s' = bump (put_volume name vol' (sy_fed s1))"
    for vol vol' c and s1 :: "'a sys"
    using that by (auto simp: leg_cores_def)
  with assemble_puts [OF assms(1) _ assms(2)] show ?thesis by (fastforce simp: leg_cores_def)
qed

lemma leg_cores_event [simp]: "leg_cores (note_event env k sev n s) = leg_cores s"
  by (simp add: leg_cores_def fun_eq_iff)

lemma serve_new_leg_cores:
  assumes "quiet env vols"
  shows "leg_cores (serve_new env name multi s) = leg_cores s"
proof -
  obtain r s1 where a: "assemble env name s = (r, s1)" by fastforce
  from assemble_leg_cores [OF assms a] publish_leg_cores [OF assms] show ?thesis
    by (simp add: serve_new_def a split: sum.split)
qed

lemma serve_new_view:
  assumes "quiet env sview"
  shows "sview (serve_new env name multi s) = sview s"
proof -
  obtain r s1 where a: "assemble env name s = (r, s1)" by fastforce
  from assemble_view [OF assms a] publish_view [OF assms] show ?thesis
    by (simp add: serve_new_def a split: sum.split)
qed

subsection \<open>What a create leaves\<close>

lemma create_legs_quiet:
  assumes "quiet env g"
  shows "create_legs env rq ls ns s = (r, s') \<Longrightarrow> g s' = g s"
proof (induction ns arbitrary: ls s)
  case (Cons n ns)
  then show ?case by (auto dest: call_quiet_eq [OF assms] split: option.splits sum.splits prod.splits)
qed simp

lemma create_legs_made:
  "create_legs env rq ls ns s = (Inr (made, True), s') \<Longrightarrow>
     map l_node made = map l_node ls @ ns \<and> (\<forall>l \<in> set made - set ls. l_state l = Created)"
proof (induction ns arbitrary: ls s)
  case (Cons n ns)
  obtain eng v s1 where c: "create_legs env rq (ls @ [created_leg n v]) ns s1 = (Inr (made, True), s')"
    using Cons.prems by (auto split: option.splits sum.splits prod.splits)
  from Cons.IH [OF c] show ?case by (auto simp: created_leg_def)
qed simp

lemma roll_back_quiet:
  assumes "quiet env g"
  shows "g (roll_back env ls s) = g s"
  unfolding roll_back_def
  by (induction ls arbitrary: s) (auto simp: roll_back_leg_def call_quiet [OF assms] split: option.split)

lemma place_volume_cases:
  assumes "place_volume env rq hosts rp picks s = (r, s')"
  obtains e where "create_legs env rq [] picks s = (Inl e, s')" "r = Inl e"
  | legs s1 where "create_legs env rq [] picks s = (Inr (legs, False), s1)" "s' = roll_back env legs s1" "r = Inl ApiUpstream"
  | legs s1 where "create_legs env rq [] picks s = (Inr (legs, True), s1)" "r = Inr ()"
      "s' = serve_new env (cv_name rq) (length legs > 1) (commit_volume env (cv_name rq)
        (change_fed (put_volume (cv_name rq) (made_volume (now env s1) rq hosts rp legs)) s1))"
proof -
  obtain c s1 where c: "create_legs env rq [] picks s = (c, s1)" by fastforce
  show thesis
  proof (cases c)
    case (Inl e)
    with c assms that(1) show ?thesis by (simp add: place_volume_def bind_op_def)
  next
    case (Inr p)
    obtain legs ok where "p = (legs, ok)" by fastforce
    with c Inr assms that(2,3) show ?thesis
      by (cases ok) (auto simp: place_volume_def bind_op_def do_op_def err_op_def)
  qed
qed

lemma create_cases:
  assumes "create_dist_volume env rq s = (r, s')" and "cv_source rq = None"
  obtains e where "r = Inl e" "s' = s"
  | hosts rp picks where "host_records (cv_hosts rq) [] = Inr hosts" "create_plan env (sy_fed s) rq = Inr (rp, picks)"
      "place_volume env rq hosts rp picks s = (r, s')"
  using assms
  by (auto simp: create_dist_volume_def bind_op_def check_op_def lift_op_def read_op_def split: if_splits sum.splits prod.splits)

lemma create_plan_free:
  "create_plan env fed rq = Inr (rp, picks) \<Longrightarrow>
     bt_get (f_volumes fed) (cv_name rq) = None \<and> bt_get (f_snapshots fed) (cv_name rq) = None"
  by (auto simp: create_plan_def volume_name_free_def split: if_splits sum.splits)

lemma leg_cores_commit [simp]: "leg_cores (commit_volume env n s) = leg_cores s"
  by (simp add: leg_cores_def commit_volume_def fun_eq_iff)

lemma leg_cores_put: "leg_cores (change_fed (put_volume n v) s) = (leg_cores s)(n \<mapsto> map leg_core (v_legs v))"
  by (auto simp: leg_cores_def change_fed_def fun_eq_iff)

lemma leg_cores_vols: "vols s' = vols s \<Longrightarrow> leg_cores s' = leg_cores s"
  by (simp add: leg_cores_def fun_eq_iff)

text \<open>Property C26. A create without a source (no clone or restored copy), when no other task changes the volumes during its engine
  calls, is all or nothing for the records: refused or failed, whatever the engines answer, the volumes are those of
  before; accepted, its name was free and it is on record with one created leg on each node the plan picked, in the
  plan's order, and every other volume keeps its legs, whatever the assembly and the publish after it do. What a
  second create of the name does meanwhile is \<open>create_overwrites\<close>.\<close>

theorem create_all_or_nothing:
  assumes "quiet env vols" and "cv_source rq = None" and "create_dist_volume env rq s = (r, s')"
  shows "case r of
      Inl _ \<Rightarrow> vols s' = vols s
    | Inr _ \<Rightarrow> \<exists>rp picks legs s1. create_plan env (sy_fed s) rq = Inr (rp, picks) \<and>
        create_legs env rq [] picks s = (Inr (legs, True), s1) \<and> map l_node legs = picks \<and> list_all (\<lambda>l. l_state l = Created) legs \<and>
        volume (cv_name rq) s = None \<and> leg_cores s' = (leg_cores s)(cv_name rq \<mapsto> map leg_core legs)"
  using assms(3,2)
proof (cases rule: create_cases)
  case (1 e)
  then show ?thesis by simp
next
  case (2 hosts rp picks)
  note free = create_plan_free [OF 2(2)]
  from 2(3) show ?thesis
  proof (cases rule: place_volume_cases)
    case (1 e)
    with create_legs_quiet [OF assms(1) 1(1)] show ?thesis by simp
  next
    case (2 legs s1)
    with create_legs_quiet [OF assms(1) 2(1)] roll_back_quiet [OF assms(1)] show ?thesis by simp
  next
    case (3 legs s1)
    have "leg_cores s' = (leg_cores s1)(cv_name rq \<mapsto> map leg_core legs)"
      using serve_new_leg_cores [OF assms(1)] unfolding 3(3) by (simp add: leg_cores_put made_volume_def)
    with leg_cores_vols [OF create_legs_quiet [OF assms(1) 3(1)]] create_legs_made [OF 3(1)] 2(2) 3(1,2) free
    show ?thesis by (auto simp: list_all_iff)
  qed
qed

text \<open>A create looks up each node's engine as it comes to it and returns at once when the node has left the registry:
  the legs made before it are neither deleted nor recorded, unlike when an engine refuses one.\<close>

theorem create_leaves_leg:
  assumes "cv_source rq = None" and "cv_name rq \<noteq> []" and "cv_size_bytes rq \<noteq> 0"
    and "\<not> cv_encrypted rq" and "cv_qos_class rq = None" and "host_records (cv_hosts rq) [] = Inr hosts"
    and "create_plan env (sy_fed s) rq = Inr (rp, a # b # picks)" and "registered_engine env (sy_fed s) a = Some eng"
    and "call env (\<lambda>wr. create_volume wr eng (cv_name rq) (cv_size_bytes rq) (cv_extent_size_bytes rq)) s = (Inr v, s1)"
    and "bt_get (f_nodes (sy_fed s1)) b = None"
  shows "create_dist_volume env rq s = (Inl ApiNotFound, s1)"
proof -
  have "registered_engine env (sy_fed s1) b = None" using assms(10) by (simp add: registered_engine_def)
  then show ?thesis
    using assms(1-9) by (simp add: create_dist_volume_def place_volume_def bind_op_def check_op_def lift_op_def read_op_def)
qed

text \<open>The name is checked before the legs are made and not again: a volume another request records under it meanwhile is
  overwritten, its legs forgotten.\<close>

lemma create_overwrites:
  assumes "quiet env vols" and "create_legs env rq [] picks s = (Inr (legs, True), s1)" and "volume (cv_name rq) s1 = Some other"
    and "place_volume env rq hosts rp picks s = (r, s')"
  shows "leg_cores s' (cv_name rq) = Some (map leg_core legs)"
  using assms(4)
proof (cases rule: place_volume_cases)
  case (3 legs' s2)
  with assms(2) serve_new_leg_cores [OF assms(1)] show ?thesis by (simp add: leg_cores_put made_volume_def)
qed (use assms(2) in auto)

subsection \<open>What a delete leaves\<close>

definition delete_view :: "string \<Rightarrow> 'w sys \<Rightarrow> leg list option \<times> orphan list \<times> (string, node) btree" where
  "delete_view name s = (map_option all_legs (volume name s), f_orphans (sy_fed s), f_nodes (sy_fed s))"

lemma teardown_quiet:
  assumes q: "quiet env g"
  shows "g (snd (teardown env vol s)) = g s"
proof -
  have drives: "g (snd (foldl (\<lambda>(errs, s) l. case l_export l of
                   None \<Rightarrow> (errs, s)
                 | Some x \<Rightarrow>
                     (case call env (\<lambda>wr. delete_drive wr eng (drive_uri x) True) s of
                        (Inl e, s) \<Rightarrow> (errs @ [WireStep (drive_uri x) e], s)
                      | (Inr _, s) \<Rightarrow> (errs, s))) p ls)) = g (snd p)" for eng ls and p :: "wiring_error list \<times> 'a sys"
  proof (induction ls arbitrary: p)
    case (Cons l ls)
    then show ?case by (cases p) (auto dest: call_quiet_eq [OF q] split: option.split sum.split prod.split)
  qed simp
  have legs: "g (snd (foldl (\<lambda>(errs, s) l. case (l_volume_id l, l_export l, healthy_engine env fed (l_node l)) of
           (Some vid, Some _, Some eng) \<Rightarrow>
             (case call env (\<lambda>wr. detach_volume wr eng vid (master_or_local l)) s of
                (Inl e, s) \<Rightarrow> (errs @ [WireStep (l_node l) e], s)
              | (Inr _, s) \<Rightarrow> (errs, s))
         | _ \<Rightarrow> (errs, s)) p ls)) = g (snd p)" for fed ls and p :: "wiring_error list \<times> 'a sys"
  proof (induction ls arbitrary: p)
    case (Cons l ls)
    then show ?case by (cases p) (auto dest: call_quiet_eq [OF q] split: option.split sum.split prod.split)
  qed simp
  show ?thesis
    by (auto simp: teardown_def Let_def legs [simplified] drives [simplified] call_quiet [OF q] dest: call_quiet_eq [OF q] split: option.split prod.split)
qed

lemma tear_down_keeps:
  assumes "quiet env g" and "\<And>k sev n s. g (note_event env k sev n s) = g s"
  shows "keeps (\<lambda>s. g s = X) (do_op (tear_down env name vol))"
proof (rule keeps_do)
  fix s
  assume "g s = X"
  with teardown_quiet [OF assms(1), of vol s] assms(2) show "g (tear_down env name vol s) = X"
    by (cases "teardown env vol s") (simp add: tear_down_def)
qed

lemma revoke_volume_keeps:
  assumes "quiet env g" and "\<And>n x m s. g (set_export_state env n x m s) = g s"
  shows "keeps (\<lambda>s. g s = X) (revoke_volume env vol)"
proof (rule keepsI)
  fix s r s'
  assume g: "g s = X" and r: "revoke_volume env vol s = (r, s')"
  have "g (snd (revoke env vol s)) = g s"
  proof (cases "\<exists>node vid eng. x_node (v_export vol) = Some node \<and> x_volume_id (v_export vol) = Some vid \<and>
      \<not> list_ex (\<lambda>l. l_volume_id l = Some vid) (v_legs vol) \<and> healthy_engine env (sy_fed s) node = Some eng")
    case True
    then obtain node vid eng where e: "x_node (v_export vol) = Some node" "x_volume_id (v_export vol) = Some vid"
        "\<not> list_ex (\<lambda>l. l_volume_id l = Some vid) (v_legs vol)" "healthy_engine env (sy_fed s) node = Some eng" by blast
    obtain c s1 where c: "revoke_on env vol eng vid (set_export_state env (v_name vol) Revoking (Some ''delete in progress'') s) = (c, s1)"
      by fastforce
    have "g s1 = g s"
      using revoke_on_quiet [OF assms(1), of vol eng vid "set_export_state env (v_name vol) Revoking (Some ''delete in progress'') s"]
      by (simp add: c assms(2))
    with e c show ?thesis by (simp add: revoke_def assms(2) Let_def split: sum.split)
  next
    case False
    then show ?thesis by (auto simp: revoke_def split: option.split)
  qed
  with g r show "g s' = X" by (auto simp: revoke_volume_def split: prod.splits)
qed

lemma drop_bases_keeps: "quiet env g \<Longrightarrow> keeps (\<lambda>s. g s = X) (drop_bases env fed xs)"
proof (induction xs)
  case (Cons x xs)
  have "keeps (\<lambda>s. g s = X) (\<lambda>s. case drop_ship env eng x s of (r, s) \<Rightarrow> (map_sum (\<lambda>_. ApiUpstream) id r, s))" for eng
    using drop_ship_same [OF Cons.prems] by (simp add: keeps_def case_prod_beta)
  with Cons show ?case by (auto intro!: keeps_bind keeps_simple)
qed (simp add: keeps_simple)

lemma on_volume_delete_keeps:
  assumes "quiet env g" and "\<And>n s. g (backup_event env Info n (set_backups (bt_modify n orphaned_backup) s)) = g s"
  shows "keeps (\<lambda>s. g s = X) (on_volume_delete env name)"
  unfolding on_volume_delete_def
  by (intro keeps_read) (auto intro!: keeps_bind keeps_simple keeps_do drop_bases_keeps assms simp: assms(2) split: option.split)

text \<open>How a leg is accounted for: an orphan when its node is known and does not answer, else an accepted delete.\<close>

definition leg_gone :: "'w env \<Rightarrow> fed_state \<Rightarrow> string \<Rightarrow> orphan list \<Rightarrow> leg \<Rightarrow> bool" where
  "leg_gone env fed name new l \<longleftrightarrow>
     (\<forall>i. l_volume_id l = Some i \<longrightarrow> (\<exists>n. bt_get (f_nodes fed) (l_node l) = Some n \<and>
        (if ns_healthy (n_status n)
         then \<exists>s1 s2. call env (\<lambda>wr. delete_volume wr (engine_for env n) i) s1 = (Inr (), s2)
         else \<exists>x \<in> set new. o_node x = l_node l \<and> o_volume_id x = i \<and> o_of_volume x = name \<and> o_master_node x = l_master_node l)))"

lemma leg_gone_mono: "set new \<subseteq> set new' \<Longrightarrow> leg_gone env fed name new l \<Longrightarrow> leg_gone env fed name new' l"
  unfolding leg_gone_def by (metis subsetD)

lemma delete_leg_spec:
  assumes q: "quiet env (delete_view name)" and d: "delete_leg env name l s = ((new, ok), s')"
  shows "delete_view name s' = delete_view name s \<and> (ok \<longrightarrow> leg_gone env (sy_fed s) name new l) \<and>
    (\<forall>x \<in> set new. o_node x = l_node l \<and> Some (o_volume_id x) = l_volume_id l \<and> \<not> healthy_node (sy_fed s) (l_node l))"
proof (cases "l_volume_id l")
  case None
  with d show ?thesis by (auto simp: delete_leg_def leg_gone_def)
next
  case i: (Some i)
  show ?thesis
  proof (cases "bt_get (f_nodes (sy_fed s)) (l_node l)")
    case None
    with d i show ?thesis by (auto simp: delete_leg_def)
  next
    case n: (Some n)
    show ?thesis
    proof (cases "ns_healthy (n_status n)")
      case False
      with d i n show ?thesis by (auto simp: delete_leg_def leg_gone_def deleted_orphan_def healthy_node_def)
    next
      case True
      obtain c s1 where c: "call env (\<lambda>wr. delete_volume wr (engine_for env n) i) s = (c, s1)" by fastforce
      with d i n True have r: "new = []" "ok = (\<not> isl c)" "s' = s1" by (auto simp: delete_leg_def)
      have "c = Inr ()" if ok using that r(2) by (cases c) auto
      with c have "leg_gone env (sy_fed s) name new l" if ok using that i n True by (auto simp: leg_gone_def)
      with call_quiet_eq [OF q c] r show ?thesis by auto
    qed
  qed
qed

lemma delete_legs_spec:
  assumes q: "quiet env (delete_view name)"
  shows "delete_legs env name ls s = ((new, ok), s') \<Longrightarrow>
    delete_view name s' = delete_view name s \<and>
    (ok \<longrightarrow> (\<forall>l \<in> set ls. leg_gone env (sy_fed s) name new l)) \<and>
    (\<forall>x \<in> set new. \<exists>l \<in> set ls. o_node x = l_node l \<and> Some (o_volume_id x) = l_volume_id l \<and> \<not> healthy_node (sy_fed s) (l_node l))"
proof (induction ls arbitrary: new ok s)
  case Nil
  then show ?case by auto
next
  case (Cons l ls)
  obtain new1 ok1 s1 where one: "delete_leg env name l s = ((new1, ok1), s1)" by (metis prod.collapse)
  obtain new2 ok2 where rest: "delete_legs env name ls s1 = ((new2, ok2), s')" and new: "new = new1 @ new2" "ok = (ok1 \<and> ok2)"
    using Cons.prems by (auto simp: one split: prod.splits)
  note fst = delete_leg_spec [OF q one]
  then have "f_nodes (sy_fed s1) = f_nodes (sy_fed s)" by (simp add: delete_view_def)
  then have gone: "leg_gone env (sy_fed s1) name new2 x = leg_gone env (sy_fed s) name new2 x" "healthy_node (sy_fed s1) n = healthy_node (sy_fed s) n" for x n
    by (simp_all add: leg_gone_def healthy_node_def)
  note ih = Cons.IH [OF rest, unfolded gone]
  have "leg_gone env (sy_fed s) name new x" if "ok" "x \<in> set (l # ls)" for x
    using that ih fst new leg_gone_mono [of new1 new env "sy_fed s" name x] leg_gone_mono [of new2 new env "sy_fed s" name x] by auto
  moreover have "\<exists>k \<in> set (l # ls). o_node x = l_node k \<and> Some (o_volume_id x) = l_volume_id k \<and> \<not> healthy_node (sy_fed s) (l_node k)"
    if "x \<in> set new" for x
    using that ih fst new(1) by auto
  ultimately show ?case using ih fst by auto
qed

lemma set_export_state_fed:
  "sy_fed (set_export_state env n x m s) = (if volume n s = None then sy_fed s else bump (on_volume n (\<lambda>v. v\<lparr>v_export := (v_export v)
     \<lparr>x_state := x, x_message := m\<rparr>\<rparr>) (sy_fed s)))"
  by (auto simp: set_export_state_def split: option.split)

lemma all_legs_export [simp]: "all_legs (v\<lparr>v_export := x\<rparr>) = all_legs v"
  by (simp add: all_legs_def)

lemma delete_view_frame [simp]:
  "delete_view name (note_event env k sev n s) = delete_view name s"
  "delete_view name (set_backups f s) = delete_view name s"
  "delete_view name (set_export_state env n x m s) = delete_view name s"
  by (simp_all add: delete_view_def set_backups_def change_fed_def bump_def set_export_state_fed on_volume_def
      option.map_comp comp_def)

lemma delete_cases:
  assumes "delete_dist_volume env name s = (r, s')"
  obtains e where "delete_checks (sy_fed s) name = Inl e" "r = Inl e" "s' = s"
  | vol where "delete_checks (sy_fed s) name = Inr vol" "bind_op (on_volume_delete env name) (\<lambda>_.
       bind_op (revoke_volume env vol) (\<lambda>_. bind_op (do_op (tear_down env name vol)) (\<lambda>_. delete_volume_legs env name vol))) s = (r, s')"
  using assms by (cases "delete_checks (sy_fed s) name") (auto simp: delete_dist_volume_def read_op_def bind_op_def lift_op_def)

lemma delete_accounts_raw:
  assumes "quiet env (delete_view name)" and "delete_dist_volume env name s = (r, s')"
  shows "case r of
      Inl _ \<Rightarrow> delete_view name s' = delete_view name s
    | Inr _ \<Rightarrow> \<exists>vol new. volume name s = Some vol \<and> dependents_of (sy_fed s) name = [] \<and> volume name s' = None \<and>
        f_orphans (sy_fed s') = f_orphans (sy_fed s) @ new \<and> (\<forall>l \<in> set (all_legs vol). leg_gone env (sy_fed s) name new l) \<and>
        (\<forall>x \<in> set new. \<exists>l \<in> set (all_legs vol). o_node x = l_node l \<and> Some (o_volume_id x) = l_volume_id l \<and>
           \<not> healthy_node (sy_fed s) (l_node l))"
  using assms(2)
proof (cases rule: delete_cases)
  case (1 e)
  then show ?thesis by simp
next
  case (2 vol)
  let ?Q = "\<lambda>r s'. case r of
      Inl _ \<Rightarrow> delete_view name s' = delete_view name s
    | Inr _ \<Rightarrow> \<exists>new. volume name s' = None \<and>
        f_orphans (sy_fed s') = f_orphans (sy_fed s) @ new \<and> (\<forall>l \<in> set (all_legs vol). leg_gone env (sy_fed s) name new l) \<and>
        (\<forall>x \<in> set new. \<exists>l \<in> set (all_legs vol). o_node x = l_node l \<and> Some (o_volume_id x) = l_volume_id l \<and>
           \<not> healthy_node (sy_fed s) (l_node l))"
  have legs: "ensures (\<lambda>s1. delete_view name s1 = delete_view name s) (delete_volume_legs env name vol) ?Q"
  proof (rule ensuresI)
    fix s1 r' s2
    assume v: "delete_view name s1 = delete_view name s" and d: "delete_volume_legs env name vol s1 = (r', s2)"
    obtain new ok s3 where l: "delete_legs env name (all_legs vol) s1 = ((new, ok), s3)" by (metis prod.collapse)
    note spec = delete_legs_spec [OF assms(1) l]
    have fed: "leg_gone env (sy_fed s1) name new x = leg_gone env (sy_fed s) name new x" "healthy_node (sy_fed s1) n = healthy_node (sy_fed s) n" for x n
      using v by (simp_all add: delete_view_def leg_gone_def healthy_node_def)
    have "f_orphans (sy_fed s3) = f_orphans (sy_fed s)" using spec v by (simp add: delete_view_def)
    with d l spec v show "?Q r' s2"
      by (auto simp: delete_volume_legs_def commit_volume_def change_fed_def forget_volume_def bump_def fed split: if_splits)
  qed
  have "ensures (\<lambda>s1. delete_view name s1 = delete_view name s) (bind_op (on_volume_delete env name) (\<lambda>_.
       bind_op (revoke_volume env vol) (\<lambda>_. bind_op (do_op (tear_down env name vol)) (\<lambda>_. delete_volume_legs env name vol)))) ?Q"
    by (intro ensures_bind on_volume_delete_keeps revoke_volume_keeps tear_down_keeps assms(1) legs) simp_all
  from ensuresD [OF this refl 2(2)] 2(1) show ?thesis
    by (cases r) (auto simp: delete_checks_def split: option.splits if_splits)
qed

text \<open>Property C28. A delete forgets no leg. Refused or failed, whatever the engines answer, the record stays with every leg it had
  and no orphan is added. Accepted, nothing depended on the volume, its record is gone, and each leg, the new one of a
  running replacement included, had its engine volume deleted by an engine that accepted it, or its node is known and
  unreachable and one new orphan names it; there are no other orphans.\<close>

theorem delete_accounts:
  assumes "quiet env (delete_view name)" and "delete_dist_volume env name s = (r, s')"
  shows "case r of
      Inl _ \<Rightarrow> delete_view name s' = delete_view name s
    | Inr _ \<Rightarrow> \<exists>vol new. volume name s = Some vol \<and> dependents_of (sy_fed s) name = [] \<and> volume name s' = None \<and>
        f_orphans (sy_fed s') = f_orphans (sy_fed s) @ new \<and> (\<forall>l \<in> set (all_legs vol). leg_gone env (sy_fed s) name new l) \<and>
        (\<forall>x \<in> set new. \<exists>l \<in> set (all_legs vol). o_node x = l_node l \<and> Some (o_volume_id x) = l_volume_id l \<and>
           \<not> healthy_node (sy_fed s) (l_node l))"
  by (rule delete_accounts_raw [OF assms])

text \<open>A leg on a node that is unreachable becomes an orphan so that it does not block the delete, but a leg on a node
  that has left the registry (a member that left its cluster is forgotten) does: no delete of its volume ever
  succeeds while the node is unknown, and no orphan can be recorded for it.\<close>

theorem delete_blocked:
  assumes "quiet env (delete_view name)" and "volume name s = Some vol" and "l \<in> set (all_legs vol)" and "l_volume_id l = Some i"
    and "bt_get (f_nodes (sy_fed s)) (l_node l) = None"
  shows "\<exists>e s'. delete_dist_volume env name s = (Inl e, s') \<and> volume name s' \<noteq> None \<and> f_orphans (sy_fed s') = f_orphans (sy_fed s)"
proof -
  obtain r s' where d: "delete_dist_volume env name s = (r, s')" by fastforce
  from delete_accounts_raw [OF assms(1) d] assms(2-5) show ?thesis
    by (cases r) (auto simp: d leg_gone_def delete_view_def)
qed

subsection \<open>The records over a run of the API\<close>

lemma sview_frame [simp]:
  "sview (note_event env k sev n s) = sview s" "sview (commit_volume env n s) = sview s"
  "sview (set_backups f s) = sview s" "sview (set_export_state env n x m s) = sview s"
  by (simp_all add: commit_volume_def set_backups_def set_export_state_fed view_on_volume) (simp add: snap_view_def)

lemma create_ok:
  assumes q: "quiet env sview" and ok: "snaps_ok V"
  shows "ok_after V (create_dist_volume env rq)"
proof (rule ensuresI)
  fix s r s'
  assume s: "sview s = V" and c: "create_dist_volume env rq s = (r, s')"
  show "snaps_ok (sview s')"
  proof (cases "cv_source rq")
    case (Some source)
    have "ok_after V (clone_volume env (cv_name rq) (cv_size_bytes rq) source hosts)" for hosts by (rule clone_volume_ok [OF q ok])
    then have "ok_after V (create_dist_volume env rq)"
      unfolding create_dist_volume_def Some by (simp only: option.case) (intro ok_after_check ok_after_lift ok)
    with s c show ?thesis by (blast dest: ensuresD)
  next
    case None
    from c None show ?thesis
    proof (cases rule: create_cases)
      case (1 e)
      with s ok show ?thesis by simp
    next
      case (2 hosts rp picks)
      obtain vol sn gr where V: "V = (vol, sn, gr)" by (metis prod_cases3)
      have free: "vol (cv_name rq) = None" "sn (cv_name rq) = None"
        using create_plan_free [OF 2(2)] s unfolding V by (auto simp: snap_view_def)
      from 2(3) show ?thesis
      proof (cases rule: place_volume_cases)
        case (1 e)
        with create_legs_quiet [OF q 1(1)] s ok show ?thesis by simp
      next
        case (2 legs s1)
        with create_legs_quiet [OF q 2(1)] roll_back_quiet [OF q] s ok show ?thesis by simp
      next
        case (3 legs s1)
        have "sview s1 = V" using create_legs_quiet [OF q 3(1)] s by simp
        then have "sview s' = (vol(cv_name rq \<mapsto> (cv_name rq, None)), sn, gr)"
          using serve_new_view [OF q] unfolding 3(3) by (simp add: put_volume_view V made_volume_def)
        with add_volume_ok [of vol sn gr "cv_name rq" None] ok free show ?thesis unfolding V by simp
      qed
    qed
  qed
qed

lemma no_dependents:
  assumes "dependents_of fed name = []" and "snap_view fed = (vol, sn, gr)"
  shows "(\<forall>n x c. vol n = Some x \<longrightarrow> snd x = Some c \<longrightarrow> co_parent c \<noteq> name) \<and> (\<forall>n x. sn n = Some x \<longrightarrow> s_parent x \<noteq> name)"
  using assms by (auto simp: snap_view_def dependents_of_def filter_empty_conv dest!: map_of_SomeD)

lemma remove_volume_ok:
  assumes ok: "snaps_ok (vol, sn, gr)"
    and "\<forall>n x c. vol n = Some x \<longrightarrow> snd x = Some c \<longrightarrow> co_parent c \<noteq> name" and "\<forall>n x. sn n = Some x \<longrightarrow> s_parent x \<noteq> name"
  shows "snaps_ok (vol(name := None), sn, gr)"
  using assms unfolding snaps_ok_def by auto

lemma delete_ok:
  assumes q: "quiet env sview" and ok: "snaps_ok V"
  shows "ok_after V (delete_dist_volume env name)"
proof (rule ensuresI)
  fix s r s'
  assume s: "sview s = V" and d: "delete_dist_volume env name s = (r, s')"
  obtain vol sn gr where V: "V = (vol, sn, gr)" by (metis prod_cases3)
  from d show "snaps_ok (sview s')"
  proof (cases rule: delete_cases)
    case (1 e)
    with s ok show ?thesis by simp
  next
    case (2 v)
    have "dependents_of (sy_fed s) name = []" using 2(1) by (auto simp: delete_checks_def split: option.splits if_splits)
    with no_dependents [of "sy_fed s" name vol sn gr] s V remove_volume_ok ok
    have gone: "snaps_ok (vol(name := None), sn, gr)" by simp
    have legs: "ok_after V (delete_volume_legs env name v)"
    proof (rule ensuresI)
      fix s1 r1 s2
      assume s1: "sview s1 = V" and l: "delete_volume_legs env name v s1 = (r1, s2)"
      have kept: "sview s3 = V" if "delete_legs env name ls s1 = (p, s3)" for ls p s3
        using that s1
      proof (induction ls arbitrary: s1 p)
        case (Cons x ls)
        obtain p1 s4 where one: "delete_leg env name x s1 = (p1, s4)" by fastforce
        then have "sview s4 = sview s1"
          by (auto simp: delete_leg_def dest: call_quiet_eq [OF q] split: option.splits if_splits prod.splits)
        with Cons one show ?case by (auto split: prod.splits)
      qed simp
      have gone3: "sview (change_fed (forget_volume name os) s3) = (vol(name := None), sn, gr)" if "sview s3 = V" for os s3
        using that unfolding V change_view by (auto simp: snap_view_def forget_volume_def fun_eq_iff)
      obtain new okk s3 where d: "delete_legs env name (all_legs v) s1 = ((new, okk), s3)" by (metis prod.collapse)
      note v3 = kept [OF d]
      show "snaps_ok (sview s2)"
        using l gone ok v3 gone3 [OF v3, of new] by (cases okk) (auto simp: delete_volume_legs_def d)
    qed
    have "ok_after V (bind_op (on_volume_delete env name) (\<lambda>_.
       bind_op (revoke_volume env v) (\<lambda>_. bind_op (do_op (tear_down env name v)) (\<lambda>_. delete_volume_legs env name v))))"
      by (intro ok_after_bind ok on_volume_delete_keeps revoke_volume_keeps tear_down_keeps q legs) simp_all
    from ensuresD [OF this s 2(2)] show ?thesis .
  qed
qed

lemma restore_ok:
  assumes q: "quiet env sview" and ok: "snaps_ok V"
  shows "ok_after V (restore_point env from_volume point name)"
  unfolding restore_point_def
proof (intro ok_after_read ok_after_lift ok, goal_cases)
  case (1 s x)
  obtain b node eng where x: "x = (b, node, eng)" by (metis prod_cases3)
  obtain vol sn gr where V: "V = (vol, sn, gr)" by (metis prod_cases3)
  have free: "vol name = None" "sn name = None"
    using 1 unfolding V by (auto simp: snap_view_def check_restore_def split: option.splits if_splits)
  then have new: "snaps_ok (vol(name \<mapsto> (name, None)), sn, gr)"
    using add_volume_ok [of vol sn gr name None] ok unfolding V by simp
  have put: "snaps_ok (sview (commit_backup env name (change_fed
      (put_volume name (restored_volume t rungs name b node vid rr master)) s1)))" if "sview s1 = V" for s1 t rungs vid rr master
    using that new by (simp add: put_volume_view V restored_volume_def)
  show ?case
    unfolding x prod.case Let_def
    by (intro ok_after_bind ok_after_read ok_after_then ok_after_do view_rules q ok put)
qed

lemma assemble_dist_ok:
  assumes q: "quiet env sview"
  shows "sview (snd (assemble_dist_volume env show name s)) = sview s"
proof -
  obtain r s1 where a: "assemble env name s = (r, s1)" by fastforce
  from assemble_view [OF q a] publish_view [OF q] show ?thesis
    by (auto simp: assemble_dist_volume_def read_op_def bind_op_def need_op_def check_op_def a split: option.split sum.split)
qed

text \<open>One request that changes volumes, snapshots, clones or groups, whatever its parameters and outcome.\<close>

inductive api_step :: "'w env \<Rightarrow> 'w sys \<Rightarrow> 'w sys \<Rightarrow> bool" for env where
  snapshots: "snap_step env s s' \<Longrightarrow> api_step env s s'"
| created: "api_step env s (snd (create_dist_volume env rq s))"
| deleted: "api_step env s (snd (delete_dist_volume env name s))"
| restored: "api_step env s (snd (restore_point env old point name s))"
| assembled: "api_step env s (snd (assemble_dist_volume env show name s))"
| published: "api_step env s (snd (publish env name s))"

inductive_cases api_stepE: "api_step env s s'"

lemma api_step_ok:
  assumes q: "quiet env sview" and ok: "snaps_ok (sview s1)" and "api_step env s1 s2"
  shows "snaps_ok (sview s2)"
proof -
  note kept = create_ok [OF q ok, THEN ok_afterD, OF refl] delete_ok [OF q ok, THEN ok_afterD, OF refl]
    restore_ok [OF q ok, THEN ok_afterD, OF refl] assemble_dist_ok [OF q] publish_view [OF q] ok
  from assms(3) show ?thesis
    by (rule api_stepE) (simp_all only: kept snap_step_ok [OF q ok])
qed

text \<open>Property C27. When no other task changes the volumes, snapshots and groups during a request's engine calls, so when the
  requests come one after the other, any run of those that make, delete, clone, restore, assemble, publish and snapshot
  volumes keeps the records consistent, whatever the engines answer and the outcome of each: volumes and snapshots share
  no name, a snapshot's and a clone's parent is on record and is no clone itself, and a group and its members name each
  other. A delete that crosses a snapshot breaks this: \<open>snapshot_outlives_volume\<close> of \<open>Snapshots\<close>.\<close>

theorem records_invariant:
  assumes "quiet env sview" and "(api_step env)\<^sup>*\<^sup>* s s'" and "snaps_ok (sview s)"
  shows "snaps_ok (sview s')"
  using assms(2,3)
proof (induction rule: rtranclp_induct)
  case (step s1 s2)
  from api_step_ok [OF assms(1) step.IH [OF step.prems] step.hyps(2)] show ?case .
qed

subsection \<open>Witnesses\<close>

definition id_answer :: response where
  "id_answer = \<lparr>rs_status = 200, rs_status_text = ''200 OK'', rs_json = Some (JObj [(''id'', JStr ''u9'')])\<rparr>"

definition wit_create :: "u32 \<Rightarrow> create_request" where
  "wit_create n =
     \<lparr>cv_name = ''new'', cv_size_bytes = 0 + 8, cv_pool = None, cv_replicas = Some n, cv_rung = Some ''host'', cv_tier = None,
      cv_bandwidth_class = None, cv_prefer_node = None, cv_hosts = [], cv_extent_size_bytes = None, cv_raid = None,
      cv_source = None, cv_encrypted = False, cv_qos_class = None\<rparr>"

definition roomy_sys :: "unit sys" where
  "roomy_sys = (small_sys single_vol)\<lparr>sy_fed := (sy_fed (small_sys single_vol))\<lparr>f_nodes :=
     map (\<lambda>n. (n, (small_node n)\<lparr>n_status := (n_status (small_node n))\<lparr>ns_total_bytes := 100, ns_free_bytes := 90\<rparr>\<rparr>)) [''a'', ''b'']\<rparr>\<rparr>"

lemma create_all_or_nothing_witness:
  "\<exists>picks legs. map l_node legs = picks \<and> list_all (\<lambda>l. l_state l = Created) legs \<and>
     leg_cores (snd (create_dist_volume (small_env id_answer) (wit_create 1) roomy_sys)) = (leg_cores roomy_sys)(''new'' \<mapsto> map leg_core legs)"
proof -
  let ?env = "small_env id_answer" and ?rq = "wit_create 1"
  have "map_sum id snd (create_plan ?env (sy_fed roomy_sys) ?rq) = Inr [''a'']" by code_simp
  then obtain rp where p: "create_plan ?env (sy_fed roomy_sys) ?rq = Inr (rp, [''a''])" by auto
  have "registered_engine ?env (sy_fed roomy_sys) ''a'' \<noteq> None" by code_simp
  then obtain eng where e: "registered_engine ?env (sy_fed roomy_sys) ''a'' = Some eng" by auto
  let ?c = "call ?env (\<lambda>wr. create_volume wr eng (cv_name ?rq) (cv_size_bytes ?rq) (cv_extent_size_bytes ?rq)) roomy_sys"
  have "\<exists>v. ?c = (Inr v, snd ?c)"
    by (simp add: call_def small_env_def create_volume_def send_def attempt_def id_answer_def body_json_def io_ok_def req_def with_body_def)
  then obtain v s1 where v: "?c = (Inr v, s1)" by blast
  have l: "create_legs ?env ?rq [] [''a''] roomy_sys = (Inr ([created_leg ''a'' v], True), s1)"
    by (simp add: e v)
  have "\<exists>s'. create_dist_volume ?env ?rq roomy_sys = (Inr (), s')"
    using p l by (simp add: create_dist_volume_def place_volume_def bind_op_def check_op_def lift_op_def read_op_def do_op_def
        wit_create_def del: create_legs.simps)
  then obtain s' where r: "create_dist_volume ?env ?rq roomy_sys = (Inr (), s')" by blast
  have c: "cv_source (wit_create 1) = None" "cv_name (wit_create 1) = ''new''" by (simp_all add: wit_create_def)
  from create_all_or_nothing [OF small_quiet c(1) r] show ?thesis by (auto simp: r c(2))
qed

text \<open>Node \<open>b\<close> leaves the registry while \<open>a\<close> makes its leg.\<close>

definition leaving_env :: "unit env" where
  "leaving_env = (small_env id_answer)\<lparr>en_others := with_fed (\<lambda>fed. fed\<lparr>f_nodes := bt_remove ''b'' (f_nodes fed)\<rparr>)\<rparr>"

lemma create_leaves_leg_witness:
  "\<exists>eng v s1. call leaving_env (\<lambda>wr. create_volume wr eng ''new'' 8 None) roomy_sys = (Inr v, s1) \<and>
     create_dist_volume leaving_env (wit_create 2) roomy_sys = (Inl ApiNotFound, s1)"
proof -
  have "map_sum id snd (create_plan leaving_env (sy_fed roomy_sys) (wit_create 2)) = Inr [''a'', ''b'']" by code_simp
  then obtain rp where p: "create_plan leaving_env (sy_fed roomy_sys) (wit_create 2) = Inr (rp, [''a'', ''b''])" by auto
  have "registered_engine leaving_env (sy_fed roomy_sys) ''a'' \<noteq> None" by code_simp
  then obtain eng where e: "registered_engine leaving_env (sy_fed roomy_sys) ''a'' = Some eng" by auto
  let ?c = "call leaving_env (\<lambda>wr. create_volume wr eng (cv_name (wit_create 2)) (cv_size_bytes (wit_create 2)) (cv_extent_size_bytes (wit_create 2))) roomy_sys"
  have "\<exists>v. ?c = (Inr v, snd ?c)"
    by (simp add: call_def leaving_env_def small_env_def create_volume_def send_def attempt_def id_answer_def body_json_def io_ok_def req_def with_body_def)
  then obtain v where v: "?c = (Inr v, snd ?c)" by blast
  have "bt_get (f_nodes (sy_fed (snd ?c))) ''b'' = None"
    by (simp add: call_def leaving_env_def with_fed_def split: prod.split)
  with create_leaves_leg [OF _ _ _ _ _ _ p e v, of "[]"] v show ?thesis by (fastforce simp: wit_create_def)
qed

lemma delete_accounts_witness:
  "\<exists>new. volume ''vol'' (snd (delete_dist_volume (small_env empty_answer) ''vol'' (small_sys single_vol))) = None \<and>
     leg_gone (small_env empty_answer) (sy_fed (small_sys single_vol)) ''vol'' new (wit_leg ''a'' ''u1'')"
proof -
  let ?d = "delete_dist_volume (small_env empty_answer) ''vol'' (small_sys single_vol)"
  have "\<not> isl (fst ?d)" by code_simp
  then obtain s' where r: "?d = (Inr (), s')" by (cases ?d; cases "fst ?d") auto
  have v: "volume ''vol'' (small_sys single_vol) = Some single_vol" and l: "wit_leg ''a'' ''u1'' \<in> set (all_legs single_vol)"
    by (simp_all add: small_sys_def single_vol_def all_legs_def)
  from delete_accounts [OF small_quiet r] v l show ?thesis by (fastforce simp: r delete_view_def)
qed

lemma delete_blocked_witness:
  "\<exists>e s'. delete_dist_volume (small_env empty_answer) ''vol'' (small_sys (single_vol\<lparr>v_legs := [wit_leg ''z'' ''u1'']\<rparr>)) = (Inl e, s') \<and>
     volume ''vol'' s' \<noteq> None"
proof -
  let ?v = "single_vol\<lparr>v_legs := [wit_leg ''z'' ''u1'']\<rparr>"
  have "volume ''vol'' (small_sys ?v) = Some ?v" "wit_leg ''z'' ''u1'' \<in> set (all_legs ?v)" "l_volume_id (wit_leg ''z'' ''u1'') = Some ''v-z''"
      "bt_get (f_nodes (sy_fed (small_sys ?v))) (l_node (wit_leg ''z'' ''u1'')) = None"
    by (simp_all add: small_sys_def all_legs_def wit_leg_def)
  moreover have "quiet (small_env empty_answer) (delete_view ''vol'')" by (simp add: delete_view_def)
  ultimately show ?thesis using delete_blocked by blast
qed

lemma records_invariant_witness:
  "snaps_ok (sview (snd (delete_dist_volume (small_env empty_answer) ''vol'' (small_sys single_vol))))"
proof (rule records_invariant [OF small_quiet])
  show "(api_step (small_env empty_answer))\<^sup>*\<^sup>* (small_sys single_vol) (snd (delete_dist_volume (small_env empty_answer) ''vol'' (small_sys single_vol)))"
    by (rule r_into_rtranclp) (rule api_step.deleted)
  show "snaps_ok (sview (small_sys single_vol))"
    by (simp add: snaps_ok_def snap_view_def small_sys_def default_fed_def single_vol_def wit_vol_def)
qed simp

end
