(* ===== verification/Credentials.thy ===== *)
theory Credentials
  imports Volumes
begin

section \<open>Credentials\<close>

text \<open>
  Models which credential is presented to which engine (\<open>src/config.rs\<close>, \<open>AppState\<close> of \<open>src/api/mod.rs\<close>) and which requests need
  the API token (\<open>src/api/auth.rs\<close>). The record \<open>machine\<close> is what the code reads of its machine: environment variables, files,
  whether an address is an IP and held here, and the host name. The reason a token is missing is a log text and left out.
\<close>

record machine =
  mc_env :: "string \<Rightarrow> string option"
  mc_file :: "string \<Rightarrow> string option"
  mc_ip :: "string \<Rightarrow> bool option"
  mc_hostname :: string

record local_config =
  lc_enabled :: bool
  lc_engine_url :: string
  lc_name :: "string option"
  lc_cluster_peers :: bool
  lc_cluster_members :: bool
  lc_token_file :: "string option"
  lc_shared_token_file :: "string option"
  lc_admin_token_file :: "string option"
  lc_tier :: "string option"

text \<open>The token and where it came from.\<close>

type_synonym found = "(string \<times> string) option"

definition blank :: "string \<Rightarrow> bool" where
  "blank s \<longleftrightarrow> trim s = []"

definition env_var :: "machine \<Rightarrow> string \<Rightarrow> string option" where
  "env_var mc k = filter_opt (\<lambda>v. \<not> blank v) (mc_env mc k)"

fun first_file :: "machine \<Rightarrow> string list \<Rightarrow> found" where
  "first_file mc [] = None"
| "first_file mc (p # ps) =
     (case mc_file mc p of
        Some x \<Rightarrow> if blank x then first_file mc ps else Some (trim x, p)
      | None \<Rightarrow> first_file mc ps)"

definition token_search :: "machine \<Rightarrow> string option \<Rightarrow> string list \<Rightarrow> found" where
  "token_search mc env_token files =
     (case env_token of Some t \<Rightarrow> Some (trim t, ''$STORMBLOCK_API_TOKEN'') | None \<Rightarrow> first_file mc files)"

definition DEFAULT_TOKEN_FILES :: "string list" where
  "DEFAULT_TOKEN_FILES = [''/etc/stormblock/api_token'', ''/var/lib/stormblock/api_token'', ''/run/stormblock/engine/api_token'']"

definition DEFAULT_KUBE_TOKEN_FILES :: "string list" where
  "DEFAULT_KUBE_TOKEN_FILES = [''/data/stormcert/node-admin.token'', ''/var/run/secrets/kubernetes.io/serviceaccount/token'']"

definition opt_list :: "'a option \<Rightarrow> 'a list" where
  "opt_list x = (case x of None \<Rightarrow> [] | Some a \<Rightarrow> [a])"

definition token_files :: "string option \<Rightarrow> string option \<Rightarrow> string list" where
  "token_files conf env_file = remdups_adj (map trim (opt_list conf @ opt_list env_file) @ DEFAULT_TOKEN_FILES)"

subsection \<open>Whether an engine is on this machine\<close>

text \<open>The text after the first \<open>://\<close> and up to the next, as \<open>split("://").nth(1)\<close>, or all of it.\<close>

fun before_scheme :: "string \<Rightarrow> string" where
  "before_scheme [] = []"
| "before_scheme (c # cs) = (if take 3 (c # cs) = ''://'' then [] else c # before_scheme cs)"

fun after_scheme :: "string \<Rightarrow> string option" where
  "after_scheme [] = None"
| "after_scheme (c # cs) = (if take 3 (c # cs) = ''://'' then Some (before_scheme (drop 3 (c # cs))) else after_scheme cs)"

definition ascii_digit :: "char \<Rightarrow> bool" where
  "ascii_digit c \<longleftrightarrow> c \<in> set ''0123456789''"

text \<open>\<open>rsplit_once(':')\<close>.\<close>

definition split_port :: "string \<Rightarrow> (string \<times> string) option" where
  "split_port s =
     (if CHR '':'' \<notin> set s then None
      else Some (rev (tl (dropWhile (\<lambda>c. c \<noteq> CHR '':'') (rev s))), rev (takeWhile (\<lambda>c. c \<noteq> CHR '':'') (rev s))))"

definition url_host :: "string \<Rightarrow> string" where
  "url_host url =
     (let hostport = takeWhile (\<lambda>c. c \<noteq> CHR ''/'' \<and> c \<noteq> CHR ''?'') (unwrap_or (after_scheme url) url) in
      if take 1 hostport = ''['' then takeWhile (\<lambda>c. c \<noteq> CHR '']'') (drop 1 hostport)
      else (case split_port hostport of
          Some (h, p) \<Rightarrow> if list_all ascii_digit p then h else hostport
        | None \<Rightarrow> hostport))"

definition is_this_machine :: "machine \<Rightarrow> string \<Rightarrow> bool" where
  "is_this_machine mc url =
     (let h = url_host url in
      if h = [] \<or> h = ''localhost'' then True
      else (case mc_ip mc h of
          Some here \<Rightarrow> here
        | None \<Rightarrow>
            (let me = trim (mc_hostname mc) in
             me \<noteq> [] \<and> (eq_ignore_case h me \<or> (CHR ''.'' \<notin> set h \<and> eq_ignore_case h (takeWhile (\<lambda>c. c \<noteq> CHR ''.'') me))))))"

subsection \<open>Tokens\<close>

definition token_for :: "machine \<Rightarrow> local_config \<Rightarrow> string \<Rightarrow> found" where
  "token_for mc lc url =
     (case token_search mc (env_var mc ''STORMBLOCK_API_TOKEN'') (opt_list (lc_shared_token_file lc)) of
        Some x \<Rightarrow> Some x
      | None \<Rightarrow>
          if \<not> is_this_machine mc url then None
          else token_search mc None (token_files (lc_token_file lc) (env_var mc ''STORMBLOCK_TOKEN_FILE'')))"

definition admin_token_for :: "machine \<Rightarrow> local_config \<Rightarrow> string \<Rightarrow> string option" where
  "admin_token_for mc lc url =
     (case env_var mc ''STORMBLOCK_ADMIN_TOKEN'' of
        Some t \<Rightarrow> Some (trim t)
      | None \<Rightarrow>
          Option.bind (lc_admin_token_file lc) (\<lambda>f.
            if \<not> is_this_machine mc url then None else map_option fst (token_search mc None [f])))"

definition kube_files :: "string option \<Rightarrow> string list" where
  "kube_files file = remdups_adj (map trim (opt_list file) @ DEFAULT_KUBE_TOKEN_FILES)"

definition kube_token :: "machine \<Rightarrow> string option \<Rightarrow> string option" where
  "kube_token mc file =
     (case env_var mc ''KUBE_TOKEN'' of
        Some t \<Rightarrow> Some (trim t)
      | None \<Rightarrow> map_option fst (token_search mc None (kube_files file)))"

text \<open>What \<open>AppState\<close> presents: the node's own token, its file, the local rule, and a cluster member's bearer.\<close>

definition engine_token_source ::
  "machine \<Rightarrow> local_config \<Rightarrow> string option \<Rightarrow> string set \<Rightarrow> node_config \<Rightarrow> found" where
  "engine_token_source mc lc kube members nc =
     (case filter_opt (\<lambda>t. t \<noteq> []) (map_option trim (nc_api_token nc)) of
        Some t \<Rightarrow> Some (t, nc_name nc @ '': api_token'')
      | None \<Rightarrow>
          (case Option.bind (nc_token_file nc) (\<lambda>f. token_search mc None [f]) of
             Some x \<Rightarrow> Some x
           | None \<Rightarrow>
               (case token_for mc lc (nc_engine_url nc) of
                  Some x \<Rightarrow> Some x
                | None \<Rightarrow>
                    if trim_end_slash (nc_engine_url nc) \<in> members
                    then map_option (\<lambda>t. (t, nc_name nc @ '': [kubernetes] bearer (cluster member)'')) (kube_token mc kube)
                    else None)))"

definition admin_credential :: "machine \<Rightarrow> local_config \<Rightarrow> string option \<Rightarrow> string \<Rightarrow> string option" where
  "admin_credential mc lc kube url = or_else (admin_token_for mc lc url) (kube_token mc kube)"

definition engine_ca :: "string option \<Rightarrow> node_config \<Rightarrow> string option" where
  "engine_ca tls_ca nc =
     or_else (filter_opt (\<lambda>p. \<not> blank p) (nc_ca_file nc)) (filter_opt (\<lambda>p. \<not> blank p) tls_ca)"

text \<open>The system model's parameters, filled in.\<close>

definition with_credentials :: "machine \<Rightarrow> local_config \<Rightarrow> string option \<Rightarrow> string set \<Rightarrow> 'w env \<Rightarrow> 'w env" where
  "with_credentials mc lc kube members env =
     env\<lparr>en_token := (\<lambda>nc. map_option fst (engine_token_source mc lc kube members nc)), en_admin := admin_credential mc lc kube\<rparr>"

subsection \<open>The API token\<close>

definition OPEN_WRITES :: "string list" where
  "OPEN_WRITES = [''/api/v1/placement/plan'', ''/api/v1/storage/register'', ''/api/v1/storage/deregister'']"

definition guarded :: "string \<Rightarrow> string \<Rightarrow> bool" where
  "guarded verb path \<longleftrightarrow> verb \<notin> {''GET'', ''HEAD'', ''OPTIONS''} \<and> path \<notin> set OPEN_WRITES"

text \<open>The comparison in constant time: the bitwise differences of all bytes, folded.\<close>

definition same_bytes :: "8 word list \<Rightarrow> 8 word list \<Rightarrow> bool" where
  "same_bytes a b \<longleftrightarrow> length a = length b \<and> foldl (\<lambda>acc (x, y). or acc (xor x y)) 0 (zip a b) = 0"

definition bytes_of :: "string \<Rightarrow> 8 word list" where
  "bytes_of s = map (\<lambda>c. of_nat (of_char c)) s"

text \<open>\<open>HeaderValue::to_str\<close>: the text of a header's bytes, if all are visible ASCII, blanks or tabs.\<close>

definition visible_byte :: "char \<Rightarrow> bool" where
  "visible_byte c \<longleftrightarrow> (32 \<le> (of_char c :: nat) \<and> (of_char c :: nat) < 127) \<or> c = CHR 0x09"

definition header_text :: "string \<Rightarrow> string option" where
  "header_text h = (if list_all visible_byte h then Some h else None)"

definition let_through :: "string \<Rightarrow> string \<Rightarrow> string \<Rightarrow> string option \<Rightarrow> bool" where
  "let_through api_token verb path header =
     (if api_token = [] \<or> \<not> guarded verb path then True
      else (case Option.bind (Option.bind header header_text) (\<lambda>h. if take 7 h = ''Bearer '' then Some (trim (drop 7 h)) else None) of
          Some t \<Rightarrow> same_bytes (bytes_of t) (bytes_of api_token)
        | None \<Rightarrow> False))"

subsection \<open>Which requests pass\<close>

lemma fold_differences:
  "foldl (\<lambda>acc (x, y). or acc (xor x y)) d ps = (0 :: 8 word) \<longleftrightarrow> d = 0 \<and> list_all (\<lambda>(x, y). x = y) ps"
proof (induction ps arbitrary: d)
  case (Cons p ps)
  have "or d (xor (fst p) (snd p)) = 0 \<longleftrightarrow> d = 0 \<and> fst p = snd p"
  proof
    assume h: "or d (xor (fst p) (snd p)) = 0"
    have "\<not> bit d n \<and> bit (fst p) n = bit (snd p) n" for n
      using arg_cong [OF h, of "\<lambda>x. bit x n"] by (auto simp: bit_or_iff bit_xor_iff)
    then show "d = 0 \<and> fst p = snd p" by (auto intro!: bit_eqI)
  qed simp
  with Cons show ?case by (simp add: case_prod_beta)
qed simp

lemma same_bytes_eq: "same_bytes a b \<longleftrightarrow> a = b"
proof -
  have "same_bytes a b \<longleftrightarrow> list_all2 (=) a b"
    by (simp only: same_bytes_def fold_differences list_all_iff list_all2_iff simp_thms)
  then show ?thesis by (simp only: list.rel_eq)
qed

lemma byte_inj: "inj (\<lambda>c. of_nat (of_char c) :: 8 word)"
proof (rule injI)
  fix c d :: char
  assume "(of_nat (of_char c) :: 8 word) = of_nat (of_char d)"
  then have "unat (of_nat (of_char c) :: 8 word) = unat (of_nat (of_char d) :: 8 word)" by (rule arg_cong)
  moreover have "unat (of_nat (of_char x) :: 8 word) = of_char x" for x :: char
    by (simp add: unat_of_nat)
  ultimately have "(of_char c :: nat) = of_char d" by (simp only:)
  then show "c = d" by (simp only: of_char_eq_iff)
qed

lemma bytes_of_eq [simp]: "bytes_of a = bytes_of b \<longleftrightarrow> a = b"
  by (simp add: bytes_of_def inj_map_eq_map [OF byte_inj])

lemma bearer_header:
  "Option.bind header (\<lambda>h. if take 7 h = ''Bearer '' then Some (trim (drop 7 h)) else None) = Some x \<longleftrightarrow>
   (\<exists>t. header = Some (''Bearer '' @ t) \<and> trim t = x)"
proof (cases header)
  case (Some h)
  have "take 7 h = ''Bearer '' \<and> trim (drop 7 h) = x \<longleftrightarrow> (\<exists>t. h = ''Bearer '' @ t \<and> trim t = x)"
  proof
    assume "take 7 h = ''Bearer '' \<and> trim (drop 7 h) = x"
    then show "\<exists>t. h = ''Bearer '' @ t \<and> trim t = x" by (metis append_take_drop_id)
  qed auto
  moreover have "(if P then Some y else None) = Some x \<longleftrightarrow> P \<and> y = x" for P and y :: string by simp
  ultimately show ?thesis unfolding Some by (simp only: bind.simps option.inject)
qed simp

lemma header_bearer: "Option.bind header header_text = Some (''Bearer '' @ t) \<longleftrightarrow> header = Some (''Bearer '' @ t) \<and> list_all visible_byte t"
proof -
  have b: "list_all visible_byte ''Bearer ''" by (simp add: visible_byte_def)
  have "header_text h = Some x \<longleftrightarrow> h = x \<and> list_all visible_byte x" for h x by (auto simp: header_text_def)
  with b show ?thesis by (cases header) (simp_all only: bind.simps option.inject option.distinct list_all_append simp_thms)
qed

text \<open>Property C19. With an API token set, a request that may change state goes through exactly when its header is \<open>Bearer\<close> and that
  token, in visible ASCII and with white space around it at most; reads, the dry run of a placement and the nodes' own registration go
  through without one, and everything does when no token is set. The comparison that reads every byte is equality.\<close>

theorem auth_exact:
  "let_through api_token verb path header \<longleftrightarrow>
   api_token = [] \<or> verb \<in> {''GET'', ''HEAD'', ''OPTIONS''} \<or> path \<in> set OPEN_WRITES \<or>
   (\<exists>t. header = Some (''Bearer '' @ t) \<and> list_all visible_byte t \<and> trim t = api_token)"
proof (cases "api_token = [] \<or> \<not> guarded verb path")
  case True
  then show ?thesis by (auto simp: let_through_def guarded_def)
next
  case False
  then have "let_through api_token verb path header \<longleftrightarrow>
      Option.bind (Option.bind header header_text) (\<lambda>h. if take 7 h = ''Bearer '' then Some (trim (drop 7 h)) else None) = Some api_token"
    unfolding let_through_def same_bytes_eq bytes_of_eq by (simp split: option.split)
  with False show ?thesis unfolding bearer_header guarded_def header_bearer by blast
qed

subsection \<open>Which engine sees which credential\<close>

lemma first_file_cong:
  "\<forall>f \<in> set fs. g f = mc_file mc f \<Longrightarrow> first_file (mc\<lparr>mc_file := g\<rparr>) fs = first_file mc fs"
  by (induction fs) (simp_all split: option.split)

lemma token_search_cong:
  "\<forall>f \<in> set fs. g f = mc_file mc f \<Longrightarrow> token_search (mc\<lparr>mc_file := g\<rparr>) e fs = token_search mc e fs"
  by (simp add: token_search_def first_file_cong split: option.split)

lemma opt_list_simps [simp]: "opt_list None = []" "opt_list (Some x) = [x]"
  by (simp_all add: opt_list_def)

lemma files_irrelevant [simp]:
  "env_var (mc\<lparr>mc_file := g\<rparr>) k = env_var mc k"
  "is_this_machine (mc\<lparr>mc_file := g\<rparr>) url = is_this_machine mc url"
  by (simp_all add: env_var_def is_this_machine_def Let_def cong: option.case_cong)

text \<open>Property C18. What this machine's engine minted for itself never reaches another machine: the token and the admin credential
  presented to an engine elsewhere stay the same whatever the files of this machine hold, those of the node's own
  token, the shared token and the apiserver's bearer apart.\<close>

theorem minted_token_stays_home:
  assumes "\<not> is_this_machine mc (nc_engine_url nc)"
    and "\<forall>f \<in> set (opt_list (nc_token_file nc) @ opt_list (lc_shared_token_file lc) @ kube_files kube). g f = mc_file mc f"
  shows "engine_token_source (mc\<lparr>mc_file := g\<rparr>) lc kube members nc = engine_token_source mc lc kube members nc \<and>
    admin_credential (mc\<lparr>mc_file := g\<rparr>) lc kube (nc_engine_url nc) = admin_credential mc lc kube (nc_engine_url nc)"
proof -
  have kube: "kube_token (mc\<lparr>mc_file := g\<rparr>) kube = kube_token mc kube"
    unfolding kube_token_def files_irrelevant using assms(2) by (subst token_search_cong) auto
  have shared: "token_for (mc\<lparr>mc_file := g\<rparr>) lc (nc_engine_url nc) = token_for mc lc (nc_engine_url nc)"
    unfolding token_for_def files_irrelevant using assms by (subst token_search_cong) (auto split: option.split)
  have own: "Option.bind (nc_token_file nc) (\<lambda>f. token_search (mc\<lparr>mc_file := g\<rparr>) None [f]) =
      Option.bind (nc_token_file nc) (\<lambda>f. token_search mc None [f])"
    using assms(2) by (cases "nc_token_file nc") (simp_all add: token_search_cong)
  have admin: "admin_token_for (mc\<lparr>mc_file := g\<rparr>) lc (nc_engine_url nc) = admin_token_for mc lc (nc_engine_url nc)"
    using assms(1) by (cases "lc_admin_token_file lc"; cases "env_var mc ''STORMBLOCK_ADMIN_TOKEN''") (simp_all add: admin_token_for_def)
  show ?thesis
    unfolding engine_token_source_def admin_credential_def kube shared own admin by simp
qed

lemma trim_head: "trim x \<noteq> [] \<Longrightarrow> \<not> list_all ascii_whitespace (trim x)"
proof
  define y where "y = dropWhile ascii_whitespace (rev (dropWhile ascii_whitespace x))"
  have e: "trim x = rev y" by (simp only: trim_def y_def)
  assume "trim x \<noteq> []" and "list_all ascii_whitespace (trim x)"
  then have "y \<noteq> []" "list_all ascii_whitespace y" unfolding e by (simp_all only: list_all_rev rev_is_Nil_conv not_False_eq_True)
  then show False by (metis hd_dropWhile hd_in_set list_all_iff y_def)
qed

lemma first_file_trimmed: "first_file mc fs = Some (t, w) \<Longrightarrow> t \<noteq> [] \<and> \<not> list_all ascii_whitespace t"
  by (induction fs) (auto simp: blank_def trim_head split: option.splits if_splits)

lemma kube_token_text: "kube_token mc kube = Some t \<Longrightarrow> t \<noteq> [] \<and> \<not> list_all ascii_whitespace t"
  by (auto simp: kube_token_def env_var_def filter_opt_def blank_def token_search_def trim_head
      dest: first_file_trimmed split: option.splits if_splits)

text \<open>A node that only announced itself over the open registration gets the bearer of the apiserver: the destructive
  calls to its URL carry it, whoever registered that URL and whoever the cluster's members are.\<close>

theorem announced_gets_bearer:
  assumes "bt_get (f_nodes (sy_fed s)) h = None" and "\<not> is_this_machine mc (engine_url_from addr scheme)"
    and "env_var mc ''STORMBLOCK_ADMIN_TOKEN'' = None" and "kube_token mc kube = Some t"
  shows "\<exists>n. bt_get (f_nodes (sy_fed (register_node (with_credentials mc lc kube members env) scheme addr h n_vols s))) h = Some n \<and>
    admin_req (engine_for (with_credentials mc lc kube members env) n) m path =
      \<lparr>rq_method = m, rq_url = trim_end_slash (engine_url_from addr scheme) @ path, rq_auth = Some t, rq_query = [], rq_body = None\<rparr>"
proof -
  have "admin_credential mc lc kube (engine_url_from addr scheme) = Some t"
    using assms(2-4) by (cases "lc_admin_token_file lc") (simp_all add: admin_credential_def admin_token_for_def or_else_def)
  with kube_token_text [OF assms(4)] assms(1) show ?thesis
    by (simp add: register_node_def Let_def announced_def announced_node_def new_status_def engine_for_def with_credentials_def
        with_admin_def new_engine_def admin_req_def bearer_def filter_opt_def)
qed

subsection \<open>Witnesses\<close>

text \<open>A machine \<open>m1\<close> with a minted token and a bearer.\<close>

definition wit_machine :: machine where
  "wit_machine =
     \<lparr>mc_env = (\<lambda>_. None),
      mc_file = [''/etc/stormblock/api_token'' \<mapsto> ''minted'', ''/data/stormcert/node-admin.token'' \<mapsto> ''bearer''],
      mc_ip = (\<lambda>_. None), mc_hostname = ''m1''\<rparr>"

definition wit_local :: local_config where
  "wit_local =
     \<lparr>lc_enabled = True, lc_engine_url = ''http://localhost'', lc_name = None, lc_cluster_peers = True, lc_cluster_members = True,
      lc_token_file = None, lc_shared_token_file = None, lc_admin_token_file = None, lc_tier = None\<rparr>"

lemma minted_token_stays_home_witness:
  "engine_token_source (wit_machine\<lparr>mc_file := (mc_file wit_machine)(''/etc/stormblock/api_token'' := Some ''new'')\<rparr>) wit_local None {}
     (n_config (announced_node ''m2'' ''http://m2:9090'')) =
   engine_token_source wit_machine wit_local None {} (n_config (announced_node ''m2'' ''http://m2:9090''))"
proof -
  have "\<not> is_this_machine wit_machine (nc_engine_url (n_config (announced_node ''m2'' ''http://m2:9090'')))" by code_simp
  moreover have "\<forall>f \<in> set (opt_list (nc_token_file (n_config (announced_node ''m2'' ''http://m2:9090''))) @
      opt_list (lc_shared_token_file wit_local) @ kube_files None).
      ((mc_file wit_machine)(''/etc/stormblock/api_token'' := Some ''new'')) f = mc_file wit_machine f"
    by (simp add: announced_node_def wit_local_def kube_files_def DEFAULT_KUBE_TOKEN_FILES_def)
  ultimately show ?thesis by (rule minted_token_stays_home [THEN conjunct1])
qed

lemma announced_gets_bearer_witness:
  "\<exists>n. bt_get (f_nodes (sy_fed (register_node (with_credentials wit_machine wit_local None {} (small_env empty_answer))
       ''http'' ''m2'' ''m2'' 0 (small_sys single_vol)))) ''m2'' = Some n \<and>
     rq_auth (admin_req (engine_for (with_credentials wit_machine wit_local None {} (small_env empty_answer)) n) DELETE ''/v1'') = Some ''bearer''"
proof -
  have new: "bt_get (f_nodes (sy_fed (small_sys single_vol))) ''m2'' = None" by (simp add: small_sys_def)
  have away: "\<not> is_this_machine wit_machine (engine_url_from ''m2'' ''http'')" by code_simp
  have none: "env_var wit_machine ''STORMBLOCK_ADMIN_TOKEN'' = None" by (simp add: wit_machine_def env_var_def filter_opt_def)
  have token: "kube_token wit_machine None = Some ''bearer''" by code_simp
  from announced_gets_bearer [OF new away none token, where lc = wit_local and members = "{}" and env = "small_env empty_answer"
      and n_vols = 0 and m = DELETE and path = "''/v1''"]
  show ?thesis by (elim exE conjE) (rule exI, rule conjI, assumption, simp)
qed

end
