(* ===== verification/Expand.thy ===== *)
theory Expand
  imports Assemble Backup
begin

section \<open>Expanding a volume\<close>

text \<open>
  Models \<open>src/expand.rs\<close>. The target is recorded first (\<open>v_expanding\<close>), then every leg grows on its own engine, then the
  head's array, then the served volume, then the record; each step only grows, so that a retry resumes. Refusals are
  cases in place of texts, and how one prints into the record is the parameter \<open>show\<close>.
\<close>

datatype expand_conflict =
    GrowsOnly | ExFenced | ExReplacing | ExWindow | ExMigrating | ExDeleting | ExServedGone | ExDegraded | ExUnassembled
  | ExParentGone | ExBeyondParent string u64 | ExLegState string leg_state | ExNotAnswering string | ExNotRegistered string
  | ExNoHeadArray | ExSlabShort string | ExArrayNotGrown engine_error | ExBusy

datatype expand_upstream =
    LegNotGrown string engine_error | ArrayUnread string engine_error | ArrayGrowFailed string engine_error
  | ServedNotGrown string engine_error | ServedUnread string engine_error | ServedTooSmall string u64

datatype expand_refusal = ExNotFound string | ExConflict expand_conflict | ExUpstream expand_upstream

type_synonym ('w, 'a) expand_op = "('w, expand_refusal, 'a) op"

text \<open>The served volume: node, engine, id, engine-side name, adopted.\<close>

record expand_plan =
  xp_expansion :: expansion
  xp_legs :: "(string \<times> engine \<times> string) list"
  xp_head :: "(string \<times> engine \<times> string) option"
  xp_served :: "(string \<times> engine \<times> string \<times> string \<times> bool) option"

subsection \<open>Whether it may grow\<close>

definition refuse_clone :: "fed_state \<Rightarrow> dist_volume \<Rightarrow> u64 \<Rightarrow> expand_conflict option" where
  "refuse_clone fed vol to =
     (case filter_opt (\<lambda>p. v_clone_of p = None) (parent_of fed vol) of
        None \<Rightarrow> Some ExParentGone
      | Some p \<Rightarrow> if v_size_bytes p < to then Some (ExBeyondParent (v_name p) (v_size_bytes p)) else None)"

definition refuse_legs :: "fed_state \<Rightarrow> dist_volume \<Rightarrow> expand_conflict option" where
  "refuse_legs fed vol =
     (case find (\<lambda>l. l_state l \<noteq> Created \<or> l_volume_id l = None) (v_legs vol) of
        Some l \<Rightarrow> Some (ExLegState (l_node l) (l_state l))
      | None \<Rightarrow>
          map_option ExNotAnswering (find (\<lambda>n. \<not> healthy_node fed n)
            (map l_node (v_legs vol) @ (case v_head vol of None \<Rightarrow> [] | Some h \<Rightarrow> [h]))))"

definition refuse_expand :: "fed_state \<Rightarrow> dist_volume \<Rightarrow> u64 \<Rightarrow> expand_conflict option" where
  "refuse_expand fed vol to =
     (if to < v_size_bytes vol then Some GrowsOnly
      else if v_fenced vol then Some ExFenced
      else if v_replacing vol \<noteq> None then Some ExReplacing
      else if v_dual_attach vol \<noteq> None then Some ExWindow
      else if v_migration vol \<noteq> None then Some ExMigrating
      else if x_state (v_export vol) = Revoking then Some ExDeleting
      else if x_gone (v_export vol) then Some ExServedGone
      else (case v_assembly vol of
          Degraded \<Rightarrow> Some ExDegraded
        | PendingEngineSupport \<Rightarrow> Some ExUnassembled
        | Clone \<Rightarrow> refuse_clone fed vol to
        | _ \<Rightarrow> refuse_legs fed vol))"

subsection \<open>What one try works on\<close>

definition expand_engine :: "'w env \<Rightarrow> fed_state \<Rightarrow> string \<Rightarrow> expand_refusal + engine" where
  "expand_engine env fed n =
     (case registered_engine env fed n of None \<Rightarrow> Inl (ExConflict (ExNotRegistered n)) | Some e \<Rightarrow> Inr e)"

definition legs_to_grow :: "'w env \<Rightarrow> fed_state \<Rightarrow> dist_volume \<Rightarrow> expand_refusal + (string \<times> engine \<times> string) list" where
  "legs_to_grow env fed vol =
     collect_results (map (\<lambda>l. map_sum id (\<lambda>e. (l_node l, e, unwrap_or (l_volume_id l) [])) (expand_engine env fed (l_node l))) (v_legs vol))"

definition head_to_grow :: "'w env \<Rightarrow> fed_state \<Rightarrow> dist_volume \<Rightarrow> expand_refusal + (string \<times> engine \<times> string) option" where
  "head_to_grow env fed vol =
     (if v_assembly vol \<noteq> Assembled then Inr None
      else (case (v_head vol, v_array_id vol) of
          (Some h, Some a) \<Rightarrow> map_sum id (\<lambda>e. Some (h, e, a)) (expand_engine env fed h)
        | _ \<Rightarrow> Inl (ExConflict ExNoHeadArray)))"

definition served_to_grow ::
  "'w env \<Rightarrow> fed_state \<Rightarrow> dist_volume \<Rightarrow> expand_refusal + (string \<times> engine \<times> string \<times> string \<times> bool) option" where
  "served_to_grow env fed vol =
     (case (x_node (v_export vol), x_volume_id (v_export vol)) of
        (Some n, Some i) \<Rightarrow>
          map_sum id (\<lambda>e. Some (n, e, i, unwrap_or (x_local_id (v_export vol)) (served_name vol), x_adopted (v_export vol)))
            (expand_engine env fed n)
      | _ \<Rightarrow> Inr None)"

text \<open>A smaller target than the one in flight is raised to it.\<close>

definition expand_target :: "dist_volume \<Rightarrow> u64 \<Rightarrow> u64" where
  "expand_target vol to = (case v_expanding vol of None \<Rightarrow> to | Some x \<Rightarrow> max to (ex_to_bytes x))"

definition expanding_to :: "time \<Rightarrow> u64 \<Rightarrow> dist_volume \<Rightarrow> expansion" where
  "expanding_to t to vol =
     (case v_expanding vol of
        Some x \<Rightarrow> x\<lparr>ex_to_bytes := to, ex_message := None\<rparr>
      | None \<Rightarrow> \<lparr>ex_to_bytes = to, ex_started_at = t, ex_array_bytes_before = None, ex_array_grown = False,
                 ex_slab_short = None, ex_message = None\<rparr>)"

definition expand_checks ::
  "'w env \<Rightarrow> fed_state \<Rightarrow> time \<Rightarrow> dist_volume \<Rightarrow> u64 \<Rightarrow> expand_refusal + expand_plan" where
  "expand_checks env fed t vol to =
     (case refuse_expand fed vol to of
        Some c \<Rightarrow> Inl (ExConflict c)
      | None \<Rightarrow>
          (case legs_to_grow env fed vol of
             Inl e \<Rightarrow> Inl e
           | Inr legs \<Rightarrow>
               (case head_to_grow env fed vol of
                  Inl e \<Rightarrow> Inl e
                | Inr head \<Rightarrow>
                    map_sum id (\<lambda>served. \<lparr>xp_expansion = expanding_to t to vol, xp_legs = legs, xp_head = head, xp_served = served\<rparr>)
                      (served_to_grow env fed vol))))"

text \<open>Everything under the write lock: \<open>None\<close> when there is nothing to do.\<close>

definition begin_expand :: "'w env \<Rightarrow> string \<Rightarrow> u64 \<Rightarrow> ('w, expand_plan option) expand_op" where
  "begin_expand env name to =
     read_op (\<lambda>s. bind_op (need_op (ExNotFound name) (volume name s)) (\<lambda>vol.
       if expand_target vol to = v_size_bytes vol \<and> v_expanding vol = None then ok_op None
       else bind_op (lift_op (expand_checks env (sy_fed s) (now env s) vol (expand_target vol to))) (\<lambda>p.
         bind_op (do_op (change_fed (on_volume name (\<lambda>v. v\<lparr>v_expanding := Some (xp_expansion p)\<rparr>)))) (\<lambda>_. ok_op (Some p)))))"

subsection \<open>The steps\<close>

definition note_expansion :: "'w env \<Rightarrow> string \<Rightarrow> (expansion \<Rightarrow> expansion) \<Rightarrow> 'w sys \<Rightarrow> 'w sys" where
  "note_expansion env name f s =
     (if Option.bind (volume name s) v_expanding = None then s
      else persist env (change_fed (on_volume name (\<lambda>v. v\<lparr>v_expanding := map_option f (v_expanding v)\<rparr>)) s))"

fun grow_legs :: "'w env \<Rightarrow> u64 \<Rightarrow> (string \<times> engine \<times> string) list \<Rightarrow> ('w, unit) expand_op" where
  "grow_legs env to [] = ok_op ()"
| "grow_legs env to ((n, e, i) # ls) =
     bind_op (call_op env (\<lambda>x. ExUpstream (LegNotGrown n x)) (\<lambda>wr. expand_v1 wr e i to)) (\<lambda>_. grow_legs env to ls)"

definition array_bytes :: "'w wire \<Rightarrow> engine \<Rightarrow> string \<Rightarrow> ('w, u64) io" where
  "array_bytes wr e a =
     attempt (get_raid_array wr e a) (\<lambda>v. ok_or (get_u64 ''capacity_bytes'' v) (BailJson (''array '' @ a @ '': no capacity_bytes in '') v))"

definition bytes_before :: "'w env \<Rightarrow> string \<Rightarrow> string \<Rightarrow> engine \<Rightarrow> string \<Rightarrow> expansion \<Rightarrow> ('w, u64) expand_op" where
  "bytes_before env name n e a x =
     (case ex_array_bytes_before x of
        Some b \<Rightarrow> ok_op b
      | None \<Rightarrow>
          bind_op (call_op env (\<lambda>x. ExUpstream (ArrayUnread n x)) (\<lambda>wr. array_bytes wr e a)) (\<lambda>b.
          bind_op (do_op (note_expansion env name (\<lambda>x. x\<lparr>ex_array_bytes_before := Some b\<rparr>))) (\<lambda>_. ok_op b)))"

text \<open>A conflict may be a growth whose answer was lost: the array is larger than before then.\<close>

definition ask_array :: "'w env \<Rightarrow> string \<Rightarrow> engine \<Rightarrow> string \<Rightarrow> u64 \<Rightarrow> ('w, string option) expand_op" where
  "ask_array env n e a b4 s =
     (case call env (\<lambda>wr. Engine.grow_array wr e a) s of
        (Inr r, s) \<Rightarrow> (Inr (get_str ''slab_short'' r), s)
      | (Inl err, s) \<Rightarrow>
          if status_of err = Some 409
          then (case call env (\<lambda>wr. array_bytes wr e a) s of
              (r, s) \<Rightarrow>
                if (case r of Inl _ \<Rightarrow> b4 | Inr b \<Rightarrow> b) \<le> b4 then (Inl (ExConflict (ExArrayNotGrown err)), s) else (Inr None, s))
          else (Inl (ExUpstream (ArrayGrowFailed n err)), s))"

definition grow_head :: "'w env \<Rightarrow> string \<Rightarrow> expansion \<Rightarrow> (string \<times> engine \<times> string) option \<Rightarrow> ('w, unit) expand_op" where
  "grow_head env name x head =
     (case head of
        None \<Rightarrow> ok_op ()
      | Some (n, e, a) \<Rightarrow>
          if ex_array_grown x then ok_op ()
          else
            bind_op (bytes_before env name n e a x) (\<lambda>b.
            bind_op (ask_array env n e a b) (\<lambda>short.
            bind_op (do_op (note_expansion env name (\<lambda>x. x\<lparr>ex_array_grown := True, ex_slab_short := short\<rparr>))) (\<lambda>_.
              case short of
                None \<Rightarrow> ok_op ()
              | Some t \<Rightarrow>
                  bind_op (do_op (note_event env ''expand'' Error name)) (\<lambda>_. err_op (ExConflict (ExSlabShort t)))))))"

definition grow_served ::
  "'w env \<Rightarrow> u64 \<Rightarrow> (string \<times> engine \<times> string \<times> string \<times> bool) option \<Rightarrow> ('w, unit) expand_op" where
  "grow_served env to served =
     (case served of
        None \<Rightarrow> ok_op ()
      | Some (n, e, i, engine_name, adopted) \<Rightarrow>
          bind_op (call_op env (\<lambda>x. ExUpstream (ServedNotGrown n x)) (\<lambda>wr. if adopted then resize_any wr e i to else expand_v1 wr e i to)) (\<lambda>_.
          bind_op (call_op env (\<lambda>x. ExUpstream (ServedUnread n x)) (\<lambda>wr. served_size wr e engine_name)) (\<lambda>size.
            check_op (to \<le> size) (ExUpstream (ServedTooSmall n size)))))"

definition finish_expand :: "'w env \<Rightarrow> string \<Rightarrow> u64 \<Rightarrow> ('w, unit) expand_op" where
  "finish_expand env name to =
     read_op (\<lambda>s. bind_op (check_op (volume name s \<noteq> None) (ExNotFound name)) (\<lambda>_.
       do_op (\<lambda>s. note_event env ''expand'' Info name (publish_state env
         (change_fed (on_volume name (\<lambda>v. v\<lparr>v_size_bytes := to, v_expanding := None\<rparr>)) s)))))"

definition run_expand :: "'w env \<Rightarrow> string \<Rightarrow> expand_plan \<Rightarrow> ('w, unit) expand_op" where
  "run_expand env name p =
     bind_op (do_op (publish_state env)) (\<lambda>_.
       case ex_slab_short (xp_expansion p) of
         Some t \<Rightarrow> err_op (ExConflict (ExSlabShort t))
       | None \<Rightarrow>
           bind_op (grow_legs env (ex_to_bytes (xp_expansion p)) (xp_legs p)) (\<lambda>_.
           bind_op (grow_head env name (xp_expansion p) (xp_head p)) (\<lambda>_.
           bind_op (grow_served env (ex_to_bytes (xp_expansion p)) (xp_served p)) (\<lambda>_.
             finish_expand env name (ex_to_bytes (xp_expansion p))))))"

definition expand_claimed :: "'w env \<Rightarrow> string \<Rightarrow> u64 \<Rightarrow> ('w, unit) expand_op" where
  "expand_claimed env name to =
     bind_op (begin_expand env name to) (\<lambda>p. case p of None \<Rightarrow> ok_op () | Some p \<Rightarrow> run_expand env name p)"

text \<open>The message of a failed try is kept on the expansion, when there is one.\<close>

definition note_failed :: "'w env \<Rightarrow> string \<Rightarrow> string \<Rightarrow> 'w sys \<Rightarrow> 'w sys" where
  "note_failed env name msg s =
     persist env (if Option.bind (volume name s) v_expanding = None then s
       else change_fed (on_volume name (\<lambda>v. v\<lparr>v_expanding := map_option (\<lambda>x. x\<lparr>ex_message := Some msg\<rparr>) (v_expanding v)\<rparr>)) s)"

definition expand :: "'w env \<Rightarrow> (expand_refusal \<Rightarrow> string) \<Rightarrow> string \<Rightarrow> u64 \<Rightarrow> ('w, unit) expand_op" where
  "expand env show name to s =
     (case claim name s of
        (False, s) \<Rightarrow> (Inl (ExConflict ExBusy), s)
      | (True, s) \<Rightarrow>
          (case expand_claimed env name to s of
             (Inr _, s) \<Rightarrow> (Inr (), release name s)
           | (Inl e, s) \<Rightarrow> (Inl e, note_failed env name (show e) (release name s))))"

subsection \<open>What a try leaves of the record\<close>

text \<open>The volumes but for what an expansion notes, and the expansion of one.\<close>

definition bare :: "'w sys \<Rightarrow> string \<Rightarrow> dist_volume option" where
  "bare s n = map_option (\<lambda>v. v\<lparr>v_expanding := None\<rparr>) (volume n s)"

abbreviation expansion_of :: "string \<Rightarrow> 'w sys \<Rightarrow> expansion option" where
  "expansion_of name s \<equiv> Option.bind (volume name s) v_expanding"

text \<open>The expansion in flight goes on: its target does not shrink and a grown array stays so.\<close>

definition goes_on :: "expansion option \<Rightarrow> expansion option \<Rightarrow> bool" where
  "goes_on o1 o2 =
     (case o1 of
        None \<Rightarrow> True
      | Some x \<Rightarrow> is_some_and o2 (\<lambda>y. ex_to_bytes x \<le> ex_to_bytes y \<and> (ex_array_grown x \<longrightarrow> ex_array_grown y)))"

lemma goes_on_refl [simp]: "goes_on o1 o1"
  by (simp add: goes_on_def split: option.split)

lemma goes_on_map:
  "goes_on o1 o2 \<Longrightarrow> (\<And>x. ex_to_bytes (f x) = ex_to_bytes x \<and> (ex_array_grown x \<longrightarrow> ex_array_grown (f x))) \<Longrightarrow> goes_on o1 (map_option f o2)"
  by (cases o1; cases o2) (auto simp: goes_on_def)

text \<open>What every step before the last keeps: the bare volumes, and that the expansion goes on.\<close>

definition kept :: "string \<Rightarrow> (string \<Rightarrow> dist_volume option) \<Rightarrow> expansion option \<Rightarrow> 'w sys \<Rightarrow> bool" where
  "kept name B x s \<longleftrightarrow> bare s = B \<and> goes_on x (expansion_of name s)"

lemma kept_self [simp]: "kept name (bare s) (expansion_of name s) s"
  by (simp add: kept_def)

abbreviation vmap :: "'w sys \<Rightarrow> (string, dist_volume) btree" where
  "vmap s \<equiv> f_volumes (sy_fed s)"

lemma kept_cong: "vmap s' = vmap s \<Longrightarrow> kept name B x s' = kept name B x s"
  by (simp add: kept_def bare_def fun_eq_iff)

lemma kept_expanding:
  assumes "kept name B x s" and "goes_on x (Option.bind (volume name s) (\<lambda>v. f (v_expanding v)))"
  shows "kept name B x (change_fed (on_volume name (\<lambda>v. v\<lparr>v_expanding := f (v_expanding v)\<rparr>)) s)"
proof -
  let ?s = "change_fed (on_volume name (\<lambda>v. v\<lparr>v_expanding := f (v_expanding v)\<rparr>)) s"
  have v: "volume n ?s = (if n = name then map_option (\<lambda>v. v\<lparr>v_expanding := f (v_expanding v)\<rparr>) (volume n s) else volume n s)" for n
    by (simp add: change_fed_def on_volume_def bt_get_modify)
  have "bare ?s = bare s" by (auto simp: bare_def v fun_eq_iff option.map_comp comp_def)
  moreover have "expansion_of name ?s = Option.bind (volume name s) (\<lambda>v. f (v_expanding v))"
    unfolding v by (cases "volume name s") simp_all
  ultimately show ?thesis using assms by (simp add: kept_def)
qed

lemma kept_note:
  assumes "kept name B x s" and "\<And>y. ex_to_bytes (f y) = ex_to_bytes y \<and> (ex_array_grown y \<longrightarrow> ex_array_grown (f y))"
  shows "kept name B x (note_expansion env name f s)"
proof (cases "expansion_of name s")
  case None
  with assms show ?thesis by (simp add: note_expansion_def)
next
  case (Some y)
  have "kept name B x (change_fed (on_volume name (\<lambda>v. v\<lparr>v_expanding := map_option f (v_expanding v)\<rparr>)) s)"
  proof (rule kept_expanding [OF assms(1)])
    have "Option.bind (volume name s) (\<lambda>v. map_option f (v_expanding v)) = map_option f (expansion_of name s)"
      by (cases "volume name s") simp_all
    with goes_on_map [of x "expansion_of name s" f] assms
    show "goes_on x (Option.bind (volume name s) (\<lambda>v. map_option f (v_expanding v)))" by (simp add: kept_def)
  qed
  with Some show ?thesis by (simp add: note_expansion_def kept_cong [of "persist env _"])
qed


lemma kept_call: "quiet env vmap \<Longrightarrow> call env m s = (r, s') \<Longrightarrow> kept name B x s \<Longrightarrow> kept name B x s'"
proof -
  assume "quiet env vmap" and "call env m s = (r, s')" and k: "kept name B x s"
  then have "vmap s' = vmap s" using call_quiet_eq [of env vmap m s r s'] by simp
  with k show "kept name B x s'" by (simp add: kept_cong [of s' s])
qed

lemma call_kept: "quiet env vmap \<Longrightarrow> keeps (kept name B x) (call_op env wrap m)"
  by (auto simp: keeps_def call_op_def intro: kept_call split: prod.split)

lemma event_kept: "keeps (kept name B x) (do_op (note_event env k sev n))"
  by (simp add: keeps_do kept_cong [of "note_event env k sev n _"])

lemma note_kept:
  "(\<And>y. ex_to_bytes (f y) = ex_to_bytes y \<and> (ex_array_grown y \<longrightarrow> ex_array_grown (f y))) \<Longrightarrow>
   keeps (kept name B x) (do_op (note_expansion env name f))"
  by (simp add: keeps_do kept_note)

lemma grow_legs_kept: "quiet env vmap \<Longrightarrow> keeps (kept name B x) (grow_legs env to ls)"
  by (induction ls rule: grow_legs.induct) (auto intro!: keeps_rules call_kept)

lemma bytes_before_kept: "quiet env vmap \<Longrightarrow> keeps (kept name B x) (bytes_before env name n e a y)"
  by (auto simp: bytes_before_def intro!: keeps_rules call_kept note_kept split: option.split)

lemma ask_array_kept: "quiet env vmap \<Longrightarrow> keeps (kept name B x) (ask_array env n e a b)"
  by (auto simp: keeps_def ask_array_def intro: kept_call split: prod.split sum.split)

lemma grow_head_kept: "quiet env vmap \<Longrightarrow> keeps (kept name B x) (grow_head env name y head)"
  by (auto simp: grow_head_def intro!: keeps_rules bytes_before_kept ask_array_kept note_kept event_kept split: option.split)

lemma grow_served_kept: "quiet env vmap \<Longrightarrow> keeps (kept name B x) (grow_served env to served)"
  by (auto simp: grow_served_def intro!: keeps_rules call_kept split: option.split)

subsection \<open>What a try that succeeds did\<close>

text \<open>The engines' answers behind each step, from the state it starts in to the one it ends in: a growth accepted for every
  leg in turn; an array an earlier try grew, or one asked to grow that says so, or that refuses and is read larger than
  what was recorded before the growth; a served volume asked to grow and read at the target.\<close>

fun legs_grown :: "'w env \<Rightarrow> u64 \<Rightarrow> (string \<times> engine \<times> string) list \<Rightarrow> 'w sys \<Rightarrow> 'w sys \<Rightarrow> bool" where
  "legs_grown env to [] s s' \<longleftrightarrow> s' = s"
| "legs_grown env to ((n, e, i) # ls) s s' \<longleftrightarrow>
     (\<exists>v s1. call env (\<lambda>wr. expand_v1 wr e i to) s = (Inr v, s1) \<and> legs_grown env to ls s1 s')"

text \<open>The size of the array before the growth: recorded by an earlier try, else read now and recorded.\<close>

definition size_before :: "'w env \<Rightarrow> string \<Rightarrow> engine \<Rightarrow> string \<Rightarrow> expansion \<Rightarrow> u64 \<Rightarrow> 'w sys \<Rightarrow> 'w sys \<Rightarrow> bool" where
  "size_before env name e a x b s s' \<longleftrightarrow>
     (case ex_array_bytes_before x of
        Some b0 \<Rightarrow> b = b0 \<and> s' = s
      | None \<Rightarrow> \<exists>s1. call env (\<lambda>wr. array_bytes wr e a) s = (Inr b, s1) \<and>
          s' = note_expansion env name (\<lambda>x. x\<lparr>ex_array_bytes_before := Some b\<rparr>) s1)"

definition head_grown ::
  "'w env \<Rightarrow> string \<Rightarrow> expansion \<Rightarrow> (string \<times> engine \<times> string) option \<Rightarrow> 'w sys \<Rightarrow> bool" where
  "head_grown env name x head s \<longleftrightarrow>
     (case head of
        None \<Rightarrow> True
      | Some (n, e, a) \<Rightarrow>
          ex_array_grown x \<or>
          (\<exists>b s1. size_before env name e a x b s s1 \<and>
             (case call env (\<lambda>wr. Engine.grow_array wr e a) s1 of
                (Inr v, s2) \<Rightarrow> get_str ''slab_short'' v = None
              | (Inl err, s2) \<Rightarrow> status_of err = Some 409 \<and> (\<exists>b1 s3. call env (\<lambda>wr. array_bytes wr e a) s2 = (Inr b1, s3) \<and> b < b1))))"

definition served_grown ::
  "'w env \<Rightarrow> u64 \<Rightarrow> (string \<times> engine \<times> string \<times> string \<times> bool) option \<Rightarrow> 'w sys \<Rightarrow> bool" where
  "served_grown env to served s \<longleftrightarrow>
     (case served of
        None \<Rightarrow> True
      | Some (n, e, i, engine_name, adopted) \<Rightarrow>
          \<exists>v s1 size s2. call env (\<lambda>wr. if adopted then resize_any wr e i to else expand_v1 wr e i to) s = (Inr v, s1) \<and>
            call env (\<lambda>wr. served_size wr e engine_name) s1 = (Inr size, s2) \<and> to \<le> size)"

lemma call_op_Inr: "call_op env wrap m s = (Inr v, s') \<Longrightarrow> call env m s = (Inr v, s')"
  by (cases "call env m s"; cases "fst (call env m s)") (auto simp: call_op_def)

lemma grow_legs_Inr: "grow_legs env to ls s = (Inr v, s') \<Longrightarrow> legs_grown env to ls s s'"
proof (induction ls arbitrary: s)
  case (Cons l ls)
  obtain n e i where l: "l = (n, e, i)" by (metis prod_cases3)
  from Cons.prems have "bind_op (call_op env (\<lambda>x. ExUpstream (LegNotGrown n x)) (\<lambda>wr. expand_v1 wr e i to)) (\<lambda>_. grow_legs env to ls) s =
    (Inr v, s')" by (simp add: l)
  then show ?case
  proof (cases rule: bind_cases)
    case (2 a s1)
    from call_op_Inr [OF 2(1)] Cons.IH [OF 2(2)] show ?thesis by (auto simp: l)
  qed simp
qed (simp add: ok_op_def)

lemma bytes_before_Inr: "bytes_before env name n e a x s = (Inr b, s') \<Longrightarrow> size_before env name e a x b s s'"
  by (auto simp: bytes_before_def size_before_def ok_op_def do_op_def elim!: bind_cases dest!: call_op_Inr split: option.splits)

lemma ask_array_Inr:
  assumes "ask_array env n e a b s = (Inr None, s')"
  shows "case call env (\<lambda>wr. Engine.grow_array wr e a) s of
      (Inr v, s2) \<Rightarrow> get_str ''slab_short'' v = None
    | (Inl err, s2) \<Rightarrow> status_of err = Some 409 \<and> (\<exists>b1 s3. call env (\<lambda>wr. array_bytes wr e a) s2 = (Inr b1, s3) \<and> b < b1)"
proof -
  obtain r1 s1 where g: "call env (\<lambda>wr. Engine.grow_array wr e a) s = (r1, s1)" by fastforce
  show ?thesis
  proof (cases r1)
    case (Inl err)
    obtain r2 s2 where r2: "call env (\<lambda>wr. array_bytes wr e a) s1 = (r2, s2)" by fastforce
    from assms g Inl r2 obtain c where "r2 = Inr c" "b < c" "status_of err = Some 409"
      by (cases r2) (auto simp: ask_array_def not_le split: if_splits)
    with r2 g Inl show ?thesis by simp
  next
    case (Inr v)
    with assms g show ?thesis by (simp add: ask_array_def)
  qed
qed

lemma grow_head_Inr: "grow_head env name x head s = (Inr v, s') \<Longrightarrow> head_grown env name x head s"
proof (cases head)
  case (Some h)
  obtain n e a where h: "h = (n, e, a)" by (metis prod_cases3)
  assume g: "grow_head env name x head s = (Inr v, s')"
  show ?thesis
  proof (cases "ex_array_grown x")
    case False
    let ?k = "\<lambda>short. bind_op (do_op (note_expansion env name (\<lambda>x. x\<lparr>ex_array_grown := True, ex_slab_short := short\<rparr>))) (\<lambda>_.
        case short of None \<Rightarrow> ok_op ()
        | Some t \<Rightarrow> bind_op (do_op (note_event env ''expand'' Error name)) (\<lambda>_. err_op (ExConflict (ExSlabShort t))))"
    from g False have "bind_op (bytes_before env name n e a x) (\<lambda>b. bind_op (ask_array env n e a b) ?k) s = (Inr v, s')"
      by (simp add: grow_head_def Some h)
    then obtain b s1 where b: "bytes_before env name n e a x s = (Inr b, s1)" and "bind_op (ask_array env n e a b) ?k s1 = (Inr v, s')"
      by (auto elim: bind_cases)
    then obtain short s2 where a: "ask_array env n e a b s1 = (Inr short, s2)" and rest: "?k short s2 = (Inr v, s')" by (auto elim: bind_cases)
    from rest have "short = None" by (cases short) (auto simp: bind_op_def do_op_def err_op_def)
    with a have "ask_array env n e a b s1 = (Inr None, s2)" by simp
    from bytes_before_Inr [OF b] ask_array_Inr [OF this] show ?thesis
      unfolding head_grown_def Some h option.case prod.case by (intro disjI2 exI [of _ b] exI [of _ s1] conjI)
  qed (simp add: head_grown_def Some h)
qed (simp add: head_grown_def)

lemma grow_served_Inr: "grow_served env to served s = (Inr v, s') \<Longrightarrow> served_grown env to served s"
proof (cases served)
  case (Some x)
  obtain n e i en ad where x: "x = (n, e, i, en, ad)" by (metis prod_cases5)
  assume "grow_served env to served s = (Inr v, s')"
  with Some x obtain u s1 size s2 where "call env (\<lambda>wr. if ad then resize_any wr e i to else expand_v1 wr e i to) s = (Inr u, s1)"
      "call env (\<lambda>wr. served_size wr e en) s1 = (Inr size, s2)" "to \<le> size"
    by (auto simp: grow_served_def check_op_def elim!: bind_cases dest!: call_op_Inr split: if_splits)
  then show ?thesis unfolding served_grown_def Some x by simp
qed (simp add: served_grown_def)

lemma finish_expand_done:
  assumes "kept name B x s" and "finish_expand env name to s = (Inr v, s')"
  shows "\<exists>w. B name = Some w \<and> bare s' = B(name \<mapsto> w\<lparr>v_size_bytes := to\<rparr>) \<and> expansion_of name s' = None"
proof (cases "volume name s")
  case None
  with assms(2) show ?thesis by (simp add: finish_expand_def read_op_def bind_op_def check_op_def)
next
  case (Some w)
  with assms(2) have "sy_fed s' = bump (on_volume name (\<lambda>v. v\<lparr>v_size_bytes := to, v_expanding := None\<rparr>) (sy_fed s))"
    by (auto simp: finish_expand_def read_op_def bind_op_def check_op_def do_op_def change_fed_def)
  then have v: "volume n s' = (if n = name then Some (w\<lparr>v_size_bytes := to, v_expanding := None\<rparr>) else volume n s)" for n
    using Some by (simp add: on_volume_def bt_get_modify)
  have B: "B = bare s" using assms(1) by (simp add: kept_def)
  show ?thesis
    by (intro exI [of _ "w\<lparr>v_expanding := None\<rparr>"]) (auto simp: B bare_def v Some fun_eq_iff)
qed

lemma finish_expand_error: "finish_expand env name to s = (Inl e, s') \<Longrightarrow> s' = s"
  by (auto simp: finish_expand_def read_op_def bind_op_def check_op_def do_op_def split: if_splits)

lemma run_expand_outcome:
  assumes q: "quiet env vmap" and k: "kept name B x s" and run: "run_expand env name p s = (r, s')"
  defines "to \<equiv> ex_to_bytes (xp_expansion p)"
  shows "case r of
      Inl e \<Rightarrow> kept name B x s'
    | Inr _ \<Rightarrow> (\<exists>w. B name = Some w \<and> bare s' = B(name \<mapsto> w\<lparr>v_size_bytes := to\<rparr>) \<and> expansion_of name s' = None) \<and>
        (\<exists>s1 s2. legs_grown env to (xp_legs p) (publish_state env s) s1 \<and> head_grown env name (xp_expansion p) (xp_head p) s1 \<and>
           grow_head env name (xp_expansion p) (xp_head p) s1 = (Inr (), s2) \<and> served_grown env to (xp_served p) s2)"
proof (cases "ex_slab_short (xp_expansion p)")
  case (Some t)
  with run k show ?thesis
    by (auto simp: run_expand_def bind_op_def do_op_def err_op_def kept_cong [of "publish_state env s" s])
next
  case None
  let ?s0 = "publish_state env s"
  have k0: "kept name B x ?s0" using k by (simp add: kept_cong [of "publish_state env s" s])
  have "bind_op (grow_legs env to (xp_legs p)) (\<lambda>_. bind_op (grow_head env name (xp_expansion p) (xp_head p)) (\<lambda>_.
      bind_op (grow_served env to (xp_served p)) (\<lambda>_. finish_expand env name to))) ?s0 = (r, s')"
    using run None by (simp add: run_expand_def bind_op_def do_op_def to_def)
  then show ?thesis
  proof (cases rule: bind_cases)
    case (1 e)
    with keepsD [OF grow_legs_kept [OF q] k0] show ?thesis by simp
  next
    case (2 v1 s1)
    note k1 = keepsD [OF grow_legs_kept [OF q] k0 2(1)] and legs = grow_legs_Inr [OF 2(1)]
    from 2(2) show ?thesis
    proof (cases rule: bind_cases)
      case (1 e)
      with keepsD [OF grow_head_kept [OF q] k1] show ?thesis by simp
    next
      case (2 v2 s2)
      note k2 = keepsD [OF grow_head_kept [OF q] k1 2(1)] and head = grow_head_Inr [OF 2(1)] and done_head = 2(1)
      from 2(2) show ?thesis
      proof (cases rule: bind_cases)
        case (1 e)
        with keepsD [OF grow_served_kept [OF q] k2] show ?thesis by simp
      next
        case (2 v3 s3)
        note k3 = keepsD [OF grow_served_kept [OF q] k2 2(1)] and served = grow_served_Inr [OF 2(1)]
        show ?thesis
        proof (cases r)
          case (Inl e)
          with 2(2) have "s' = s3" by (simp add: finish_expand_error)
          with Inl k3 show ?thesis by simp
        next
          case (Inr v)
          with finish_expand_done [OF k3] 2(2) legs head served done_head show ?thesis by auto
        qed
      qed
    qed
  qed
qed

lemma expand_checks_Inr:
  assumes "expand_checks env fed t vol to = Inr p"
  shows "v_size_bytes vol \<le> to" "xp_expansion p = expanding_to t to vol"
proof -
  have "refuse_expand fed vol to = None" using assms by (auto simp: expand_checks_def split: option.splits)
  then show "v_size_bytes vol \<le> to" by (auto simp: refuse_expand_def split: if_splits)
  show "xp_expansion p = expanding_to t to vol"
    using assms by (cases "served_to_grow env fed vol") (auto simp: expand_checks_def split: option.splits sum.splits)
qed

lemma begin_expand_cases:
  assumes "begin_expand env name to s = (r, s')"
  obtains (refused) e where "r = Inl e" "s' = s"
    | (idle) vol where "r = Inr None" "s' = s" "volume name s = Some vol" "expand_target vol to = v_size_bytes vol" "v_expanding vol = None"
    | (begun) vol p where "r = Inr (Some p)" "volume name s = Some vol"
        "expand_checks env (sy_fed s) (now env s) vol (expand_target vol to) = Inr p"
        "s' = change_fed (on_volume name (\<lambda>v. v\<lparr>v_expanding := Some (xp_expansion p)\<rparr>)) s"
proof (cases "volume name s")
  case None
  with assms show ?thesis by (intro refused [of "ExNotFound name"]) (simp_all add: begin_expand_def read_op_def bind_op_def need_op_def)
next
  case (Some vol)
  show ?thesis
  proof (cases "expand_target vol to = v_size_bytes vol \<and> v_expanding vol = None")
    case True
    with assms Some show ?thesis by (intro idle [of vol]) (simp_all add: begin_expand_def read_op_def bind_op_def need_op_def ok_op_def)
  next
    case False
    with assms Some have b: "(r, s') = bind_op (lift_op (expand_checks env (sy_fed s) (now env s) vol (expand_target vol to))) (\<lambda>p.
        bind_op (do_op (change_fed (on_volume name (\<lambda>v. v\<lparr>v_expanding := Some (xp_expansion p)\<rparr>)))) (\<lambda>_. ok_op (Some p))) s"
      by (simp only: begin_expand_def read_op_def bind_op_def need_op_def option.case prod.case sum.case if_False)
    show ?thesis
    proof (cases "expand_checks env (sy_fed s) (now env s) vol (expand_target vol to)")
      case (Inl e)
      with b show ?thesis by (intro refused [of e]) (simp_all add: bind_op_def lift_op_def)
    next
      case (Inr p)
      with b show ?thesis by (intro begun [OF _ Some Inr]) (simp_all add: bind_op_def lift_op_def do_op_def ok_op_def)
    qed
  qed
qed

lemma begun_kept:
  assumes "volume name s = Some vol" and "xp_expansion p = expanding_to t (expand_target vol to) vol"
  shows "kept name (bare s) (expansion_of name s) (change_fed (on_volume name (\<lambda>v. v\<lparr>v_expanding := Some (xp_expansion p)\<rparr>)) s)"
proof (rule kept_expanding [of name "bare s" "expansion_of name s" s "\<lambda>_. Some (xp_expansion p)", OF kept_self])
  show "goes_on (expansion_of name s) (Option.bind (volume name s) (\<lambda>v. Some (xp_expansion p)))"
    by (cases "v_expanding vol") (simp_all add: assms goes_on_def expanding_to_def expand_target_def)
qed

lemma note_failed_kept:
  assumes "kept name B x s" shows "kept name B x (note_failed env name msg s)"
proof (cases "expansion_of name s")
  case None
  with assms show ?thesis by (simp add: note_failed_def kept_cong [of "persist env s" s])
next
  case (Some y)
  with kept_note [OF assms, of "\<lambda>x. x\<lparr>ex_message := Some msg\<rparr>" env] show ?thesis
    by (simp add: note_failed_def note_expansion_def)
qed

text \<open>Property C29. An expand changes a volume's size only once everything below it has grown, in this order. When the size asked for
  is the one on record and nothing is in flight it succeeds and changes nothing. Otherwise it succeeds only for a
  target no smaller than the size, the larger of the one asked for and one in flight: every leg's engine accepted the
  growth; the head's array was grown by an earlier try (whatever target that had), or now, or it refused with a conflict
  and was read larger than the size recorded before its growth; the served volume's growth was accepted and it was read
  at the target or more. Then only the size changes. A failed one leaves every volume as it was but for the expansion
  in flight, whose target never shrinks and whose grown array is never forgotten. No other task changes the volumes
  meanwhile.\<close>

theorem expand_outcome:
  assumes "quiet env vmap" and "expand env show name to s = (r, s')"
  shows "case r of
      Inl _ \<Rightarrow> bare s' = bare s \<and> goes_on (expansion_of name s) (expansion_of name s')
    | Inr _ \<Rightarrow> \<exists>vol. volume name s = Some vol \<and>
        (vmap s' = vmap s \<and> expand_target vol to = v_size_bytes vol \<and> v_expanding vol = None \<or>
         (\<exists>p t s0 s1 s2. expand_checks env (sy_fed s) t vol (expand_target vol to) = Inr p \<and> v_size_bytes vol \<le> expand_target vol to \<and>
            expansion_of name s0 = Some (xp_expansion p) \<and>
            legs_grown env (expand_target vol to) (xp_legs p) s0 s1 \<and> head_grown env name (xp_expansion p) (xp_head p) s1 \<and>
            grow_head env name (xp_expansion p) (xp_head p) s1 = (Inr (), s2) \<and>
            served_grown env (expand_target vol to) (xp_served p) s2 \<and> expansion_of name s' = None \<and>
            bare s' = (bare s)(name \<mapsto> vol\<lparr>v_size_bytes := expand_target vol to, v_expanding := None\<rparr>)))"
proof (cases "name \<in> set (sy_claims s)")
  case True
  with assms(2) show ?thesis by (auto simp: expand_def claim_def)
next
  case False
  let ?s0 = "s\<lparr>sy_claims := name # sy_claims s\<rparr>"
  obtain r1 s1 where c: "expand_claimed env name to ?s0 = (r1, s1)" by fastforce
  have r: "r = r1" and s': "s' = (case r1 of Inr _ \<Rightarrow> release name s1 | Inl e \<Rightarrow> note_failed env name (show e) (release name s1))"
    using assms(2) False c by (auto simp: expand_def claim_def split: sum.splits)
  have same: "bare ?s0 = bare s" "volume name ?s0 = volume name s" by (simp_all add: bare_def fun_eq_iff)
  have failed: "bare s' = bare s \<and> goes_on (expansion_of name s) (expansion_of name s')" if "kept name (bare s) (expansion_of name s) s1" "isl r1"
  proof -
    from that(1) have "kept name (bare s) (expansion_of name s) (release name s1)" by (simp add: kept_cong [of "release name s1" s1])
    from note_failed_kept [OF this] that(2) show ?thesis by (auto simp: s' kept_def isl_def)
  qed
  from c have "bind_op (begin_expand env name to) (\<lambda>p. case p of None \<Rightarrow> ok_op () | Some p \<Rightarrow> run_expand env name p) ?s0 = (r1, s1)"
    by (simp add: expand_claimed_def)
  then show ?thesis
  proof (cases rule: bind_cases)
    case (1 e)
    then have "s1 = ?s0" by (auto elim: begin_expand_cases)
    with 1 failed same show ?thesis by (simp add: r kept_def)
  next
    case (2 q s2)
    from 2(1) show ?thesis
    proof (cases rule: begin_expand_cases)
      case (idle vol)
      with 2(2) same show ?thesis by (auto simp: r s' ok_op_def)
    next
      case (begun vol p)
      note x = expand_checks_Inr [OF begun(3)]
      have k: "kept name (bare s) (expansion_of name s) s2"
        using begun_kept [OF begun(2) x(2)] same by (simp add: begun(4))
      have run: "run_expand env name p s2 = (r1, s1)" using 2(2) begun(1) by simp
      have to: "ex_to_bytes (xp_expansion p) = expand_target vol to" using x(2) by (simp add: expanding_to_def split: option.split)
      note out = run_expand_outcome [OF assms(1) k run, unfolded to]
      show ?thesis
      proof (cases r1)
        case (Inl e)
        with out failed show ?thesis by (simp add: r)
      next
        case (Inr v)
        have "bare s' = bare s1" "volume name s' = volume name s1" using Inr by (simp_all add: s' bare_def fun_eq_iff)
        moreover have "bare s name = Some (vol\<lparr>v_expanding := None\<rparr>)" using begun(2) same by (simp add: bare_def)
        ultimately have b: "bare s' = (bare s)(name \<mapsto> vol\<lparr>v_size_bytes := expand_target vol to, v_expanding := None\<rparr>)"
          and e: "expansion_of name s' = None"
          and "\<exists>t1 t2. legs_grown env (expand_target vol to) (xp_legs p) (publish_state env s2) t1 \<and>
            head_grown env name (xp_expansion p) (xp_head p) t1 \<and>
            grow_head env name (xp_expansion p) (xp_head p) t1 = (Inr (), t2) \<and> served_grown env (expand_target vol to) (xp_served p) t2"
          using out Inr by auto
        moreover have "expansion_of name (publish_state env s2) = Some (xp_expansion p)"
          using begun(2) by (simp add: begun(4) change_fed_def on_volume_def bt_get_modify)
        moreover have "expand_checks env (sy_fed s) (now env ?s0) vol (expand_target vol to) = Inr p" using begun(3) by simp
        moreover have "volume name s = Some vol" using begun(2) by simp
        ultimately show ?thesis unfolding r Inr sum.case using x(1) by blast
      qed
    qed (use 2 in simp)
  qed
qed

text \<open>Property C30. Once a try has grown the head's array, a later one with a larger target never asks the array to grow again: it
  runs as if the volume had no array, up to the served volume, which has to find room on an array that stayed at the
  smaller target.\<close>

theorem expand_skips_array:
  assumes "volume name s = Some vol" and "v_expanding vol = Some x" and "ex_array_grown x" and "ex_to_bytes x < to"
    and "begin_expand env name to s = (Inr (Some p), s1)"
  shows "ex_to_bytes (xp_expansion p) = to \<and> expand_claimed env name to s = run_expand env name (p\<lparr>xp_head := None\<rparr>) s1"
  using assms(5)
proof (cases rule: begin_expand_cases)
  case (begun w q)
  with assms(1-4) have p: "xp_expansion p = x\<lparr>ex_to_bytes := to, ex_message := None\<rparr>"
    using expand_checks_Inr(2) [OF begun(3)] by (auto simp: expand_target_def expanding_to_def max_def)
  have "grow_head env name (xp_expansion p) h = ok_op ()" for h
    using assms(3) by (auto simp: grow_head_def p split: option.split)
  then have "run_expand env name (p\<lparr>xp_head := None\<rparr>) = run_expand env name p"
    by (cases "ex_slab_short (xp_expansion p)") (simp_all add: run_expand_def)
  then show ?thesis by (simp add: expand_claimed_def bind_op_def assms(5) p)
qed auto

subsection \<open>Witnesses\<close>

definition growing_vol :: dist_volume where
  "growing_vol = single_vol\<lparr>v_size_bytes := 8\<rparr>"

lemma expand_outcome_witness:
  "\<exists>p t s0 s1. expand_checks (small_env empty_answer) (sy_fed (small_sys growing_vol)) t growing_vol 64 = Inr p \<and>
     legs_grown (small_env empty_answer) 64 (xp_legs p) s0 s1 \<and>
     bare (snd (expand (small_env empty_answer) (\<lambda>_. []) ''vol'' 64 (small_sys growing_vol))) ''vol'' =
       Some (growing_vol\<lparr>v_size_bytes := 64, v_expanding := None\<rparr>)"
proof -
  let ?x = "expand (small_env empty_answer) (\<lambda>_. []) ''vol'' 64 (small_sys growing_vol)"
  have "\<not> isl (fst ?x)" by code_simp
  then obtain s' where x: "?x = (Inr (), s')" by (cases ?x; cases "fst ?x") auto
  have v: "volume ''vol'' (small_sys growing_vol) = Some growing_vol" by (simp add: small_sys_def)
  have t: "expand_target growing_vol 64 = 64" "64 \<noteq> v_size_bytes growing_vol" by code_simp+
  have q: "quiet (small_env empty_answer) vmap" by simp
  from expand_outcome [OF q x] v t show ?thesis by (auto simp: x) blast
qed

definition grown_vol :: dist_volume where
  "grown_vol = growing_vol\<lparr>v_assembly := Assembled, v_head := Some ''a'', v_array_id := Some ''r1'',
     v_expanding := Some \<lparr>ex_to_bytes = 32, ex_started_at = 0, ex_array_bytes_before = Some 8, ex_array_grown = True,
       ex_slab_short = None, ex_message = None\<rparr>\<rparr>"

lemma expand_skips_array_witness:
  "\<exists>p s1. begin_expand (small_env empty_answer) ''vol'' 64 (small_sys grown_vol) = (Inr (Some p), s1) \<and> ex_to_bytes (xp_expansion p) = 64 \<and>
     expand_claimed (small_env empty_answer) ''vol'' 64 (small_sys grown_vol) = run_expand (small_env empty_answer) ''vol'' (p\<lparr>xp_head := None\<rparr>) s1"
proof -
  let ?b = "begin_expand (small_env empty_answer) ''vol'' 64 (small_sys grown_vol)"
  have "case fst ?b of Inr (Some p) \<Rightarrow> True | _ \<Rightarrow> False" by code_simp
  then obtain p s1 where b: "?b = (Inr (Some p), s1)" by (cases ?b) (auto split: sum.splits option.splits)
  have v: "volume ''vol'' (small_sys grown_vol) = Some grown_vol" by (simp add: small_sys_def)
  obtain x where x: "v_expanding grown_vol = Some x" "ex_array_grown x" "ex_to_bytes x < 64" by (simp add: grown_vol_def)
  from expand_skips_array [OF v x b] b show ?thesis by blast
qed

end
