(* ===== verification/Kube.thy ===== *)
theory Kube
  imports Engine
begin

section \<open>The apiserver's view\<close>

text \<open>
  Models \<open>src/kube.rs\<close>: the PV and claim of each node volume, the members of the cluster, and the Endpoints that name
  the leader. A request to the apiserver is answered by the same wire as one to an engine; its TLS is left to it. A
  value indexed by a name (\<open>v["k"]\<close>) is null where there is none; assigning below a value that is neither an object nor
  null panics, which is \<open>None\<close> here.
\<close>

definition at_key :: "string \<Rightarrow> json \<Rightarrow> json" where
  "at_key k v = unwrap_or (jget k v) JNull"

definition set_key :: "string \<Rightarrow> json \<Rightarrow> json \<Rightarrow> json option" where
  "set_key k x v =
     (case v of
        JNull \<Rightarrow> Some (JObj [(k, x)])
      | JObj kvs \<Rightarrow> Some (JObj ((k, x) # filter (\<lambda>(k', _). k' \<noteq> k) kvs))
      | _ \<Rightarrow> None)"

definition at_first :: "json \<Rightarrow> json" where
  "at_first v = (case v of JArr (x # _) \<Rightarrow> x | _ \<Rightarrow> JNull)"

text \<open>A text that is not empty.\<close>

definition said :: "json \<Rightarrow> string option" where
  "said v = filter_opt (\<lambda>x. x \<noteq> []) (as_str v)"

subsection \<open>A node volume's PV and claim\<close>

record claim_ref =
  cr_namespace :: string
  cr_name :: string
  cr_uid :: "string option"
  cr_phase :: "string option"
  cr_bound :: bool

record volume_claim =
  vc_pv :: string
  vc_phase :: string
  vc_reclaim :: string
  vc_capacity :: string
  vc_volume_kind :: "string option"
  vc_component :: "string option"
  vc_claim :: "claim_ref option"

type_synonym claims = "(string \<times> string, volume_claim) btree"

definition describe_claim :: "volume_claim \<Rightarrow> string" where
  "describe_claim c = (case vc_claim c of Some r \<Rightarrow> cr_namespace r @ ''/'' @ cr_name r | None \<Rightarrow> ''no claim'')"

definition complete_claim :: "volume_claim \<Rightarrow> bool" where
  "complete_claim c \<longleftrightarrow> vc_phase c = ''Bound'' \<and> is_some_and (vc_claim c) cr_bound"

definition DRIVER :: string where
  "DRIVER = ''stormblock.storm.io''"

definition claims_by_name :: "json list \<Rightarrow> (string \<times> string, json) btree" where
  "claims_by_name pvcs =
     bt_collect (List.map_filter (\<lambda>c. let m = at_key ''metadata'' c in
       map_option (\<lambda>n. ((unwrap_or (said (at_key ''namespace'' m)) [], n), c)) (said (at_key ''name'' m))) pvcs)"

definition affinity_node :: "json \<Rightarrow> string option" where
  "affinity_node spec =
     Option.bind (as_array (at_key ''nodeSelectorTerms'' (at_key ''required'' (at_key ''nodeAffinity'' spec)))) (\<lambda>terms.
     Option.bind (find (\<lambda>e. at_key ''key'' e = JStr ''kubernetes.io/hostname'' \<and> at_key ''operator'' e = JStr ''In'')
         (concat (map (get_array ''matchExpressions'') terms)))
       (\<lambda>e. as_str (at_first (at_key ''values'' e))))"

definition claim_of_pv :: "(string \<times> string, json) btree \<Rightarrow> string \<Rightarrow> json \<Rightarrow> claim_ref option" where
  "claim_of_pv pvcs pv spec =
     (let cr = at_key ''claimRef'' spec in
      map_option (\<lambda>n.
        let ns = unwrap_or (as_str (at_key ''namespace'' cr)) [];
            uid = said (at_key ''uid'' cr);
            pvc = bt_get pvcs (ns, n)
        in \<lparr>cr_namespace = ns, cr_name = n, cr_uid = uid,
            cr_phase = Option.bind pvc (\<lambda>c. said (at_key ''phase'' (at_key ''status'' c))),
            cr_bound = is_some_and pvc (\<lambda>c. at_key ''volumeName'' (at_key ''spec'' c) = JStr pv \<and>
              (uid = None \<or> said (at_key ''uid'' (at_key ''metadata'' c)) = uid))\<rparr>)
        (said (at_key ''name'' cr)))"

text \<open>What one PV says: the node and volume it is for, and its claim; nothing when it is not a stormblock PV of a node.\<close>

definition pv_entry :: "(string \<times> string, json) btree \<Rightarrow> json \<Rightarrow> ((string \<times> string) \<times> volume_claim) option" where
  "pv_entry pvcs pv =
     (let spec = at_key ''spec'' pv; meta = at_key ''metadata'' pv; ann = at_key ''annotations'' meta;
          labels = at_key ''labels'' meta in
      if as_str (at_key ''driver'' (at_key ''csi'' spec)) \<noteq> Some DRIVER then None
      else
        Option.bind (said (at_key ''name'' meta)) (\<lambda>name.
        Option.bind (or_else (said (at_key ''storm.io/volume'' ann)) (said (at_key ''volumeHandle'' (at_key ''csi'' spec)))) (\<lambda>volume.
        map_option (\<lambda>node.
          ((node, volume),
           \<lparr>vc_pv = name, vc_phase = unwrap_or (said (at_key ''phase'' (at_key ''status'' pv))) [],
            vc_reclaim = unwrap_or (said (at_key ''persistentVolumeReclaimPolicy'' spec)) [],
            vc_capacity = unwrap_or (said (at_key ''storage'' (at_key ''capacity'' spec))) [],
            vc_volume_kind = said (at_key ''storm.io/volume-kind'' labels),
            vc_component = said (at_key ''storm.io/component'' labels),
            vc_claim = claim_of_pv pvcs name spec\<rparr>))
          (or_else (said (at_key ''storm.io/node'' ann)) (affinity_node spec)))))"

definition rank :: "volume_claim \<Rightarrow> string \<Rightarrow> bool \<times> bool" where
  "rank c node =
     (complete_claim c, length node < length (vc_pv c) \<and> drop (length (vc_pv c) - length node - 1) (vc_pv c) = CHR ''-'' # node)"

definition keep_better :: "claims \<Rightarrow> (string \<times> string) \<times> volume_claim \<Rightarrow> claims" where
  "keep_better out e =
     (case e of (k, c) \<Rightarrow>
        (case bt_get out k of
           None \<Rightarrow> bt_insert k c out
         | Some old \<Rightarrow> if rank old (fst k) < rank c (fst k) then bt_insert k c out else out))"

definition view_of :: "json list \<Rightarrow> json list \<Rightarrow> claims" where
  "view_of pvs pvcs = foldl keep_better [] (List.map_filter (pv_entry (claims_by_name pvcs)) pvs)"

subsection \<open>Joining it onto a node\<close>

definition short_name :: "string \<Rightarrow> string" where
  "short_name a = lowercase (takeWhile (\<lambda>c. c \<noteq> CHR ''.'') a)"

definition same_node :: "string \<Rightarrow> string \<Rightarrow> bool" where
  "same_node a b \<longleftrightarrow> eq_ignore_case a b \<or> short_name a = short_name b"

definition claim_for :: "string \<Rightarrow> string \<Rightarrow> claims \<Rightarrow> volume_claim option" where
  "claim_for node vol claims =
     or_else (bt_get claims (node, vol)) (map_option snd (find (\<lambda>((n, v), _). v = vol \<and> same_node n node) claims))"

subsection \<open>The members of the cluster\<close>

record member =
  mb_name :: string
  mb_address :: string
  mb_storage :: bool

definition member_of :: "json \<Rightarrow> member option" where
  "member_of m =
     Option.bind (said (at_key ''address'' (at_key ''status'' m))) (\<lambda>address.
     map_option (\<lambda>name. \<lparr>mb_name = name, mb_address = address,
         mb_storage = unwrap_or (or_else (as_bool (at_key ''storage'' (at_key ''spec'' m)))
           (as_bool (at_key ''storage'' (at_key ''status'' m)))) False\<rparr>)
       (said (at_key ''name'' (at_key ''metadata'' m))))"

definition members_of :: "json list \<Rightarrow> member list" where
  "members_of items = List.map_filter member_of items"

definition kube_req :: "string \<Rightarrow> string option \<Rightarrow> http_method \<Rightarrow> string \<Rightarrow> json option \<Rightarrow> request" where
  "kube_req server token m path body =
     \<lparr>rq_method = m, rq_url = trim_end_slash server @ path, rq_auth = token, rq_query = [], rq_body = body\<rparr>"

definition MEMBERS_PATH :: string where
  "MEMBERS_PATH = ''/apis/cluster.storm.io/v1alpha1/clustermembers''"

definition members :: "'w wire \<Rightarrow> string \<Rightarrow> string option \<Rightarrow> ('w, member list) io" where
  "members wr server token =
     attempt (send wr (kube_req server token GET MEMBERS_PATH None)) (\<lambda>r.
       if rs_status r = 404 then io_ok []
       else if \<not> is_success r then io_err (Bail (''GET '' @ MEMBERS_PATH @ '': '' @ rs_status_text r))
       else attempt (body_json r) (\<lambda>body. io_ok (members_of (unwrap_or (as_array (at_key ''items'' body)) []))))"

subsection \<open>Reading the PVs\<close>

record kube_view =
  kv_claims :: claims
  kv_fetched_at :: "time option"
  kv_error :: "engine_error option"

definition fetch_list :: "'w wire \<Rightarrow> string \<Rightarrow> string option \<Rightarrow> string \<Rightarrow> ('w, json list) io" where
  "fetch_list wr server token path =
     attempt (send wr (kube_req server token GET path None)) (\<lambda>r.
       if \<not> is_success r then io_err (Bail (''GET '' @ path @ '': '' @ rs_status_text r))
       else attempt (body_json r) (\<lambda>body. io_ok (unwrap_or (as_array (at_key ''items'' body)) [])))"

definition fetch_claims :: "'w wire \<Rightarrow> string \<Rightarrow> string option \<Rightarrow> ('w, json list \<times> json list) io" where
  "fetch_claims wr server token =
     attempt (fetch_list wr server token ''/api/v1/persistentvolumes'') (\<lambda>pvs.
     attempt (fetch_list wr server token ''/api/v1/persistentvolumeclaims'') (\<lambda>pvcs. io_ok (pvs, pvcs)))"

text \<open>The view after a read, and whether the change is worth an event: a failed read keeps the claims of the last one.\<close>

definition take_view :: "time \<Rightarrow> engine_error + (json list \<times> json list) \<Rightarrow> kube_view \<Rightarrow> bool \<times> kube_view" where
  "take_view t r v =
     (let was_ok = (kv_fetched_at v \<noteq> None \<and> kv_error v = None);
          unread = (kv_fetched_at v = None \<and> kv_error v = None)
      in case r of
           Inr (pvs, pvcs) \<Rightarrow> (\<not> was_ok, v\<lparr>kv_claims := view_of pvs pvcs, kv_fetched_at := Some t, kv_error := None\<rparr>)
         | Inl e \<Rightarrow> (was_ok \<or> unread, v\<lparr>kv_error := Some e\<rparr>))"

subsection \<open>The Endpoints of the leader\<close>

definition LEADER_ANNOTATION :: string where
  "LEADER_ANNOTATION = ''stormstorage.storm.io/leader''"

definition items_of :: "json \<Rightarrow> json list" where
  "items_of v = unwrap_or (as_array v) []"

definition endpoints_say :: "json \<Rightarrow> string \<Rightarrow> int \<Rightarrow> string \<Rightarrow> bool" where
  "endpoints_say ep ip port leader =
     (case items_of (at_key ''subsets'' ep) of
        [one] \<Rightarrow>
          (case items_of (at_key ''addresses'' one) of [a] \<Rightarrow> at_key ''ip'' a = JStr ip | _ \<Rightarrow> False) \<and>
          (case items_of (at_key ''ports'' one) of [p] \<Rightarrow> at_key ''port'' p = JInt port | _ \<Rightarrow> False) \<and>
          (case as_array (at_key ''notReadyAddresses'' one) of None \<Rightarrow> True | Some xs \<Rightarrow> xs = []) \<and>
          at_key LEADER_ANNOTATION (at_key ''annotations'' (at_key ''metadata'' ep)) = JStr leader
      | _ \<Rightarrow> False)"

definition leader_subsets :: "string \<Rightarrow> int \<Rightarrow> json" where
  "leader_subsets ip port =
     JArr [JObj [(''addresses'', JArr [JObj [(''ip'', JStr ip)]]),
                 (''ports'', JArr [JObj [(''port'', JInt port), (''protocol'', JStr ''TCP'')]])]]"

definition new_endpoints :: "string \<Rightarrow> string \<Rightarrow> string \<Rightarrow> int \<Rightarrow> string \<Rightarrow> json" where
  "new_endpoints namespace name ip port leader =
     JObj [(''apiVersion'', JStr ''v1''), (''kind'', JStr ''Endpoints''),
       (''metadata'', JObj [(''name'', JStr name), (''namespace'', JStr namespace),
          (''annotations'', JObj [(LEADER_ANNOTATION, JStr leader)])]),
       (''subsets'', leader_subsets ip port)]"

definition changed_endpoints :: "json \<Rightarrow> string \<Rightarrow> int \<Rightarrow> string \<Rightarrow> json option" where
  "changed_endpoints ep ip port leader =
     Option.bind (set_key ''subsets'' (leader_subsets ip port) ep) (\<lambda>ep.
       let meta = at_key ''metadata'' ep;
           ann = (if is_object (at_key ''annotations'' meta) then at_key ''annotations'' meta else JObj [])
       in Option.bind (set_key LEADER_ANNOTATION (JStr leader) ann) (\<lambda>ann.
          Option.bind (set_key ''annotations'' ann meta) (\<lambda>meta. set_key ''metadata'' meta ep)))"

definition write_endpoints ::
  "'w wire \<Rightarrow> string \<Rightarrow> string option \<Rightarrow> http_method \<Rightarrow> string \<Rightarrow> json \<Rightarrow> ('w, bool) io" where
  "write_endpoints wr server token m path ep =
     attempt (send wr (kube_req server token m path (Some ep))) (\<lambda>r.
       if \<not> is_success r then io_err (Bail (path @ '': '' @ rs_status_text r)) else io_ok True)"

text \<open>Whether it wrote; a panic is \<open>None\<close>.\<close>

definition keep_endpoints ::
  "'w wire \<Rightarrow> string \<Rightarrow> string option \<Rightarrow> string \<Rightarrow> string \<Rightarrow> string \<Rightarrow> int \<Rightarrow> string \<Rightarrow> ('w, bool option) io" where
  "keep_endpoints wr server token namespace name ip port leader =
     (let paths = ''/api/v1/namespaces/'' @ namespace @ ''/endpoints''; path = paths @ ''/'' @ name in
      attempt (send wr (kube_req server token GET path None)) (\<lambda>r.
        if rs_status r = 404
        then attempt (write_endpoints wr server token POST paths (new_endpoints namespace name ip port leader)) (\<lambda>b. io_ok (Some b))
        else if \<not> is_success r then io_err (Bail (''GET '' @ path @ '': '' @ rs_status_text r))
        else attempt (body_json r) (\<lambda>ep.
          if endpoints_say ep ip port leader then io_ok (Some False)
          else (case changed_endpoints ep ip port leader of
              None \<Rightarrow> io_ok None
            | Some ep \<Rightarrow> attempt (write_endpoints wr server token PUT path ep) (\<lambda>b. io_ok (Some b))))))"

subsection \<open>One claim per node and volume\<close>

definition best_of :: "((string \<times> string) \<times> volume_claim) list \<Rightarrow> string \<times> string \<Rightarrow> volume_claim option \<Rightarrow> bool" where
  "best_of es k o1 =
     (case o1 of
        None \<Rightarrow> k \<notin> fst ` set es
      | Some c \<Rightarrow> (k, c) \<in> set es \<and> (\<forall>c'. (k, c') \<in> set es \<longrightarrow> rank c' (fst k) \<le> rank c (fst k)))"

lemma best_of_other: "fst e \<noteq> k \<Longrightarrow> best_of (es @ [e]) k o1 = best_of es k o1"
  by (cases o1) (auto simp: best_of_def)

lemma keep_better_best:
  assumes "bt_ok out" and "\<And>k. best_of es k (bt_get out k)"
  shows "bt_ok (keep_better out e) \<and> best_of (es @ [e]) k (bt_get (keep_better out e) k)"
proof -
  obtain k1 c where e: "e = (k1, c)" by fastforce
  note old = assms(2) [of k] assms(2) [of k1]
  show ?thesis
  proof (cases "k = k1")
    case False
    with old assms(1) show ?thesis by (auto simp: e keep_better_def best_of_other bt_insert_ok split: option.split)
  next
    case True
    show ?thesis
    proof (cases "bt_get out k1")
      case None
      with old assms(1) True show ?thesis by (force simp: e keep_better_def best_of_def bt_insert_ok)
    next
      case (Some c0)
      with old True have "(k1, c0) \<in> set es" "\<And>c'. (k1, c') \<in> set es \<Longrightarrow> rank c' (fst k1) \<le> rank c0 (fst k1)"
        by (auto simp: best_of_def)
      with Some assms(1) True show ?thesis
        by (cases "rank c0 (fst k1) < rank c (fst k1)") (auto simp: e keep_better_def best_of_def bt_insert_ok intro: order.trans less_imp_le)
    qed
  qed
qed

lemma view_best_from:
  "bt_ok (foldl keep_better [] es) \<and> best_of es k (bt_get (foldl keep_better [] es) k)"
proof (induction es arbitrary: k rule: rev_induct)
  case (snoc e es)
  have "bt_ok (foldl keep_better [] es)" "\<And>k. best_of es k (bt_get (foldl keep_better [] es) k)" using snoc by blast+
  from keep_better_best [OF this] show ?case by simp
qed (simp add: best_of_def)

text \<open>The view holds a claim for a node and a volume exactly when some PV is for them, and it is one of those PVs
  with the highest rank: a PV and claim that name each other before one that is half gone, then the PV named after
  its node. The order in which the apiserver lists the PVs decides only among equals.\<close>

theorem view_best:
  "case bt_get (view_of pvs pvcs) k of
     None \<Rightarrow> \<forall>pv c. pv \<in> set pvs \<longrightarrow> pv_entry (claims_by_name pvcs) pv \<noteq> Some (k, c)
   | Some c \<Rightarrow> (\<exists>pv \<in> set pvs. pv_entry (claims_by_name pvcs) pv = Some (k, c)) \<and>
       (\<forall>pv c'. pv \<in> set pvs \<longrightarrow> pv_entry (claims_by_name pvcs) pv = Some (k, c') \<longrightarrow> rank c' (fst k) \<le> rank c (fst k))"
proof -
  let ?es = "List.map_filter (pv_entry (claims_by_name pvcs)) pvs"
  have mem: "(k, c) \<in> set ?es \<longleftrightarrow> (\<exists>pv \<in> set pvs. pv_entry (claims_by_name pvcs) pv = Some (k, c))" for c
    by (force simp: List.map_filter_def)
  have "best_of ?es k (bt_get (view_of pvs pvcs) k)" using view_best_from by (simp add: view_of_def)
  then show ?thesis
    unfolding best_of_def mem [symmetric] by (cases "bt_get (view_of pvs pvcs) k") (simp_all add: image_iff, (metis mem fst_conv)+)
qed

text \<open>An old PV under the bare name and the node's own one, as after an upgrade.\<close>

definition wit_pv :: "string \<Rightarrow> json" where
  "wit_pv name =
     JObj [(''metadata'', JObj [(''name'', JStr name), (''annotations'', JObj [(''storm.io/node'', JStr ''n'')])]),
       (''spec'', JObj [(''csi'', JObj [(''driver'', JStr DRIVER), (''volumeHandle'', JStr ''v'')])])]"

lemma view_best_witness:
  "\<exists>c. bt_get (view_of [wit_pv ''v'', wit_pv ''v-n''] []) (''n'', ''v'') = Some c \<and> (False, True) \<le> rank c ''n''"
proof -
  let ?pvs = "[wit_pv ''v'', wit_pv ''v-n'']"
  have "map_option fst (pv_entry (claims_by_name []) (wit_pv ''v-n'')) = Some (''n'', ''v'')" by code_simp
  then obtain c where e: "pv_entry (claims_by_name []) (wit_pv ''v-n'') = Some ((''n'', ''v''), c)" by auto
  have "map_option (\<lambda>(k, c). rank c ''n'') (pv_entry (claims_by_name []) (wit_pv ''v-n'')) = Some (False, True)" by code_simp
  with e have r: "rank c ''n'' = (False, True)" by simp
  from view_best [of ?pvs "[]" "(''n'', ''v'')"] e r show ?thesis
    by (cases "bt_get (view_of ?pvs []) (''n'', ''v'')") auto
qed

subsection \<open>What is written is what is looked for\<close>

lemma map_of_filter_NEQ: "k' \<noteq> k \<Longrightarrow> map_of (filter (\<lambda>(k', _). k' \<noteq> k) kvs) k' = map_of kvs k'"
  by (induction kvs) auto

lemma at_key_set [simp]: "set_key k x v = Some v' \<Longrightarrow> at_key k' v' = (if k' = k then x else at_key k' v)"
  by (cases v) (auto simp: set_key_def at_key_def map_of_filter_NEQ split: if_splits)

text \<open>Property C39. What a round writes is what the next one looks for, so it then writes nothing: the Endpoints made, and those
  changed from whatever the apiserver held, name this address, port and leader and nothing else. Of a changed object
  every other field stays as it was, its version and its other annotations included.\<close>

theorem endpoints_settle:
  assumes "changed_endpoints ep ip port leader = Some ep'"
  shows "endpoints_say (new_endpoints namespace name ip port leader) ip port leader \<and> endpoints_say ep' ip port leader \<and>
    (\<forall>k. k \<notin> {''subsets'', ''metadata''} \<longrightarrow> at_key k ep' = at_key k ep) \<and>
    (\<forall>k. k \<noteq> ''annotations'' \<longrightarrow> at_key k (at_key ''metadata'' ep') = at_key k (at_key ''metadata'' ep)) \<and>
    (\<forall>k. k \<noteq> LEADER_ANNOTATION \<longrightarrow>
       at_key k (at_key ''annotations'' (at_key ''metadata'' ep')) = at_key k (at_key ''annotations'' (at_key ''metadata'' ep)))"
proof -
  have say: "endpoints_say e ip port leader"
    if "at_key ''subsets'' e = leader_subsets ip port" "at_key LEADER_ANNOTATION (at_key ''annotations'' (at_key ''metadata'' e)) = JStr leader" for e
    using that by (simp add: endpoints_say_def leader_subsets_def items_of_def at_key_def)
  obtain ep1 ann meta where 1: "set_key ''subsets'' (leader_subsets ip port) ep = Some ep1"
    and 2: "set_key LEADER_ANNOTATION (JStr leader)
      (if is_object (at_key ''annotations'' (at_key ''metadata'' ep1)) then at_key ''annotations'' (at_key ''metadata'' ep1) else JObj []) = Some ann"
    and 3: "set_key ''annotations'' ann (at_key ''metadata'' ep1) = Some meta" and 4: "set_key ''metadata'' meta ep1 = Some ep'"
    using assms by (auto simp: changed_endpoints_def Let_def bind_eq_Some_conv)
  have "endpoints_say (new_endpoints namespace name ip port leader) ip port leader"
    by (rule say) (simp_all add: new_endpoints_def at_key_def)
  moreover have "endpoints_say ep' ip port leader"
    by (rule say) (simp_all add: at_key_set [OF 1] at_key_set [OF 2] at_key_set [OF 3] at_key_set [OF 4])
  moreover have "at_key k ann = at_key k (at_key ''annotations'' (at_key ''metadata'' ep))" if "k \<noteq> LEADER_ANNOTATION" for k
  proof -
    have blank: "at_key k (JObj []) = JNull" "\<not> is_object a \<Longrightarrow> at_key k a = JNull" for a
      by (auto simp: at_key_def is_object_def split: json.splits)
    from that show ?thesis using blank by (simp add: at_key_set [OF 2] at_key_set [OF 1])
  qed
  ultimately show ?thesis by (auto simp: at_key_set [OF 1] at_key_set [OF 3] at_key_set [OF 4])
qed

lemma endpoints_settle_witness:
  "\<exists>ep'. changed_endpoints (JObj [(''metadata'', JObj [(''resourceVersion'', JStr ''7'')])]) ''10.0.0.1'' 9093 ''m1'' = Some ep' \<and>
     endpoints_say ep' ''10.0.0.1'' 9093 ''m1'' \<and> at_key ''resourceVersion'' (at_key ''metadata'' ep') = JStr ''7''"
proof -
  let ?ep = "JObj [(''metadata'', JObj [(''resourceVersion'', JStr ''7'')])]"
  have "changed_endpoints ?ep ''10.0.0.1'' 9093 ''m1'' \<noteq> None" by code_simp
  then obtain ep' where c: "changed_endpoints ?ep ''10.0.0.1'' 9093 ''m1'' = Some ep'" by auto
  from endpoints_settle [OF c] have "endpoints_say ep' ''10.0.0.1'' 9093 ''m1''"
    "at_key ''resourceVersion'' (at_key ''metadata'' ep') = at_key ''resourceVersion'' (at_key ''metadata'' ?ep)" by simp_all
  with c show ?thesis by (simp add: at_key_def)
qed

end
