(* ===== verification/Registry.thy ===== *)
theory Registry
  imports Credentials Kube Refusal
begin

section \<open>The registry and its poll\<close>

text \<open>
  Models \<open>src/registry.rs\<close>: which nodes are adopted from the cluster's members and from the engine on this machine, and
  the pass that asks every node's engine for its capacity, notes its health and reads its inventory. The record \<open>reg\<close>
  is the part of \<open>AppState\<close> the poll works on; \<open>reg_env\<close> what it reads of the configuration and the machine. The text
  of \<open>/metrics\<close> is no JSON, so what \<open>io_counters\<close> reads is the parameter \<open>re_io\<close>; the decoders of a slab and of a
  discovery are derived code.
  Log lines are left out.
\<close>

text \<open>What the apiserver says of each volume of a node's inventory, in the order of the volumes.\<close>

record joined_inventory = node_inventory +
  ni_claims :: "volume_claim option list"

record 'w reg =
  rg_sys :: "'w sys"
  rg_inventory :: "(string, joined_inventory) btree"
  rg_kube :: kube_view
  rg_refusals :: refusals
  rg_engines :: "string list"
  rg_local_name :: "string option"

record 'w reg_env =
  re_env :: "'w env"
  re_machine :: machine
  re_local :: local_config
  re_kube_enabled :: bool
  re_kube_server :: string
  re_kube_file :: "string option"
  re_store :: bool
  re_scheme :: string
  re_fail_threshold :: u32
  re_hash :: "string \<Rightarrow> u64"
  re_instant :: "'w \<Rightarrow> time"
  re_leads :: "'w \<Rightarrow> bool"
  re_slab :: "json \<Rightarrow> slab option"
  re_hostname :: "string option"
  re_discovery :: "json \<Rightarrow> discovery option"
  re_io :: "engine \<Rightarrow> 'w \<Rightarrow> (f64 \<times> f64) option \<times> 'w"

definition on_sys :: "('w sys \<Rightarrow> 'w sys) \<Rightarrow> 'w reg \<Rightarrow> 'w reg" where
  "on_sys f s = s\<lparr>rg_sys := f (rg_sys s)\<rparr>"

abbreviation known_nodes :: "'w reg \<Rightarrow> (string, node) btree" where
  "known_nodes s \<equiv> f_nodes (sy_fed (rg_sys s))"

definition on_nodes :: "((string, node) btree \<Rightarrow> (string, node) btree) \<Rightarrow> fed_state \<Rightarrow> fed_state" where
  "on_nodes f fed = fed\<lparr>f_nodes := f (f_nodes fed)\<rparr>"

text \<open>The engines are called with the credentials of \<open>AppState\<close>, which depend on the members last read.\<close>

definition env_of :: "'w reg_env \<Rightarrow> 'w reg \<Rightarrow> 'w env" where
  "env_of R s = with_credentials (re_machine R) (re_local R) (re_kube_file R) (set (rg_engines s)) (re_env R)"

definition reg_call :: "'w reg_env \<Rightarrow> ('w wire \<Rightarrow> ('w, 'a) io) \<Rightarrow> 'w reg \<Rightarrow> (engine_error + 'a) \<times> 'w reg" where
  "reg_call R m s = (case call (env_of R s) m (rg_sys s) of (r, y) \<Rightarrow> (r, s\<lparr>rg_sys := y\<rparr>))"

definition reg_event :: "'w reg_env \<Rightarrow> string \<Rightarrow> severity \<Rightarrow> string option \<Rightarrow> 'w reg \<Rightarrow> 'w reg" where
  "reg_event R kind sev subject =
     on_sys (\<lambda>y. y\<lparr>sy_events := snd (push (sy_events y) (now (re_env R) y) subject sev kind [])\<rparr>)"

definition instant :: "'w reg_env \<Rightarrow> 'w reg \<Rightarrow> time" where
  "instant R s = re_instant R (sy_world (rg_sys s))"

subsection \<open>Engines that refuse the token\<close>

definition backing_off :: "'w reg_env \<Rightarrow> engine \<Rightarrow> string option \<Rightarrow> 'w reg \<Rightarrow> duration option" where
  "backing_off R e token s =
     (if may_call (re_hash R) (rg_refusals s) (eg_url e) token (instant R s) then None
      else retry_in (rg_refusals s) (eg_url e) (instant R s))"

definition note_outcome :: "'w reg_env \<Rightarrow> string option \<Rightarrow> engine \<Rightarrow> string option \<Rightarrow> engine_error option \<Rightarrow> 'w reg \<Rightarrow> 'w reg" where
  "note_outcome R node e token err s =
     (case filter_opt is_refused err of
        None \<Rightarrow>
          if err \<noteq> None then s
          else (case accepted (rg_refusals s) (eg_url e) of
              (again, rf) \<Rightarrow> (if again then reg_event R ''auth'' Info node else id) (s\<lparr>rg_refusals := rf\<rparr>))
      | Some _ \<Rightarrow>
          (case refused (re_hash R) (rg_refusals s) (eg_url e) token (secs (unat (max (en_poll_secs (re_env R)) 1))) (instant R s) of
             (rep, rf) \<Rightarrow> (if rep = First then reg_event R ''auth'' Error node else id) (s\<lparr>rg_refusals := rf\<rparr>)))"

abbreviation error_of :: "engine_error + 'a \<Rightarrow> engine_error option" where
  "error_of r \<equiv> (case r of Inl e \<Rightarrow> Some e | Inr _ \<Rightarrow> None)"

definition call_capacity ::
  "'w reg_env \<Rightarrow> string option \<Rightarrow> engine \<Rightarrow> string option \<Rightarrow> 'w reg \<Rightarrow> (engine_error + node_capacity) \<times> 'w reg" where
  "call_capacity R node e token s =
     (if backing_off R e token s \<noteq> None then (Inl (Bail ''engine refuses stormstorage's token''), s)
      else (case reg_call R (\<lambda>wr. capacity wr e) s of (r, s) \<Rightarrow> (r, note_outcome R node e token (error_of r) s)))"

subsection \<open>A node's inventory and its I/O\<close>

definition list_slabs :: "'w reg_env \<Rightarrow> 'w wire \<Rightarrow> engine \<Rightarrow> ('w, slab list) io" where
  "list_slabs R wr e = attempt (get_items wr e ''/api/v1/slabs'') (\<lambda>vs. io_ok (List.map_filter (re_slab R) vs))"

definition owns :: "string \<Rightarrow> slot_owners \<Rightarrow> string \<Rightarrow> slot_owners" where
  "owns slab owners vid = bt_insert vid (remdups_adj (sort (slab # unwrap_or (bt_get owners vid) []))) owners"

fun scan_slots :: "'w reg_env \<Rightarrow> engine \<Rightarrow> slab list \<Rightarrow> slot_owners \<Rightarrow> 'w reg \<Rightarrow> (engine_error + slot_owners) \<times> 'w reg" where
  "scan_slots R e [] owners s = (Inr owners, s)"
| "scan_slots R e (b # bs) owners s =
     (case reg_call R (\<lambda>wr. slab_volume_ids wr e (sb_id b)) s of
        (Inl x, s) \<Rightarrow> (Inl x, s)
      | (Inr vids, s) \<Rightarrow> scan_slots R e bs (foldl (owns (sb_id b)) owners vids) s)"

definition read_inventory :: "'w reg_env \<Rightarrow> engine \<Rightarrow> 'w reg \<Rightarrow> (engine_error + joined_inventory) \<times> 'w reg" where
  "read_inventory R e s =
     (case reg_call R (\<lambda>wr. list_slabs R wr e) s of
        (Inl x, s) \<Rightarrow> (Inl x, s)
      | (Inr slabs, s) \<Rightarrow>
          (case reg_call R (\<lambda>wr. list_engine_volumes wr e) s of
             (Inl x, s) \<Rightarrow> (Inl x, s)
           | (Inr vs, s) \<Rightarrow>
               (case (if needs_slot_scan vs then scan_slots R e slabs [] s else (Inr [], s)) of
                  (Inl x, s) \<Rightarrow> (Inl x, s)
                | (Inr owners, s) \<Rightarrow>
                    (Inr \<lparr>ni_slabs = slabs, ni_volumes = place slabs vs owners,
                          ni_fetched_at = Some (now (re_env R) (rg_sys s)), ni_error = None,
                          ni_claims = map (\<lambda>_. None) vs\<rparr>, s))))"

definition no_inventory :: joined_inventory where
  "no_inventory = \<lparr>ni_slabs = [], ni_volumes = [], ni_fetched_at = None, ni_error = None, ni_claims = []\<rparr>"

definition join_claims :: "string \<Rightarrow> claims \<Rightarrow> joined_inventory \<Rightarrow> joined_inventory" where
  "join_claims name cs ni = ni\<lparr>ni_claims := map (\<lambda>p. claim_for name (ev_name (pl_volume p)) cs) (ni_volumes ni)\<rparr>"

definition on_status :: "string \<Rightarrow> (node_status \<Rightarrow> node_status) \<Rightarrow> 'w reg \<Rightarrow> 'w reg" where
  "on_status name f = on_sys (with_fed (on_nodes (bt_modify name (\<lambda>n. n\<lparr>n_status := f (n_status n)\<rparr>))))"

definition refresh_inventory :: "'w reg_env \<Rightarrow> string \<Rightarrow> engine \<Rightarrow> 'w reg \<Rightarrow> 'w reg" where
  "refresh_inventory R name e s =
     (case read_inventory R e s of
        (Inr ni, s) \<Rightarrow>
          on_status name (\<lambda>st. st\<lparr>ns_volumes := of_nat (length (ni_volumes ni))\<rparr>)
            (s\<lparr>rg_inventory := bt_insert name (join_claims name (kv_claims (rg_kube s)) ni) (rg_inventory s)\<rparr>)
      | (Inl x, s) \<Rightarrow>
          s\<lparr>rg_inventory := bt_insert name ((unwrap_or (bt_get (rg_inventory s) name) no_inventory)
              \<lparr>ni_error := Some (en_text (re_env R) x)\<rparr>) (rg_inventory s)\<rparr>)"

definition refresh_io :: "'w reg_env \<Rightarrow> string \<Rightarrow> engine \<Rightarrow> 'w reg \<Rightarrow> 'w reg" where
  "refresh_io R name e s =
     (case re_io R e (sy_world (rg_sys s)) of
        (r, w) \<Rightarrow>
          (let s = on_sys (\<lambda>y. en_others (env_of R s) (y\<lparr>sy_world := w\<rparr>)) s in
           case r of
             None \<Rightarrow> s
           | Some (n, dur) \<Rightarrow>
               (let cur = \<lparr>smp_count = n, smp_sum = dur, smp_at = instant R s\<rparr> in
                on_status name (\<lambda>st. (case io_rate (ns_io_sample st) cur (now (re_env R) (rg_sys s)) of
                    Some ld \<Rightarrow> st\<lparr>ns_io := Some ld, ns_io_sample := Some cur\<rparr>
                  | None \<Rightarrow> st\<lparr>ns_io_sample := Some cur\<rparr>)) s)))"

text \<open>The apiserver's PVs and claims, read once per poll and joined onto every inventory.\<close>

definition kube_refresh :: "'w reg_env \<Rightarrow> 'w reg \<Rightarrow> 'w reg" where
  "kube_refresh R s =
     (if \<not> re_kube_enabled R then s
      else (case reg_call R (\<lambda>wr. fetch_claims wr (re_kube_server R) (kube_token (re_machine R) (re_kube_file R))) s of
          (r, s) \<Rightarrow>
            (let (report, view) = take_view (now (re_env R) (rg_sys s)) r (rg_kube s);
                 s = (if report then reg_event R ''kubernetes'' (if isl r then Warning else Info) None s else s)
             in s\<lparr>rg_kube := view,
                  rg_inventory := map (\<lambda>(n, ni). (n, join_claims n (kv_claims view) ni)) (rg_inventory s)\<rparr>)))"

subsection \<open>Polling one node\<close>

definition answered_status :: "node_capacity \<Rightarrow> time \<Rightarrow> node_status \<Rightarrow> node_status" where
  "answered_status cap t st =
     st\<lparr>ns_healthy := True, ns_consecutive_failures := 0, ns_last_ok := Some t, ns_total_bytes := cp_total_bytes cap,
        ns_free_bytes := cp_free_bytes cap, ns_engine_topology := cp_topology cap\<rparr>"

definition failed_status :: "u32 \<Rightarrow> node_status \<Rightarrow> node_status" where
  "failed_status threshold st =
     st\<lparr>ns_consecutive_failures := ns_consecutive_failures st + 1,
        ns_healthy := ns_healthy st \<and> \<not> threshold \<le> ns_consecutive_failures st + 1\<rparr>"

definition node_answered :: "'w reg_env \<Rightarrow> string \<Rightarrow> node_capacity \<Rightarrow> node_status \<Rightarrow> 'w reg \<Rightarrow> 'w reg" where
  "node_answered R name cap st s =
     (let t = now (re_env R) (rg_sys s); s = on_status name (answered_status cap t) s in
      if ns_healthy st then s
      else (let s = reg_event R ''node'' Info (Some name) s in
        if re_leads R (sy_world (rg_sys s)) then on_sys (republish_on (env_of R s) name) s else s))"

definition node_failed :: "'w reg_env \<Rightarrow> string \<Rightarrow> node_status \<Rightarrow> 'w reg \<Rightarrow> 'w reg" where
  "node_failed R name st s =
     (let after = failed_status (re_fail_threshold R) st;
          flipping = (ns_healthy st \<and> \<not> ns_healthy after);
          s = on_status name (\<lambda>_. after) s;
          s = (if ns_healthy after then s else s\<lparr>rg_inventory := bt_remove name (rg_inventory s)\<rparr>)
      in if flipping \<or> ns_consecutive_failures after = re_fail_threshold R
         then reg_event R ''node'' Error (Some name) s else s)"

text \<open>A node that left the registry during the call is passed over.\<close>

definition poll_node :: "'w reg_env \<Rightarrow> string \<times> string \<times> string option \<Rightarrow> 'w reg \<Rightarrow> 'w reg" where
  "poll_node R t s =
     (case t of (name, url, token) \<Rightarrow>
        (let e = new_engine url token in
         case call_capacity R (Some name) e token s of
           (r, s) \<Rightarrow>
             (case bt_get (known_nodes s) name of
                None \<Rightarrow> s
              | Some n \<Rightarrow>
                  (case r of
                     Inl _ \<Rightarrow> node_failed R name (n_status n) s
                   | Inr cap \<Rightarrow> refresh_io R name e (refresh_inventory R name e (node_answered R name cap (n_status n) s))))))"

definition polled_nodes :: "'w reg_env \<Rightarrow> 'w reg \<Rightarrow> (string \<times> string \<times> string option) list" where
  "polled_nodes R s =
     map (\<lambda>n. (nc_name (n_config n), nc_engine_url (n_config n), en_token (env_of R s) (n_config n))) (bt_values (known_nodes s))"

subsection \<open>Adopting nodes\<close>

definition bare_node :: "string \<Rightarrow> string \<Rightarrow> (string, string) btree \<Rightarrow> string option \<Rightarrow> node_config" where
  "bare_node name url labels tier =
     \<lparr>nc_name = name, nc_engine_url = url, nc_api_token = None, nc_token_file = None, nc_ca_file = None, nc_labels = labels,
      nc_tier = tier\<rparr>"

text \<open>Another source already covers this engine or this name.\<close>

definition covered :: "node_source \<Rightarrow> fed_state \<Rightarrow> node_config \<Rightarrow> bool" where
  "covered src fed nc \<longleftrightarrow>
     list_ex (\<lambda>n. ns_source (n_status n) \<noteq> src \<and>
       (nc_name (n_config n) = nc_name nc \<or> nc_engine_url (n_config n) = nc_engine_url nc)) (bt_values (f_nodes fed))"

definition adopt_node :: "node_source \<Rightarrow> fed_state \<times> node_config list \<Rightarrow> node_config \<Rightarrow> fed_state \<times> node_config list" where
  "adopt_node src acc nc =
     (case acc of (fed, new) \<Rightarrow>
        if covered src fed nc then (fed, new)
        else (case bt_get (f_nodes fed) (nc_name nc) of
            Some n \<Rightarrow> (on_nodes (bt_modify (nc_name nc) (\<lambda>n. n\<lparr>n_config := nc\<rparr>)) fed, new)
          | None \<Rightarrow> (on_nodes (bt_insert (nc_name nc) \<lparr>n_config = nc, n_status = new_status src\<rparr>) fed, new @ [nc])))"

definition adopt_nodes :: "node_source \<Rightarrow> node_config list \<Rightarrow> fed_state \<Rightarrow> fed_state \<times> node_config list" where
  "adopt_nodes src wanted fed = foldl (adopt_node src) (fed, []) wanted"

definition retain_nodes :: "(string \<Rightarrow> node \<Rightarrow> bool) \<Rightarrow> fed_state \<Rightarrow> fed_state \<times> string list" where
  "retain_nodes stays fed =
     (on_nodes (bt_retain stays) fed, map fst (filter (\<lambda>(name, n). \<not> stays name n) (f_nodes fed)))"

subsection \<open>The members of the cluster\<close>

definition machine_hostname :: "'w reg_env \<Rightarrow> string option" where
  "machine_hostname R = filter_opt (\<lambda>h. h \<noteq> []) (map_option trim (re_hostname R))"

definition member_here :: "'w reg_env \<Rightarrow> member \<Rightarrow> bool" where
  "member_here R m \<longleftrightarrow>
     is_this_machine (re_machine R) (engine_url_from (mb_address m) (re_scheme R)) \<or>
     is_some_and (machine_hostname R) (\<lambda>h. same_node h (mb_name m))"

definition left_to_local :: "'w reg_env \<Rightarrow> member \<Rightarrow> bool" where
  "left_to_local R m \<longleftrightarrow> member_here R m \<and> lc_enabled (re_local R)"

definition member_config :: "'w reg_env \<Rightarrow> member \<Rightarrow> node_config" where
  "member_config R m =
     bare_node (mb_name m) (engine_url_from (mb_address m) (re_scheme R))
       [(''storage'', if mb_storage m then ''true'' else ''false'')] (lc_tier (re_local R))"

definition wanted_members :: "'w reg_env \<Rightarrow> member list \<Rightarrow> node_config list" where
  "wanted_members R ms = map (member_config R) (filter (\<lambda>m. \<not> left_to_local R m) ms)"

text \<open>The last one wins, as the loop assigns it.\<close>

definition local_member :: "'w reg_env \<Rightarrow> member list \<Rightarrow> string option" where
  "local_member R ms = (case rev (filter (left_to_local R) ms) of [] \<Rightarrow> None | m # _ \<Rightarrow> Some (mb_name m))"

definition members_fed :: "node_config list \<Rightarrow> fed_state \<Rightarrow> fed_state \<times> node_config list \<times> string list" where
  "members_fed wanted fed =
     (case retain_nodes (\<lambda>name n. ns_source (n_status n) \<noteq> Member \<or> name \<in> nc_name ` set wanted) fed of
        (fed, dropped) \<Rightarrow> (case adopt_nodes Member wanted fed of (fed, new) \<Rightarrow> (fed, new, dropped)))"

definition note_adoption :: "'w reg_env \<Rightarrow> node_config list \<Rightarrow> string list \<Rightarrow> 'w reg \<Rightarrow> 'w reg" where
  "note_adoption R new dropped s =
     foldl (\<lambda>s d. reg_event R ''adopt'' Warning (Some d) s) (foldl (\<lambda>s _. reg_event R ''adopt'' Info None s) s new) dropped"

definition take_members :: "'w reg_env \<Rightarrow> member list \<Rightarrow> 'w reg \<Rightarrow> 'w reg" where
  "take_members R ms s =
     (let wanted = wanted_members R ms;
          s = s\<lparr>rg_engines := map nc_engine_url wanted, rg_local_name := local_member R ms\<rparr>
      in case members_fed wanted (sy_fed (rg_sys s)) of
           (fed, new, dropped) \<Rightarrow> note_adoption R new dropped (on_sys (with_fed (\<lambda>_. fed)) s))"

text \<open>An unreadable list changes nothing; each kind of failure is one event until the list is read again.\<close>

definition noted_prefix :: string where
  "noted_prefix = ''members:''"

definition adopt_members :: "'w reg_env \<Rightarrow> 'w reg \<Rightarrow> 'w reg" where
  "adopt_members R s =
     (case reg_call R (\<lambda>wr. members wr (re_kube_server R) (kube_token (re_machine R) (re_kube_file R))) s of
        (Inr ms, s) \<Rightarrow>
          take_members R ms (on_sys (\<lambda>y. y\<lparr>sy_noted := filter (\<lambda>k. take 8 k \<noteq> noted_prefix) (sy_noted y)\<rparr>) s)
      | (Inl e, s) \<Rightarrow>
          (let k = noted_prefix @ en_text (re_env R) e in
           if k \<in> set (sy_noted (rg_sys s)) then s
           else reg_event R ''adopt'' Warning None (on_sys (\<lambda>y. y\<lparr>sy_noted := k # sy_noted y\<rparr>) s)))"

subsection \<open>The engine on this machine and its peers\<close>

definition local_node_name :: "'w reg_env \<Rightarrow> discovery option \<Rightarrow> 'w reg \<Rightarrow> string" where
  "local_node_name R d s =
     unwrap_or (or_else (lc_name (re_local R)) (or_else (rg_local_name s)
       (or_else (filter_opt (\<lambda>n. n \<noteq> []) (map_option dc_local_node d)) (machine_hostname R)))) ''local''"

definition wanted_local :: "'w reg_env \<Rightarrow> discovery option \<Rightarrow> 'w reg \<Rightarrow> node_config list" where
  "wanted_local R d s =
     bare_node (local_node_name R d s) (trim_end_slash (lc_engine_url (re_local R))) [] (lc_tier (re_local R)) #
     (if lc_cluster_peers (re_local R)
      then (case d of None \<Rightarrow> [] | Some d \<Rightarrow>
        map (\<lambda>p. bare_node (dn_node_name p) (engine_url_from (dn_mgmt_addr p) (re_scheme R)) [] (lc_tier (re_local R))) (cluster_peers d))
      else [])"

definition local_fed :: "bool \<Rightarrow> node_config list \<Rightarrow> fed_state \<Rightarrow> fed_state \<times> node_config list \<times> string list" where
  "local_fed judge_peers wanted fed =
     (case adopt_nodes Local wanted fed of
        (fed, new) \<Rightarrow>
          (case retain_nodes (\<lambda>name n. ns_source (n_status n) \<noteq> Local \<or> name \<in> nc_name ` set wanted \<or>
              (\<not> judge_peers \<and> nc_engine_url (n_config n) \<noteq> nc_engine_url (hd wanted))) fed of
             (fed, dropped) \<Rightarrow> (fed, new, dropped)))"

definition take_local :: "'w reg_env \<Rightarrow> discovery option \<Rightarrow> 'w reg \<Rightarrow> 'w reg" where
  "take_local R d s =
     (case local_fed (d \<noteq> None \<or> \<not> lc_cluster_peers (re_local R)) (wanted_local R d s) (sy_fed (rg_sys s)) of
        (fed, new, dropped) \<Rightarrow> note_adoption R new dropped (on_sys (with_fed (\<lambda>_. fed)) s))"

definition local_token :: "'w reg_env \<Rightarrow> string option" where
  "local_token R = map_option fst (token_for (re_machine R) (re_local R) (lc_engine_url (re_local R)))"

definition discover :: "'w reg_env \<Rightarrow> 'w wire \<Rightarrow> engine \<Rightarrow> ('w, discovery option) io" where
  "discover R wr e =
     attempt (send wr (get e ''/api/v1/discovery'')) (\<lambda>r.
     attempt (check_refused r ''/api/v1/discovery'') (\<lambda>_.
       io_ok (if is_success r then Option.bind (rs_json r) (re_discovery R) else None)))"

definition adopt_local :: "'w reg_env \<Rightarrow> 'w reg \<Rightarrow> 'w reg" where
  "adopt_local R s =
     (let token = local_token R; e = new_engine (lc_engine_url (re_local R)) token in
      if backing_off R e token s \<noteq> None then s
      else (case reg_call R (\<lambda>wr. discover R wr e) s of
          (r, s) \<Rightarrow>
            (let s = note_outcome R None e token (error_of r) s in
             case r of
               Inr (Some d) \<Rightarrow> take_local R (Some d) s
             | _ \<Rightarrow>
                 if is_some_and (error_of r) is_refused then s
                 else (case call_capacity R None e token s of
                     (Inl _, s) \<Rightarrow> s
                   | (Inr _, s) \<Rightarrow> take_local R None s))))"

subsection \<open>A pass\<close>

definition poll_pass :: "'w reg_env \<Rightarrow> 'w reg \<Rightarrow> 'w reg" where
  "poll_pass R s =
     (let s = (if re_store R \<and> lc_cluster_members (re_local R) \<and> re_kube_enabled R then adopt_members R s else s);
          s = (if lc_enabled (re_local R) then adopt_local R s else s)
      in foldl (\<lambda>s t. poll_node R t s) s (polled_nodes R s))"

definition forget_inventories :: "'w reg \<Rightarrow> 'w reg" where
  "forget_inventories s = s\<lparr>rg_inventory := bt_retain (\<lambda>n _. bt_get (known_nodes s) n \<noteq> None) (rg_inventory s)\<rparr>"

subsection \<open>What a pass leaves of the nodes\<close>

abbreviation nds :: "'w sys \<Rightarrow> (string, node) btree" where
  "nds y \<equiv> f_nodes (sy_fed y)"

lemma quiet_env_of [simp]: "quiet (env_of R s) g = quiet (re_env R) g"
  by (simp add: quiet_def env_of_def with_credentials_def)

lemma publish_nodes:
  assumes q: "quiet env nds"
  shows "nds (snd (publish env name s)) = nds s"
proof -
  have "nds (snd (publish_inner env name s)) = nds s"
  proof (cases "publish_ready env name (sy_fed s)")
    case (Inl e)
    then show ?thesis by (cases e; cases "fst e") (auto simp: publish_inner_def record_unreachable_def split: option.split)
  next
    case (Inr x)
    obtain vol srv where x: "x = (vol, srv)" by fastforce
    let ?ph = "x_per_host (v_export vol) \<or> x_hosts (v_export vol) \<noteq> []"
    obtain a1 s1 where a1: "attach_served env name vol srv ?ph s = (a1, s1)" by fastforce
    obtain a2 lid p s2 where a2: "serve_named env name vol srv (sa_volume_id srv \<noteq> None) a1 s1 = (a2, lid, p, s2)"
      by (cases "serve_named env name vol srv (sa_volume_id srv \<noteq> None) a1 s1") auto
    have "nds s2 = nds s"
      using attach_served_quiet [OF q, of name vol srv ?ph s]
        serve_named_quiet [OF q, of name vol srv "sa_volume_id srv \<noteq> None" a1 s1] by (simp only: a1 a2 snd_conv)
    then show ?thesis by (auto simp: publish_inner_def Inr x Let_def a1 a2 simp del: not_None_eq split: option.splits)
  qed
  then show ?thesis by (auto simp: publish_def split: prod.splits sum.splits)
qed

lemma withdraw_due_nodes:
  assumes q: "quiet env nds" shows "nds (withdraw_due env s due) = nds s"
  by (cases due) (auto simp: withdraw_due_def withdraw_on_engine_def Let_def dest!: call_quiet_eq [OF q] split: sum.splits prod.splits option.splits)

lemma fold_nodes: "(\<And>s x. nds (f s x) = nds s) \<Longrightarrow> nds (foldl f s xs) = nds s"
  by (induction xs arbitrary: s) simp_all

lemma republish_nodes: "quiet env nds \<Longrightarrow> nds (republish_on env n s) = nds s"
  by (simp add: republish_on_def withdraw_pending_on_def Let_def fold_nodes publish_nodes withdraw_due_nodes)

lemma known_simps [simp]:
  "known_nodes (reg_event R k sev sub s) = known_nodes s"
  "known_nodes (s\<lparr>rg_refusals := rf\<rparr>) = known_nodes s"
  "known_nodes (s\<lparr>rg_inventory := iv\<rparr>) = known_nodes s"
  "known_nodes (on_status n f s) = bt_modify n (\<lambda>x. x\<lparr>n_status := f (n_status x)\<rparr>) (known_nodes s)"
  by (simp_all add: reg_event_def on_sys_def on_status_def on_nodes_def)

lemma inventory_simps [simp]:
  "rg_inventory (reg_event R k sev sub s) = rg_inventory s" "rg_inventory (on_status n f s) = rg_inventory s"
  by (simp_all add: reg_event_def on_sys_def on_status_def)

lemma reg_call_known:
  assumes "quiet (re_env R) nds" and "reg_call R m s = (r, s')"
  shows "known_nodes s' = known_nodes s" "rg_inventory s' = rg_inventory s" "rg_refusals s' = rg_refusals s"
  using assms call_quiet_eq [of "env_of R s" nds m "rg_sys s"] by (auto simp: reg_call_def split: prod.splits)

lemma note_outcome_known [simp]:
  "known_nodes (note_outcome R node e token err s) = known_nodes s" "rg_inventory (note_outcome R node e token err s) = rg_inventory s"
  by (auto simp: note_outcome_def split: option.split prod.split)

lemma call_capacity_known:
  assumes "quiet (re_env R) nds" and "call_capacity R node e token s = (r, s')"
  shows "known_nodes s' = known_nodes s" "rg_inventory s' = rg_inventory s"
  using assms reg_call_known [OF assms(1)] by (auto simp: call_capacity_def split: if_splits prod.splits)

text \<open>What reading the inventory and the counters changes of a node is not its health.\<close>

definition health :: "node \<Rightarrow> bool \<times> u32 \<times> u64 \<times> u64 \<times> node_config" where
  "health n = (ns_healthy (n_status n), ns_consecutive_failures (n_status n), ns_total_bytes (n_status n), ns_free_bytes (n_status n), n_config n)"

definition healths :: "'w reg \<Rightarrow> string \<Rightarrow> (bool \<times> u32 \<times> u64 \<times> u64 \<times> node_config) option" where
  "healths s n = map_option health (bt_get (known_nodes s) n)"

lemma healths_known: "known_nodes s' = known_nodes s \<Longrightarrow> healths s' = healths s"
  by (simp add: healths_def fun_eq_iff)

lemma healths_inventory [simp]: "healths (s\<lparr>rg_inventory := iv\<rparr>) = healths s"
  by (simp add: healths_def fun_eq_iff)

lemma healths_status:
  assumes "\<And>st. ns_healthy (f st) = ns_healthy st \<and> ns_consecutive_failures (f st) = ns_consecutive_failures st \<and>
     ns_total_bytes (f st) = ns_total_bytes st \<and> ns_free_bytes (f st) = ns_free_bytes st"
  shows "healths (on_status n f s) = healths s"
proof
  fix m
  show "healths (on_status n f s) m = healths s m"
    by (cases "bt_get (known_nodes s) m") (auto simp: healths_def bt_get_modify health_def assms)
qed

lemma scan_slots_known:
  "quiet (re_env R) nds \<Longrightarrow> scan_slots R e bs owners s = (r, s') \<Longrightarrow> known_nodes s' = known_nodes s"
  by (induction bs arbitrary: owners s) (auto split: prod.splits sum.splits dest!: reg_call_known(1))

lemma read_inventory_known:
  assumes q: "quiet (re_env R) nds" and "read_inventory R e s = (r, s')" shows "known_nodes s' = known_nodes s"
  using assms(2) by (auto simp: read_inventory_def split: prod.splits sum.splits if_splits
      dest!: reg_call_known(1) [OF q] scan_slots_known [OF q])

lemma refresh_inventory_healths:
  assumes q: "quiet (re_env R) nds" shows "healths (refresh_inventory R name e s) = healths s"
proof -
  obtain r s1 where r: "read_inventory R e s = (r, s1)" by fastforce
  note k = read_inventory_known [OF q r]
  show ?thesis
    by (cases r) (simp_all add: refresh_inventory_def r healths_status healths_known [OF k])
qed

lemma refresh_io_healths:
  assumes q: "quiet (re_env R) nds" shows "healths (refresh_io R name e s) = healths s"
proof -
  obtain r w where r: "re_io R e (sy_world (rg_sys s)) = (r, w)" by fastforce
  let ?s = "on_sys (\<lambda>y. en_others (env_of R s) (y\<lparr>sy_world := w\<rparr>)) s"
  have "quiet (env_of R s) nds" using q by simp
  then have k: "healths ?s = healths s"
    unfolding quiet_def by (intro healths_known) (simp add: on_sys_def)
  show ?thesis
    by (cases r) (auto simp: refresh_io_def r Let_def k healths_status split: option.split)
qed

lemma node_answered_healths:
  assumes q: "quiet (re_env R) nds"
  shows "healths (node_answered R name cap st s) = healths (on_status name (answered_status cap (now (re_env R) (rg_sys s))) s)"
proof -
  have r: "healths (on_sys (republish_on (env_of R t) name) u) = healths u" for t u :: "'a reg"
    by (rule healths_known) (simp add: on_sys_def republish_nodes q)
  have e: "healths (reg_event R k sev sub t) = healths t" for k sev sub and t :: "'a reg" by (rule healths_known) simp
  show ?thesis by (simp add: node_answered_def Let_def r e)
qed

text \<open>Property C36. A poll decides a node's health from its engine's answer alone: an answer makes it healthy with no failures
  and the capacity answered; a failed or withheld call is one failure more, and the node stays healthy only if it
  was and the failures are below the threshold. Every other node is as it was, and an unhealthy node has no
  inventory.\<close>

theorem poll_health:
  assumes "quiet (re_env R) nds" and "bt_get (known_nodes s) n = Some x"
    and "call_capacity R (Some n) (new_engine url token) token s = (r, s1)"
  shows "healths (poll_node R (n, url, token) s) = (healths s)(n \<mapsto>
      (case r of
         Inr cap \<Rightarrow> (True, 0, cp_total_bytes cap, cp_free_bytes cap, n_config x)
       | Inl _ \<Rightarrow> (ns_healthy (n_status x) \<and> ns_consecutive_failures (n_status x) + 1 < re_fail_threshold R,
           ns_consecutive_failures (n_status x) + 1, ns_total_bytes (n_status x), ns_free_bytes (n_status x), n_config x))) \<and>
    (isl r \<longrightarrow> \<not> (ns_healthy (n_status x) \<and> ns_consecutive_failures (n_status x) + 1 < re_fail_threshold R) \<longrightarrow>
       bt_get (rg_inventory (poll_node R (n, url, token) s)) n = None)"
proof -
  note k = call_capacity_known [OF assms(1,3)]
  have x: "bt_get (known_nodes s1) n = Some x" by (simp add: k assms(2))
  have status: "healths (on_status n f s1) = (healths s)(n \<mapsto> health (x\<lparr>n_status := f (n_status x)\<rparr>))" for f
    using assms(2) by (auto simp: healths_def fun_eq_iff bt_get_modify k)
  show ?thesis
  proof (cases r)
    case (Inr cap)
    let ?s = "node_answered R n cap (n_status x) s1"
    have "poll_node R (n, url, token) s = refresh_io R n (new_engine url token) (refresh_inventory R n (new_engine url token) ?s)"
      using assms(3) x Inr by (simp add: poll_node_def Let_def)
    then show ?thesis
      by (simp add: refresh_io_healths [OF assms(1)] refresh_inventory_healths [OF assms(1)] node_answered_healths [OF assms(1)] status
          Inr health_def answered_status_def)
  next
    case (Inl e)
    have p: "poll_node R (n, url, token) s = node_failed R n (n_status x) s1" using assms(3) x Inl by (simp add: poll_node_def Let_def)
    have e: "healths (reg_event R k sev sub t) = healths t" for k sev sub and t :: "'a reg" by (rule healths_known) simp
    have "healths (node_failed R n (n_status x) s1) = healths (on_status n (\<lambda>_. failed_status (re_fail_threshold R) (n_status x)) s1)"
      by (simp add: node_failed_def Let_def e)
    then show ?thesis
      by (simp add: p status Inl health_def failed_status_def not_le) (simp add: node_failed_def Let_def failed_status_def not_le)
  qed
qed

text \<open>The refusal of an engine on record.\<close>

definition refusal_of :: "string \<Rightarrow> 'w reg \<Rightarrow> refusal option" where
  "refusal_of url s = bt_get (rg_refusals s) (refusal_key url)"

lemma may_call_entry:
  "bt_get rf (refusal_key url) = bt_get rf' (refusal_key url) \<Longrightarrow> may_call h rf url token t = may_call h rf' url token t"
  by (simp add: may_call_def)

text \<open>Property C37. An engine that refused a token is left alone: until the back-off is over no poll of its URL with the same token
  sends a request, for whichever node and however the rest of the state changed meanwhile (other engines refused or
  accepted included), as long as this engine's refusal stays on record as it is. Another token is tried at once.\<close>

theorem poll_backs_off:
  assumes "call_capacity R node (new_engine url token) token s = (Inl e, s1)" and "is_refused e"
  shows "\<exists>wait. 0 < wait \<and> wait \<le> MAX_BACKOFF \<and>
    (\<forall>s2 n. refusal_of url s2 = refusal_of url s1 \<longrightarrow> instant R s2 < instant R s1 + wait \<longrightarrow>
       sy_world (rg_sys (poll_node R (n, url, token) s2)) = sy_world (rg_sys s2)) \<and>
    (\<forall>s2 other. refusal_of url s2 = refusal_of url s1 \<longrightarrow> fingerprint (re_hash R) other \<noteq> fingerprint (re_hash R) token \<longrightarrow>
       backing_off R (new_engine url other) other s2 = None)"
proof -
  let ?e = "new_engine url token"
  have key: "refusal_key (eg_url (new_engine url t)) = refusal_key url" for t by (simp add: new_engine_def refusal_key_def trim_end_slash_def)
  have "e \<noteq> Bail m" for m using assms(2) by (auto simp: is_refused_def)
  with assms(1) obtain s0 where s1: "s1 = note_outcome R node ?e token (Some e) s0"
    by (auto simp: call_capacity_def split: if_splits prod.splits)
  obtain rep rf where r: "refused (re_hash R) (rg_refusals s0) (eg_url ?e) token (secs (unat (max (en_poll_secs (re_env R)) 1)))
      (instant R s0) = (rep, rf)" by fastforce
  from refused_backs_off [OF r] obtain wait where w: "0 < wait" "wait \<le> MAX_BACKOFF" "retry_in rf (eg_url ?e) (instant R s0) = Some wait"
    "\<And>t. may_call (re_hash R) rf (eg_url ?e) token t \<longleftrightarrow> instant R s0 + wait \<le> t" by blast
  have s1': "rg_refusals s1 = rf" "instant R s1 = instant R s0"
    using assms(2) r [unfolded instant_def] by (simp_all add: s1 note_outcome_def filter_opt_def reg_event_def on_sys_def instant_def)
  have "sy_world (rg_sys (poll_node R (n, url, token) s2)) = sy_world (rg_sys s2)"
    if "refusal_of url s2 = refusal_of url s1" "instant R s2 < instant R s1 + wait" for s2 n
  proof -
    have rf2: "bt_get (rg_refusals s2) (refusal_key (eg_url ?e)) = bt_get rf (refusal_key (eg_url ?e))"
      using that(1) by (simp add: refusal_of_def s1' key)
    have "\<not> may_call (re_hash R) (rg_refusals s2) (eg_url ?e) token (instant R s2)" using w(4) that(2) may_call_entry [OF rf2] by (simp add: s1')
    moreover obtain d where "retry_in (rg_refusals s2) (eg_url ?e) (instant R s2) = Some d"
      using w(3) by (cases "bt_get rf (refusal_key (eg_url ?e))") (simp_all add: rf2 retry_in_def)
    ultimately have "call_capacity R (Some n) ?e token s2 = (Inl (Bail ''engine refuses stormstorage's token''), s2)"
      by (simp add: call_capacity_def backing_off_def)
    then show ?thesis
      by (auto simp: poll_node_def Let_def node_failed_def on_status_def reg_event_def on_sys_def with_fed_def split: option.split)
  qed
  moreover have "backing_off R (new_engine url other) other s2 = None"
    if "refusal_of url s2 = refusal_of url s1" "fingerprint (re_hash R) other \<noteq> fingerprint (re_hash R) token" for s2 other
    using that refused_entry [OF r] by (auto simp add: backing_off_def may_call_def refusal_of_def s1' key split: option.split)
  ultimately show ?thesis using w(1,2) by blast
qed

subsection \<open>What adopting nodes leaves of the others\<close>

text \<open>The nodes of other sources.\<close>

definition others :: "node_source \<Rightarrow> fed_state \<Rightarrow> string \<Rightarrow> node option" where
  "others src fed n = filter_opt (\<lambda>y. ns_source (n_status y) \<noteq> src) (bt_get (f_nodes fed) n)"

text \<open>Nodes are kept under their names.\<close>

definition named :: "fed_state \<Rightarrow> bool" where
  "named fed \<longleftrightarrow> bt_ok (f_nodes fed) \<and> (\<forall>n y. bt_get (f_nodes fed) n = Some y \<longrightarrow> nc_name (n_config y) = n)"

text \<open>Who adopts nodes of one source touches no node of another.\<close>

locale adopter =
  fixes src :: node_source and run :: "'x \<Rightarrow> fed_state \<Rightarrow> fed_state"
  assumes run_named: "named fed \<Longrightarrow> named (run x fed)"
    and run_others: "named fed \<Longrightarrow> others src (run x fed) = others src fed"
begin

lemma runs_keep:
  "named fed \<Longrightarrow> named (foldl (\<lambda>fed x. run x fed) fed xs) \<and> others src (foldl (\<lambda>fed x. run x fed) fed xs) = others src fed"
  by (induction xs arbitrary: fed) (simp_all add: run_named run_others)

lemma run_foreign:
  assumes "named fed" and "ns_source (n_status y) \<noteq> src"
  shows "bt_get (f_nodes (run x fed)) n = Some y \<longleftrightarrow> bt_get (f_nodes fed) n = Some y"
  using fun_cong [OF run_others [OF assms(1), of x], of n] assms(2)
  by (cases "bt_get (f_nodes fed) n"; cases "bt_get (f_nodes (run x fed)) n") (auto simp: others_def filter_opt_def split: if_splits)

end

lemma f_nodes_on_nodes [simp]: "f_nodes (on_nodes f fed) = f (f_nodes fed)"
  by (simp add: on_nodes_def)

lemma named_nodes: "f_nodes fed' = f_nodes fed \<Longrightarrow> named fed' = named fed"
  by (simp add: named_def)

text \<open>Whether a node is covered depends on the nodes of other sources alone.\<close>

lemma covered_others:
  assumes "bt_ok (f_nodes fed)"
  shows "covered src fed nc \<longleftrightarrow>
    (\<exists>n y. others src fed n = Some y \<and> (nc_name (n_config y) = nc_name nc \<or> nc_engine_url (n_config y) = nc_engine_url nc))"
proof -
  have "y \<in> set (bt_values (f_nodes fed)) \<longleftrightarrow> (\<exists>n. bt_get (f_nodes fed) n = Some y)" for y
    using bt_value_iff [OF assms, of _ y] by force
  then have "covered src fed nc \<longleftrightarrow> (\<exists>y. (\<exists>n. bt_get (f_nodes fed) n = Some y) \<and> ns_source (n_status y) \<noteq> src \<and>
      (nc_name (n_config y) = nc_name nc \<or> nc_engine_url (n_config y) = nc_engine_url nc))"
    unfolding covered_def list_ex_iff Bex_def by (simp only:)
  then show ?thesis by (auto simp: others_def)
qed

lemma uncovered_own:
  assumes "named fed" and "\<not> covered src fed nc" and "bt_get (f_nodes fed) (nc_name nc) = Some y"
  shows "ns_source (n_status y) = src"
proof (rule ccontr)
  assume "ns_source (n_status y) \<noteq> src"
  with assms(3) have "others src fed (nc_name nc) = Some y" by (simp add: others_def)
  moreover have "nc_name (n_config y) = nc_name nc" using assms(1,3) by (simp add: named_def)
  ultimately show False using assms(1,2) covered_others [of fed src nc] by (auto simp: named_def)
qed

lemma adopt_node_keeps:
  assumes "named fed"
  shows "named (fst (adopt_node src (fed, new) nc))" "others src (fst (adopt_node src (fed, new) nc)) = others src fed"
proof -
  show "named (fst (adopt_node src (fed, new) nc))"
    using assms by (auto simp: adopt_node_def named_def bt_insert_ok split: option.split if_splits simp del: map_map)
  show "others src (fst (adopt_node src (fed, new) nc)) = others src fed"
  proof
    fix n
    show "others src (fst (adopt_node src (fed, new) nc)) n = others src fed n"
      using uncovered_own [OF assms]
      by (cases "bt_get (f_nodes fed) (nc_name nc)") (auto simp: adopt_node_def others_def filter_opt_def new_status_def)
  qed
qed

lemma adopt_nodes_keeps:
  assumes "named fed"
  shows "named (fst (adopt_nodes src wanted fed)) \<and> others src (fst (adopt_nodes src wanted fed)) = others src fed"
proof -
  have "named (fst (foldl (adopt_node src) acc wanted)) \<and> others src (fst (foldl (adopt_node src) acc wanted)) = others src (fst acc)"
    if "named (fst acc)" for acc
    using that
  proof (induction wanted arbitrary: acc)
    case (Cons nc wanted)
    from adopt_node_keeps [of "fst acc" src "snd acc" nc] Cons show ?case by simp
  qed simp
  from this [of "(fed, [])"] assms show ?thesis by (simp add: adopt_nodes_def)
qed

lemma retain_nodes_keeps:
  assumes "named fed" and "\<And>n y. ns_source (n_status y) \<noteq> src \<Longrightarrow> stays n y"
  shows "named (fst (retain_nodes stays fed))" "others src (fst (retain_nodes stays fed)) = others src fed"
proof -
  have get: "bt_get (f_nodes (fst (retain_nodes stays fed))) n = filter_opt (stays n) (bt_get (f_nodes fed) n)" for n
    using assms(1) by (simp add: retain_nodes_def bt_get_retain named_def)
  show "named (fst (retain_nodes stays fed))"
    using assms(1) unfolding named_def get by (simp add: retain_nodes_def bt_retain_ok)
  show "others src (fst (retain_nodes stays fed)) = others src fed"
    using assms(2) by (auto simp: others_def get filter_opt_def fun_eq_iff split: option.split)
qed

interpretation from_members: adopter Member "\<lambda>wanted fed. fst (members_fed wanted fed)"
proof
  fix fed :: fed_state and wanted :: "node_config list"
  assume n: "named fed"
  let ?stays = "\<lambda>name n. ns_source (n_status n) \<noteq> Member \<or> name \<in> nc_name ` set wanted"
  let ?f = "fst (retain_nodes ?stays fed)"
  have r: "named ?f" "others Member ?f = others Member fed" using retain_nodes_keeps [OF n, of Member ?stays] by simp_all
  have f: "fst (members_fed wanted fed) = fst (adopt_nodes Member wanted ?f)"
    by (simp add: members_fed_def split: prod.split)
  show "named (fst (members_fed wanted fed))" "others Member (fst (members_fed wanted fed)) = others Member fed"
    using adopt_nodes_keeps [OF r(1)] r(2) by (simp_all add: f)
qed

interpretation from_local: adopter Local "\<lambda>jw fed. fst (local_fed (fst jw) (snd jw) fed)"
proof
  fix fed :: fed_state and jw :: "bool \<times> node_config list"
  assume n: "named fed"
  let ?stays = "\<lambda>name n. ns_source (n_status n) \<noteq> Local \<or> name \<in> nc_name ` set (snd jw) \<or>
    (\<not> fst jw \<and> nc_engine_url (n_config n) \<noteq> nc_engine_url (hd (snd jw)))"
  let ?f = "fst (adopt_nodes Local (snd jw) fed)"
  have a: "named ?f" "others Local ?f = others Local fed" using adopt_nodes_keeps [OF n] by simp_all
  have f: "fst (local_fed (fst jw) (snd jw) fed) = fst (retain_nodes ?stays ?f)"
    by (simp add: local_fed_def split: prod.split)
  show "named (fst (local_fed (fst jw) (snd jw) fed))" "others Local (fst (local_fed (fst jw) (snd jw) fed)) = others Local fed"
    using retain_nodes_keeps [OF a(1), of Local ?stays] a(2) by (simp_all add: f)
qed

lemma note_adoption_known [simp]: "known_nodes (note_adoption R new dropped s) = known_nodes s"
proof -
  have "known_nodes (foldl (\<lambda>s d. reg_event R k sev (f d) s) s ds) = known_nodes s" for k sev f s and ds :: "'b list"
    by (induction ds arbitrary: s) simp_all
  note this [of _ _ "\<lambda>_. None"] this [of _ _ Some]
  then show ?thesis by (simp add: note_adoption_def)
qed

lemma take_members_known:
  "known_nodes (take_members R ms s) = f_nodes (fst (members_fed (wanted_members R ms) (sy_fed (rg_sys s))))"
  by (cases "members_fed (wanted_members R ms) (sy_fed (rg_sys s))") (auto simp: take_members_def Let_def on_sys_def split: prod.split)

lemma take_local_known:
  "known_nodes (take_local R d s) =
   f_nodes (fst (local_fed (d \<noteq> None \<or> \<not> lc_cluster_peers (re_local R)) (wanted_local R d s) (sy_fed (rg_sys s))))"
  by (cases "local_fed (d \<noteq> None \<or> \<not> lc_cluster_peers (re_local R)) (wanted_local R d s) (sy_fed (rg_sys s))")
    (auto simp: take_local_def on_sys_def split: prod.split)

lemma others_nodes: "f_nodes fed' = f_nodes fed \<Longrightarrow> others src fed' = others src fed"
  by (simp add: others_def fun_eq_iff)

text \<open>What an adoption keeps: the nodes under their names, and those of other sources.\<close>

definition foreign_kept :: "node_source \<Rightarrow> 'w reg \<Rightarrow> 'w reg \<Rightarrow> bool" where
  "foreign_kept src s s' \<longleftrightarrow>
     named (sy_fed (rg_sys s')) \<and> others src (sy_fed (rg_sys s')) = others src (sy_fed (rg_sys s))"

lemma foreign_kept_known: "known_nodes s' = known_nodes s \<Longrightarrow> named (sy_fed (rg_sys s)) \<Longrightarrow> foreign_kept src s s'"
  using named_nodes [of "sy_fed (rg_sys s')" "sy_fed (rg_sys s)"] others_nodes [of "sy_fed (rg_sys s')" "sy_fed (rg_sys s)"]
  by (simp add: foreign_kept_def)

lemma foreign_kept_trans: "foreign_kept src s s1 \<Longrightarrow> foreign_kept src s1 s2 \<Longrightarrow> foreign_kept src s s2"
  by (simp add: foreign_kept_def)

lemma take_members_foreign:
  assumes n: "named (sy_fed (rg_sys s))" shows "foreign_kept Member s (take_members R ms s)"
  unfolding foreign_kept_def named_nodes [OF take_members_known] others_nodes [OF take_members_known]
  using from_members.run_named [OF n] from_members.run_others [OF n] by simp

lemma take_local_foreign:
  assumes n: "named (sy_fed (rg_sys s))" shows "foreign_kept Local s (take_local R d s)"
  unfolding foreign_kept_def named_nodes [OF take_local_known] others_nodes [OF take_local_known]
  using from_local.run_named [OF n, of "(_, _)"] from_local.run_others [OF n, of "(_, _)"] by simp

lemma adopt_members_foreign:
  assumes q: "quiet (re_env R) nds" and n: "named (sy_fed (rg_sys s))"
  shows "foreign_kept Member s (adopt_members R s)"
proof -
  obtain r s1 where c: "reg_call R (\<lambda>wr. members wr (re_kube_server R) (kube_token (re_machine R) (re_kube_file R))) s = (r, s1)"
    by fastforce
  have k: "known_nodes s1 = known_nodes s" by (rule reg_call_known(1) [OF q c])
  show ?thesis
  proof (cases r)
    case (Inl e)
    then have "known_nodes (adopt_members R s) = known_nodes s1" by (simp add: adopt_members_def c Let_def on_sys_def)
    with k have "known_nodes (adopt_members R s) = known_nodes s" by (rule trans [rotated])
    with n show ?thesis by (rule foreign_kept_known [rotated])
  next
    case (Inr ms)
    let ?s = "on_sys (\<lambda>y. y\<lparr>sy_noted := filter (\<lambda>k. take 8 k \<noteq> noted_prefix) (sy_noted y)\<rparr>) s1"
    have "known_nodes ?s = known_nodes s1" by (simp add: on_sys_def)
    then have "known_nodes ?s = known_nodes s" using k by (rule trans)
    then have s: "foreign_kept Member s ?s" using n by (rule foreign_kept_known)
    then have "named (sy_fed (rg_sys ?s))" by (simp add: foreign_kept_def)
    from foreign_kept_trans [OF s take_members_foreign [OF this]] show ?thesis by (simp add: adopt_members_def c Inr)
  qed
qed

lemma adopt_local_foreign:
  assumes q: "quiet (re_env R) nds" and n: "named (sy_fed (rg_sys s))"
  shows "foreign_kept Local s (adopt_local R s)"
proof -
  let ?t = "local_token R"
  let ?e = "new_engine (lc_engine_url (re_local R)) ?t"
  obtain r s1 where c: "reg_call R (\<lambda>wr. discover R wr ?e) s = (r, s1)" by fastforce
  let ?s = "note_outcome R None ?e ?t (error_of r) s1"
  obtain r2 s2 where c2: "call_capacity R None ?e ?t ?s = (r2, s2)" by fastforce
  have s: "known_nodes ?s = known_nodes s" by (rule trans [OF note_outcome_known(1) reg_call_known(1) [OF q c]])
  have s2: "known_nodes s2 = known_nodes s" by (rule trans [OF call_capacity_known(1) [OF q c2] s])
  have local: "foreign_kept Local s (take_local R d u)" if "known_nodes u = known_nodes s" for d u
  proof -
    from that have u: "foreign_kept Local s u" using n by (rule foreign_kept_known)
    then have "named (sy_fed (rg_sys u))" by (simp add: foreign_kept_def)
    from foreign_kept_trans [OF u take_local_foreign [OF this]] show ?thesis .
  qed
  have same: "foreign_kept Local s u" if "known_nodes u = known_nodes s" for u
    using that n by (rule foreign_kept_known)
  show ?thesis
    using local [OF s] local [OF s2] same [OF s] same [OF s2] same [OF refl] c2
    by (cases r) (auto simp: adopt_local_def Let_def c split: option.split sum.split)
qed

text \<open>Property C35. Adopting nodes never touches what another source put on record: whatever the apiserver and the engine on this
  machine answer, the nodes that are no cluster members keep their entries when members are adopted, those not adopted
  from this machine when its engine and peers are, and every node stays under its name.\<close>

theorem adoption_keeps_others:
  assumes "quiet (re_env R) nds" and "named (sy_fed (rg_sys s))"
  shows "foreign_kept Member s (adopt_members R s) \<and> foreign_kept Local s (adopt_local R s)"
  using adopt_members_foreign [OF assms] adopt_local_foreign [OF assms] ..

subsection \<open>What an adoption adds\<close>

lemma adopt_nodes_Nil [simp]: "adopt_nodes src [] fed = (fed, [])"
  by (simp add: adopt_nodes_def)

lemma adopt_nodes_snoc: "adopt_nodes src (wanted @ [nc]) fed = adopt_node src (adopt_nodes src wanted fed) nc"
  by (simp add: adopt_nodes_def)

definition own_node :: "node_source \<Rightarrow> fed_state \<Rightarrow> string \<Rightarrow> node_config \<Rightarrow> bool" where
  "own_node src fed n nc \<longleftrightarrow> (\<exists>y. bt_get (f_nodes fed) n = Some y \<and> ns_source (n_status y) = src \<and> n_config y = nc)"

lemma adopt_nodes_exact:
  fixes src :: node_source
  assumes "named fed" and "distinct (map nc_name wanted)"
  defines "fed' \<equiv> fst (adopt_nodes src wanted fed)"
  shows "(\<forall>nc \<in> set wanted. covered src fed nc \<or> own_node src fed' (nc_name nc) nc) \<and>
    (\<forall>n. n \<notin> nc_name ` set wanted \<longrightarrow> bt_get (f_nodes fed') n = bt_get (f_nodes fed) n)"
  using assms(2) unfolding fed'_def
proof (induction wanted rule: rev_induct)
  case (snoc nc wanted)
  let ?acc = "adopt_nodes src wanted fed"
  obtain f1 new where acc: "?acc = (f1, new)" by fastforce
  have n1: "named f1" "others src f1 = others src fed" using adopt_nodes_keeps [OF assms(1), of src wanted] by (simp_all add: acc)
  have cov: "covered src f1 nc = covered src fed nc"
    using n1 assms(1) by (simp add: covered_others named_def)
  have step: "bt_get (f_nodes (fst (adopt_node src (f1, new) nc))) n = bt_get (f_nodes f1) n" if "n \<noteq> nc_name nc" for n
    using that by (auto simp: adopt_node_def split: option.split)
  have new: "covered src fed nc \<or> own_node src (fst (adopt_node src (f1, new) nc)) (nc_name nc) nc"
  proof (cases "covered src f1 nc")
    case False
    with uncovered_own [OF n1(1)] show ?thesis
      by (cases "bt_get (f_nodes f1) (nc_name nc)") (auto simp: adopt_node_def own_node_def new_status_def)
  qed (simp add: cov)
  have IH: "(\<forall>nc \<in> set wanted. covered src fed nc \<or> own_node src f1 (nc_name nc) nc) \<and>
      (\<forall>n. n \<notin> nc_name ` set wanted \<longrightarrow> bt_get (f_nodes f1) n = bt_get (f_nodes fed) n)"
    using snoc by (simp add: acc)
  have "covered src fed c \<or> own_node src (fst (adopt_node src (f1, new) nc)) (nc_name c) c" if "c \<in> set wanted" for c
  proof -
    have "nc_name c \<noteq> nc_name nc" using snoc.prems imageI [OF that, of nc_name] by auto
    with step IH that show ?thesis by (auto simp: own_node_def)
  qed
  with new IH step show ?case by (auto simp: adopt_nodes_snoc acc)
qed simp

lemma members_adopted_raw:
  assumes "named (sy_fed (rg_sys s))" and "distinct (map nc_name (wanted_members R ms))"
  defines "fed' \<equiv> sy_fed (rg_sys (take_members R ms s))"
  shows "(\<forall>nc \<in> set (wanted_members R ms). covered Member (sy_fed (rg_sys s)) nc \<or> own_node Member fed' (nc_name nc) nc) \<and>
    (\<forall>n nc. own_node Member fed' n nc \<longrightarrow> n \<in> nc_name ` set (wanted_members R ms)) \<and>
    others Member fed' = others Member (sy_fed (rg_sys s))"
proof -
  let ?w = "wanted_members R ms" and ?fed = "sy_fed (rg_sys s)"
  let ?stays = "\<lambda>name n. ns_source (n_status n) \<noteq> Member \<or> name \<in> nc_name ` set ?w"
  let ?f = "fst (retain_nodes ?stays ?fed)"
  have r: "named ?f" "others Member ?f = others Member ?fed" using retain_nodes_keeps [OF assms(1), of Member ?stays] by simp_all
  have get: "bt_get (f_nodes ?f) n = filter_opt (?stays n) (bt_get (f_nodes ?fed) n)" for n
    using assms(1) by (simp add: retain_nodes_def bt_get_retain named_def)
  have k: "f_nodes fed' = f_nodes (fst (adopt_nodes Member ?w ?f))"
    unfolding fed'_def take_members_known by (simp add: members_fed_def split: prod.split)
  have own: "own_node Member fed' n nc = own_node Member (fst (adopt_nodes Member ?w ?f)) n nc" for n nc
    by (simp add: own_node_def k)
  note ex = adopt_nodes_exact [OF r(1) assms(2), of Member]
  have "covered Member ?fed nc = covered Member ?f nc" for nc
    using r assms(1) by (simp add: covered_others named_def)
  then have "\<forall>nc \<in> set ?w. covered Member ?fed nc \<or> own_node Member fed' (nc_name nc) nc"
    using ex unfolding own by blast
  moreover have "n \<in> nc_name ` set ?w" if "own_node Member fed' n nc" for n nc
  proof (rule ccontr)
    assume "n \<notin> nc_name ` set ?w"
    with ex have "bt_get (f_nodes fed') n = bt_get (f_nodes ?f) n" by (simp add: k)
    with that obtain y where y: "bt_get (f_nodes ?f) n = Some y" "ns_source (n_status y) = Member" by (auto simp: own_node_def)
    from y(1) have "?stays n y" unfolding get filter_opt_eq_Some by (rule conjunct2)
    with y(2) \<open>n \<notin> nc_name ` set ?w\<close> show False by simp
  qed
  moreover have "others Member fed' = others Member ?fed"
    using take_members_foreign [OF assms(1)] by (simp add: foreign_kept_def fed'_def)
  ultimately show ?thesis by blast
qed

text \<open>Property C34. After the members were read, the nodes adopted from them are the cluster: a member that no other source covers
  is on record at its address with its storage label, and a node adopted from a member that left is gone; nodes of
  other sources are as before.\<close>

theorem members_adopted:
  assumes "named (sy_fed (rg_sys s))" and "distinct (map nc_name (wanted_members R ms))"
  shows "let fed = sy_fed (rg_sys s); fed' = sy_fed (rg_sys (take_members R ms s)) in
    (\<forall>nc \<in> set (wanted_members R ms). covered Member fed nc \<or> own_node Member fed' (nc_name nc) nc) \<and>
    (\<forall>n nc. own_node Member fed' n nc \<longrightarrow> n \<in> nc_name ` set (wanted_members R ms)) \<and>
    others Member fed' = others Member fed"
  unfolding Let_def by (rule members_adopted_raw [OF assms])

subsection \<open>Heartbeats and polls\<close>

text \<open>A part of the state that is neither an event nor about nodes, which polling a node leaves alone.\<close>

definition blind :: "('w sys \<Rightarrow> 'b) \<Rightarrow> bool" where
  "blind g \<longleftrightarrow> (\<forall>y ev. g (y\<lparr>sy_events := ev\<rparr>) = g y) \<and> (\<forall>f y. g (with_fed (on_nodes f) y) = g y)"

abbreviation vmaps :: "'w sys \<Rightarrow> (string, dist_volume) btree" where
  "vmaps y \<equiv> f_volumes (sy_fed y)"

lemma blind_vmaps: "blind vmaps"
  by (simp add: blind_def on_nodes_def)

lemma blind_steps:
  assumes "blind g"
  shows "g (rg_sys (reg_event R k sev sub s)) = g (rg_sys s)" "g (rg_sys (on_status n f s)) = g (rg_sys s)"
  using assms by (simp_all add: blind_def reg_event_def on_sys_def on_status_def)

lemma reg_call_blind: "quiet (re_env R) g \<Longrightarrow> reg_call R m s = (r, s') \<Longrightarrow> g (rg_sys s') = g (rg_sys s)"
  using call_quiet_eq [of "env_of R s" g m "rg_sys s"] by (auto simp: reg_call_def split: prod.splits)

lemma scan_slots_blind:
  "quiet (re_env R) g \<Longrightarrow> scan_slots R e bs owners s = (r, s') \<Longrightarrow> g (rg_sys s') = g (rg_sys s)"
  by (induction bs arbitrary: owners s) (auto split: prod.splits sum.splits dest!: reg_call_blind)

lemma read_inventory_blind:
  assumes q: "quiet (re_env R) g" and "read_inventory R e s = (r, s')" shows "g (rg_sys s') = g (rg_sys s)"
  using assms(2) by (auto simp: read_inventory_def split: prod.splits sum.splits if_splits
      dest!: reg_call_blind [OF q] scan_slots_blind [OF q])

lemma refresh_inventory_blind:
  assumes q: "quiet (re_env R) g" and b: "blind g" shows "g (rg_sys (refresh_inventory R name e s)) = g (rg_sys s)"
proof -
  obtain r s1 where r: "read_inventory R e s = (r, s1)" by fastforce
  from read_inventory_blind [OF q r] show ?thesis by (cases r) (simp_all add: refresh_inventory_def r blind_steps [OF b])
qed

lemma refresh_io_blind:
  assumes q: "quiet (re_env R) g" and b: "blind g" shows "g (rg_sys (refresh_io R name e s)) = g (rg_sys s)"
proof -
  obtain r w where r: "re_io R e (sy_world (rg_sys s)) = (r, w)" by fastforce
  let ?s = "on_sys (\<lambda>y. en_others (env_of R s) (y\<lparr>sy_world := w\<rparr>)) s"
  have "quiet (env_of R s) g" using q by simp
  then have k: "g (rg_sys ?s) = g (rg_sys s)" by (simp add: quiet_def on_sys_def)
  show ?thesis
    by (cases r) (auto simp: refresh_io_def r Let_def k blind_steps [OF b] split: option.split)
qed

lemma note_outcome_blind: "blind g \<Longrightarrow> g (rg_sys (note_outcome R node e token err s)) = g (rg_sys s)"
  by (auto simp: note_outcome_def blind_steps split: option.split prod.split)

lemma call_capacity_blind:
  assumes q: "quiet (re_env R) g" and b: "blind g" and "call_capacity R node e token s = (r, s')" shows "g (rg_sys s') = g (rg_sys s)"
  using assms(3) reg_call_blind [OF q] by (auto simp: call_capacity_def note_outcome_blind [OF b] split: if_splits prod.splits)

lemma register_known:
  assumes "bt_get (f_nodes (sy_fed y)) n = Some x"
  shows "f_nodes (sy_fed (register_node env scheme addr n n_vols y)) =
      bt_modify n (announced (engine_url_from addr scheme) n_vols (now env y)) (f_nodes (sy_fed y))"
    "vmaps (register_node env scheme addr n n_vols y) = vmaps y"
  using assms by (simp_all add: register_node_def Let_def)

text \<open>Property C38. An engine that restarts and whose heartbeat comes before the next poll is never served from again: the
  heartbeat makes the node healthy, so the poll that finds it answering sees no change and leaves every volume as it
  is, while without the heartbeat it would have attached what the node serves again.\<close>

theorem heartbeat_hides_restart:
  assumes "quiet (re_env R) nds" and "quiet (re_env R) vmaps" and "bt_get (known_nodes s) n = Some x"
    and "call_capacity R (Some n) (new_engine url token) token (on_sys (register_node (re_env R) scheme addr n n_vols) s) = (Inr cap, s1)"
  shows "vmaps (rg_sys (poll_node R (n, url, token) (on_sys (register_node (re_env R) scheme addr n n_vols) s))) = vmaps (rg_sys s) \<and>
    (ns_healthy (n_status x) \<or> \<not> re_leads R (sy_world (rg_sys s)) \<or>
     node_answered R n cap (n_status x) s = on_sys (republish_on (env_of R s) n)
       (reg_event R ''node'' Info (Some n) (on_status n (answered_status cap (now (re_env R) (rg_sys s))) s)))"
proof -
  let ?s = "on_sys (register_node (re_env R) scheme addr n n_vols) s"
  have "known_nodes ?s = bt_modify n (announced (engine_url_from addr scheme) n_vols (now (re_env R) (rg_sys s))) (known_nodes s)"
    using register_known(1) [OF assms(3)] by (simp add: on_sys_def)
  then have "known_nodes s1 = bt_modify n (announced (engine_url_from addr scheme) n_vols (now (re_env R) (rg_sys s))) (known_nodes s)"
    using call_capacity_known(1) [OF assms(1,4)] by simp
  then obtain y where y: "bt_get (known_nodes s1) n = Some y" "ns_healthy (n_status y)"
    using assms(3) by (auto simp: announced_def)
  have "vmaps (rg_sys (poll_node R (n, url, token) ?s)) = vmaps (rg_sys s1)"
    using assms(4) y by (simp add: poll_node_def Let_def refresh_io_blind [OF assms(2) blind_vmaps] refresh_inventory_blind [OF assms(2) blind_vmaps]
      node_answered_def blind_steps [OF blind_vmaps])
  also have "\<dots> = vmaps (rg_sys ?s)" by (rule call_capacity_blind [OF assms(2) blind_vmaps assms(4)])
  also have "\<dots> = vmaps (rg_sys s)" using register_known(2) [OF assms(3)] by (simp add: on_sys_def)
  finally show ?thesis
    by (auto simp: node_answered_def Let_def reg_event_def on_status_def on_sys_def env_of_def with_fed_def)
qed

text \<open>Unlike an adoption, a heartbeat does not ask whether another node covers its engine: a member that announces itself under
  another name is on record twice, and both are candidates for the legs of one volume.\<close>

lemma register_twins_engine:
  assumes "bt_get (f_nodes (sy_fed y)) m = Some x" and "ns_healthy (n_status x)"
    and "nc_engine_url (n_config x) = engine_url_from addr scheme" and "bt_get (f_nodes (sy_fed y)) h = None"
  shows "\<exists>z. let fed' = sy_fed (register_node env scheme addr h n_vols y) in
    bt_get (f_nodes fed') m = Some x \<and> bt_get (f_nodes fed') h = Some z \<and> h \<noteq> m \<and>
    nc_engine_url (n_config z) = nc_engine_url (n_config x) \<and>
    candidate_of x \<in> set (plan_candidates fed' None None) \<and> candidate_of z \<in> set (plan_candidates fed' None None)"
proof -
  let ?fed = "sy_fed (register_node env scheme addr h n_vols y)"
  have hm: "h \<noteq> m" using assms(1,4) by auto
  have f: "f_nodes ?fed = bt_modify h (announced (engine_url_from addr scheme) n_vols (now env y))
      (bt_insert h (announced_node h (engine_url_from addr scheme)) (f_nodes (sy_fed y)))"
    using assms(4) by (simp add: register_node_def Let_def)
  let ?z = "announced (engine_url_from addr scheme) n_vols (now env y) (announced_node h (engine_url_from addr scheme))"
  have get: "bt_get (f_nodes ?fed) m = Some x" "bt_get (f_nodes ?fed) h = Some ?z" using assms hm by (simp_all add: f)
  have cand: "candidate_of z \<in> set (plan_candidates ?fed None None)" if "bt_get (f_nodes ?fed) k = Some z" "ns_healthy (n_status z)" for k z
    using map_of_SomeD [OF that(1)] that(2) by (force simp: plan_candidates_def)
  have "ns_healthy (n_status ?z)" "nc_engine_url (n_config ?z) = engine_url_from addr scheme"
    by (simp_all add: announced_def announced_node_def new_status_def)
  with get cand assms(2,3) hm show ?thesis by (auto simp: Let_def)
qed

subsection \<open>Witnesses\<close>

definition answering :: "nat \<Rightarrow> json \<Rightarrow> unit reg_env" where
  "answering st body =
     \<lparr>re_env = small_env \<lparr>rs_status = st, rs_status_text = [], rs_json = Some body\<rparr>, re_machine = wit_machine, re_local = wit_local,
      re_kube_enabled = True, re_kube_server = ''http://k'', re_kube_file = None, re_store = True, re_scheme = ''http'',
      re_fail_threshold = 1, re_hash = (\<lambda>_. 7), re_instant = (\<lambda>_. 5), re_leads = (\<lambda>_. True), re_slab = (\<lambda>_. None),
      re_hostname = Some ''m1'', re_discovery = (\<lambda>_. None), re_io = (\<lambda>_ w. (None, w))\<rparr>"

definition small_reg :: "unit reg" where
  "small_reg = \<lparr>rg_sys = small_sys single_vol, rg_inventory = [], rg_kube = \<lparr>kv_claims = [], kv_fetched_at = None, kv_error = None\<rparr>, rg_refusals = [], rg_engines = [], rg_local_name = None\<rparr>"

lemma answering_quiet [simp]:
  "(\<And>s w. g (s\<lparr>sy_world := w\<rparr>) = g s) \<Longrightarrow> quiet (re_env (answering st body)) g"
  by (simp add: answering_def)

lemma small_named: "named (sy_fed (rg_sys small_reg))"
  by (simp add: named_def small_reg_def small_sys_def small_node_def wit_config_def)

lemma small_known: "bt_get (known_nodes small_reg) ''a'' = Some (small_node ''a'')"
  by (simp add: small_reg_def small_sys_def)

lemma asked:
  "rg_refusals s = [] \<Longrightarrow>
   \<exists>s1. call_capacity (answering st body) node e token s =
     (fst (capacity \<lparr>wi_send = (\<lambda>q w. (Inr \<lparr>rs_status = st, rs_status_text = [], rs_json = Some body\<rparr>, w)), wi_volume = (\<lambda>_. None)\<rparr> e ()), s1)"
  by (auto simp: call_capacity_def backing_off_def may_call_def reg_call_def call_def env_of_def with_credentials_def answering_def
      small_env_def Let_def split: prod.splits)

lemmas asked_simps = capacity_def send_def attempt_def check_refused_def error_for_status_def body_json_def io_ok_def
  io_err_def ok_or_def

lemma poll_health_witness:
  "healths (poll_node (answering 500 JNull) (''a'', ''http://a'', None) small_reg) ''a'' = Some (False, 1, 0, 0, wit_config ''a'')"
proof -
  let ?R = "answering 500 JNull" and ?e = "new_engine ''http://a'' None"
  obtain e s1 where c: "call_capacity ?R (Some ''a'') ?e None small_reg = (Inl e, s1)"
    using asked [of small_reg 500 JNull "Some ''a''" ?e None] by (auto simp: asked_simps small_reg_def)
  have q: "quiet (re_env ?R) nds" by simp
  from poll_health [OF q small_known c] show ?thesis
    by (simp add: small_node_def new_status_def answering_def)
qed

lemma poll_backs_off_witness:
  "\<exists>s1. call_capacity (answering 401 JNull) None (new_engine ''http://a'' None) None small_reg =
       (Inl (Refused 401 ''/v1/nodes/capacity''), s1) \<and>
     sy_world (rg_sys (poll_node (answering 401 JNull) (''a'', ''http://a'', None) s1)) = sy_world (rg_sys s1)"
proof -
  let ?R = "answering 401 JNull" and ?e = "new_engine ''http://a'' None"
  obtain s1 where c: "call_capacity ?R None ?e None small_reg = (Inl (Refused 401 ''/v1/nodes/capacity''), s1)"
    using asked [of small_reg 401 JNull None ?e None] by (auto simp: asked_simps small_reg_def)
  have "is_refused (Refused 401 ''/v1/nodes/capacity'')" by (simp add: is_refused_def)
  from poll_backs_off [OF c this] obtain wait where p: "0 < wait"
    and k: "\<And>s2 n. refusal_of ''http://a'' s2 = refusal_of ''http://a'' s1 \<Longrightarrow> instant ?R s2 < instant ?R s1 + wait \<Longrightarrow>
       sy_world (rg_sys (poll_node ?R (n, ''http://a'', None) s2)) = sy_world (rg_sys s2)" by blast
  have "sy_world (rg_sys (poll_node ?R (''a'', ''http://a'', None) s1)) = sy_world (rg_sys s1)" by (rule k) (use p in simp_all)
  with c show ?thesis by blast
qed

lemma adoption_keeps_others_witness:
  "foreign_kept Member small_reg (adopt_members (answering 200 JNull) small_reg) \<and>
   others Member (sy_fed (rg_sys small_reg)) ''a'' = Some (small_node ''a'')"
  using adoption_keeps_others [OF answering_quiet small_named, of 200 JNull] small_known
  by (simp add: others_def small_node_def new_status_def)

definition new_member :: member where
  "new_member = \<lparr>mb_name = ''m2'', mb_address = ''10.0.0.9'', mb_storage = True\<rparr>"

lemma members_adopted_witness:
  "own_node Member (sy_fed (rg_sys (take_members (answering 200 JNull) [new_member] small_reg))) ''m2'' (member_config (answering 200 JNull) new_member)"
proof -
  let ?R = "answering 200 JNull"
  have "\<not> left_to_local ?R new_member" by code_simp
  then have w: "wanted_members ?R [new_member] = [member_config ?R new_member]" by (simp add: wanted_members_def)
  then have "distinct (map nc_name (wanted_members ?R [new_member]))" by simp
  moreover have "\<not> covered Member (sy_fed (rg_sys small_reg)) (member_config ?R new_member)" by code_simp
  moreover have "nc_name (member_config ?R new_member) = ''m2''" by (simp add: member_config_def bare_node_def new_member_def)
  ultimately show ?thesis using members_adopted [OF small_named, of ?R "[new_member]"] by (simp add: w Let_def)
qed

definition restarted_reg :: "unit reg" where
  "restarted_reg = on_status ''a'' (\<lambda>st. st\<lparr>ns_healthy := False\<rparr>) small_reg"

lemma heartbeat_hides_restart_witness:
  "f_volumes (sy_fed (rg_sys (poll_node (answering 200 (JObj [(''total_bytes'', JInt 9)])) (''a'', ''http://a'', None)
     (on_sys (register_node (re_env (answering 200 (JObj [(''total_bytes'', JInt 9)]))) ''http'' ''a'' ''a'' 1) restarted_reg)))) =
   f_volumes (sy_fed (rg_sys restarted_reg)) \<and> map_option fst (healths restarted_reg ''a'') = Some False"
proof -
  let ?R = "answering 200 (JObj [(''total_bytes'', JInt 9)])" and ?e = "new_engine ''http://a'' None"
  let ?s = "on_sys (register_node (re_env ?R) ''http'' ''a'' ''a'' 1) restarted_reg"
  have "rg_refusals ?s = []" by (simp add: on_sys_def on_status_def restarted_reg_def small_reg_def)
  then obtain cap s1 where c: "call_capacity ?R (Some ''a'') ?e None ?s = (Inr cap, s1)"
    using asked [of ?s 200 "JObj [(''total_bytes'', JInt 9)]" "Some ''a''" ?e None]
    by (auto simp: asked_simps first_capacity_object_def)
  have "bt_get (known_nodes restarted_reg) ''a'' = Some ((small_node ''a'')\<lparr>n_status := (n_status (small_node ''a''))\<lparr>ns_healthy := False\<rparr>\<rparr>)"
    using small_known by (simp add: restarted_reg_def)
  from heartbeat_hides_restart [OF answering_quiet answering_quiet this c] this show ?thesis
    by (simp add: healths_def health_def)
qed

end
