(* ===== verification/Epochs.thy ===== *)
theory Epochs
  imports Head
begin

section \<open>Epochs over runs of requests\<close>

text \<open>
  The contract of fencing and promoting over runs of the requests of \<open>Head\<close>. The specification is a machine with an
  epoch and a token: a fence counts the epoch up and gives the token, a promote takes it at that epoch. A run of
  requests shows for each volume the fences and promotes that were answered with success; the property says that the
  machine accepts them, from the epoch and the fenced flag on record to those on record afterwards. It holds as long as
  no other task changes the volumes during a request's engine calls; \<open>promote_overwrites_fence\<close> shows what a fence
  that crosses a promote does.
\<close>

subsection \<open>The specification\<close>

datatype head_label = LFence u64 | LPromote u64

fun token_step :: "u64 \<times> bool \<Rightarrow> head_label \<Rightarrow> (u64 \<times> bool) option" where
  "token_step (e, fenced) (LFence x) = (if x = e + 1 then Some (x, True) else None)"
| "token_step (e, fenced) (LPromote x) = (if fenced \<and> x = e then Some (e, False) else None)"

fun token_run :: "u64 \<times> bool \<Rightarrow> head_label list \<Rightarrow> (u64 \<times> bool) option" where
  "token_run t [] = Some t"
| "token_run t (l # ls) = (case token_step t l of None \<Rightarrow> None | Some t \<Rightarrow> token_run t ls)"

fun fenced_in :: "head_label list \<Rightarrow> u64 list" where
  "fenced_in [] = []"
| "fenced_in (LFence e # ls) = e # fenced_in ls"
| "fenced_in (LPromote e # ls) = fenced_in ls"

fun promoted_in :: "head_label list \<Rightarrow> u64 list" where
  "promoted_in [] = []"
| "promoted_in (LPromote e # ls) = e # promoted_in ls"
| "promoted_in (LFence e # ls) = promoted_in ls"

lemma token_run_append: "token_run t (xs @ ys) = Option.bind (token_run t xs) (\<lambda>t. token_run t ys)"
  by (induction xs arbitrary: t) (auto split: option.split)

lemma token_run_fences:
  "token_run (e, f) ls = Some (e', f') \<Longrightarrow>
     e' = e + of_nat (length (fenced_in ls)) \<and> fenced_in ls = map (\<lambda>i. e + of_nat (Suc i)) [0..<length (fenced_in ls)]"
proof (induction ls arbitrary: e f)
  case (Cons l ls)
  show ?case
  proof (cases l)
    case (LFence x)
    with Cons.prems have x: "x = e + 1" and r: "token_run (e + 1, True) ls = Some (e', f')" by (auto split: if_splits)
    let ?n = "length (fenced_in ls)"
    have e': "e' = e + 1 + of_nat ?n" and ih: "fenced_in ls = map (\<lambda>i. e + 1 + of_nat (Suc i)) [0..<?n]"
      using Cons.IH [OF r] by blast+
    have "map (\<lambda>i. e + of_nat (Suc i)) [0..<Suc ?n] = (e + 1) # map (\<lambda>i. e + of_nat (Suc (Suc i))) [0..<?n]"
      by (simp only: upt_conv_Cons [OF zero_less_Suc] map_Suc_upt [symmetric] list.map map_map o_def) simp
    moreover have "map (\<lambda>i. e + of_nat (Suc (Suc i))) [0..<?n] = map (\<lambda>i. e + 1 + of_nat (Suc i)) [0..<?n]"
      by (simp add: ac_simps)
    ultimately show ?thesis using ih x e' by (simp add: LFence ac_simps del: upt_Suc)
  next
    case (LPromote x)
    with Cons.prems Cons.IH show ?thesis by (auto split: if_splits)
  qed
qed simp

lemma token_run_promotes:
  "token_run (e, f) ls = Some (e', f') \<Longrightarrow> length (fenced_in ls) < 2 ^ 64 \<Longrightarrow>
     distinct (promoted_in ls) \<and>
     (\<forall>p \<in> set (promoted_in ls). \<exists>i \<le> length (fenced_in ls). (i = 0 \<longrightarrow> f) \<and> p = e + of_nat i)"
proof (induction ls arbitrary: e f)
  case (Cons l ls)
  show ?case
  proof (cases l)
    case (LFence x)
    with Cons.prems have r: "token_run (e + 1, True) ls = Some (e', f')" and n: "length (fenced_in ls) < 2 ^ 64" by (auto split: if_splits)
    have "\<exists>i \<le> Suc (length (fenced_in ls)). (i = 0 \<longrightarrow> f) \<and> p = e + of_nat i" if p: "p \<in> set (promoted_in ls)" for p
    proof -
      from Cons.IH [OF r n] p obtain i where "i \<le> length (fenced_in ls)" "p = e + 1 + of_nat i" by blast
      then show ?thesis by (intro exI [of _ "Suc i"]) (simp add: ac_simps)
    qed
    with Cons.IH [OF r n] show ?thesis by (simp add: LFence)
  next
    case (LPromote x)
    with Cons.prems have r: "token_run (e, False) ls = Some (e', f')" and x: "f" "x = e" and n: "length (fenced_in ls) < 2 ^ 64"
      by (auto split: if_splits)
    note ih = Cons.IH [OF r n]
    have "e \<notin> set (promoted_in ls)"
    proof
      assume "e \<in> set (promoted_in ls)"
      with ih obtain i where i: "i \<le> length (fenced_in ls)" "i \<noteq> 0" "e = e + of_nat i" by blast
      then have "(of_nat i :: u64) = 0" by simp
      then have "2 ^ 64 dvd i" by (simp add: word_of_nat_eq_0_iff)
      with i n show False by (auto dest: dvd_imp_le)
    qed
    with ih x show ?thesis by (fastforce simp: LPromote)
  qed
qed simp

subsection \<open>The requests\<close>

datatype head_op =
    DoFence string u64 | DoPromote string string u64 | DoReassemble string | DoPublish string | DoOpen string string u64
  | DoAbort string u64 | DoCommit string u64 | DoClass string bandwidth_class

text \<open>A request with what it shows: the volume and the fence or promote it was answered. Committing a window fences and
  promotes in one request; when it fails it has fenced if the volume's epoch moved.\<close>

definition epoch_of :: "'w sys \<Rightarrow> string \<Rightarrow> (string \<times> u64 \<times> bool) option" where
  "epoch_of s m = map_option (\<lambda>v. (v_name v, v_epoch v, v_fenced v)) (volume m s)"

definition do_head_op :: "'w env \<Rightarrow> head_op \<Rightarrow> 'w sys \<Rightarrow> (string \<times> head_label) list \<times> 'w sys" where
  "do_head_op env x s =
     (case x of
        DoFence n e \<Rightarrow> (case fence env n e s of (Inr rep, s) \<Rightarrow> ([(n, LFence (fr_epoch rep))], s) | (Inl _, s) \<Rightarrow> ([], s))
      | DoPromote n t e \<Rightarrow> (case promote env n t e s of (Inr _, s) \<Rightarrow> ([(n, LPromote e)], s) | (Inl _, s) \<Rightarrow> ([], s))
      | DoReassemble n \<Rightarrow> ([], snd (reassemble env n s))
      | DoPublish n \<Rightarrow> ([], snd (publish env n s))
      | DoOpen n t ttl \<Rightarrow> ([], snd (open_window env n t ttl s))
      | DoAbort n e \<Rightarrow> ([], snd (close_window env n e Abort s))
      | DoCommit n e \<Rightarrow>
          (case close_window env n e Commit s of
             (Inr _, s') \<Rightarrow> ([(n, LFence (e + 1)), (n, LPromote (e + 1))], s')
           | (Inl _, s') \<Rightarrow> (if epoch_of s' n = epoch_of s n then [] else [(n, LFence (e + 1))], s'))
      | DoClass n c \<Rightarrow> ([], snd (set_bandwidth_class env n c s)))"

fun do_head_ops :: "'w env \<Rightarrow> head_op list \<Rightarrow> 'w sys \<Rightarrow> (string \<times> head_label) list \<times> 'w sys" where
  "do_head_ops env [] s = ([], s)"
| "do_head_ops env (x # xs) s =
     (case do_head_op env x s of (ls, s) \<Rightarrow> (case do_head_ops env xs s of (ls', s) \<Rightarrow> (ls @ ls', s)))"

definition labels_of :: "string \<Rightarrow> (string \<times> head_label) list \<Rightarrow> head_label list" where
  "labels_of m ls = map snd (filter (\<lambda>(n, _). n = m) ls)"

subsection \<open>What a request does to a volume's epoch\<close>

definition volumes_named :: "'w sys \<Rightarrow> bool" where
  "volumes_named s \<longleftrightarrow> (\<forall>m v. volume m s = Some v \<longrightarrow> v_name v = m)"

abbreviation volumes_of :: "'w sys \<Rightarrow> (string, dist_volume) btree" where
  "volumes_of s \<equiv> f_volumes (sy_fed s)"

lemma epoch_of_volumes: "volumes_of s' = volumes_of s \<Longrightarrow> epoch_of s' = epoch_of s"
  by (simp add: epoch_of_def fun_eq_iff)

lemma epoch_of_cores: "cores s' = cores s \<Longrightarrow> epoch_of s' = epoch_of s"
proof
  fix m assume "cores s' = cores s"
  then have "map_option core (volume m s') = map_option core (volume m s)" by (metis bt_get_map)
  then show "epoch_of s' m = epoch_of s m"
    by (cases "volume m s'"; cases "volume m s") (auto simp: epoch_of_def dest: core_eqD)
qed

lemma named_epoch: "volumes_named s \<longleftrightarrow> (\<forall>m x. epoch_of s m = Some x \<longrightarrow> fst x = m)"
  by (auto simp: volumes_named_def epoch_of_def)

lemma epoch_of_modify:
  assumes "volumes_of s' = bt_modify n f (volumes_of s)" and "\<And>v. v_name (f v) = v_name v \<and> v_epoch (f v) = v_epoch v \<and> v_fenced (f v) = v_fenced v"
  shows "epoch_of s' = epoch_of s"
proof
  fix m
  show "epoch_of s' m = epoch_of s m" using assms(2) by (cases "volume m s") (auto simp: epoch_of_def assms(1) bt_get_modify)
qed

lemma fence_elsewhere:
  assumes q: "quiet env (volume m)" and run: "fence env n e s = (Inr rep, s')" and other: "m \<noteq> n"
  shows "volume m s' = volume m s"
proof -
  obtain v e' v' where v: "volume n s = Some v" "apply_fence v e = Inr (e', v')"
    using run by (auto simp: fence_def split: option.splits sum.splits)
  let ?s1 = "publish_state env (with_fed (\<lambda>fed. bump (on_volume n (\<lambda>_. v') fed)) s)"
  let ?legs = "List.map_filter (\<lambda>l. if l_state l = Created
      then map_option (\<lambda>vid. (l_node l, vid, healthy_engine env (sy_fed s) (l_node l))) (l_volume_id l) else None) (v_legs v')"
  let ?start = "(\<lparr>fr_epoch = e', fr_legs = [], fr_not_fenced = []\<rparr>, ?s1)"
  obtain out s2 where loop: "foldl (fence_one env) ?start ?legs = (out, s2)" by fastforce
  have "volume m s2 = volume m ?s1" using fence_loop_quiet [OF q, of ?start ?legs] by (simp add: loop)
  moreover have "volume m s' = volume m s2" using run other by (auto simp: fence_def v Let_def loop)
  ultimately show ?thesis using other by simp
qed

lemma fence_epochs:
  assumes q: "quiet env volumes_of" and run: "fence env n e s = (Inr rep, s')"
  shows "\<exists>nm f. epoch_of s n = Some (nm, e, f) \<and> fr_epoch rep = e + 1 \<and> epoch_of s' = (epoch_of s)(n \<mapsto> (nm, e + 1, True))"
proof -
  have qv: "quiet env (volume m)" for m using q by (auto simp: quiet_def)
  from fence_accepted [OF qv run] obtain v les where v: "volume n s = Some v" "v_epoch v = e" "fr_epoch rep = e + 1"
    "volume n s' = Some (v\<lparr>v_epoch := e + 1, v_fenced := True, v_legs := record_epochs les (v_legs v)\<rparr>)" by blast
  have "epoch_of s' m = ((epoch_of s)(n \<mapsto> (v_name v, e + 1, True))) m" for m
    using v fence_elsewhere [OF qv run, of m] by (simp add: epoch_of_def)
  with v show ?thesis by (intro exI [of _ "v_name v"] exI [of _ "v_fenced v"]) (auto simp: epoch_of_def)
qed

lemma assemble_on_quiet:
  assumes q: "quiet env g" and a: "assemble_on env vol idxs target teng engines s = (r, s')" shows "g s' = g s"
proof (cases r)
  case (Inr x)
  with assemble_on_core(1) [OF q, of vol idxs target teng engines s] a show ?thesis by (cases x) auto
next
  case (Inl e)
  show ?thesis
  proof (cases "v_array_id vol")
    case None
    with a show ?thesis by (simp add: assemble_on_def)
  next
    case (Some arr)
    obtain r1 s1 where o: "open_legs env target teng engines idxs (v_legs vol) [] s = (r1, s1)" by fastforce
    have g1: "g s1 = g s" using open_legs_quiet [OF q, of target teng engines idxs "v_legs vol" "[]" s] o by simp
    show ?thesis
    proof (cases r1)
      case (Inl x)
      with a Some o g1 show ?thesis by (simp add: assemble_on_def)
    next
      case (Inr p)
      obtain legs uuids where p: "p = (legs, uuids)" by fastforce
      obtain r2 s2 where c2: "call env (\<lambda>wr. assemble_arrays wr teng uuids) s1 = (r2, s2)" by fastforce
      obtain r3 s3 where c3: "call env (\<lambda>wr. get_raid_array wr teng arr) s2 = (r3, s3)" by fastforce
      obtain r4 s4 where c4: "call env (\<lambda>wr. set_rebuild_rate wr teng arr (rate (en_recovery env) (v_bandwidth_class vol))) s3 = (r4, s4)"
        by fastforce
      obtain r5 s5 where c5: "call env (\<lambda>wr. list_engine_volumes wr teng) s4 = (r5, s5)" by fastforce
      note res = a [unfolded assemble_on_def, simplified Some o Inr p c2 c3 c4 c5 Let_def, simplified]
      have "g s2 = g s" "g s3 = g s" "g s4 = g s" "g s5 = g s"
        using g1 call_quiet_eq [OF q c2] call_quiet_eq [OF q c3] call_quiet_eq [OF q c4] call_quiet_eq [OF q c5] by simp_all
      then show ?thesis using res by (auto simp: c2 c3 c4 c5 split: sum.splits if_splits)
    qed
  qed
qed

lemma failover_epochs:
  assumes q: "quiet env volumes_of" and run: "failover env n target arr old teng engines v s = (r, s')" and v: "volume n s = Some v"
  shows "case r of
      Inl _ \<Rightarrow> epoch_of s' = epoch_of s
    | Inr _ \<Rightarrow> epoch_of s' = (epoch_of s)(n \<mapsto> (v_name v, v_epoch v, False))"
proof -
  let ?sv = "filter (\<lambda>i. l_state (v_legs v ! i) = Created \<and> bt_get engines (l_node (v_legs v ! i)) \<noteq> None) [0..<length (v_legs v)]"
  obtain r1 s1 where a: "assemble_on env v ?sv target teng engines s = (r1, s1)" by fastforce
  note same = assemble_on_quiet [OF q a]
  show ?thesis
  proof (cases r1)
    case (Inl e)
    have "s' = s1" "r = Inl e" using run a by (simp_all add: failover_def Let_def Inl)
    with epoch_of_volumes [OF same] show ?thesis by simp
  next
    case (Inr x)
    obtain served vol' where x: "x = (served, vol')" by fastforce
    obtain legs where legs: "vol' = v\<lparr>v_legs := legs\<rparr>" using assemble_on_core(2) [OF q a [unfolded Inr x]] by blast
    let ?st = "former_head n (unwrap_or old []) arr (now env s1) vol'"
    let ?s2 = "publish_state env (with_fed (\<lambda>fed. bump (put_volume n (promoted target engines served vol')
                        (if unwrap_or old [] \<noteq> [] then push_stale ?st fed else fed))) s1)"
    let ?s3 = "note_event env ''replication'' Info n ?s2"
    have s': "s' = serve_promoted env n target served ?s3" and r: "r = Inr ()"
      using run a by (simp_all add: failover_def Let_def Inr x)
    have "volumes_of ?s3 = bt_insert n (promoted target engines served vol') (volumes_of s)"
      using same by (simp add: push_stale_def)
    then have "epoch_of ?s3 = (epoch_of s)(n \<mapsto> (v_name v, v_epoch v, False))"
      by (simp add: epoch_of_def fun_eq_iff legs)
    with epoch_of_cores [OF serve_promoted_cores [OF q], of n target served ?s3] show ?thesis by (simp add: s' r)
  qed
qed

lemma promote_claimed_epochs:
  assumes q: "quiet env volumes_of" and run: "promote_claimed env n target e s = (r, s')" and nm: "volumes_named s"
  shows "case r of
      Inl _ \<Rightarrow> epoch_of s' = epoch_of s
    | Inr _ \<Rightarrow> epoch_of s n = Some (n, e, True) \<and> epoch_of s' = (epoch_of s)(n \<mapsto> (n, e, False))"
proof (cases "volume n s")
  case None
  with run show ?thesis by (auto simp: promote_claimed_def)
next
  case (Some v)
  have n: "v_name v = n" using nm Some by (simp add: volumes_named_def)
  let ?eng = "leg_engines env (sy_fed s) (v_legs v)"
  show ?thesis
  proof (cases "check_promote v target e (healthy_node (sy_fed s) target)")
    case (Inl x)
    with run Some show ?thesis by (auto simp: promote_claimed_def)
  next
    case (Inr old)
    note ok = check_promote_ok [OF Inr]
    have fenced: "epoch_of s n = Some (n, e, True)" using Some n ok by (simp add: epoch_of_def)
    show ?thesis
    proof (cases "v_array_id v = None \<or> bt_get ?eng target = None")
      case True
      with run Some Inr show ?thesis by (auto simp: promote_claimed_def Let_def split: option.splits)
    next
      case False
      then obtain arr teng where arr: "v_array_id v = Some arr" and te: "bt_get ?eng target = Some teng" by auto
      show ?thesis
      proof (cases "old = Some target")
        case True
        obtain legs s2 where ra: "reattach_legs env ?eng target (v_legs v) s = (legs, s2)" by fastforce
        have vols: "volumes_of s2 = volumes_of s" using reattach_legs_quiet [OF q, of ?eng target "v_legs v" s] ra by simp
        have r: "r = Inr ()" and s': "volumes_of s' = volumes_of (store_volume env (v\<lparr>v_legs := legs, v_fenced := False\<rparr>) s2)"
          using run Some Inr arr te True ra by (auto simp: promote_claimed_def Let_def)
        have "epoch_of s' = (epoch_of s)(n \<mapsto> (n, e, False))"
          unfolding epoch_of_volumes [OF s'] using ok n vols by (simp add: store_volume_def epoch_of_def fun_eq_iff)
        with r fenced show ?thesis by simp
      next
        case False
        show ?thesis
        proof (cases "is_some_and old (healthy_node (sy_fed s))")
          case True
          with run Some Inr arr te False show ?thesis by (auto simp: promote_claimed_def Let_def)
        next
          case dead: False
          then have "failover env n target arr old teng ?eng v s = (r, s')"
            using run Some Inr arr te False by (simp add: promote_claimed_def Let_def)
          from failover_epochs [OF q this Some] ok n fenced show ?thesis by (cases r) simp_all
        qed
      qed
    qed
  qed
qed

lemma promote_epochs:
  assumes q: "quiet env volumes_of" and run: "promote env n target e s = (r, s')" and nm: "volumes_named s"
  shows "case r of
      Inl _ \<Rightarrow> epoch_of s' = epoch_of s
    | Inr _ \<Rightarrow> epoch_of s n = Some (n, e, True) \<and> epoch_of s' = (epoch_of s)(n \<mapsto> (n, e, False))"
proof (cases "claim n s")
  case (Pair b s0)
  then have fed: "sy_fed s0 = sy_fed s" by (rule claim_fed)
  then have same: "epoch_of s0 = epoch_of s" "volumes_named s0" using nm by (simp_all add: epoch_of_def fun_eq_iff volumes_named_def)
  show ?thesis
  proof (cases b)
    case False
    have "r = Inl (Conflict Busy)" "s' = s0" using run by (simp_all add: promote_def Pair False)
    with same show ?thesis by simp
  next
    case True
    obtain r1 s1 where c: "promote_claimed env n target e s0 = (r1, s1)" by fastforce
    have r: "r1 = r" and s': "s' = release n s1" using run by (simp_all add: promote_def Pair True c)
    have "epoch_of s' = epoch_of s1" by (rule epoch_of_volumes) (simp add: s')
    with promote_claimed_epochs [OF q c same(2)] same(1) r show ?thesis by (cases r) simp_all
  qed
qed

lemma reassemble_epochs:
  assumes q: "quiet env volumes_of" and nm: "volumes_named s"
  shows "epoch_of (snd (reassemble env n s)) = epoch_of s"
proof -
  let ?stay = "\<exists>r. reassemble env n s = (r, s)"
  show ?thesis
  proof (cases "volume n s")
    case None
    then show ?thesis by (simp add: reassemble_def)
  next
    case (Some v)
    have n: "v_name v = n" using nm Some by (simp add: volumes_named_def)
    let ?eng = "leg_engines env (sy_fed s) (v_legs v)"
    have cases: "?stay \<or> (mirrored v \<and> \<not> v_fenced v \<and> v_replacing v = None \<and> v_dual_attach v = None \<and>
        (\<exists>h heng arr. v_head v = Some h \<and> healthy_engine env (sy_fed s) h = Some heng \<and> v_array_id v = Some arr))"
      using Some by (simp add: reassemble_def Let_def split: option.splits)
    show ?thesis
    proof (cases ?stay)
      case True
      then show ?thesis by auto
    next
      case False
      with cases obtain h heng arr where ok: "mirrored v" "\<not> v_fenced v" "v_replacing v = None" "v_dual_attach v = None"
        and h: "v_head v = Some h" "healthy_engine env (sy_fed s) h = Some heng" "v_array_id v = Some arr" by blast
      let ?idxs = "reassemble_idxs ?eng h (v_legs v)"
      obtain r1 s1 where c1: "call env (\<lambda>wr. find_array wr heng arr) s = (r1, s1)" by fastforce
      have e1: "volumes_of s1 = volumes_of s" using call_quiet_eq [OF q c1] .
      obtain r2 s2 where a: "assemble_on env v ?idxs h heng ?eng s1 = (r2, s2)" by fastforce
      have e2: "volumes_of s2 = volumes_of s" using assemble_on_quiet [OF q a] e1 by simp
      show ?thesis
      proof (cases "r1 = Inr None \<and> ?idxs \<noteq> [] \<and> \<not> isl r2")
        case False
        then have "snd (reassemble env n s) \<in> {s1, s2}"
          by (auto simp: reassemble_def Some ok h c1 a Let_def split: sum.splits option.splits)
        with epoch_of_volumes [OF e1] epoch_of_volumes [OF e2] show ?thesis by auto
      next
        case True
        then obtain served v' where r2: "r2 = Inr (served, v')" by (cases r2) auto
        obtain legs where legs: "v' = v\<lparr>v_legs := legs\<rparr>" using assemble_on_core(2) [OF q a [unfolded r2]] by blast
        let ?legs = "foldl (\<lambda>ls i. ls[i := (ls ! i)\<lparr>l_state := Created, l_message := None\<rparr>]) (v_legs v') ?idxs"
        let ?v = "v'\<lparr>v_legs := ?legs, v_assembly := all_created ?legs, v_next_assemble_after := None,
          v_export := reassembled_export n arr h served (v_export v')\<rparr>"
        define s3 where "s3 = note_event env ''replication'' Info n (store_volume env ?v s2)"
        have s3: "volumes_of s3 = volumes_of (store_volume env ?v s2)" by (simp add: s3_def)
        have out: "cores (snd (reassemble env n s)) = cores s3"
          using True by (simp add: reassemble_def Some ok h c1 a r2 Let_def publish_cores [OF q] publish_clones_cores [OF q] s3_def)
        have "epoch_of s3 = epoch_of s"
          unfolding epoch_of_volumes [OF s3] using Some n e2 by (auto simp: store_volume_def epoch_of_def fun_eq_iff legs)
        with epoch_of_cores [OF out] show ?thesis by simp
      qed
    qed
  qed
qed

lemma open_window_epochs: "epoch_of (snd (open_window env n target ttl s)) = epoch_of s"
proof (cases "volume n s")
  case (Some v)
  show ?thesis
  proof (cases "apply_open_window v target (from_secs (clamp ttl 1 (max (rc_max_dual_attach_secs (en_recovery env)) 1))) (now env s)")
    case (Inr p)
    obtain w v' where p: "p = (w, v')" by fastforce
    have "v_name v' = v_name v" "v_epoch v' = v_epoch v" "v_fenced v' = v_fenced v"
      using Inr p by (auto simp: apply_open_window_def Let_def split: if_splits option.splits)
    then show ?thesis by (simp add: open_window_def Some Inr p Let_def epoch_of_def fun_eq_iff)
  qed (simp add: open_window_def Some Let_def)
qed (simp add: open_window_def)

lemma apply_rate_epochs:
  assumes q: "quiet env volumes_of" shows "epoch_of (snd (apply_rate env n s)) = epoch_of s"
proof (cases "\<exists>v nd a. volume n s = Some v \<and> Option.bind (v_head v) (bt_get (f_nodes (sy_fed s))) = Some nd \<and> v_array_id v = Some a")
  case False
  then have "volumes_of (snd (apply_rate env n s)) = volumes_of s \<or>
      snd (apply_rate env n s) = with_fed (on_volume n (\<lambda>v. v\<lparr>v_rate_pending := False\<rparr>)) s"
    by (auto simp: apply_rate_def Let_def split: option.split)
  then show ?thesis
  proof
    assume "volumes_of (snd (apply_rate env n s)) = volumes_of s"
    then show ?thesis by (rule epoch_of_volumes)
  next
    assume "snd (apply_rate env n s) = with_fed (on_volume n (\<lambda>v. v\<lparr>v_rate_pending := False\<rparr>)) s"
    then show ?thesis by (intro epoch_of_modify [where n = n and f = "\<lambda>v. v\<lparr>v_rate_pending := False\<rparr>"]) simp_all
  qed
next
  case True
  then obtain v nd a where v: "volume n s = Some v" "Option.bind (v_head v) (bt_get (f_nodes (sy_fed s))) = Some nd" "v_array_id v = Some a"
    by blast
  let ?bytes = "rate (en_recovery env) (v_bandwidth_class v)"
  obtain r s1 where c: "call env (\<lambda>wr. set_rebuild_rate wr (engine_for env nd) a ?bytes) s = (r, s1)" by fastforce
  have e1: "volumes_of s1 = volumes_of s" using call_quiet_eq [OF q c] .
  let ?applied = "ns_healthy (n_status nd) \<and> \<not> isl r"
  let ?s1 = "if ns_healthy (n_status nd) then s1 else s"
  have vs: "volumes_of ?s1 = volumes_of s" using e1 by simp
  have "snd (apply_rate env n s) \<in> {?s1, persist env (with_fed (on_volume n (\<lambda>v. v\<lparr>v_rate_pending := \<not> ?applied\<rparr>)) ?s1)}"
    using v e1 by (cases r) (auto simp: apply_rate_def Let_def c split: option.split)
  then show ?thesis
  proof (elim insertE emptyE)
    assume "snd (apply_rate env n s) = ?s1"
    with epoch_of_volumes [OF vs] show ?thesis by simp
  next
    assume "snd (apply_rate env n s) = persist env (with_fed (on_volume n (\<lambda>v. v\<lparr>v_rate_pending := \<not> ?applied\<rparr>)) ?s1)"
    with vs show ?thesis by (intro epoch_of_modify [where n = n and f = "\<lambda>v. v\<lparr>v_rate_pending := \<not> ?applied\<rparr>"]) simp_all
  qed
qed

lemma set_class_epochs:
  assumes q: "quiet env volumes_of" shows "epoch_of (snd (set_bandwidth_class env n c s)) = epoch_of s"
proof (cases "volume n s")
  case (Some v)
  let ?s1 = "if v_bandwidth_class v \<noteq> c
    then publish_state env (with_fed (\<lambda>fed. bump (on_volume n (\<lambda>v. v\<lparr>v_bandwidth_class := c\<rparr>) fed)) s) else s"
  have 1: "epoch_of ?s1 = epoch_of s"
    using epoch_of_modify [of "publish_state env (with_fed (\<lambda>fed. bump (on_volume n (\<lambda>v. v\<lparr>v_bandwidth_class := c\<rparr>) fed)) s)" n
        "\<lambda>v. v\<lparr>v_bandwidth_class := c\<rparr>" s] by simp
  obtain r s2 where a: "apply_rate env n ?s1 = (r, s2)" by fastforce
  have 2: "epoch_of s2 = epoch_of s" using apply_rate_epochs [OF q, of n ?s1] 1 by (simp add: a)
  have "volumes_of (snd (set_bandwidth_class env n c s)) = volumes_of s2"
    by (simp add: set_bandwidth_class_def Some Let_def a)
  from epoch_of_volumes [OF this] 2 show ?thesis by simp
qed (simp add: set_bandwidth_class_def)

lemma close_window_epochs:
  assumes q: "quiet env volumes_of" and nm: "volumes_named s" and run: "close_window env n e out s = (r, s')"
  shows "case r of
      Inl _ \<Rightarrow> epoch_of s' = epoch_of s \<or> (\<exists>f. out = Commit \<and> epoch_of s n = Some (n, e, f) \<and> epoch_of s' = (epoch_of s)(n \<mapsto> (n, e + 1, True)))
    | Inr _ \<Rightarrow> (if out = Abort then epoch_of s' = epoch_of s
        else \<exists>f. epoch_of s n = Some (n, e, f) \<and> epoch_of s' = (epoch_of s)(n \<mapsto> (n, e + 1, False)))"
proof (cases "\<exists>v w. volume n s = Some v \<and> v_dual_attach v = Some w \<and> da_epoch w = e")
  case False
  with run show ?thesis by (auto simp: close_window_def split: option.splits if_splits)
next
  case True
  then obtain v w where v: "volume n s = Some v" "v_dual_attach v = Some w" "da_epoch w = e" by blast
  let ?s1 = "publish_state env (with_fed (\<lambda>fed. bump (on_volume n (\<lambda>v. v\<lparr>v_dual_attach := None\<rparr>) fed)) s)"
  have 1: "epoch_of ?s1 = epoch_of s" by (rule epoch_of_modify [where f = "\<lambda>v. v\<lparr>v_dual_attach := None\<rparr>"]) simp_all
  show ?thesis
  proof (cases out)
    case Abort
    have "r = Inr ()" "volumes_of s' = volumes_of ?s1" using run by (auto simp: close_window_def v Abort Let_def)
    with epoch_of_volumes [OF this(2)] 1 Abort show ?thesis by simp
  next
    case Commit
    obtain r1 s2 where f: "fence env n e ?s1 = (r1, s2)" by fastforce
    show ?thesis
    proof (cases r1)
      case (Inl x)
      have "s2 = ?s1" using fence_refused f Inl by blast
      then have "r = Inl x" "s' = ?s1" using run f by (auto simp: close_window_def v Commit Let_def Inl)
      with 1 show ?thesis by simp
    next
      case (Inr rep)
      from fence_epochs [OF q f [unfolded Inr]] 1 nm obtain fl where
        fl: "epoch_of s n = Some (n, e, fl)" "fr_epoch rep = e + 1" "epoch_of s2 = (epoch_of s)(n \<mapsto> (n, e + 1, True))"
        using that by (auto simp: named_epoch)
      let ?s3 = "note_event env ''replication'' Info n s2"
      have 3: "epoch_of ?s3 = epoch_of s2" by (rule epoch_of_volumes) simp
      have nm3: "volumes_named ?s3" using nm fl(3) by (simp add: named_epoch 3)
      have p: "promote env n (da_target_node w) (e + 1) ?s3 = (r, s')"
        using run f fl(2) by (simp add: close_window_def v Commit Let_def Inr)
      from promote_epochs [OF q p nm3] fl 3 Commit show ?thesis by (cases r) auto
    qed
  qed
qed

subsection \<open>Runs\<close>

text \<open>One request: what it shows of a volume, the specification takes, from the volume's epoch before to the one after.\<close>

definition takes :: "(string \<times> u64 \<times> bool) option \<Rightarrow> head_label list \<Rightarrow> (string \<times> u64 \<times> bool) option \<Rightarrow> bool" where
  "takes x ls y \<longleftrightarrow> (case (x, y) of
     (None, None) \<Rightarrow> True
   | (Some (nm, t), Some (nm', t')) \<Rightarrow> nm' = nm \<and> token_run t ls = Some t'
   | _ \<Rightarrow> False)"

lemma takes_refl [simp]: "takes x [] x"
  by (auto simp: takes_def split: option.split prod.split)

lemma takes_Some [simp]: "takes (Some (nm, t)) ls (Some (nm', t')) \<longleftrightarrow> nm' = nm \<and> token_run t ls = Some t'"
  by (simp add: takes_def)

lemma takes_append: "takes x ls y \<Longrightarrow> takes y ls' z \<Longrightarrow> takes x (ls @ ls') z"
  by (auto simp: takes_def token_run_append split: option.splits prod.splits)

lemma labels_of_simps [simp]:
  "labels_of m [] = []" "labels_of m ((n, l) # ls) = (if n = m then l # labels_of m ls else labels_of m ls)"
  "labels_of m (ls @ ls') = labels_of m ls @ labels_of m ls'"
  by (simp_all add: labels_of_def)

lemma do_head_op_takes:
  assumes q: "quiet env volumes_of" and nm: "volumes_named s" and run: "do_head_op env x s = (ls, s')"
  shows "takes (epoch_of s m) (labels_of m ls) (epoch_of s' m)"
proof -
  have same: ?thesis if "ls = []" "epoch_of s' = epoch_of s" using that by simp
  show ?thesis
  proof (cases x)
    case (DoFence n e)
    obtain r s1 where f: "fence env n e s = (r, s1)" by fastforce
    show ?thesis
    proof (cases r)
      case (Inl y)
      with f fence_refused have "s1 = s" by blast
      with run DoFence f Inl same show ?thesis by (simp add: do_head_op_def)
    next
      case (Inr rep)
      from fence_epochs [OF q f [unfolded Inr]] run DoFence f Inr show ?thesis
        by (cases "m = n") (auto simp: do_head_op_def)
    qed
  next
    case (DoPromote n t e)
    obtain r s1 where f: "promote env n t e s = (r, s1)" by fastforce
    from promote_epochs [OF q f nm] run DoPromote f show ?thesis
      by (cases r; cases "m = n") (auto simp: do_head_op_def)
  next
    case (DoReassemble n)
    with run same reassemble_epochs [OF q nm] show ?thesis by (auto simp: do_head_op_def)
  next
    case (DoPublish n)
    with run same epoch_of_cores [OF publish_cores [OF q]] show ?thesis by (auto simp: do_head_op_def)
  next
    case (DoOpen n t ttl)
    with run same open_window_epochs [of env n t ttl s] show ?thesis by (auto simp: do_head_op_def)
  next
    case (DoAbort n e)
    obtain r s1 where f: "close_window env n e Abort s = (r, s1)" by fastforce
    with close_window_epochs [OF q nm f] run DoAbort same show ?thesis by (cases r) (auto simp: do_head_op_def)
  next
    case (DoCommit n e)
    obtain r s1 where f: "close_window env n e Commit s = (r, s1)" by fastforce
    with close_window_epochs [OF q nm f] run DoCommit show ?thesis
      by (cases r; cases "m = n") (auto simp: do_head_op_def split: if_splits)
  next
    case (DoClass n c)
    with run same set_class_epochs [OF q] show ?thesis by (auto simp: do_head_op_def)
  qed
qed

lemma takes_named:
  assumes "volumes_named s" and "\<And>m. takes (epoch_of s m) (labels_of m ls) (epoch_of s' m)"
  shows "volumes_named s'"
proof -
  have "fst y = m" if y: "epoch_of s' m = Some y" for m y
  proof -
    obtain x where "epoch_of s m = Some x" "fst y = fst x" using assms(2) [of m] y by (auto simp: takes_def split: option.splits)
    with assms(1) show ?thesis unfolding named_epoch by metis
  qed
  then show ?thesis by (simp add: named_epoch)
qed

lemma do_head_ops_takes:
  assumes q: "quiet env volumes_of"
  shows "volumes_named s \<Longrightarrow> do_head_ops env xs s = (ls, s') \<Longrightarrow> takes (epoch_of s m) (labels_of m ls) (epoch_of s' m)"
proof (induction xs arbitrary: s ls)
  case (Cons x xs)
  obtain ls1 s1 where 1: "do_head_op env x s = (ls1, s1)" by fastforce
  obtain ls2 s2 where 2: "do_head_ops env xs s1 = (ls2, s2)" by fastforce
  note one = do_head_op_takes [OF q Cons.prems(1) 1]
  have ls: "ls = ls1 @ ls2" and s': "s' = s2" using Cons.prems(2) 1 2 by simp_all
  have "volumes_named s1" using takes_named [OF Cons.prems(1) one] .
  from takes_append [OF one Cons.IH [OF this 2 [folded s']]] show ?case by (simp add: ls)
qed simp

subsection \<open>Property\<close>

text \<open>Property C3. Over any run of fences, promotes, window requests, reassemblies, publishes and class changes, from records that
  bear their own names and when no other task changes the volumes during a request's engine calls, a volume's fences and promotes are those of one counter and one
  token: each fence gives the epoch after the last one, from the epoch on record at the start; each promote takes the
  token of the latest fence, so with fewer than 2^64 fences no epoch is promoted twice and each was fenced, or was the
  one fenced at the start. The record ends where the counter and the token do.\<close>

theorem head_ops_epochs:
  assumes "quiet env volumes_of" and "volumes_named s" and "do_head_ops env xs s = (ls, s')" and "volume m s = Some v"
  shows "\<exists>v'. volume m s' = Some v' \<and>
     token_run (v_epoch v, v_fenced v) (labels_of m ls) = Some (v_epoch v', v_fenced v') \<and>
     (let n = length (fenced_in (labels_of m ls)) in
        v_epoch v' = v_epoch v + of_nat n \<and> fenced_in (labels_of m ls) = map (\<lambda>i. v_epoch v + of_nat (Suc i)) [0..<n] \<and>
        (n < 2 ^ 64 \<longrightarrow> distinct (promoted_in (labels_of m ls)) \<and>
           (\<forall>p \<in> set (promoted_in (labels_of m ls)). p \<in> set (fenced_in (labels_of m ls)) \<or> (v_fenced v \<and> p = v_epoch v))))"
proof -
  from do_head_ops_takes [OF assms(1-3), of m] assms(4) obtain v' where v': "volume m s' = Some v'"
    and run: "token_run (v_epoch v, v_fenced v) (labels_of m ls) = Some (v_epoch v', v_fenced v')"
    by (auto simp: takes_def epoch_of_def split: option.splits)
  let ?n = "length (fenced_in (labels_of m ls))"
  have up: "fenced_in (labels_of m ls) = map (\<lambda>i. v_epoch v + of_nat (Suc i)) [0..<?n]"
    using token_run_fences [OF run] by blast
  have "p \<in> set (fenced_in (labels_of m ls)) \<or> (v_fenced v \<and> p = v_epoch v)"
    if "i \<le> ?n" "i = 0 \<longrightarrow> v_fenced v" "p = v_epoch v + of_nat i" for i p
  proof (cases i)
    case (Suc j)
    with that have "p \<in> set (map (\<lambda>i. v_epoch v + of_nat (Suc i)) [0..<?n])" by auto
    then show ?thesis unfolding up [symmetric] by simp
  qed (use that in simp)
  then have "distinct (promoted_in (labels_of m ls)) \<and>
      (\<forall>p \<in> set (promoted_in (labels_of m ls)). p \<in> set (fenced_in (labels_of m ls)) \<or> (v_fenced v \<and> p = v_epoch v))"
    if "?n < 2 ^ 64" using token_run_promotes [OF run that] by blast
  with token_run_fences [OF run] v' run show ?thesis unfolding Let_def by blast
qed

text \<open>The volume of the small instance, fenced and promoted.\<close>

theorem head_ops_epochs_witness:
  "\<exists>v'. volume ''vol'' (snd (do_head_ops (small_env epoch_answer) [DoFence ''vol'' 1, DoPromote ''vol'' ''a'' 2] (small_sys wit_vol))) = Some v' \<and>
     v_epoch v' = 2 \<and> promoted_in (labels_of ''vol''
       (fst (do_head_ops (small_env epoch_answer) [DoFence ''vol'' 1, DoPromote ''vol'' ''a'' 2] (small_sys wit_vol)))) = [2]"
proof -
  let ?run = "do_head_ops (small_env epoch_answer) [DoFence ''vol'' 1, DoPromote ''vol'' ''a'' 2] (small_sys wit_vol)"
  have q: "quiet (small_env epoch_answer) volumes_of" by simp
  have nm: "volumes_named (small_sys wit_vol)" by (auto simp: volumes_named_def small_sys_def wit_vol_def split: if_splits)
  have v: "volume ''vol'' (small_sys wit_vol) = Some wit_vol" by (simp add: small_sys_def)
  have l: "labels_of ''vol'' (fst ?run) = [LFence 2, LPromote 2]" by code_simp
  have w: "v_epoch wit_vol = 1" by (simp add: wit_vol_def)
  from head_ops_epochs [OF q nm _ v, of "[DoFence ''vol'' 1, DoPromote ''vol'' ''a'' 2]" "fst ?run" "snd ?run"] obtain v' where
    "volume ''vol'' (snd ?run) = Some v'" "v_epoch v' = v_epoch wit_vol + of_nat (length (fenced_in [LFence 2, LPromote 2]))"
    unfolding l Let_def by auto
  with l w show ?thesis by simp
qed

end
