(* ===== verification/Reconcile.thy ===== *)
theory Reconcile
  imports Epochs Migrate VmMigrate Backup Registry
begin

section \<open>The reconciler and a poll\<close>

text \<open>
  Models \<open>reconcile\<close> and the passes on lost heads of \<open>src/orchestrate.rs\<close>, and \<open>poll_once\<close> of \<open>src/registry.rs\<close>: how the
  passes of the other theories follow one another. A spawned task is returned as started; it runs later among the
  others. A pass that panics ends the poll there.
\<close>

datatype task = FinishReplacement string | RetryAssembly string

abbreviation asm_event :: "'w env \<Rightarrow> severity \<Rightarrow> string \<Rightarrow> 'w sys \<Rightarrow> 'w sys" where
  "asm_event env sev name s \<equiv> note_event env ''assemble'' sev name s"

subsection \<open>A lost head that answers again\<close>

definition rejoin_due :: "'w env \<Rightarrow> 'w sys \<Rightarrow> (string \<times> string \<times> string \<times> engine) list" where
  "rejoin_due env s =
     List.map_filter (\<lambda>(v, h, a). case engine_of env (sy_fed s) h of Inr e \<Rightarrow> Some (v, h, a, e) | Inl _ \<Rightarrow> None)
       (head_rejoin_candidates (sy_fed s) (\<lambda>n. busy n s))"

text \<open>This poll's reading of the head, else one read now; an outer \<open>None\<close> when that fails.\<close>

definition read_head ::
  "'w env \<Rightarrow> string \<Rightarrow> string \<Rightarrow> string \<Rightarrow> engine \<Rightarrow> 'w sys \<Rightarrow> array_reading option option \<times> 'w sys" where
  "read_head env name h a e s =
     (case filter_opt (\<lambda>r. ar_source r = FromHead \<and> ar_head r = h \<and> ar_array_id r = a) (bt_get (sy_heads s) name) of
        Some r \<Rightarrow> (Some (Some r), s)
      | None \<Rightarrow>
          (case call env (\<lambda>wr. find_array wr e a) s of
             (Inr v, s) \<Rightarrow> (Some (map_option (parse_array (now env s) h a) v), s)
           | (Inl _, s) \<Rightarrow> (None, s)))"

definition rejoin_one :: "'w env \<Rightarrow> 'w sys \<Rightarrow> string \<times> string \<times> string \<times> engine \<Rightarrow> 'w sys" where
  "rejoin_one env s due =
     (let (name, h, a, e) = due in
      case read_head env name h a e s of
        (None, s) \<Rightarrow> s
      | (Some reading, s) \<Rightarrow>
          (case volume name s of
             None \<Rightarrow> s
           | Some v \<Rightarrow>
               (let (out, v') = apply_head_reading v reading;
                    s = with_fed (on_volume name (\<lambda>_. v')) s
                in case out of
                     Some (found, True) \<Rightarrow>
                       asm_event env (case found of Restored _ \<Rightarrow> Info | _ \<Rightarrow> Warning) name (publish_state env (with_fed bump s))
                   | _ \<Rightarrow> s)))"

definition rejoin_heads :: "'w env \<Rightarrow> 'w sys \<Rightarrow> 'w sys" where
  "rejoin_heads env s = foldl (rejoin_one env) s (rejoin_due env s)"

subsection \<open>Reassembling and re-heading\<close>

text \<open>What failed is tried again after the cooldown.\<close>

definition postpone :: "'w env \<Rightarrow> time \<Rightarrow> string \<Rightarrow> 'w sys \<Rightarrow> 'w sys" where
  "postpone env t name s =
     asm_event env Error name (persist env (with_fed (on_volume name (\<lambda>v. v\<lparr>v_next_assemble_after := Some (t + cooldown env)\<rparr>)) s))"

definition reassemble_one :: "'w env \<Rightarrow> time \<Rightarrow> 'w sys \<Rightarrow> string \<Rightarrow> 'w sys" where
  "reassemble_one env t s name =
     (case claim name s of
        (False, s) \<Rightarrow> s
      | (True, s) \<Rightarrow>
          (case reassemble env name s of
             (Inr _, s) \<Rightarrow> release name s
           | (Inl _, s) \<Rightarrow> postpone env t name (release name s)))"

definition reassemble_heads :: "'w env \<Rightarrow> time \<Rightarrow> 'w sys \<Rightarrow> 'w sys" where
  "reassemble_heads env t s =
     (if \<not> en_active env (sy_world s) then s
      else foldl (reassemble_one env t) s
        (reassemble_candidates (sy_fed s) (\<lambda>n. is_some_and (bt_get (sy_heads s) n) (\<lambda>r. ar_source r = FromHead)) (\<lambda>n. busy n s) t))"

definition held_key :: "string \<Rightarrow> string" where
  "held_key name = ''rehead-held:'' @ name"

definition note_held :: "'w env \<Rightarrow> 'w sys \<Rightarrow> string \<Rightarrow> 'w sys" where
  "note_held env s name =
     (if held_key name \<in> set (sy_noted s) then s
      else asm_event env Warning name (s\<lparr>sy_noted := held_key name # sy_noted s\<rparr>))"

definition rehead_one :: "'w env \<Rightarrow> time \<Rightarrow> 'w sys \<Rightarrow> string \<times> string \<times> u64 \<Rightarrow> 'w sys" where
  "rehead_one env t s due =
     (let (name, target, epoch) = due;
          s = asm_event env Warning name (s\<lparr>sy_noted := removeAll (held_key name) (sy_noted s)\<rparr>)
      in case fence env name epoch s of
           (Inl _, s) \<Rightarrow> asm_event env Info name s
         | (Inr f, s) \<Rightarrow>
             (case promote env name target (fr_epoch f) s of
                (Inr _, s) \<Rightarrow> s
              | (Inl _, s) \<Rightarrow> postpone env t name s))"

definition rehead_planned :: "'w env \<Rightarrow> time \<Rightarrow> 'w sys \<Rightarrow> rehead_plan_result" where
  "rehead_planned env t s =
     rehead_plan (sy_fed s) (sy_heads s) (from_secs (max (en_poll_secs env) 1)) (from_secs (rc_rehead_after_secs (en_recovery env)))
       (\<lambda>n. busy n s) t"

definition rehead_lost :: "'w env \<Rightarrow> time \<Rightarrow> 'w sys \<Rightarrow> 'w sys" where
  "rehead_lost env t s =
     (if \<not> rc_rehead (en_recovery env) \<or> \<not> en_active env (sy_world s) then s
      else (let pl = rehead_planned env t s in
        foldl (rehead_one env t) (foldl (note_held env) s (rh_held pl)) (rh_start pl)))"

subsection \<open>A pass of the reconciler\<close>

definition mark_phase :: "'w env \<Rightarrow> time \<Rightarrow> 'w sys \<Rightarrow> recovery_plan \<times> 'w sys" where
  "mark_phase env t s =
     (let (pl, fed) = plan_recovery (sy_fed s) (en_active env (sy_world s)) t (\<lambda>n. busy n s);
          changed = (f_revision fed \<noteq> f_revision (sy_fed s));
          s = with_fed (\<lambda>_. fed) s;
          s = (if changed then publish_state env s else s);
          s = foldl (\<lambda>s (vol, _). asm_event env Warning vol s) s (rp_lost pl);
          s = foldl (\<lambda>s (vol, _). asm_event env Error vol s) s (rp_head_lost pl)
      in (pl, s))"

definition spawn_claimed :: "(string \<Rightarrow> task) \<Rightarrow> task list \<times> 'w sys \<Rightarrow> string \<Rightarrow> task list \<times> 'w sys" where
  "spawn_claimed tk acc name =
     (case acc of (ts, s) \<Rightarrow> (case claim name s of (True, s) \<Rightarrow> (ts @ [tk name], s) | (False, s) \<Rightarrow> (ts, s)))"

definition releg_one :: "'w env \<Rightarrow> time \<Rightarrow> task list \<times> 'w sys \<Rightarrow> string \<times> string \<Rightarrow> task list \<times> 'w sys" where
  "releg_one env t acc due =
     (let (ts, s) = acc; (name, from_node) = due in
      case start_replacement env name from_node None ''node lost'' s of
        (Inr _, s) \<Rightarrow> (ts @ [FinishReplacement name], s)
      | (Inl _, s) \<Rightarrow>
          (ts, asm_event env Error name (persist env (with_fed (on_volume name
             (\<lambda>v. v\<lparr>v_next_releg_after := Some (t + cooldown env)\<rparr>)) s))))"

definition start_phase :: "'w env \<Rightarrow> time \<Rightarrow> recovery_plan \<Rightarrow> 'w sys \<Rightarrow> task list \<times> 'w sys" where
  "start_phase env t pl s =
     foldl (spawn_claimed RetryAssembly)
       (foldl (releg_one env t) (foldl (spawn_claimed FinishReplacement) ([], s) (rp_resume pl)) (rp_start pl)) (rp_assemble pl)"

definition withdraw_phase :: "'w env \<Rightarrow> 'w sys \<Rightarrow> 'w sys" where
  "withdraw_phase env s =
     foldl (\<lambda>s n. withdraw_pending_on env n s) s
       (filter (healthy_node (sy_fed s))
          (remdups_adj (sort (concat (map (\<lambda>v. map pw_node (x_withdrawing (v_export v))) (bt_values (f_volumes (sy_fed s))))))))"

definition window_phase :: "'w env \<Rightarrow> time \<Rightarrow> 'w sys \<Rightarrow> 'w sys" where
  "window_phase env t s =
     (let (closed_windows, fed) = expire_windows (sy_fed s) t;
          s = with_fed (\<lambda>_. fed) s;
          s = (if closed_windows \<noteq> [] then publish_state env s else s)
      in foldl (\<lambda>s (vol, _). asm_event env Warning vol s) s closed_windows)"

record texts =
  tx_migrate :: "mig_note \<Rightarrow> string"
  tx_backup :: "backup_error \<Rightarrow> string"
  tx_vm :: "vm_note \<Rightarrow> string"

text \<open>Whether it came to its end, the tasks it started, and the state.\<close>

definition reconcile :: "'w env \<Rightarrow> texts \<Rightarrow> 'w sys \<Rightarrow> bool \<times> task list \<times> 'w sys" where
  "reconcile env tx s =
     (let t = now env s;
          (pl, s) = mark_phase env t s;
          (ts, s) = start_phase env t pl s;
          s = rejoin_heads env s;
          s = reassemble_heads env t s;
          s = rehead_lost env t s;
          s = migrate_run env (tx_migrate tx) t s;
          s = rebalance_run env t s
      in case backup_run env (tx_backup tx) t s of
           (False, s) \<Rightarrow> (False, ts, s)
         | (True, s) \<Rightarrow>
             (let s = vm_run env (tx_vm tx) s;
                  s = (if en_active env (sy_world s) then retry_pending_rates env s else s);
                  s = withdraw_phase env s;
                  s = window_phase env t s
              in (True, ts, reap_orphans env (reap_stale_heads env s))))"

subsection \<open>A poll\<close>

definition poll_once :: "'w reg_env \<Rightarrow> texts \<Rightarrow> 'w reg \<Rightarrow> bool \<times> task list \<times> 'w reg" where
  "poll_once R tx s =
     (let s = kube_refresh R (poll_pass R s);
          s = on_sys (refresh (env_of R s)) s;
          (ok, ts, s) =
            (if re_leads R (sy_world (rg_sys s))
             then (case reconcile (env_of R s) tx (rg_sys s) of (ok, ts, y) \<Rightarrow> (ok, ts, s\<lparr>rg_sys := y\<rparr>))
             else (True, [], s))
      in if ok then (True, ts, on_sys (persist (re_env R)) (forget_inventories s)) else (False, ts, s))"

subsection \<open>A follower reads only\<close>

text \<open>Everything on record but the nodes.\<close>

definition but_nodes :: "fed_state \<Rightarrow> fed_state" where
  "but_nodes fed = fed\<lparr>f_nodes := []\<rparr>"

abbreviation durable :: "'w sys \<Rightarrow> fed_state" where
  "durable y \<equiv> but_nodes (sy_fed y)"

lemma but_nodes_on [simp]: "but_nodes (on_nodes f fed) = but_nodes fed"
  by (simp add: but_nodes_def on_nodes_def)

lemma blind_durable: "blind durable"
  by (simp add: blind_def)

lemma adopt_but_nodes: "adopt_nodes src wanted fed = (fed', new) \<Longrightarrow> but_nodes fed' = but_nodes fed"
proof -
  have "but_nodes (fst (foldl (adopt_node src) acc wanted)) = but_nodes (fst acc)" for acc
    by (induction wanted arbitrary: acc) (auto simp: adopt_node_def split: prod.split option.split)
  from this [of "(fed, [])"] show "adopt_nodes src wanted fed = (fed', new) \<Longrightarrow> but_nodes fed' = but_nodes fed"
    by (simp add: adopt_nodes_def)
qed

lemma members_but_nodes: "members_fed wanted fed = (fed', new, dropped) \<Longrightarrow> but_nodes fed' = but_nodes fed"
  by (auto simp: members_fed_def retain_nodes_def dest!: adopt_but_nodes split: prod.splits)

lemma local_but_nodes: "local_fed j wanted fed = (fed', new, dropped) \<Longrightarrow> but_nodes fed' = but_nodes fed"
  by (auto simp: local_fed_def retain_nodes_def dest!: adopt_but_nodes split: prod.splits)

lemma events_durable [simp]: "durable (rg_sys (foldl (\<lambda>s d. reg_event R k sev (f d) s) s xs)) = durable (rg_sys s)"
  by (induction xs arbitrary: s) (simp_all add: blind_steps [OF blind_durable])

lemma note_adoption_durable [simp]: "durable (rg_sys (note_adoption R new dropped s)) = durable (rg_sys s)"
  by (simp add: note_adoption_def)

lemma take_members_durable: "durable (rg_sys (take_members R ms s)) = durable (rg_sys s)"
  by (auto simp: take_members_def Let_def on_sys_def dest: members_but_nodes split: prod.split)

lemma take_local_durable: "durable (rg_sys (take_local R d s)) = durable (rg_sys s)"
  by (auto simp: take_local_def on_sys_def dest: local_but_nodes split: prod.split)

lemma adopt_members_durable:
  assumes q: "quiet (re_env R) durable" shows "durable (rg_sys (adopt_members R s)) = durable (rg_sys s)"
proof -
  obtain r s1 where c: "reg_call R (\<lambda>wr. members wr (re_kube_server R) (kube_token (re_machine R) (re_kube_file R))) s = (r, s1)" by fastforce
  from reg_call_blind [OF q c] show ?thesis
    by (cases r) (simp_all add: adopt_members_def c take_members_durable on_sys_def Let_def blind_steps [OF blind_durable])
qed

lemma capacity_then_durable:
  assumes q: "quiet (re_env R) durable"
  shows "durable (rg_sys (case call_capacity R None e t s of (Inl _, s) \<Rightarrow> s | (Inr _, s) \<Rightarrow> take_local R None s)) = durable (rg_sys s)"
proof -
  obtain r s1 where c: "call_capacity R None e t s = (r, s1)" by fastforce
  from call_capacity_blind [OF q blind_durable c] show ?thesis by (cases r) (simp_all add: c take_local_durable)
qed

lemma adopt_local_durable:
  assumes q: "quiet (re_env R) durable" shows "durable (rg_sys (adopt_local R s)) = durable (rg_sys s)"
proof -
  obtain r s1 where c: "reg_call R (\<lambda>wr. discover R wr (new_engine (lc_engine_url (re_local R)) (local_token R))) s = (r, s1)" by fastforce
  from reg_call_blind [OF q c] show ?thesis
    by (cases r) (auto simp: adopt_local_def Let_def c capacity_then_durable [OF q] take_local_durable note_outcome_blind [OF blind_durable]
        split: option.split)
qed

lemma poll_node_durable:
  assumes q: "quiet (re_env R) durable" and "\<forall>w. \<not> re_leads R w"
  shows "durable (rg_sys (poll_node R t s)) = durable (rg_sys s)"
proof -
  obtain name url token where t: "t = (name, url, token)" by (metis prod_cases3)
  obtain r s1 where c: "call_capacity R (Some name) (new_engine url token) token s = (r, s1)" by fastforce
  from call_capacity_blind [OF q blind_durable c] show ?thesis
    by (auto simp: poll_node_def Let_def t c node_failed_def node_answered_def assms(2) refresh_io_blind [OF q blind_durable]
        refresh_inventory_blind [OF q blind_durable] blind_steps [OF blind_durable] split: option.split sum.split)
qed

lemma poll_pass_durable:
  assumes q: "quiet (re_env R) durable" and "\<forall>w. \<not> re_leads R w"
  shows "durable (rg_sys (poll_pass R s)) = durable (rg_sys s)"
proof -
  have "durable (rg_sys (foldl (\<lambda>s t. poll_node R t s) s ts)) = durable (rg_sys s)" for ts s
    by (induction ts arbitrary: s) (simp_all add: poll_node_durable [OF assms])
  then show ?thesis by (simp add: poll_pass_def Let_def adopt_members_durable [OF q] adopt_local_durable [OF q])
qed

lemma kube_refresh_durable:
  assumes q: "quiet (re_env R) durable" shows "durable (rg_sys (kube_refresh R s)) = durable (rg_sys s)"
proof (cases "re_kube_enabled R")
  case True
  obtain r s1 where c: "reg_call R (\<lambda>wr. fetch_claims wr (re_kube_server R) (kube_token (re_machine R) (re_kube_file R))) s = (r, s1)"
    by fastforce
  from reg_call_blind [OF q c] show ?thesis
    by (simp add: kube_refresh_def True c Let_def blind_steps [OF blind_durable] split: prod.split)
qed (simp add: kube_refresh_def)

lemma read_superblocks_quiet: "quiet env g \<Longrightarrow> read_superblocks env ls s = (r, s') \<Longrightarrow> g s' = g s"
proof (induction ls arbitrary: r s s')
  case (Cons l ls)
  obtain eng vid where l: "l = (eng, vid)" by fastforce
  obtain r1 s1 where c: "call env (\<lambda>wr. leg_superblock_of wr eng vid) s = (r1, s1)" by fastforce
  obtain r2 s2 where c2: "read_superblocks env ls s1 = (r2, s2)" by fastforce
  from Cons.IH [OF Cons.prems(1) c2] call_quiet_eq [OF Cons.prems(1) c] Cons.prems(2) show ?case by (simp add: l c c2 Let_def)
qed simp

lemma refresh_one_quiet:
  assumes q: "quiet env g" shows "g (snd (refresh_one env rs due)) = g (snd rs)"
proof -
  obtain rf s vol heng legs where d: "rs = (rf, s)" "due = (vol, heng, legs)" by (metis prod_cases3 prod.collapse)
  show ?thesis
    by (auto simp: refresh_one_def d Let_def dest!: call_quiet_eq [OF q] read_superblocks_quiet [OF q] split: option.splits prod.splits sum.splits)
qed

lemma refresh_durable: "quiet env durable \<Longrightarrow> durable (refresh env s) = durable s"
proof -
  assume q: "quiet env durable"
  have "durable (snd (foldl (refresh_one env) rs ds)) = durable (snd rs)" for rs ds
    by (induction ds arbitrary: rs) (simp_all add: refresh_one_quiet [OF q])
  from this [of "(_, s)"] show ?thesis by (simp add: refresh_def Let_def split_beta)
qed

text \<open>A poll of an instance that does not lead changes no record but the nodes it watches, and starts nothing, as long as no
  other task does meanwhile.\<close>

theorem follower_reads_only:
  assumes "quiet (re_env R) durable" and "\<forall>w. \<not> re_leads R w" and "poll_once R tx s = (ok, ts, s')"
  shows "ok \<and> ts = [] \<and> durable (rg_sys s') = durable (rg_sys s)"
proof -
  let ?s = "kube_refresh R (poll_pass R s)"
  have "durable (rg_sys (on_sys (refresh (env_of R ?s)) ?s)) = durable (rg_sys ?s)"
    using refresh_durable [of "env_of R ?s"] assms(1) by (simp add: on_sys_def)
  with assms poll_pass_durable [OF assms(1,2), of s] kube_refresh_durable [OF assms(1), of "poll_pass R s"] show ?thesis
    by (auto simp: poll_once_def Let_def on_sys_def forget_inventories_def)
qed

subsection \<open>An automatic re-head\<close>

lemma postpone_epochs [simp]: "epoch_of (postpone env t name s) = epoch_of s"
  by (rule epoch_of_modify [where n = name and f = "\<lambda>v. v\<lparr>v_next_assemble_after := Some (t + cooldown env)\<rparr>"])
    (simp_all add: postpone_def)

lemma event_epochs [simp]: "epoch_of (note_event env k sev n s) = epoch_of s"
  by (rule epoch_of_volumes) simp

lemma noted_epochs [simp]: "epoch_of (s\<lparr>sy_noted := x\<rparr>) = epoch_of s"
  by (rule epoch_of_volumes) simp

text \<open>One volume re-headed: its fence was refused, or it is one epoch on, fenced or promoted.\<close>

lemma rehead_one_epochs:
  assumes q: "quiet env volumes_of" and nm: "volumes_named s"
  shows "epoch_of (rehead_one env t s (n, target, e)) = epoch_of s \<or>
    (\<exists>f f'. epoch_of s n = Some (n, e, f) \<and> epoch_of (rehead_one env t s (n, target, e)) = (epoch_of s)(n \<mapsto> (n, e + 1, f')))"
proof -
  let ?s1 = "asm_event env Warning n (s\<lparr>sy_noted := removeAll (held_key n) (sy_noted s)\<rparr>)"
  have same: "epoch_of ?s1 = epoch_of s" by simp
  obtain r s2 where f: "fence env n e ?s1 = (r, s2)" by fastforce
  show ?thesis
  proof (cases r)
    case (Inl x)
    with f fence_refused have "s2 = ?s1" by blast
    with f Inl same show ?thesis by (simp add: rehead_one_def)
  next
    case (Inr rep)
    from fence_epochs [OF q f [unfolded Inr]] obtain nm' fl where
      fl: "epoch_of s n = Some (nm', e, fl)" "fr_epoch rep = e + 1" "epoch_of s2 = (epoch_of s)(n \<mapsto> (nm', e + 1, True))"
      unfolding same by blast
    have n: "nm' = n" using fl(1) nm unfolding named_epoch by fastforce
    have nm2: "volumes_named s2" using nm fl(3) n by (simp add: named_epoch)
    obtain r2 s3 where p: "promote env n target (e + 1) s2 = (r2, s3)" by fastforce
    from promote_epochs [OF q p nm2] fl n show ?thesis
      by (cases r2) (auto simp: rehead_one_def f Inr p)
  qed
qed

lemma rehead_all_epochs:
  assumes q: "quiet env volumes_of"
  shows "volumes_named s \<Longrightarrow> distinct (map fst due) \<Longrightarrow>
    epoch_of (foldl (rehead_one env t) s due) m = epoch_of s m \<or>
    (\<exists>target e f f'. (m, target, e) \<in> set due \<and> epoch_of s m = Some (m, e, f) \<and>
       epoch_of (foldl (rehead_one env t) s due) m = Some (m, e + 1, f'))"
proof (induction due arbitrary: s)
  case (Cons d due)
  obtain n target e where d: "d = (n, target, e)" by (metis prod_cases3)
  let ?s1 = "rehead_one env t s (n, target, e)"
  note one = rehead_one_epochs [OF q Cons.prems(1), of t n target e]
  have nm1: "volumes_named ?s1" using one Cons.prems(1) by (auto simp: named_epoch split: if_splits)
  have dist: "distinct (map fst due)" and fresh: "(n, x, y) \<notin> set due" for x y using Cons.prems(2) d by force+
  from Cons.IH [OF nm1 dist] one fresh show ?case
    by (cases "m = n") (auto simp: d)
qed simp

lemma rehead_names_distinct:
  assumes "volumes_ok fed" shows "distinct (map fst (rh_start (rehead_plan fed readings interval lost busyf t)))"
proof -
  let ?step = "\<lambda>pl v. if rehead_due fed interval lost busyf t v then
         (case rehead_target fed readings v of
            Some n \<Rightarrow> pl\<lparr>rh_start := rh_start pl @ [(v_name v, n, v_epoch v)]\<rparr>
          | None \<Rightarrow> pl\<lparr>rh_held := rh_held pl @ [v_name v]\<rparr>) else pl"
  have "set (map fst (rh_start (foldl ?step \<lparr>rh_start = [], rh_held = []\<rparr> vs))) \<subseteq> set (map v_name vs) \<and>
      (distinct (map v_name vs) \<longrightarrow> distinct (map fst (rh_start (foldl ?step \<lparr>rh_start = [], rh_held = []\<rparr> vs))))" for vs
    by (induction vs rule: rev_induct) (auto split: option.split)
  moreover have "distinct (map v_name (bt_values (f_volumes fed)))"
    using assms bt_ok_distinct unfolding volumes_ok_names [OF assms] by (auto simp only: volumes_ok_def)
  ultimately show ?thesis unfolding rehead_plan_def by blast
qed

text \<open>A pass over the lost heads raises the epoch of a volume at most once, and only of one its plan starts, from the epoch it
  was planned at; every other volume keeps its epoch and its fence.\<close>

theorem rehead_once:
  assumes "quiet env volumes_of" and "volumes_ok (sy_fed s)"
  shows "epoch_of (rehead_lost env t s) m = epoch_of s m \<or>
    (\<exists>target e f f'. (m, target, e) \<in> set (rh_start (rehead_planned env t s)) \<and> epoch_of s m = Some (m, e, f) \<and>
       epoch_of (rehead_lost env t s) m = Some (m, e + 1, f'))"
proof -
  let ?s = "foldl (note_held env) s (rh_held (rehead_planned env t s))"
  have same: "epoch_of (foldl (note_held env) s xs) = epoch_of s" for xs s
    by (induction xs arbitrary: s) (simp_all add: note_held_def)
  have "volumes_named s"
    using assms(2) bt_value_iff by (fastforce simp: volumes_named_def volumes_ok_def)
  then have nm: "volumes_named ?s" by (simp add: named_epoch same)
  have "distinct (map fst (rh_start (rehead_planned env t s)))"
    unfolding rehead_planned_def by (rule rehead_names_distinct [OF assms(2)])
  from rehead_all_epochs [OF assms(1) nm this, of t m] show ?thesis by (simp add: rehead_lost_def Let_def same)
qed

end
