(* ===== verification/Spec2Isabelle.thy ===== *)
theory Spec2Isabelle
  imports Placement Refusal Store Migrate VmLife Credentials Expand Registry Reconcile
begin

text \<open>
  \<^bold>\<open>stormstorage: a verification library.\<close>

  \<^bold>\<open>The program.\<close> stormstorage is the storage control plane over a fleet of nodes, each of which runs one engine. It never
  touches data: it keeps records of nodes, volumes, their legs (the copies of a mirrored volume, one engine volume per
  node), snapshots, backups and migrations, and calls the engines' management APIs. Requests come over HTTP
  (\<open>src/src/api/\<close>); a loop polls the engines and, on the instance that leads, reconciles: it marks lost legs, starts
  replacements, brings heads back or moves them, migrates, rebalances, backs up and cleans up. The head of a mirrored volume is
  the node that runs its array and serves it. Instances share their records through etcd (\<open>src/src/store.rs\<close>) or by
  pushing them to peers (\<open>src/src/replicate.rs\<close>).

  \<^bold>\<open>How it is modelled.\<close> Data are records and datatypes with the source's fields and constructors, \<open>BTreeMap\<close>s are
  association lists in key order (\<open>btree\<close> of \<open>Prelude\<close>), machine integers are words, so a sum wraps as it does in a
  release build, and \<open>Result\<close> is a sum with \<open>Inl\<close> for the error. A handler is a function on the shared state \<open>sys\<close> of
  \<open>System\<close> (\<open>AppState\<close>), one definition per function of the source, split where a closure or a loop body needs a name.
  Each engine call is one step, \<open>call\<close>: it runs the client of \<open>Engine\<close> over the wire and then lets the other tasks of
  the instance change the state (\<open>en_others\<close>), because every \<open>await\<close> of the source does. What happens under one lock is
  one step. Events keep kind, severity and subject; their texts are left out, as are those of most errors.

  \<^bold>\<open>What stands for code outside the repository.\<close>
  \<^item> \<open>wire\<close> (\<open>Engine\<close>) sends a request and answers it, for the engines, the apiserver and the gateway of etcd; TLS and
    time-outs are its own. Nothing is assumed of it but where a property says so: \<open>cas_engine\<close> and \<open>opens_drive\<close> (\<open>Engine\<close>) state the
    documented contract of a leg's epoch and of open drives, \<open>etcd_txns\<close> (\<open>Store\<close>) that a transaction of etcd is atomic and an
    answered one took effect.
  \<^item> \<open>env\<close> (\<open>System\<close>) holds the configuration a handler reads, the clock, what saving and pushing do to the world, and
    \<open>en_others\<close>. \<open>quiet env g\<close> says that no other task changes the part \<open>g\<close> of the state during a call; each property
    names the part it needs, and the findings show what happens without it. \<open>rely\<close> and \<open>held\<close> (\<open>VmLife\<close>) are the
    weaker contract of tasks that respect claims. \<open>clock_runs\<close> and \<open>never_grows\<close> (\<open>Replace\<close>) are what a wait needs to end.
  \<^item> \<open>machine\<close> (\<open>Credentials\<close>) is the environment, the readable files and the addresses of this machine; \<open>reg_env\<close>
    (\<open>Registry\<close>) adds the settings of a poll, the hash of a token, and serde's reading of a slab and of a discovery.
    How errors and notes print is a parameter (\<open>show\<close>, \<open>texts\<close>) where the text is stored.

  \<^bold>\<open>The theories\<close>, in the order of their imports:
  \<^item> \<open>Prelude\<close>: integers, time, strings, options, ordered maps; the locale \<open>ordered_map\<close> states the laws of a map the
    components use, and is interpreted on \<open>btree\<close>.
  \<^item> \<open>Config\<close> (\<open>config.rs\<close>): node, pool and recovery settings, selectors, labels, the checks on legs. \<open>Model\<close> (\<open>model.rs\<close>):
    the records of the state. \<open>Json\<close>: the values engines answer with and their accessors.
  \<^item> \<open>Inventory\<close> (\<open>inventory.rs\<close>): on which slabs a volume lies and the totals per tier. Lemmas: the order of the sources (C40),
    every slab summed once, every volume counted once per tier.
  \<^item> \<open>Placement\<close> (\<open>placement.rs\<close>): failure domains, scores, the plan. Lemmas: a plan has the number asked for, room and
    distinct domains (C4), prefers better scores, and does not depend on the order of the candidates.
  \<^item> \<open>Events\<close> (\<open>events.rs\<close>): the bounded ring, refined to the list of all events ever. \<open>Refusal\<close> (\<open>refusal.rs\<close>): the back-off
    of an engine that refuses a token.
  \<^item> \<open>Engine\<close> (\<open>engine.rs\<close>): requests, typed errors and every management call. Lemmas: a leg is fenced by a bounded
    compare-and-swap (C9), what a retry with the node's token does.
  \<^item> \<open>Sync\<close> (pure half of \<open>head.rs\<close>): what arrays and superblocks say of the copies (C5), replicas and health.
  \<^item> \<open>Replicate\<close> (\<open>replicate.rs\<close>): payloads between peers and their convergence (C8).
  \<^item> \<open>Base64\<close>, \<open>Store\<close> (\<open>store.rs\<close>): encodings (the locale \<open>codec\<close>, interpreted on base64 and on the numbers of the
    gateway), records and their differences, guarded writes, loading, election, following. Lemmas: round trips (C12), a
    successful write leaves the store as the memory (C11), a deposed leader changes nothing (C10), leases (C13, C14).
  \<^item> \<open>System\<close> (\<open>AppState\<close>, \<open>orchestrate.rs\<close>): state, claims, calls, saving. \<open>Ops\<close>: handlers as operations with \<open>?\<close>.
  \<^item> \<open>Export\<close> (\<open>orchestrate.rs\<close>): where a volume is served, publishing, per-host serving, revoking (C6, C7).
  \<^item> \<open>Head\<close> (\<open>head.rs\<close>): fencing, promoting, reassembling, windows, rates, former heads (C1, C2). \<open>Epochs\<close>: the
    specification of epochs as a counter with a token, and that any run of these requests refines it (C3).
  \<^item> \<open>Recover\<close>, \<open>Assemble\<close>, \<open>Replace\<close> (\<open>orchestrate.rs\<close>): what the reconciler decides (C21), building a mirror (C20), replacing
    a leg and waiting for its rebuild (C15 to C17).
  \<^item> \<open>Rebalance\<close>, \<open>Migrate\<close> (\<open>rebalance.rs\<close>, \<open>migrate.rs\<close>): moves within a pool's limits (C22) and to another pool (C23).
  \<^item> \<open>VmMigrate\<close>, \<open>VmLife\<close> (\<open>vmmigrate.rs\<close>, \<open>api/vmmigrations.rs\<close>): live migration of a node volume; its life cycle under
    interference (C25) and the exact cutover (C24).
  \<^item> \<open>Snapshots\<close>, \<open>Backup\<close>, \<open>Volumes\<close>, \<open>Expand\<close> (\<open>api/snapshots.rs\<close>, \<open>backup.rs\<close>, \<open>api/backups.rs\<close>, \<open>api/mod.rs\<close>,
    \<open>expand.rs\<close>): the requests on volumes. Lemmas: creates and deletes (C26, C28), the invariant of the records over runs
    of requests (C27), expanding (C29, C30), backup points and pruning (C31 to C33).
  \<^item> \<open>Credentials\<close> (\<open>config.rs\<close>, \<open>api/mod.rs\<close>, \<open>api/auth.rs\<close>): which engine sees which token (C18), which requests need one (C19).
  \<^item> \<open>Kube\<close> (\<open>kube.rs\<close>), \<open>Registry\<close> (\<open>registry.rs\<close>): claims, members and Endpoints (C39), adopting nodes and polling
    them (C34 to C38). The locale \<open>adopter\<close> states that adopting leaves the nodes of other sources alone; it is
    interpreted on the adoption of members and on that of the local engine.
  \<^item> \<open>Reconcile\<close> (\<open>orchestrate.rs\<close>, \<open>registry.rs\<close>): a pass of the reconciler and a poll, composed of all the above. Lemmas: an
    instance that does not lead changes no record but the nodes, and an automatic re-head raises an epoch at most once.

  \<^bold>\<open>Loops and bounds.\<close> Loops over collections are folds or structural recursions. The wait for a rebuild may run for ever
  and is a \<open>partial_function\<close> into \<open>option\<close>; C17 proves that it returns. The source's own bounds are kept as they are: two
  tries at a leg's epoch, 64 ancestors of a volume, the capacity of the event ring, the size of a transaction. No other
  fuel is used.

  \<^bold>\<open>Not modelled\<close>: HTTP routing, request parsing and the JSON views of answers (presentation); the components feed and the
  embedded UI; loading and saving the state file; start-up, TLS set-up and reading the configuration file; the text of the
  engines' metrics; the texts of events. Floating point is exact (rationals), and identifiers made up from clock and
  counter are parameters. What the repository gets wrong, as far as the model shows it, is stated by lemmas whose names
  say so (\<open>promote_overwrites_fence\<close>, \<open>publish_takes_revoke_back\<close>, \<open>create_overwrites\<close>, \<open>snapshot_outlives_volume\<close>,
  \<open>assemble_resurrects\<close>, \<open>sync_lost_answer\<close> and others).
\<close>

end
